(* ===== verification/Prelude.thy ===== *)
theory Prelude
  imports Main "HOL-Library.Word"
begin

text \<open>
  Shared vocabulary of the development: bytes and machine words, little-endian
  fields, the hook collections for automation, and the generic facts on lists
  and chunked processing that several components use.

  A \<open>std::vector<uint8_t>\<close> (or a pointer and a length) is a list of 8-bit
  words; a \<open>std::string\<close> is a list of characters; \<open>uint16_t\<close>, \<open>uint32_t\<close> and
  \<open>uint64_t\<close> are words of that width.  An output parameter guarded by a boolean
  result becomes an option; the null-pointer guards on such parameters have no
  counterpart because a returned value cannot be absent.
\<close>

unbundle bit_operations_syntax

type_synonym byte = "8 word"
type_synonym bytes = "8 word list"
type_synonym u16 = "16 word"
type_synonym u32 = "32 word"
type_synonym u64 = "64 word"

named_theorems wire_simps "unfolding rules of the byte codecs"
named_theorems const_defs "the source's named constants"

section \<open>Little-endian fields\<close>

definition put16 :: "u16 \<Rightarrow> bytes" where
  "put16 v = [ucast (v AND 0xff), ucast (drop_bit 8 v)]"

definition get16 :: "byte \<Rightarrow> byte \<Rightarrow> u16" where
  "get16 b0 b1 = ucast b0 OR push_bit 8 (ucast b1)"

text \<open>\<open>get16(p.data() + i)\<close>: the callers below have checked the bound.\<close>

definition get16_at :: "bytes \<Rightarrow> nat \<Rightarrow> u16" where
  "get16_at p i = get16 (p ! i) (p ! Suc i)"

definition put_u32 :: "u32 \<Rightarrow> bytes" where
  "put_u32 v = [ucast (v AND 0xff), ucast (drop_bit 8 v AND 0xff),
                ucast (drop_bit 16 v AND 0xff), ucast (drop_bit 24 v AND 0xff)]"

definition get32 :: "byte \<Rightarrow> byte \<Rightarrow> byte \<Rightarrow> byte \<Rightarrow> u32" where
  "get32 b0 b1 b2 b3 =
     ucast b0 OR push_bit 8 (ucast b1) OR push_bit 16 (ucast b2) OR push_bit 24 (ucast b3)"

lemma length_put16 [simp]: "length (put16 v) = 2"
  by (simp add: put16_def)

lemma length_put_u32 [simp]: "length (put_u32 v) = 4"
  by (simp add: put_u32_def)

lemma word_and_255: "(v::'a::len word) AND 255 = take_bit 8 v"
  by (simp add: take_bit_eq_mask mask_eq_exp_minus_1)

lemma get16_of_put16: "get16 (ucast (v AND 255)) (ucast (drop_bit 8 v)) = v"
  unfolding get16_def word_and_255
  by (rule bit_word_eqI) (auto simp: bit_simps)

lemma put16_of_get16: "put16 (get16 a b) = [a, b]"
proof -
  have "ucast (get16 a b AND 255) = a"
    unfolding get16_def word_and_255
    by (rule bit_word_eqI) (auto simp: bit_simps)
  moreover have "ucast (drop_bit 8 (get16 a b)) = b"
    unfolding get16_def
    by (rule bit_word_eqI) (auto simp: bit_simps dest: bit_imp_le_length)
  ultimately show ?thesis by (simp add: put16_def)
qed

lemma get16_at_put16 [simp]: "get16_at (put16 v @ rest) 0 = v"
  by (simp add: get16_at_def put16_def get16_of_put16)

lemma put_u32_0: "put_u32 0 = [0, 0, 0, 0]"
  by (simp add: put_u32_def)

lemma get32_of_put_u32:
  "get32 (ucast (v AND 255)) (ucast (drop_bit 8 v AND 255)) (ucast (drop_bit 16 v AND 255))
     (ucast (drop_bit 24 v AND 255)) = v"
proof (rule bit_word_eqI)
  fix n
  assume n: "n < LENGTH(32)"
  consider "n < 8" | "8 \<le> n \<and> n < 16" | "16 \<le> n \<and> n < 24" | "24 \<le> n" by linarith
  then show "bit (get32 (ucast (v AND 255)) (ucast (drop_bit 8 v AND 255))
      (ucast (drop_bit 16 v AND 255)) (ucast (drop_bit 24 v AND 255))) n = bit v n"
    using n unfolding get32_def word_and_255 by cases (auto simp: bit_simps)
qed

lemma byte_cases: "(\<forall>i \<in> set [0..<256]. P (word_of_nat i :: byte)) \<Longrightarrow> P b"
proof -
  assume all: "\<forall>i \<in> set [0..<256]. P (word_of_nat i :: byte)"
  have "unat b < 256" using unsigned_less[of b, where ?'a = nat] by simp
  with bspec[OF all, of "unat b"] show "P b" by simp
qed

section \<open>Blocks of a fixed width\<close>

function blocks :: "nat \<Rightarrow> 'a list \<Rightarrow> 'a list list" where
  "blocks w xs = (if w = 0 \<or> length xs < w then [] else take w xs # blocks w (drop w xs))"
  by pat_completeness auto
termination
  by (relation "measure (\<lambda>(w, xs). length xs)") auto

declare blocks.simps [simp del]

lemma blocks_concat:
  "0 < w \<Longrightarrow> \<forall>b \<in> set bs. length b = w \<Longrightarrow> length rest < w \<Longrightarrow> blocks w (concat bs @ rest) = bs"
  by (induction bs) (simp_all add: blocks.simps[of w])

fun collect :: "('a \<Rightarrow> 'b option) \<Rightarrow> 'a list \<Rightarrow> 'b list \<Rightarrow> bool \<times> 'b list" where
  "collect f [] out = (True, out)"
| "collect f (x # xs) out =
     (case f x of None \<Rightarrow> (False, out) | Some y \<Rightarrow> collect f xs (out @ [y]))"

lemma collect_all:
  "\<forall>x \<in> set xs. f x = Some (h x) \<Longrightarrow> collect f xs out = (True, out @ map h xs)"
  by (induction xs arbitrary: out) auto

end
