(* ===== verification/Escape.thy ===== *)
theory Escape
  imports Prelude
begin

text \<open>
  Percent escaping (\<open>src/escape.cc\<close>): the bottom layer of both line protocols.
  Characters are bytes; \<open>code c\<close> is the \<open>unsigned char\<close> value.
\<close>

abbreviation code :: "char \<Rightarrow> nat" where
  "code c \<equiv> of_char c"

definition kHexDigits :: string where
  "kHexDigits = ''0123456789ABCDEF''"

definition hex_value :: "char \<Rightarrow> int" where
  "hex_value c =
     (if code CHR ''0'' \<le> code c \<and> code c \<le> code CHR ''9'' then int (code c) - int (code CHR ''0'')
      else if code CHR ''a'' \<le> code c \<and> code c \<le> code CHR ''f'' then int (code c) - int (code CHR ''a'') + 10
      else if code CHR ''A'' \<le> code c \<and> code c \<le> code CHR ''F'' then int (code c) - int (code CHR ''A'') + 10
      else -1)"

definition safe_char :: "char \<Rightarrow> bool" where
  "safe_char c \<longleftrightarrow>
     0x20 < code c \<and> code c < 0x7f \<and> c \<noteq> CHR ''%'' \<and> c \<noteq> CHR ''=''"

definition escape_char :: "char \<Rightarrow> string" where
  "escape_char c =
     (if safe_char c then [c]
      else [CHR ''%'', kHexDigits ! (code c div 16), kHexDigits ! (code c mod 16)])"

definition escape :: "string \<Rightarrow> string" where
  "escape s = (let out = concat (map escape_char s) in if out = [] then ''%00'' else out)"

fun unescape :: "string \<Rightarrow> string" where
  "unescape [] = []"
| "unescape (c # h # l # rest) =
     (if c = CHR ''%'' \<and> 0 \<le> hex_value h \<and> 0 \<le> hex_value l then
        (let ch = char_of (nat (16 * hex_value h + hex_value l)) in
         (if ch \<noteq> CHR 0x00 then [ch] else []) @ unescape rest)
      else c # unescape (h # l # rest))"
| "unescape (c # s) = c # unescape s"

subsection \<open>The round trip\<close>

lemma code_less [simp]: "code c < 256"
  by (metis of_char_of mod_less_divisor of_nat_of_char of_char_mod_256 zero_less_numeral)

lemma hex_value_digit: "n < 16 \<Longrightarrow> hex_value (kHexDigits ! n) = int n"
proof -
  assume "n < 16"
  then have "n \<in> set [0..<16]" by simp
  moreover have "\<forall>n \<in> set [0..<16]. hex_value (kHexDigits ! n) = int n" by code_simp
  ultimately show ?thesis by blast
qed

lemma unescape_plain: "c \<noteq> CHR ''%'' \<Longrightarrow> unescape (c # s) = c # unescape s"
  by (cases "c # s" rule: unescape.cases) auto

lemma unescape_escape_char:
  "unescape (escape_char c @ s) = (if c = CHR 0x00 then [] else [c]) @ unescape s"
proof (cases "safe_char c")
  case True
  then have "c \<noteq> CHR ''%''" and "c \<noteq> CHR 0x00" by (auto simp: safe_char_def)
  with True show ?thesis by (simp add: escape_char_def unescape_plain)
next
  case False
  have "code c div 16 < 16" and "code c mod 16 < 16"
    using code_less[of c] by (auto simp: less_mult_imp_div_less)
  then show ?thesis using False
    by (simp add: escape_char_def hex_value_digit nat_add_distrib nat_mult_distrib Let_def)
qed

lemma unescape_concat_escape:
  "unescape (concat (map escape_char s)) = filter (\<lambda>c. c \<noteq> CHR 0x00) s"
  by (induction s) (auto simp: unescape_escape_char)

lemma unescape_escape: "unescape (escape s) = filter (\<lambda>c. c \<noteq> CHR 0x00) s"
proof (cases "concat (map escape_char s) = []")
  case True
  then have "s = []" by (cases s) (auto simp: escape_char_def split: if_splits)
  then show ?thesis by (simp add: escape_def hex_value_def Let_def char_of_eq_iff)
next
  case False
  then have "escape s = concat (map escape_char s)" by (simp only: escape_def Let_def if_False)
  then show ?thesis by (simp only: unescape_concat_escape)
qed

subsection \<open>What escaped text can contain\<close>

lemma kHexDigits_safe: "n < 16 \<Longrightarrow> safe_char (kHexDigits ! n)"
proof -
  assume "n < 16"
  then have "n \<in> set [0..<16]" by simp
  moreover have "\<forall>n \<in> set [0..<16]. safe_char (kHexDigits ! n)" by code_simp
  ultimately show ?thesis by blast
qed

lemma set_escape_char: "d \<in> set (escape_char c) \<Longrightarrow> safe_char d \<or> d = CHR ''%''"
proof -
  assume "d \<in> set (escape_char c)"
  moreover have "code c div 16 < 16" and "code c mod 16 < 16"
    using code_less[of c] by (auto simp: less_mult_imp_div_less)
  ultimately show ?thesis
    by (auto simp: escape_char_def kHexDigits_safe split: if_splits)
qed

lemma set_escape: "d \<in> set (escape s) \<Longrightarrow> safe_char d \<or> d = CHR ''%''"
  by (auto simp: escape_def Let_def dest: set_escape_char split: if_splits)
     (auto simp: safe_char_def)

lemma escape_ne [simp]: "escape s \<noteq> []"
  by (simp add: escape_def Let_def)

text \<open>No byte of an escaped value is a separator of the line formats.\<close>

lemma escape_no_separator:
  "d \<in> set (escape s) \<Longrightarrow> 0x20 < code d \<and> code d < 0x7f \<and> d \<noteq> CHR ''=''"
  by (drule set_escape) (auto simp: safe_char_def)

end
