(* ===== verification/Framing.thy ===== *)
theory Framing
  imports Prelude
begin

text \<open>
  The interfaces the wire components share, as locales.

  \<open>codec\<close> is an encoder and a decoder that recovers every well-formed value;
  \<open>framed_codec\<close> additionally decodes the value in front of anything that follows it.
  \<open>incremental\<close> is a stateful reader whose answer does not depend on how its
  input was cut into reads: the contract all transports of the program rely on,
  because a serial port, a socket and a GATT write each deliver bytes in pieces
  of their own choosing.  Every instance on the model's own operations is an
  \<open>interpretation\<close> in the theory that defines them.
\<close>

section \<open>Encoders and decoders\<close>

locale codec =
  fixes enc :: "'a \<Rightarrow> 'w"
    and dec :: "'w \<Rightarrow> 'a option"
    and ok :: "'a \<Rightarrow> bool"
  assumes dec_enc: "ok x \<Longrightarrow> dec (enc x) = Some x"
begin

lemma enc_inj: "ok x \<Longrightarrow> ok y \<Longrightarrow> enc x = enc y \<Longrightarrow> x = y"
  by (metis dec_enc option.inject)

lemma inj_on_enc: "inj_on enc {x. ok x}"
  by (rule inj_onI) (auto dest: enc_inj)

end

text \<open>A decoder that reads a value off the front of a byte list and ignores the rest.\<close>

locale framed_codec =
  fixes fenc :: "'a \<Rightarrow> 'b list"
    and fdec :: "'b list \<Rightarrow> 'a option"
    and fok :: "'a \<Rightarrow> bool"
  assumes fdec_fenc: "fok x \<Longrightarrow> fdec (fenc x @ rest) = Some x"

sublocale framed_codec \<subseteq> plain: codec fenc fdec fok
  by unfold_locales (metis append_Nil2 fdec_fenc)

context framed_codec begin

text \<open>No encoding is a proper prefix of another one: the format is self-delimiting.\<close>

lemma prefix_free: "fok x \<Longrightarrow> fok y \<Longrightarrow> fenc x = fenc y @ rest \<Longrightarrow> x = y"
  by (metis append_Nil2 fdec_fenc option.inject)

end

section \<open>Readers fed in pieces\<close>

text \<open>Feeding a list of reads one after another, collecting what each delivers.\<close>

fun feed_chunks :: "('s \<Rightarrow> 'b list \<Rightarrow> 's \<times> 'o list) \<Rightarrow> 's \<Rightarrow> 'b list list \<Rightarrow> 's \<times> 'o list" where
  "feed_chunks step s [] = (s, [])"
| "feed_chunks step s (c # cs) =
     (let (s', out) = step s c; (s'', out') = feed_chunks step s' cs in (s'', out @ out'))"

locale incremental =
  fixes step :: "'s \<Rightarrow> 'b list \<Rightarrow> 's \<times> 'o list"
    and good :: "'s \<Rightarrow> bool"
  assumes step_nil: "good s \<Longrightarrow> step s [] = (s, [])"
    and step_good: "good s \<Longrightarrow> good (fst (step s xs))"
    and step_append: "good s \<Longrightarrow>
      step s (xs @ ys) =
        (let (s', out) = step s xs; (s'', out') = step s' ys in (s'', out @ out'))"
begin

lemma feed_good: "good s \<Longrightarrow> good (fst (feed_chunks step s cs))"
proof (induction cs arbitrary: s)
  case (Cons c cs)
  from Cons.IH[OF step_good[OF Cons.prems, of c]] show ?case
    by (simp add: case_prod_beta Let_def)
qed simp

lemma feed_concat: "good s \<Longrightarrow> feed_chunks step s cs = step s (concat cs)"
proof (induction cs arbitrary: s)
  case Nil
  then show ?case by (simp add: step_nil)
next
  case (Cons c cs)
  obtain s' out where c: "step s c = (s', out)" by fastforce
  with Cons.prems step_good[of s c] have "good s'" by simp
  from Cons.IH[OF this] show ?case
    using Cons.prems by (simp add: c step_append)
qed

text \<open>However the input is cut up, the reader delivers the same things.\<close>

lemma chunking_irrelevant:
  "good s \<Longrightarrow> concat cs = concat ds \<Longrightarrow> feed_chunks step s cs = feed_chunks step s ds"
  by (simp add: feed_concat)

lemma feed_singletons: "good s \<Longrightarrow> feed_chunks step s (map (\<lambda>x. [x]) xs) = step s xs"
  by (simp add: feed_concat)

end

text \<open>
  A reader given by what it does with one element: every such reader is
  incremental, with no invariant needed.
\<close>

fun step_all :: "('s \<Rightarrow> 'b \<Rightarrow> 's \<times> 'o list) \<Rightarrow> 's \<Rightarrow> 'b list \<Rightarrow> 's \<times> 'o list" where
  "step_all f s [] = (s, [])"
| "step_all f s (x # xs) =
     (let (s', out) = f s x; (s'', out') = step_all f s' xs in (s'', out @ out'))"

lemma step_all_append:
  "step_all f s (xs @ ys) =
     (let (s', out) = step_all f s xs; (s'', out') = step_all f s' ys in (s'', out @ out'))"
  by (induction xs arbitrary: s) (auto split: prod.splits)

lemma step_all_invariant:
  assumes "\<And>s x. P s \<Longrightarrow> P (fst (f s x))" and "P s"
  shows "P (fst (step_all f s xs))"
  using assms(2)
proof (induction xs arbitrary: s)
  case (Cons x xs)
  from assms(1)[OF Cons.prems, of x] have "P (fst (f s x))" .
  from Cons.IH[OF this] show ?case by (simp add: case_prod_beta Let_def)
qed simp

end
