(* ===== verification/Hci.thy ===== *)
theory Hci
  imports Complex_Main Escape Framing "HOL-Library.List_Lexorder"
begin

text \<open>
  The Host Controller Interface codec (\<open>src/hci.h\<close>, \<open>src/hci.cc\<close>): addresses,
  UUIDs, commands, the H4 packet stream, events and ACL framing.  Everything is
  little-endian on the wire.  A \<open>double\<close> in milliseconds is a real number; the
  \<open>*_name\<close> functions are tables with the hexadecimal fallback the code prints.
\<close>

section \<open>Hexadecimal\<close>

definition hex_lower :: string where
  "hex_lower = ''0123456789abcdef''"

definition hex2 :: "byte \<Rightarrow> string" where
  "hex2 b = [hex_lower ! unat (drop_bit 4 b), hex_lower ! unat (b AND 0x0f)]"

definition hex2_upper :: "byte \<Rightarrow> string" where
  "hex2_upper b = [kHexDigits ! unat (drop_bit 4 b), kHexDigits ! unat (b AND 0x0f)]"

definition hex4 :: "u16 \<Rightarrow> string" where
  "hex4 v = hex2 (ucast (drop_bit 8 v)) @ hex2 (ucast v)"

definition hex4_upper :: "u16 \<Rightarrow> string" where
  "hex4_upper v = hex2_upper (ucast (drop_bit 8 v)) @ hex2_upper (ucast v)"

definition hci_to_hex :: "bytes \<Rightarrow> string" where
  "hci_to_hex data = concat (map hex2 data)"

definition hex_val :: "char \<Rightarrow> int" where
  "hex_val c =
     (if code CHR ''0'' \<le> code c \<and> code c \<le> code CHR ''9'' then int (code c) - int (code CHR ''0'')
      else if code CHR ''a'' \<le> code c \<and> code c \<le> code CHR ''f'' then int (code c) - int (code CHR ''a'') + 10
      else if code CHR ''A'' \<le> code c \<and> code c \<le> code CHR ''F'' then int (code c) - int (code CHR ''A'') + 10
      else -1)"

section \<open>Packet types, opcodes, events, statuses\<close>

definition kPacketCommand :: byte where [const_defs]: "kPacketCommand = 0x01"
definition kPacketAclData :: byte where [const_defs]: "kPacketAclData = 0x02"
definition kPacketScoData :: byte where [const_defs]: "kPacketScoData = 0x03"
definition kPacketEvent :: byte where [const_defs]: "kPacketEvent = 0x04"
definition kPacketIsoData :: byte where [const_defs]: "kPacketIsoData = 0x05"

definition kEvtDisconnectionComplete :: byte where [const_defs]: "kEvtDisconnectionComplete = 0x05"
definition kEvtEncryptionChange :: byte where [const_defs]: "kEvtEncryptionChange = 0x08"
definition kEvtCommandComplete :: byte where [const_defs]: "kEvtCommandComplete = 0x0e"
definition kEvtCommandStatus :: byte where [const_defs]: "kEvtCommandStatus = 0x0f"
definition kEvtHardwareError :: byte where [const_defs]: "kEvtHardwareError = 0x10"
definition kEvtNumCompletedPackets :: byte where [const_defs]: "kEvtNumCompletedPackets = 0x13"
definition kEvtEncryptionKeyRefresh :: byte where [const_defs]: "kEvtEncryptionKeyRefresh = 0x30"
definition kEvtLeMeta :: byte where [const_defs]: "kEvtLeMeta = 0x3e"

definition kLeConnectionComplete :: byte where [const_defs]: "kLeConnectionComplete = 0x01"
definition kLeAdvertisingReport :: byte where [const_defs]: "kLeAdvertisingReport = 0x02"
definition kLeLongTermKeyRequest :: byte where [const_defs]: "kLeLongTermKeyRequest = 0x05"
definition kLeEnhancedConnectionComplete :: byte where [const_defs]: "kLeEnhancedConnectionComplete = 0x0a"

definition status_table :: "(byte \<times> string) list" where
  "status_table =
    [(0x00, ''success''), (0x02, ''unknown connection identifier''),
     (0x05, ''authentication failure''), (0x06, ''PIN or key missing''),
     (0x07, ''memory capacity exceeded''), (0x08, ''connection timeout''),
     (0x0c, ''command disallowed''), (0x13, ''remote user terminated the connection''),
     (0x16, ''local host terminated the connection''),
     (0x11, ''unsupported feature or parameter''), (0x12, ''invalid HCI command parameters''),
     (0x1f, ''unspecified error''), (0x20, ''unsupported LMP parameter''),
     (0x28, ''instant passed''), (0x3a, ''controller busy''),
     (0x3e, ''connection failed to establish'')]"

definition status_name :: "byte \<Rightarrow> string" where
  "status_name s = (case map_of status_table s of Some n \<Rightarrow> n | None \<Rightarrow> ''status 0x'' @ hex2 s)"

definition opcode_table :: "(u16 \<times> string) list" where
  "opcode_table =
    [(0x0406, ''Disconnect''), (0x0c03, ''Reset''), (0x0c01, ''Set Event Mask''),
     (0x1001, ''Read Local Version''), (0x1002, ''Read Local Supported Commands''),
     (0x1009, ''Read BD_ADDR''), (0x2001, ''LE Set Event Mask''),
     (0x2002, ''LE Read Buffer Size''), (0x2003, ''LE Read Local Features''),
     (0x2005, ''LE Set Random Address''), (0x2006, ''LE Set Advertising Parameters''),
     (0x2007, ''LE Read Advertising Channel TX Power''), (0x2008, ''LE Set Advertising Data''),
     (0x2009, ''LE Set Scan Response Data''), (0x200a, ''LE Set Advertise Enable''),
     (0x200b, ''LE Set Scan Parameters''), (0x200c, ''LE Set Scan Enable''),
     (0x200d, ''LE Create Connection''), (0x200e, ''LE Create Connection Cancel''),
     (0x2013, ''LE Connection Update''), (0x2017, ''LE Encrypt''), (0x2018, ''LE Rand''),
     (0x2019, ''LE Start Encryption''), (0x201a, ''LE Long Term Key Request Reply''),
     (0x201b, ''LE Long Term Key Request Negative Reply''), (0x2022, ''LE Set Data Length''),
     (0x2025, ''LE Read Local P-256 Public Key''), (0x2026, ''LE Generate DHKey'')]"

definition hci_opcode_name :: "u16 \<Rightarrow> string" where
  "hci_opcode_name op = (case map_of opcode_table op of Some n \<Rightarrow> n | None \<Rightarrow> ''opcode 0x'' @ hex4 op)"

definition le_subevent_table :: "(byte \<times> string) list" where
  "le_subevent_table =
    [(0x01, ''LE Connection Complete''), (0x02, ''LE Advertising Report''),
     (0x03, ''LE Connection Update Complete''), (0x04, ''LE Read Remote Features Complete''),
     (0x05, ''LE Long Term Key Request''), (0x07, ''LE Data Length Change''),
     (0x08, ''LE Read Local P-256 Public Key Complete''), (0x09, ''LE Generate DHKey Complete''),
     (0x0a, ''LE Enhanced Connection Complete''), (0x0c, ''LE PHY Update Complete'')]"

definition event_table :: "(byte \<times> string) list" where
  "event_table =
    [(0x05, ''Disconnection Complete''), (0x08, ''Encryption Change''),
     (0x0e, ''Command Complete''), (0x0f, ''Command Status''), (0x10, ''Hardware Error''),
     (0x13, ''Number Of Completed Packets''), (0x30, ''Encryption Key Refresh Complete'')]"

definition event_name :: "byte \<Rightarrow> byte \<Rightarrow> string" where
  "event_name c sub =
     (if c = kEvtLeMeta then
        (case map_of le_subevent_table sub of Some n \<Rightarrow> n | None \<Rightarrow> ''LE subevent 0x'' @ hex2 sub)
      else (case map_of event_table c of Some n \<Rightarrow> n | None \<Rightarrow> ''event 0x'' @ hex2 c))"

section \<open>Addresses\<close>

text \<open>Six bytes, most significant first, and the byte that says what they mean.\<close>

datatype address = Address (addr_bytes: bytes) (addr_type: byte)

definition addr_wf :: "address \<Rightarrow> bool" where
  "addr_wf a \<longleftrightarrow> length (addr_bytes a) = 6"

instantiation address :: linorder
begin

definition less_address :: "address \<Rightarrow> address \<Rightarrow> bool" where
  "less_address a b \<longleftrightarrow>
     (if addr_bytes a \<noteq> addr_bytes b then addr_bytes a < addr_bytes b else addr_type a < addr_type b)"

definition less_eq_address :: "address \<Rightarrow> address \<Rightarrow> bool" where
  "less_eq_address a b \<longleftrightarrow> a = b \<or> a < b"

instance
  by standard (auto simp: less_address_def less_eq_address_def address.expand split: if_splits)

end

definition kAddrPublic :: byte where [const_defs]: "kAddrPublic = 0x00"
definition kAddrRandom :: byte where [const_defs]: "kAddrRandom = 0x01"
definition kAddrRandomIdentity :: byte where [const_defs]: "kAddrRandomIdentity = 0x03"

definition put_addr :: "address \<Rightarrow> bytes" where
  "put_addr a = rev (take 6 (addr_bytes a))"

definition get_addr :: "bytes \<Rightarrow> nat \<Rightarrow> byte \<Rightarrow> address" where
  "get_addr p off ty = Address (rev (take 6 (drop off p))) ty"

definition address_to_string :: "address \<Rightarrow> string" where
  "address_to_string a =
     (case map hex2_upper (addr_bytes a) of [] \<Rightarrow> []
      | h # hs \<Rightarrow> h @ concat (map (\<lambda>x. CHR '':'' # x) hs))"

fun read_nibbles :: "string \<Rightarrow> nat \<Rightarrow> int list option" where
  "read_nibbles [] n = Some []"
| "read_nibbles (c # s) n =
     (if c = CHR '':'' \<or> c = CHR ''-'' then read_nibbles s n
      else if hex_val c < 0 then None
      else if 12 \<le> n then None
      else map_option ((#) (hex_val c)) (read_nibbles s (Suc n)))"

fun pair_nibbles :: "int list \<Rightarrow> bytes" where
  "pair_nibbles (h # l # ns) = (push_bit 4 (word_of_int h) OR word_of_int l) # pair_nibbles ns"
| "pair_nibbles _ = []"

text \<open>The caller's address type is kept.\<close>

definition address_from_string :: "string \<Rightarrow> byte \<Rightarrow> address option" where
  "address_from_string text ty =
     (case read_nibbles text 0 of None \<Rightarrow> None
      | Some ns \<Rightarrow> if length ns \<noteq> 12 then None else Some (Address (pair_nibbles ns) ty))"

datatype random_kind = NotRandom | Static | ResolvablePrivate | NonResolvable

definition random_kind_of :: "address \<Rightarrow> random_kind" where
  "random_kind_of a =
     (if addr_type a \<noteq> kAddrRandom \<and> addr_type a \<noteq> kAddrRandomIdentity then NotRandom
      else if drop_bit 6 (addr_bytes a ! 0) = 0x03 then Static
      else if drop_bit 6 (addr_bytes a ! 0) = 0x01 then ResolvablePrivate
      else if drop_bit 6 (addr_bytes a ! 0) = 0x00 then NonResolvable
      else NonResolvable)"

definition address_is_stable :: "address \<Rightarrow> bool" where
  "address_is_stable a =
     (case random_kind_of a of NotRandom \<Rightarrow> True | Static \<Rightarrow> True | _ \<Rightarrow> False)"

section \<open>UUIDs\<close>

datatype uuid = Uuid (uuid_bytes: bytes)

definition uuid_wf :: "uuid \<Rightarrow> bool" where
  "uuid_wf u \<longleftrightarrow> length (uuid_bytes u) = 16"

instantiation uuid :: linorder
begin

definition less_uuid :: "uuid \<Rightarrow> uuid \<Rightarrow> bool" where
  "less_uuid a b \<longleftrightarrow> uuid_bytes a < uuid_bytes b"

definition less_eq_uuid :: "uuid \<Rightarrow> uuid \<Rightarrow> bool" where
  "less_eq_uuid a b \<longleftrightarrow> uuid_bytes a \<le> uuid_bytes b"

instance
  by standard (auto simp: less_uuid_def less_eq_uuid_def uuid.expand)

end

definition kBaseUuid :: bytes where
  "kBaseUuid = [0x00, 0x00, 0x00, 0x00, 0x00, 0x00, 0x10, 0x00,
                0x80, 0x00, 0x00, 0x80, 0x5f, 0x9b, 0x34, 0xfb]"

definition matches_base_tail :: "bytes \<Rightarrow> bool" where
  "matches_base_tail b \<longleftrightarrow> take 12 (drop 4 b) = take 12 (drop 4 kBaseUuid)"

definition is_16bit :: "uuid \<Rightarrow> bool" where
  "is_16bit u \<longleftrightarrow> uuid_bytes u ! 0 = 0 \<and> uuid_bytes u ! 1 = 0 \<and> matches_base_tail (uuid_bytes u)"

definition is_32bit :: "uuid \<Rightarrow> bool" where
  "is_32bit u \<longleftrightarrow> matches_base_tail (uuid_bytes u) \<and> \<not> (uuid_bytes u ! 0 = 0 \<and> uuid_bytes u ! 1 = 0)"

definition short16 :: "uuid \<Rightarrow> u16" where
  "short16 u = push_bit 8 (ucast (uuid_bytes u ! 2)) OR ucast (uuid_bytes u ! 3)"

definition uuid_from_16 :: "u16 \<Rightarrow> uuid" where
  "uuid_from_16 v = Uuid (kBaseUuid[2 := ucast (drop_bit 8 v), 3 := ucast (v AND 0xff)])"

definition uuid_from_32 :: "u32 \<Rightarrow> uuid" where
  "uuid_from_32 v =
     Uuid (kBaseUuid[0 := ucast (drop_bit 24 v), 1 := ucast (drop_bit 16 v AND 0xff),
                     2 := ucast (drop_bit 8 v AND 0xff), 3 := ucast (v AND 0xff)])"

text \<open>\<open>std::stoul(hex, nullptr, 16)\<close> on a string of hexadecimal digits.\<close>

definition stoul16 :: "string \<Rightarrow> int" where
  "stoul16 s = foldl (\<lambda>acc c. 16 * acc + hex_val c) 0 s"

definition uuid_from_string :: "string \<Rightarrow> uuid option" where
  "uuid_from_string text =
     (let hex = filter (\<lambda>c. c \<noteq> CHR ''-'') text in
      if \<exists>c \<in> set hex. hex_val c < 0 then None
      else if length hex = 4 then Some (uuid_from_16 (word_of_int (stoul16 hex)))
      else if length hex = 8 then Some (uuid_from_32 (word_of_int (stoul16 hex)))
      else if length hex \<noteq> 32 then None
      else Some (Uuid (pair_nibbles (map hex_val hex))))"

definition uuid_const :: "string \<Rightarrow> uuid" where
  "uuid_const text = (case uuid_from_string text of None \<Rightarrow> Uuid (replicate 16 0) | Some u \<Rightarrow> u)"

definition uuid_to_string :: "uuid \<Rightarrow> string" where
  "uuid_to_string u =
     (if is_16bit u then hex4_upper (short16 u)
      else let b = uuid_bytes u in
        hci_to_hex (take 4 b) @ ''-'' @ hci_to_hex (take 2 (drop 4 b)) @ ''-'' @
        hci_to_hex (take 2 (drop 6 b)) @ ''-'' @ hci_to_hex (take 2 (drop 8 b)) @ ''-'' @
        hci_to_hex (take 6 (drop 10 b)))"

definition uuid_to_le :: "uuid \<Rightarrow> bytes" where
  "uuid_to_le u = (if is_16bit u then put16 (short16 u) else rev (take 16 (uuid_bytes u)))"

definition uuid_from_le :: "bytes \<Rightarrow> uuid option" where
  "uuid_from_le d =
     (if length d = 2 then Some (uuid_from_16 (get16_at d 0))
      else if length d = 4 then Some (uuid_from_32 (get32 (d ! 0) (d ! 1) (d ! 2) (d ! 3)))
      else if length d = 16 then Some (Uuid (rev d))
      else None)"

section \<open>Round trips of the text and wire forms\<close>

lemma hex_digit_val:
  "n < 16 \<Longrightarrow> hex_val (hex_lower ! n) = int n"
  "n < 16 \<Longrightarrow> hex_val (kHexDigits ! n) = int n"
proof -
  have "\<forall>n \<in> set [0..<16]. hex_val (hex_lower ! n) = int n \<and> hex_val (kHexDigits ! n) = int n"
    by code_simp
  then show "n < 16 \<Longrightarrow> hex_val (hex_lower ! n) = int n"
    and "n < 16 \<Longrightarrow> hex_val (kHexDigits ! n) = int n"
    by simp_all
qed

lemma nibble_bounds [simp]: "unat (drop_bit 4 (b :: byte)) < 16" "unat ((b :: byte) AND 15) < 16"
proof -
  have "unat b < 256" using unsigned_less[of b, where ?'a = nat] by simp
  then show "unat (drop_bit 4 b) < 16" 
    by (simp only: unsigned_drop_bit_eq) (simp add: drop_bit_eq_div take_bit_eq_mod)
  have "(b AND 15) = take_bit 4 b" by (simp add: take_bit_eq_mask mask_eq_exp_minus_1)
  then show "unat (b AND 15) < 16" 
    by (simp only: unsigned_take_bit_eq) (simp add: take_bit_eq_mod)
qed

definition nibbles :: "byte \<Rightarrow> int list" where
  "nibbles b = [int (unat (drop_bit 4 b)), int (unat (b AND 15))]"

lemma map_hex_val_hex2: "map hex_val (hex2 b) = nibbles b" "map hex_val (hex2_upper b) = nibbles b"
  by (simp_all add: hex2_def hex2_upper_def nibbles_def hex_digit_val)

lemma nibbles_join: "push_bit 4 (drop_bit 4 b) OR b AND 15 = (b :: byte)"
proof -
  have "(b AND 15) = take_bit 4 b" by (simp add: take_bit_eq_mask mask_eq_exp_minus_1)
  then show ?thesis by (intro bit_word_eqI) (auto simp: bit_simps)
qed

lemma pair_nibbles_concat: "pair_nibbles (concat (map nibbles bs)) = bs"
  by (induction bs) (simp_all add: nibbles_def nibbles_join)

lemma hex_not_separator:
  "c \<in> set (hex2 b) \<Longrightarrow> c \<noteq> CHR ''-'' \<and> c \<noteq> CHR '':'' \<and> 0 \<le> hex_val c"
  "c \<in> set (hex2_upper b) \<Longrightarrow> c \<noteq> CHR ''-'' \<and> c \<noteq> CHR '':'' \<and> 0 \<le> hex_val c"
proof -
  have "\<forall>n \<in> set [0..<16]. hex_lower ! n \<noteq> CHR ''-'' \<and> hex_lower ! n \<noteq> CHR '':'' \<and>
      kHexDigits ! n \<noteq> CHR ''-'' \<and> kHexDigits ! n \<noteq> CHR '':''"
    by code_simp
  then have *: "n < 16 \<Longrightarrow> hex_lower ! n \<noteq> CHR ''-'' \<and> hex_lower ! n \<noteq> CHR '':'' \<and>
      kHexDigits ! n \<noteq> CHR ''-'' \<and> kHexDigits ! n \<noteq> CHR '':''" for n
    by simp
  show "c \<in> set (hex2 b) \<Longrightarrow> c \<noteq> CHR ''-'' \<and> c \<noteq> CHR '':'' \<and> 0 \<le> hex_val c"
    by (auto simp: hex2_def hex_digit_val *)
  show "c \<in> set (hex2_upper b) \<Longrightarrow> c \<noteq> CHR ''-'' \<and> c \<noteq> CHR '':'' \<and> 0 \<le> hex_val c"
    by (auto simp: hex2_upper_def hex_digit_val *)
qed

lemma read_nibbles_hex2:
  assumes "n + 2 \<le> 12"
  shows "read_nibbles (hex2_upper b @ s) n = map_option ((@) (nibbles b)) (read_nibbles s (n + 2))"
proof -
  obtain h l where hl: "hex2_upper b = [h, l]" by (simp add: hex2_upper_def)
  have "h \<in> set (hex2_upper b)" "l \<in> set (hex2_upper b)" by (simp_all add: hl)
  note ok = this[THEN hex_not_separator(2)]
  have "nibbles b = [hex_val h, hex_val l]" using map_hex_val_hex2(2)[of b] hl by simp
  with ok assms show ?thesis by (cases "read_nibbles s (n + 2)") (auto simp: hl)
qed

lemma read_nibbles_colons:
  "n + 2 * length bs \<le> 12 \<Longrightarrow>
   read_nibbles (concat (map (\<lambda>x. CHR '':'' # x) (map hex2_upper bs))) n = Some (concat (map nibbles bs))"
  by (induction bs arbitrary: n) (auto simp: read_nibbles_hex2)

lemma address_text:
  assumes "addr_wf a"
  shows "address_from_string (address_to_string a) ty = Some (Address (addr_bytes a) ty)"
proof -
  obtain b bs where bs: "addr_bytes a = b # bs" and len: "length bs = 5"
    using assms by (cases "addr_bytes a") (auto simp: addr_wf_def)
  have "read_nibbles (address_to_string a) 0 = Some (concat (map nibbles (b # bs)))"
    using len by (simp add: address_to_string_def bs read_nibbles_hex2 read_nibbles_colons del: map_map)
  moreover have "length (concat (map nibbles (b # bs))) = 12"
    using len by (simp add: length_concat nibbles_def comp_def sum_list_triv)
  ultimately show ?thesis
    using pair_nibbles_concat[of "b # bs"] by (simp add: address_from_string_def bs)
qed

lemma put_get_addr: "addr_wf a \<Longrightarrow> get_addr (pre @ put_addr a @ post) (length pre) (addr_type a) = a"
  by (cases a) (auto simp: get_addr_def put_addr_def addr_wf_def)

lemma list16: "length xs = 16 \<Longrightarrow> xs = xs ! 0 # xs ! 1 # xs ! 2 # xs ! 3 # drop 4 xs"
  using Cons_nth_drop_Suc[of 0 xs] Cons_nth_drop_Suc[of 1 xs] Cons_nth_drop_Suc[of 2 xs]
    Cons_nth_drop_Suc[of 3 xs] by (simp add: eval_nat_numeral)

lemma uuid_16_of_short:
  assumes "uuid_wf u" and "is_16bit u"
  shows "uuid_from_16 (short16 u) = u"
proof -
  have len: "length (uuid_bytes u) = 16" using assms(1) by (simp add: uuid_wf_def)
  obtain a b c d t where u: "uuid_bytes u = a # b # c # d # t" using list16[OF len] by blast
  then have "length t = 12" using len by simp
  with assms u have ab: "a = 0" "b = 0" and t: "t = drop 4 kBaseUuid"
    by (auto simp: is_16bit_def matches_base_tail_def kBaseUuid_def)
  have "ucast (drop_bit 8 (short16 u)) = c" and "ucast (short16 u AND 0xff) = d"
    unfolding short16_def u word_and_255
    by (rule bit_word_eqI; auto simp: bit_simps dest: bit_imp_le_length)+
  then show ?thesis
    using u ab t by (cases u) (simp add: uuid_from_16_def kBaseUuid_def)
qed

lemma short16_uuid_from_16: "short16 (uuid_from_16 v) = v" and is_16bit_uuid_from_16: "is_16bit (uuid_from_16 v)"
proof -
  show "short16 (uuid_from_16 v) = v"
    unfolding short16_def uuid_from_16_def kBaseUuid_def word_and_255
    by (rule bit_word_eqI) (auto simp: bit_simps)
  show "is_16bit (uuid_from_16 v)"
    by (simp add: is_16bit_def uuid_from_16_def kBaseUuid_def matches_base_tail_def)
qed

lemma uuid_wf_from [simp]: "uuid_wf (uuid_from_16 v)" "uuid_wf (uuid_from_32 w)"
  by (simp_all add: uuid_wf_def uuid_from_16_def uuid_from_32_def kBaseUuid_def)

lemma uuid_le_trip: "uuid_wf u \<Longrightarrow> uuid_from_le (uuid_to_le u) = Some u"
proof (cases "is_16bit u")
  case True
  assume "uuid_wf u"
  then show ?thesis using True get16_at_put16[of "short16 u" "[]"]
    by (simp add: uuid_to_le_def uuid_from_le_def uuid_16_of_short)
next
  case False
  assume "uuid_wf u"
  then show ?thesis using False by (cases u) (simp add: uuid_to_le_def uuid_from_le_def uuid_wf_def)
qed

lemma stoul16_hex4: "stoul16 (hex4_upper v) = uint v"
proof -
  have "hex4_upper v = [kHexDigits ! unat (drop_bit 4 (ucast (drop_bit 8 v) :: byte)),
      kHexDigits ! unat ((ucast (drop_bit 8 v) :: byte) AND 15),
      kHexDigits ! unat (drop_bit 4 (ucast v :: byte)), kHexDigits ! unat ((ucast v :: byte) AND 15)]"
    by (simp add: hex4_upper_def hex2_upper_def)
  then have "stoul16 (hex4_upper v) =
      16 * (16 * (16 * uint (drop_bit 4 (ucast (drop_bit 8 v) :: byte)) + uint ((ucast (drop_bit 8 v) :: byte) AND 15))
        + uint (drop_bit 4 (ucast v :: byte))) + uint ((ucast v :: byte) AND 15)"
    by (simp add: stoul16_def hex_digit_val)
  also have "\<dots> = uint v"
  proof -
    have m: "(x AND 15) = take_bit 4 x" for x :: byte
      by (simp add: take_bit_eq_mask mask_eq_exp_minus_1)
    have "0 \<le> uint v" "uint v < 65536" using uint_lt2p[of v] by simp_all
    then have "uint v div 256 mod 256 = uint v div 256"
      by (intro mod_pos_pos_trivial) (simp_all add: pos_imp_zdiv_nonneg_iff div_less_iff_less_mult)
    then show ?thesis
      by (simp only: m unsigned_take_bit_eq unsigned_drop_bit_eq unsigned_ucast_eq)
        (simp add: take_bit_eq_mod drop_bit_eq_div)
  qed
  finally show ?thesis .
qed

lemma hci_to_hex_append: "hci_to_hex (xs @ ys) = hci_to_hex xs @ hci_to_hex ys"
  by (simp add: hci_to_hex_def)

lemma map_hex_val_to_hex: "map hex_val (hci_to_hex bs) = concat (map nibbles bs)"
  by (induction bs) (simp_all add: hci_to_hex_def map_hex_val_hex2)

lemma set_hci_to_hex: "c \<in> set (hci_to_hex bs) \<Longrightarrow> c \<noteq> CHR ''-'' \<and> 0 \<le> hex_val c"
  by (auto simp: hci_to_hex_def dest: hex_not_separator(1))

lemma filter_dash_to_hex: "filter (\<lambda>c. c \<noteq> CHR ''-'') (hci_to_hex bs) = hci_to_hex bs"
  by (rule filter_True) (auto dest: set_hci_to_hex)

lemma length_hci_to_hex: "length (hci_to_hex bs) = 2 * length bs"
  by (induction bs) (simp_all add: hci_to_hex_def hex2_def)

lemma uuid_text_trip: "uuid_wf u \<Longrightarrow> uuid_from_string (uuid_to_string u) = Some u"
proof (cases "is_16bit u")
  case True
  assume wf: "uuid_wf u"
  let ?s = "hex4_upper (short16 u)"
  have ok: "c \<in> set ?s \<Longrightarrow> c \<noteq> CHR ''-'' \<and> 0 \<le> hex_val c" for c
    by (auto simp: hex4_upper_def dest: hex_not_separator(2))
  then have "filter (\<lambda>c. c \<noteq> CHR ''-'') ?s = ?s" by (intro filter_True) auto
  moreover have "length ?s = 4" by (simp add: hex4_upper_def hex2_upper_def)
  ultimately show ?thesis using True wf ok
    by (force simp: uuid_to_string_def uuid_from_string_def Let_def stoul16_hex4 uuid_16_of_short not_less)
next
  case False
  assume wf: "uuid_wf u"
  let ?b = "uuid_bytes u"
  have len: "length ?b = 16" using wf by (simp add: uuid_wf_def)
  have parts: "take 4 ?b @ take 2 (drop 4 ?b) @ take 2 (drop 6 ?b) @ take 2 (drop 8 ?b) @ take 6 (drop 10 ?b) = ?b"
    using len append_take_drop_id[of 4 ?b] append_take_drop_id[of 2 "drop 4 ?b"]
      append_take_drop_id[of 2 "drop 6 ?b"] append_take_drop_id[of 2 "drop 8 ?b"] by simp
  have "filter (\<lambda>c. c \<noteq> CHR ''-'') (uuid_to_string u) = hci_to_hex ?b"
    using False parts
    by (simp add: uuid_to_string_def Let_def filter_dash_to_hex flip: hci_to_hex_append)
  moreover have "pair_nibbles (map hex_val (hci_to_hex ?b)) = ?b"
    by (simp only: map_hex_val_to_hex pair_nibbles_concat)
  ultimately show ?thesis
    using len by (auto simp: uuid_from_string_def Let_def length_hci_to_hex not_less dest: set_hci_to_hex)
qed

interpretation uuid_wire: codec uuid_to_le uuid_from_le uuid_wf
  by unfold_locales (rule uuid_le_trip)

interpretation uuid_text: codec uuid_to_string uuid_from_string uuid_wf
  by unfold_locales (rule uuid_text_trip)

text \<open>
  A UUID survives both of its trips, to the wire in two or sixteen bytes and to
  text in its short or long form, and neither form is ever shared by two UUIDs.
\<close>

theorem uuid_round_trips:
  assumes "uuid_wf u"
  shows "uuid_from_le (uuid_to_le u) = Some u \<and> uuid_from_string (uuid_to_string u) = Some u \<and>
    (uuid_wf v \<longrightarrow> (uuid_to_le u = uuid_to_le v \<or> uuid_to_string u = uuid_to_string v) \<longrightarrow> u = v)"
  using assms uuid_wire.dec_enc uuid_text.dec_enc uuid_wire.enc_inj uuid_text.enc_inj by blast

theorem uuid_round_trips_witness:
  "uuid_from_le (uuid_to_le (uuid_from_16 0xfdac)) = Some (uuid_from_16 0xfdac) \<and>
   uuid_from_string ''FDAC'' = Some (uuid_from_16 0xfdac)"
proof -
  have "uuid_to_string (uuid_from_16 0xfdac) = ''FDAC''" by code_simp
  with uuid_round_trips[of "uuid_from_16 0xfdac" "uuid_from_16 0"] show ?thesis by simp
qed

text \<open>
  An address printed and parsed again is the same six bytes, under whatever
  address type the caller had already decided on.
\<close>

theorem address_round_trip:
  assumes "addr_wf a"
  shows "address_from_string (address_to_string a) (addr_type a) = Some a"
  using address_text[OF assms, of "addr_type a"] by simp

theorem address_round_trip_witness:
  "address_from_string ''C0:1A:2B:3C:4D:5E'' 1 = Some (Address [0xC0, 0x1A, 0x2B, 0x3C, 0x4D, 0x5E] 1)"
proof -
  let ?a = "Address [0xC0, 0x1A, 0x2B, 0x3C, 0x4D, 0x5E] 1"
  have "address_to_string ?a = ''C0:1A:2B:3C:4D:5E''" by code_simp
  with address_round_trip[of ?a] show ?thesis by (simp add: addr_wf_def)
qed

end
