(* ===== verification/HciPackets.thy ===== *)
theory HciPackets
  imports Hci
begin

text \<open>
  Commands to the controller and packets from it (\<open>src/hci.cc\<close>): command and ACL
  framing, the H4 packet stream with its resynchronisation, the event parsers, and
  the receive half of \<open>Link::on_readable\<close> (\<open>src/hcilink.cc\<close>) that keeps the
  unconsumed tail between reads.
\<close>

section \<open>Commands\<close>

definition build_command :: "u16 \<Rightarrow> bytes \<Rightarrow> bytes" where
  "build_command opcode params =
     kPacketCommand # put16 opcode @ word_of_nat (length params) # params"

definition le_set_adv_params ::
    "u16 \<Rightarrow> u16 \<Rightarrow> byte \<Rightarrow> byte \<Rightarrow> address \<Rightarrow> byte \<Rightarrow> byte \<Rightarrow> bytes" where
  "le_set_adv_params imin imax adv_type own_addr_type peer channel_map filter_policy =
     put16 imin @ put16 imax @ [adv_type, own_addr_type, addr_type peer] @ put_addr peer @
     [channel_map, filter_policy]"

text \<open>\<open>out->resize(32, 0)\<close> pads with zeros; the length is at most 32 here.\<close>

definition le_set_adv_data :: "bytes \<Rightarrow> bytes option" where
  "le_set_adv_data data =
     (if 31 < length data then None
      else let out = word_of_nat (length data) # data in Some (out @ replicate (32 - length out) 0))"

definition le_set_scan_response_data :: "bytes \<Rightarrow> bytes option" where
  "le_set_scan_response_data data = le_set_adv_data data"

definition le_set_adv_enable :: "bool \<Rightarrow> bytes" where
  "le_set_adv_enable enable = [if enable then 1 else 0]"

definition le_set_scan_params :: "bool \<Rightarrow> u16 \<Rightarrow> u16 \<Rightarrow> byte \<Rightarrow> byte \<Rightarrow> bytes" where
  "le_set_scan_params active interval window own_addr_type filter_policy =
     (if active then 1 else 0) # put16 interval @ put16 window @ [own_addr_type, filter_policy]"

definition le_set_scan_enable :: "bool \<Rightarrow> bool \<Rightarrow> bytes" where
  "le_set_scan_enable enable filter_duplicates =
     [if enable then 1 else 0, if filter_duplicates then 1 else 0]"

definition le_create_connection ::
    "address \<Rightarrow> u16 \<Rightarrow> u16 \<Rightarrow> u16 \<Rightarrow> u16 \<Rightarrow> u16 \<Rightarrow> u16 \<Rightarrow> byte \<Rightarrow> bytes" where
  "le_create_connection peer scan_interval scan_window cmin cmax latency timeout own_addr_type =
     put16 scan_interval @ put16 scan_window @ [0x00, addr_type peer] @ put_addr peer @
     [own_addr_type] @ put16 cmin @ put16 cmax @ put16 latency @ put16 timeout @ put16 0 @ put16 0"

definition disconnect_params :: "u16 \<Rightarrow> byte \<Rightarrow> bytes" where
  "disconnect_params handle reason = put16 handle @ [reason]"

subsection \<open>Milliseconds to controller units\<close>

definition clamp_u16 :: "real \<Rightarrow> u16 \<Rightarrow> u16 \<Rightarrow> u16" where
  "clamp_u16 v lo hi =
     (if \<not> 0 < v then lo
      else if v \<le> real (unat lo) then lo
      else if real (unat hi) \<le> v then hi
      else word_of_int \<lfloor>v\<rfloor>)"

definition ms_to_adv_units :: "real \<Rightarrow> u16" where
  "ms_to_adv_units ms = clamp_u16 (ms / 0.625) 0x0020 0x4000"

definition ms_to_scan_units :: "real \<Rightarrow> u16" where
  "ms_to_scan_units ms = clamp_u16 (ms / 0.625) 0x0004 0x4000"

definition ms_to_conn_units :: "real \<Rightarrow> u16" where
  "ms_to_conn_units ms = clamp_u16 (ms / 1.25) 0x0006 0x0c80"

definition ms_to_supervision_units :: "real \<Rightarrow> u16" where
  "ms_to_supervision_units ms = clamp_u16 (ms / 10) 0x000a 0x0c80"

lemma clamp_u16_range:
  assumes "lo \<le> hi"
  shows "lo \<le> clamp_u16 v lo hi \<and> clamp_u16 v lo hi \<le> hi"
proof -
  have lohi: "unat lo \<le> unat hi" using assms by (simp add: word_le_nat_alt)
  have hi: "unat hi < 65536" using unsigned_less[of hi, where ?'a = nat] by simp
  show ?thesis
  proof (cases "0 < v \<and> real (unat lo) < v \<and> v < real (unat hi)")
    case False
    then show ?thesis using assms by (auto simp: clamp_u16_def not_less)
  next
    case True
    then have f: "int (unat lo) \<le> \<lfloor>v\<rfloor>" "\<lfloor>v\<rfloor> < int (unat hi)"
      by (auto simp: le_floor_iff floor_less_iff)
    have "real (unat hi) < real 65536" using hi by (simp only: of_nat_less_iff)
    with True have range: "0 \<le> v" "v < 65536" by linarith+
    from f have "unat (word_of_int \<lfloor>v\<rfloor> :: u16) = nat \<lfloor>v\<rfloor>"
      using range by (simp add: unsigned_of_int) (subst take_bit_int_eq_self; simp)
    with f True show ?thesis
      by (simp add: clamp_u16_def word_le_nat_alt nat_le_iff le_nat_iff)
  qed
qed

text \<open>
  Whatever duration a caller asks for, negative or absurdly long included, the
  value put in a command is inside the range the controller accepts for that field.
\<close>

theorem units_in_controller_range:
  "0x0020 \<le> ms_to_adv_units ms \<and> ms_to_adv_units ms \<le> 0x4000 \<and>
   0x0004 \<le> ms_to_scan_units ms \<and> ms_to_scan_units ms \<le> 0x4000 \<and>
   0x0006 \<le> ms_to_conn_units ms \<and> ms_to_conn_units ms \<le> 0x0c80 \<and>
   0x000a \<le> ms_to_supervision_units ms \<and> ms_to_supervision_units ms \<le> 0x0c80"
  unfolding ms_to_adv_units_def ms_to_scan_units_def ms_to_conn_units_def ms_to_supervision_units_def
  by (simp add: clamp_u16_range)

section \<open>The packet stream\<close>

record packet =
  pkt_type :: byte
  pkt_payload :: bytes

text \<open>How many bytes after the type byte a packet of this type needs.\<close>

datatype need = Need nat | NeedHeader | NotAPacket

definition packet_need :: "byte \<Rightarrow> bytes \<Rightarrow> need" where
  "packet_need type body =
     (if type = kPacketEvent then
        (if length body < 2 then NeedHeader else Need (2 + unat (body ! 1)))
      else if type = kPacketAclData then
        (if length body < 4 then NeedHeader else Need (4 + unat (get16_at body 2)))
      else if type = kPacketCommand then
        (if length body < 3 then NeedHeader else Need (3 + unat (body ! 2)))
      else if type = kPacketIsoData then
        (if length body < 4 then NeedHeader else Need (4 + unat (get16_at body 2 AND 0x3fff)))
      else if type = kPacketScoData then
        (if length body < 3 then NeedHeader else Need (3 + unat (body ! 2)))
      else NotAPacket)"

text \<open>\<open>parse_stream\<close>: the number of bytes consumed and the packets found.\<close>

function hci_parse_stream :: "bytes \<Rightarrow> nat \<times> packet list" where
  "hci_parse_stream [] = (0, [])"
| "hci_parse_stream (t # body) =
     (case packet_need t body of
        NotAPacket \<Rightarrow> (let (n, ps) = hci_parse_stream body in (Suc n, ps))
      | NeedHeader \<Rightarrow> (0, [])
      | Need k \<Rightarrow>
          if length body < k then (0, [])
          else let (n, ps) = hci_parse_stream (drop k body) in
            (1 + k + n, \<lparr>pkt_type = t, pkt_payload = take k body\<rparr> # ps))"
  by pat_completeness auto
termination
  by (relation "measure length") auto

text \<open>The receive buffer of \<open>Link::on_readable\<close>: append the read, parse, keep the tail.\<close>

definition rx_feed :: "bytes \<Rightarrow> bytes \<Rightarrow> bytes \<times> packet list" where
  "rx_feed rx chunk =
     (let (used, packets) = hci_parse_stream (rx @ chunk) in (drop used (rx @ chunk), packets))"

lemma packet_need_append:
  "packet_need t xs = Need k \<Longrightarrow> packet_need t (xs @ ys) = Need k"
  "packet_need t xs = NotAPacket \<longleftrightarrow> packet_need t ys = NotAPacket"
  by (auto simp: packet_need_def get16_at_def nth_append split: if_splits)

lemma packet_need_bound: "packet_need t body = Need k \<Longrightarrow> k < 65540"
proof -
  have a: "unat (x :: u16) < 65536" for x using unsigned_less[of x, where ?'a = nat] by simp
  have b: "unat (x :: byte) < 256" for x using unsigned_less[of x, where ?'a = nat] by simp
  assume "packet_need t body = Need k"
  then show ?thesis
    using a[of "get16_at body 2"] a[of "get16_at body 2 AND 0x3fff"] b[of "body ! 1"] b[of "body ! 2"]
    by (auto simp: packet_need_def split: if_splits)
qed

lemma hci_parse_consumed: "fst (hci_parse_stream data) \<le> length data"
  by (induction data rule: hci_parse_stream.induct) (auto split: need.splits prod.splits)

lemma hci_parse_append:
  "hci_parse_stream a = (n, ps) \<Longrightarrow>
   hci_parse_stream (a @ b) =
     (let (m, qs) = hci_parse_stream (drop n a @ b) in (n + m, ps @ qs))"
proof (induction a arbitrary: n ps rule: hci_parse_stream.induct)
  case (2 t body)
  show ?case
  proof (cases "packet_need t body")
    case (Need k)
    show ?thesis
    proof (cases "length body < k")
      case False
      obtain m qs where r: "hci_parse_stream (drop k body) = (m, qs)" by fastforce
      with 2 Need False have "n = 1 + k + m" "ps = \<lparr>pkt_type = t, pkt_payload = take k body\<rparr> # qs"
        by auto
      with "2.IH"(1)[OF Need False r] Need False show ?thesis
        by (simp add: packet_need_append(1) case_prod_beta Let_def add.commute)
    qed (use 2 Need in auto)
  next
    case NotAPacket
    obtain m qs where r: "hci_parse_stream body = (m, qs)" by fastforce
    with 2 NotAPacket have "n = Suc m" "ps = qs" by auto
    moreover have "packet_need t (body @ b) = NotAPacket"
      using NotAPacket packet_need_append(2) by blast
    ultimately show ?thesis
      using "2.IH"(2)[OF NotAPacket r] by (simp add: case_prod_beta Let_def)
  qed (use 2 in auto)
qed auto

definition rx_ok :: "bytes \<Rightarrow> bool" where
  "rx_ok rx \<longleftrightarrow> hci_parse_stream rx = (0, [])"

lemma rx_ok_rest: "hci_parse_stream a = (n, ps) \<Longrightarrow> rx_ok (drop n a)"
  using hci_parse_append[of a n ps "[]"]
  by (cases "hci_parse_stream (drop n a)") (simp add: rx_ok_def)

interpretation hci_rx: incremental rx_feed rx_ok
proof
  fix s xs ys :: bytes
  assume s: "rx_ok s"
  show "rx_feed s [] = (s, [])" using s by (simp add: rx_feed_def rx_ok_def)
  obtain n ps where n: "hci_parse_stream (s @ xs) = (n, ps)" by fastforce
  show "rx_ok (fst (rx_feed s xs))"
    using rx_ok_rest[OF n] n by (simp add: rx_feed_def del: drop_append)
  define a where "a = s @ xs"
  have "n \<le> length a" using hci_parse_consumed[of a] n by (simp add: a_def)
  then have rest: "drop n a @ ys = drop n (a @ ys)" by simp
  obtain m qs where m: "hci_parse_stream (drop n a @ ys) = (m, qs)" by fastforce
  have "hci_parse_stream (a @ ys) = (n + m, ps @ qs)"
    using hci_parse_append[OF n, of ys] m by (simp add: a_def)
  then have "rx_feed s (xs @ ys) = (drop (n + m) (a @ ys), ps @ qs)"
    by (simp only: rx_feed_def append_assoc[symmetric] a_def[symmetric] prod.case Let_def)
  moreover have "rx_feed s xs = (drop n a, ps)"
    using n by (simp only: rx_feed_def a_def prod.case Let_def)
  moreover have "rx_feed (drop n a) ys = (drop (n + m) (a @ ys), qs)"
    using m rest by (simp only: rx_feed_def prod.case Let_def drop_drop) (simp add: add.commute)
  ultimately show "rx_feed s (xs @ ys) =
    (let (s', out) = rx_feed s xs; (s'', out') = rx_feed s' ys in (s'', out @ out'))"
    by simp
qed

lemma rx_ok_bounded: "rx_ok rx \<Longrightarrow> length rx < 65541"
proof (cases rx)
  case (Cons t body)
  assume "rx_ok rx"
  then show ?thesis
    using packet_need_bound[of t body] Cons
    by (auto simp: rx_ok_def packet_need_def split: need.splits if_splits prod.splits)
qed simp

text \<open>
  C29. The bytes a transport delivers may be cut anywhere, inside headers included:
  the packets recovered are those of the whole stream parsed at once, and the tail
  kept between reads always fits a single packet that has not arrived completely.
\<close>

theorem hci_stream_chunking:
  "snd (feed_chunks rx_feed [] cs) = snd (hci_parse_stream (concat cs)) \<and>
   length (fst (feed_chunks rx_feed [] cs)) < 65541"
proof -
  have ok: "rx_ok []" by (simp add: rx_ok_def)
  show ?thesis
    using hci_rx.feed_concat[OF ok, of cs] rx_ok_bounded[OF hci_rx.feed_good[OF ok, of cs]]
    by (simp add: rx_feed_def case_prod_beta)
qed

subsection \<open>Whole packets in front of anything\<close>

definition packet_bytes :: "packet \<Rightarrow> bytes" where
  "packet_bytes p = pkt_type p # pkt_payload p"

definition packet_wf :: "packet \<Rightarrow> bool" where
  "packet_wf p \<longleftrightarrow> packet_need (pkt_type p) (pkt_payload p) = Need (length (pkt_payload p))"

definition first_packet :: "bytes \<Rightarrow> packet option" where
  "first_packet data = (case snd (hci_parse_stream data) of [] \<Rightarrow> None | p # _ \<Rightarrow> Some p)"

lemma hci_parse_packet:
  "packet_wf p \<Longrightarrow> hci_parse_stream (packet_bytes p @ rest) =
     (let (n, ps) = hci_parse_stream rest in (length (packet_bytes p) + n, p # ps))"
  using packet_need_append(1)[of "pkt_type p" "pkt_payload p" "length (pkt_payload p)" rest]
  by (cases p) (simp add: packet_wf_def packet_bytes_def)

interpretation packet_frame: framed_codec packet_bytes first_packet packet_wf
  by unfold_locales (simp add: first_packet_def hci_parse_packet case_prod_beta Let_def)

lemma build_command_packet:
  assumes "length params < 256"
  shows "build_command op params = packet_bytes \<lparr>pkt_type = kPacketCommand,
      pkt_payload = put16 op @ word_of_nat (length params) # params\<rparr> \<and>
    packet_wf \<lparr>pkt_type = kPacketCommand, pkt_payload = put16 op @ word_of_nat (length params) # params\<rparr>"
proof -
  have "(put16 op @ word_of_nat (length params) # params) ! 2 = word_of_nat (length params)"
    by (simp add: nth_append)
  moreover have "unat (word_of_nat (length params) :: byte) = length params"
    using assms by (simp add: unsigned_of_nat take_bit_nat_eq_self)
  ultimately show ?thesis
    by (simp add: build_command_def packet_bytes_def packet_wf_def packet_need_def const_defs)
qed

section \<open>ACL framing\<close>

definition build_acl :: "u16 \<Rightarrow> byte \<Rightarrow> bytes \<Rightarrow> bytes" where
  "build_acl handle pb_flag data =
     kPacketAclData #
     put16 ((handle AND 0x0fff) OR push_bit 12 (ucast (pb_flag AND 0x03))) @
     put16 (word_of_nat (length data)) @ data"

record acl_header =
  acl_handle :: u16
  acl_pb :: byte
  acl_bc :: byte

definition parse_acl :: "bytes \<Rightarrow> (acl_header \<times> bytes) option" where
  "parse_acl payload =
     (if length payload < 4 then None
      else let hf = get16_at payload 0; dlen = unat (get16_at payload 2) in
        if length payload < 4 + dlen then None
        else Some (\<lparr>acl_handle = hf AND 0x0fff,
                    acl_pb = ucast (drop_bit 12 hf AND 0x03),
                    acl_bc = ucast (drop_bit 14 hf AND 0x03)\<rparr>,
                   take dlen (drop 4 payload)))"

lemma acl_handle_flags:
  fixes handle :: u16 and pb :: byte
  defines "hf \<equiv> (handle AND 0x0fff) OR push_bit 12 (ucast (pb AND 0x03))"
  shows "hf AND 0x0fff = handle AND 0x0fff" "ucast (drop_bit 12 hf AND 0x03) = pb AND 0x03"
    "(ucast (drop_bit 14 hf AND 0x03) :: byte) = 0"
proof -
  have m: "(x AND 0x0fff) = take_bit 12 x" "(x AND 0x03) = take_bit 2 x" for x :: u16
    by (simp_all add: take_bit_eq_mask mask_eq_exp_minus_1)
  have m': "(x AND 0x03) = take_bit 2 x" for x :: byte
    by (simp add: take_bit_eq_mask mask_eq_exp_minus_1)
  show "hf AND 0x0fff = handle AND 0x0fff" "ucast (drop_bit 12 hf AND 0x03) = pb AND 0x03"
    "(ucast (drop_bit 14 hf AND 0x03) :: byte) = 0"
    unfolding hf_def m m' by (rule bit_word_eqI; auto simp: bit_simps)+
qed

lemma get16_at_append: "Suc i < length xs \<Longrightarrow> get16_at (xs @ ys) i = get16_at xs i"
  by (simp add: get16_at_def nth_append)

lemma get16_at_put16_2: "get16_at (put16 a @ put16 b @ rest) 2 = b"
  by (simp add: get16_at_def put16_def get16_of_put16 numeral_2_eq_2)

lemma parse_acl_fields:
  "unat l = length data \<Longrightarrow> parse_acl (put16 hf @ put16 l @ data) =
    Some (\<lparr>acl_handle = hf AND 0x0fff, acl_pb = ucast (drop_bit 12 hf AND 0x03),
           acl_bc = ucast (drop_bit 14 hf AND 0x03)\<rparr>, data)"
  by (simp add: parse_acl_def get16_at_put16_2 Let_def)

lemma parse_build_acl:
  assumes "length data < 65536"
  shows "parse_acl (tl (build_acl handle pb data)) =
    Some (\<lparr>acl_handle = handle AND 0x0fff, acl_pb = pb AND 0x03, acl_bc = 0\<rparr>, data)"
proof -
  have "unat (word_of_nat (length data) :: u16) = length data"
    using assms by (simp add: unsigned_of_nat take_bit_nat_eq_self)
  then show ?thesis
    unfolding build_acl_def list.sel by (simp only: parse_acl_fields acl_handle_flags)
qed

lemma build_acl_packet:
  assumes "length data < 65536"
  shows "packet_wf \<lparr>pkt_type = kPacketAclData, pkt_payload = tl (build_acl handle pb data)\<rparr>"
proof -
  have "unat (word_of_nat (length data) :: u16) = length data"
    using assms by (simp add: unsigned_of_nat take_bit_nat_eq_self)
  then show ?thesis
    by (simp add: build_acl_def packet_wf_def packet_need_def get16_at_put16_2 const_defs)
qed

text \<open>
  A command and an ACL fragment written back to back come out of the stream
  parser as exactly those two packets whatever follows, and the fragment's handle,
  boundary flag and payload are the ones that were put in.
\<close>

theorem hci_write_read:
  assumes "length params < 256" and "length data < 65536"
  shows "\<exists>acl. hci_parse_stream (build_command op params @ build_acl handle pb data @ rest) =
      (let (n, ps) = hci_parse_stream rest in
       (length (build_command op params) + length (build_acl handle pb data) + n,
        \<lparr>pkt_type = kPacketCommand, pkt_payload = put16 op @ word_of_nat (length params) # params\<rparr>
        # \<lparr>pkt_type = kPacketAclData, pkt_payload = acl\<rparr> # ps)) \<and>
    parse_acl acl = Some (\<lparr>acl_handle = handle AND 0x0fff, acl_pb = pb AND 0x03, acl_bc = 0\<rparr>, data)"
proof -
  let ?acl = "\<lparr>pkt_type = kPacketAclData, pkt_payload = tl (build_acl handle pb data)\<rparr>"
  have "build_acl handle pb data = packet_bytes ?acl"
    by (simp add: packet_bytes_def build_acl_def)
  then have acl: "hci_parse_stream (build_acl handle pb data @ rest) =
      (let (n, ps) = hci_parse_stream rest in (length (build_acl handle pb data) + n, ?acl # ps))"
    using hci_parse_packet[OF build_acl_packet[OF assms(2), of handle pb], of rest] by simp
  have "hci_parse_stream (build_command op params @ build_acl handle pb data @ rest) =
      (let (n, ps) = hci_parse_stream (build_acl handle pb data @ rest) in
       (length (build_command op params) + n,
        \<lparr>pkt_type = kPacketCommand, pkt_payload = put16 op @ word_of_nat (length params) # params\<rparr> # ps))"
    using build_command_packet[OF assms(1), of op] hci_parse_packet by simp
  then show ?thesis
    unfolding acl using parse_build_acl[OF assms(2), of handle pb]
    by (auto simp: case_prod_beta Let_def add.assoc)
qed

theorem hci_write_read_witness:
  "\<exists>acl. hci_parse_stream (build_command 0x0c03 [] @ build_acl 0x40 2 [0xAA] @ [0x04]) =
      (10, [\<lparr>pkt_type = kPacketCommand, pkt_payload = [0x03, 0x0c, 0]\<rparr>,
            \<lparr>pkt_type = kPacketAclData, pkt_payload = acl\<rparr>])"
  using hci_write_read[of "[]" "[0xAA]" "0x0c03" "0x40" 2 "[0x04]"]
  by (auto simp: packet_need_def const_defs build_command_def build_acl_def put16_def)

section \<open>Events\<close>

record event =
  ev_code :: byte
  ev_subevent :: byte
  ev_params :: bytes

definition parse_event :: "bytes \<Rightarrow> event option" where
  "parse_event payload =
     (if length payload < 2 then None
      else let plen = unat (payload ! 1) in
        if length payload < 2 + plen then None
        else let c = payload ! 0; ps = take plen (drop 2 payload) in
          Some \<lparr>ev_code = c,
                ev_subevent = (if c = kEvtLeMeta \<and> ps \<noteq> [] then ps ! 0 else 0),
                ev_params = ps\<rparr>)"

record command_complete =
  cc_num_packets :: byte
  cc_opcode :: u16
  cc_status :: byte
  cc_params :: bytes

definition parse_command_complete :: "event \<Rightarrow> command_complete option" where
  "parse_command_complete evt =
     (if ev_code evt \<noteq> kEvtCommandComplete \<or> length (ev_params evt) < 3 then None
      else let ps = drop 3 (ev_params evt) in
        Some \<lparr>cc_num_packets = ev_params evt ! 0, cc_opcode = get16_at (ev_params evt) 1,
              cc_status = (if ps = [] then 0x00 else ps ! 0), cc_params = ps\<rparr>)"

record command_status =
  cs_status :: byte
  cs_num_packets :: byte
  cs_opcode :: u16

definition parse_command_status :: "event \<Rightarrow> command_status option" where
  "parse_command_status evt =
     (if ev_code evt \<noteq> kEvtCommandStatus \<or> length (ev_params evt) < 4 then None
      else Some \<lparr>cs_status = ev_params evt ! 0, cs_num_packets = ev_params evt ! 1,
                 cs_opcode = get16_at (ev_params evt) 2\<rparr>)"

record connection_complete =
  cx_status :: byte
  cx_handle :: u16
  cx_role :: byte
  cx_peer :: address
  cx_interval :: u16
  cx_latency :: u16
  cx_timeout :: u16

text \<open>The fields that follow the peer address start at \<open>base\<close>.\<close>

definition connection_fields :: "bytes \<Rightarrow> nat \<Rightarrow> connection_complete" where
  "connection_fields p base =
     \<lparr>cx_status = p ! 1, cx_handle = get16_at p 2 AND 0x0fff, cx_role = p ! 4,
      cx_peer = get_addr p 6 (p ! 5), cx_interval = get16_at p base,
      cx_latency = get16_at p (base + 2), cx_timeout = get16_at p (base + 4)\<rparr>"

definition parse_connection_complete :: "event \<Rightarrow> connection_complete option" where
  "parse_connection_complete evt =
     (if ev_code evt \<noteq> kEvtLeMeta then None
      else if ev_subevent evt = kLeConnectionComplete then
        (if length (ev_params evt) < 19 then None else Some (connection_fields (ev_params evt) 12))
      else if ev_subevent evt = kLeEnhancedConnectionComplete then
        (if length (ev_params evt) < 31 then None else Some (connection_fields (ev_params evt) 24))
      else None)"

record disconnection_complete =
  dc_status :: byte
  dc_handle :: u16
  dc_reason :: byte

definition parse_disconnection_complete :: "event \<Rightarrow> disconnection_complete option" where
  "parse_disconnection_complete evt =
     (if ev_code evt \<noteq> kEvtDisconnectionComplete \<or> length (ev_params evt) < 4 then None
      else Some \<lparr>dc_status = ev_params evt ! 0, dc_handle = get16_at (ev_params evt) 1 AND 0x0fff,
                 dc_reason = ev_params evt ! 3\<rparr>)"

record encryption_change =
  ec_status :: byte
  ec_handle :: u16
  ec_enabled :: byte

definition parse_encryption_change :: "event \<Rightarrow> encryption_change option" where
  "parse_encryption_change evt =
     (if ev_code evt \<noteq> kEvtEncryptionChange \<or> length (ev_params evt) < 4 then None
      else Some \<lparr>ec_status = ev_params evt ! 0, ec_handle = get16_at (ev_params evt) 1 AND 0x0fff,
                 ec_enabled = ev_params evt ! 3\<rparr>)"

record ltk_request =
  ltk_handle :: u16
  ltk_rand :: bytes
  ltk_ediv :: u16

definition parse_ltk_request :: "event \<Rightarrow> ltk_request option" where
  "parse_ltk_request evt =
     (if ev_code evt \<noteq> kEvtLeMeta \<or> ev_subevent evt \<noteq> kLeLongTermKeyRequest
         \<or> length (ev_params evt) < 13 then None
      else Some \<lparr>ltk_handle = get16_at (ev_params evt) 1 AND 0x0fff,
                 ltk_rand = take 8 (drop 3 (ev_params evt)), ltk_ediv = get16_at (ev_params evt) 11\<rparr>)"

subsection \<open>Advertising reports\<close>

record adv_report =
  ar_event_type :: byte
  ar_addr :: address
  ar_data :: bytes
  ar_rssi :: int

text \<open>
  The loop appends to its output as it goes, so a truncated event reports \<open>False\<close>
  and keeps the reports read before the truncation.
\<close>

fun adv_reports_from :: "nat \<Rightarrow> bytes \<Rightarrow> nat \<Rightarrow> adv_report list \<Rightarrow> bool \<times> adv_report list" where
  "adv_reports_from 0 p off out = (True, out)"
| "adv_reports_from (Suc n) p off out =
     (if length p < off + 9 then (False, out)
      else let dlen = unat (p ! (off + 8)) in
        if length p < off + 9 + dlen + 1 then (False, out)
        else adv_reports_from n p (off + (10 + dlen))
          (out @ [\<lparr>ar_event_type = p ! off, ar_addr = get_addr p (off + 2) (p ! (off + 1)),
                   ar_data = take dlen (drop (off + 9) p), ar_rssi = sint (p ! (off + 9 + dlen))\<rparr>]))"

definition parse_adv_reports :: "event \<Rightarrow> adv_report list \<Rightarrow> bool \<times> adv_report list" where
  "parse_adv_reports evt out =
     (if ev_code evt \<noteq> kEvtLeMeta \<or> ev_subevent evt \<noteq> kLeAdvertisingReport
         \<or> length (ev_params evt) < 2 then (False, out)
      else adv_reports_from (unat (ev_params evt ! 1)) (ev_params evt) 2 out)"

text \<open>The layout of one report, written out as the specification the loop is held to.\<close>

definition report_bytes :: "adv_report \<Rightarrow> bytes" where
  "report_bytes r =
     [ar_event_type r, addr_type (ar_addr r)] @ put_addr (ar_addr r) @
     [word_of_nat (length (ar_data r))] @ ar_data r @ [word_of_int (ar_rssi r)]"

definition report_wf :: "adv_report \<Rightarrow> bool" where
  "report_wf r \<longleftrightarrow> addr_wf (ar_addr r) \<and> length (ar_data r) < 256 \<and> -128 \<le> ar_rssi r \<and> ar_rssi r < 128"

lemma adv_report_step:
  assumes wf: "report_wf r"
  shows "adv_reports_from (Suc n) (pre @ report_bytes r @ post) (length pre) out =
    adv_reports_from n (pre @ report_bytes r @ post) (length (pre @ report_bytes r)) (out @ [r])"
proof -
  let ?p = "pre @ report_bytes r @ post" and ?d = "ar_data r" and ?a = "ar_addr r"
  have la: "length (put_addr ?a) = 6" using wf by (simp add: put_addr_def report_wf_def addr_wf_def)
  have ld: "unat (word_of_nat (length ?d) :: byte) = length ?d"
    using wf by (simp add: report_wf_def unsigned_of_nat take_bit_nat_eq_self)
  have rs: "sint (word_of_int (ar_rssi r) :: byte) = ar_rssi r"
    using wf by (simp add: report_wf_def signed_of_int signed_take_bit_int_eq_self)
  have dlen: "?p ! (length pre + 8) = word_of_nat (length ?d)"
    using la by (simp add: report_bytes_def nth_append)
  have rssi: "?p ! (length pre + 9 + length ?d) = word_of_int (ar_rssi r)"
    using la by (simp add: report_bytes_def nth_append)
  have data: "take (length ?d) (drop (length pre + 9) ?p) = ?d"
    using la by (simp add: report_bytes_def)
  have addr: "get_addr ?p (length pre + 2) (?p ! (length pre + 1)) = ?a"
    using put_get_addr[of ?a "pre @ [ar_event_type r, addr_type ?a]"
        "[word_of_nat (length ?d)] @ ?d @ [word_of_int (ar_rssi r)] @ post"] wf
    by (simp add: report_bytes_def report_wf_def nth_append)
  have len: "length (report_bytes r) = 10 + length ?d" using la by (simp add: report_bytes_def)
  have ty: "?p ! length pre = ar_event_type r" by (simp add: report_bytes_def nth_append)
  have r: "\<lparr>ar_event_type = ?p ! length pre, ar_addr = get_addr ?p (length pre + 2) (?p ! (length pre + 1)),
      ar_data = take (length ?d) (drop (length pre + 9) ?p),
      ar_rssi = sint (?p ! (length pre + 9 + length ?d))\<rparr> = r"
    unfolding ty addr data rssi rs by simp
  show ?thesis
    unfolding adv_reports_from.simps dlen ld Let_def r using len by simp
qed

lemma adv_reports_all:
  "\<forall>r \<in> set rs. report_wf r \<Longrightarrow>
   adv_reports_from (length rs) (pre @ concat (map report_bytes rs) @ post) (length pre) out = (True, out @ rs)"
proof (induction rs arbitrary: pre out)
  case (Cons r rs)
  then show ?case
    using adv_report_step[of r "length rs" pre "concat (map report_bytes rs) @ post" out]
      Cons.IH[of "pre @ report_bytes r" "out @ [r]"] by simp
qed simp

lemma adv_reports_bound: "length (snd (adv_reports_from n p off out)) \<le> length out + n"
  by (induction n p off out rule: adv_reports_from.induct) (auto simp: Let_def)

text \<open>
  An advertising event that carries any number of well-formed reports, up to the
  255 its count byte can state, is read back report for report: types, addresses,
  payloads and signed signal strengths, with trailing bytes ignored.
\<close>

theorem adv_reports_read_back:
  assumes "\<forall>r \<in> set rs. report_wf r" and "length rs < 256"
  shows "parse_adv_reports
      \<lparr>ev_code = kEvtLeMeta, ev_subevent = kLeAdvertisingReport,
       ev_params = kLeAdvertisingReport # word_of_nat (length rs) # concat (map report_bytes rs) @ post\<rparr> out
    = (True, out @ rs)"
proof -
  have "unat (word_of_nat (length rs) :: byte) = length rs"
    using assms(2) by (simp add: unsigned_of_nat take_bit_nat_eq_self)
  then show ?thesis
    using adv_reports_all[OF assms(1), of "[kLeAdvertisingReport, word_of_nat (length rs)]" post out]
    by (simp add: parse_adv_reports_def numeral_2_eq_2)
qed

theorem adv_reports_read_back_witness:
  "let r = \<lparr>ar_event_type = 0, ar_addr = Address [1, 2, 3, 4, 5, 6] 1, ar_data = [2, 1, 6], ar_rssi = -60\<rparr> in
   parse_adv_reports
     \<lparr>ev_code = kEvtLeMeta, ev_subevent = kLeAdvertisingReport,
      ev_params = kLeAdvertisingReport # 1 # report_bytes r\<rparr> [] = (True, [r])"
  using adv_reports_read_back[of "[\<lparr>ar_event_type = 0, ar_addr = Address [1, 2, 3, 4, 5, 6] 1,
      ar_data = [2, 1, 6], ar_rssi = -60\<rparr>]" "[]" "[]"]
  by (simp add: report_wf_def addr_wf_def)

end
