(* ===== verification/Att.thy ===== *)
theory Att
  imports HciPackets
begin

text \<open>
  L2CAP framing and the client half of the Attribute Protocol (\<open>src/att.h\<close>,
  \<open>src/att.cc\<close>): frames, fragments, the reassembler, request builders and response
  parsers.  A parser that appends to its output as it goes returns the flag and the
  output, so a failure keeps what was appended before it.
\<close>

section \<open>L2CAP\<close>

definition kCidAtt :: u16 where [const_defs]: "kCidAtt = 0x0004"
definition kCidSmp :: u16 where [const_defs]: "kCidSmp = 0x0006"

definition kAclContinuing :: byte where [const_defs]: "kAclContinuing = 0x01"
definition kAclFirstFlushable :: byte where [const_defs]: "kAclFirstFlushable = 0x02"

definition build_l2cap :: "u16 \<Rightarrow> bytes \<Rightarrow> bytes" where
  "build_l2cap cid payload = put16 (word_of_nat (length payload)) @ put16 cid @ payload"

definition parse_l2cap :: "bytes \<Rightarrow> (u16 \<times> bytes) option" where
  "parse_l2cap data =
     (if length data < 4 then None
      else let plen = unat (get16_at data 0) in
        if length data < 4 + plen then None
        else Some (get16_at data 2, take plen (drop 4 data)))"

subsection \<open>The reassembler\<close>

record reassembler =
  ra_buf :: bytes
  ra_expecting :: nat

definition reasm_reset :: reassembler where
  "reasm_reset = \<lparr>ra_buf = [], ra_expecting = 0\<rparr>"

definition in_progress :: "reassembler \<Rightarrow> bool" where
  "in_progress r \<longleftrightarrow> 0 < ra_expecting r"

text \<open>The \<open>for (;;)\<close> of \<open>push\<close>: cut complete frames off the front of the buffer.\<close>

function reasm_loop :: "bytes \<Rightarrow> reassembler \<times> (u16 \<times> bytes) list" where
  "reasm_loop buf =
     (if length buf < 4 then (\<lparr>ra_buf = buf, ra_expecting = 0\<rparr>, [])
      else let expecting = 4 + unat (get16_at buf 0) in
        if length buf < expecting then (\<lparr>ra_buf = buf, ra_expecting = expecting\<rparr>, [])
        else let frame = (get16_at buf 2, drop 4 (take expecting buf));
                 rest = drop expecting buf in
          if rest = [] then (\<lparr>ra_buf = [], ra_expecting = 0\<rparr>, [frame])
          else let (r, out) = reasm_loop rest in (r, frame # out))"
  by pat_completeness auto
termination
  by (relation "measure length") auto

declare reasm_loop.simps [simp del]

text \<open>\<open>Reassembler::push\<close>; its boolean result is \<open>true\<close> on every path.\<close>

definition reasm_push :: "reassembler \<Rightarrow> byte \<Rightarrow> bytes \<Rightarrow> reassembler \<times> (u16 \<times> bytes) list" where
  "reasm_push r pb data =
     (if pb \<noteq> kAclContinuing then reasm_loop data
      else if ra_buf r = [] then (r, [])
      else reasm_loop (ra_buf r @ data))"

function fragment :: "bytes \<Rightarrow> nat \<Rightarrow> bytes list" where
  "fragment frame max_acl =
     (if max_acl = 0 \<or> frame = [] then []
      else take max_acl frame # fragment (drop max_acl frame) max_acl)"
  by pat_completeness auto
termination
  by (relation "measure (\<lambda>(frame, m). length frame)") auto

declare fragment.simps [simp del]

text \<open>How a fragmented frame is handed over: the first fragment flagged, the rest continuing.\<close>

fun push_continuing :: "reassembler \<Rightarrow> bytes list \<Rightarrow> reassembler \<times> (u16 \<times> bytes) list" where
  "push_continuing r [] = (r, [])"
| "push_continuing r (c # cs) =
     (let (r', out) = reasm_push r kAclContinuing c; (r'', out') = push_continuing r' cs
      in (r'', out @ out'))"

fun push_fragments :: "reassembler \<Rightarrow> bytes list \<Rightarrow> reassembler \<times> (u16 \<times> bytes) list" where
  "push_fragments r [] = (r, [])"
| "push_fragments r (c # cs) =
     (let (r', out) = reasm_push r kAclFirstFlushable c; (r'', out') = push_continuing r' cs
      in (r'', out @ out'))"

lemma concat_fragment: "0 < m \<Longrightarrow> concat (fragment frame m) = frame"
  by (induction frame m rule: fragment.induct) (subst fragment.simps, auto)

lemma fragment_sizes: "c \<in> set (fragment frame m) \<Longrightarrow> c \<noteq> [] \<and> length c \<le> m"
proof (induction frame m rule: fragment.induct)
  case (1 frame m)
  show ?case
  proof (cases "m = 0 \<or> frame = []")
    case True
    with "1.prems" show ?thesis by (subst (asm) fragment.simps) auto
  next
    case False
    with "1.prems" consider "c = take m frame" | "c \<in> set (fragment (drop m frame) m)"
      by (subst (asm) fragment.simps) auto
    then show ?thesis using False "1.IH"[OF False] by cases auto
  qed
qed

lemma unat_len16: "length xs < 65536 \<Longrightarrow> unat (word_of_nat (length xs) :: u16) = length xs"
  by (simp add: unsigned_of_nat take_bit_nat_eq_self)

lemma get16_at_prefix: "Suc i < length p \<Longrightarrow> get16_at p i = get16_at (p @ q) i"
  by (simp add: get16_at_def nth_append)

lemma build_l2cap_fields:
  "length payload < 65536 \<Longrightarrow> unat (get16_at (build_l2cap cid payload) 0) = length payload"
  "get16_at (build_l2cap cid payload) 2 = cid"
  by (simp_all add: build_l2cap_def unat_len16 get16_at_put16_2)

lemma length_build_l2cap [simp]: "length (build_l2cap cid payload) = 4 + length payload"
  by (simp add: build_l2cap_def)

lemma parse_build_l2cap:
  "length payload < 65536 \<Longrightarrow> parse_l2cap (build_l2cap cid payload @ rest) = Some (cid, payload)"
  using build_l2cap_fields(1)[of payload cid] build_l2cap_fields(2)[of cid payload]
    get16_at_prefix[of 0 "build_l2cap cid payload" rest] get16_at_prefix[of 2 "build_l2cap cid payload" rest]
  by (simp add: parse_l2cap_def Let_def) (simp add: build_l2cap_def)

interpretation l2cap_frame: framed_codec "\<lambda>(cid, payload). build_l2cap cid payload" parse_l2cap
    "\<lambda>(cid, payload). length payload < 65536"
  by unfold_locales (auto simp: parse_build_l2cap)

lemma reasm_loop_partial:
  assumes "length payload < 65536" and "build_l2cap cid payload = b @ c" and "c \<noteq> []"
  shows "\<exists>e. reasm_loop b = (\<lparr>ra_buf = b, ra_expecting = e\<rparr>, [])"
proof (cases "length b < 4")
  case True
  then show ?thesis by (subst reasm_loop.simps) simp
next
  case False
  then have "get16_at b 0 = get16_at (build_l2cap cid payload) 0"
    using assms(2) get16_at_prefix[of 0 b c] by simp
  then have "unat (get16_at b 0) = length payload"
    using build_l2cap_fields(1)[OF assms(1)] by simp
  moreover have "length b < 4 + length payload"
    using arg_cong[OF assms(2), of length] assms(3) by (cases c) simp_all
  ultimately show ?thesis using False by (subst reasm_loop.simps) (simp add: Let_def)
qed

lemma reasm_loop_whole:
  assumes "length payload < 65536"
  shows "reasm_loop (build_l2cap cid payload) = (reasm_reset, [(cid, payload)])"
  using build_l2cap_fields(1)[OF assms, of cid] build_l2cap_fields(2)[of cid payload]
  by (subst reasm_loop.simps) (simp add: Let_def reasm_reset_def, simp add: build_l2cap_def)

lemma push_continuing_frame:
  assumes "length payload < 65536" and "\<forall>c \<in> set cs. c \<noteq> []" and "b \<noteq> []" and "cs \<noteq> []"
    and "build_l2cap cid payload = b @ concat cs"
  shows "push_continuing \<lparr>ra_buf = b, ra_expecting = e\<rparr> cs = (reasm_reset, [(cid, payload)])"
  using assms(2-)
proof (induction cs arbitrary: b e)
  case (Cons c cs)
  show ?case
  proof (cases "cs = []")
    case True
    with Cons.prems show ?thesis
      using reasm_loop_whole[OF assms(1), of cid] by (simp add: reasm_push_def)
  next
    case False
    then have "concat cs \<noteq> []" using Cons.prems(1) by (cases cs) auto
    then obtain e' where "reasm_loop (b @ c) = (\<lparr>ra_buf = b @ c, ra_expecting = e'\<rparr>, [])"
      using reasm_loop_partial[OF assms(1), of cid "b @ c" "concat cs"] Cons.prems by auto
    with False Cons.prems Cons.IH[of "b @ c" e'] show ?thesis by (simp add: reasm_push_def)
  qed
qed simp

lemma push_fragments_frame:
  assumes "length payload < 65536" and "0 < m"
  shows "push_fragments r (fragment (build_l2cap cid payload) m) = (reasm_reset, [(cid, payload)])"
proof -
  let ?f = "build_l2cap cid payload"
  have all: "concat (fragment ?f m) = ?f" and ne: "\<forall>c \<in> set (fragment ?f m). c \<noteq> []"
    using concat_fragment[OF assms(2)] fragment_sizes by blast+
  have "?f \<noteq> []" by (simp add: build_l2cap_def put16_def)
  with all obtain c cs where c: "fragment ?f m = c # cs" by (cases "fragment ?f m") auto
  have f: "?f = c @ concat cs" using all c by simp
  have first: "kAclFirstFlushable \<noteq> kAclContinuing" by (simp add: const_defs)
  show ?thesis
  proof (cases "cs = []")
    case True
    then have "?f = c" using f by simp
    with True c first reasm_loop_whole[OF assms(1), of cid] show ?thesis by (simp add: reasm_push_def)
  next
    case False
    then have "concat cs \<noteq> []" using ne c by (cases cs) auto
    then obtain e where "reasm_loop c = (\<lparr>ra_buf = c, ra_expecting = e\<rparr>, [])"
      using reasm_loop_partial[OF assms(1) f] by blast
    with first c push_continuing_frame[OF assms(1), of cs c cid e] ne f False show ?thesis
      by (simp add: reasm_push_def)
  qed
qed

text \<open>
  C28. A frame cut into fragments of any positive controller size and pushed into a
  reassembler, whatever half-assembled frame that reassembler was holding, comes out as
  exactly that channel and payload, and leaves nothing behind.
\<close>

theorem fragment_reassemble:
  assumes "length payload < 65536" and "0 < m"
  shows "push_fragments r (fragment (build_l2cap cid payload) m) = (reasm_reset, [(cid, payload)])"
  by (rule push_fragments_frame[OF assms])

theorem fragment_reassemble_witness:
  "push_fragments \<lparr>ra_buf = [9, 9, 9], ra_expecting = 0\<rparr> (fragment (build_l2cap 4 [1, 2, 3]) 2) =
     (reasm_reset, [(4, [1, 2, 3])])"
  using fragment_reassemble[of "[1, 2, 3]" 2] by simp

end
