(* ===== verification/AttClient.thy ===== *)
theory AttClient
  imports Att
begin

text \<open>
  The client half of the Attribute Protocol (\<open>src/att.h\<close>, \<open>src/att.cc\<close>): opcode and
  error names, request builders, and the parsers of responses and notifications.
  A parser that appends to its output as it walks a PDU returns the flag together
  with the entries appended so far, because a failure keeps them.
\<close>

section \<open>Opcodes, errors, declarations, properties\<close>

definition kErrorResponse :: byte where [const_defs]: "kErrorResponse = 0x01"
definition kExchangeMtuRequest :: byte where [const_defs]: "kExchangeMtuRequest = 0x02"
definition kExchangeMtuResponse :: byte where [const_defs]: "kExchangeMtuResponse = 0x03"
definition kFindInformationRequest :: byte where [const_defs]: "kFindInformationRequest = 0x04"
definition kFindInformationResponse :: byte where [const_defs]: "kFindInformationResponse = 0x05"
definition kFindByTypeValueRequest :: byte where [const_defs]: "kFindByTypeValueRequest = 0x06"
definition kFindByTypeValueResponse :: byte where [const_defs]: "kFindByTypeValueResponse = 0x07"
definition kReadByTypeRequest :: byte where [const_defs]: "kReadByTypeRequest = 0x08"
definition kReadByTypeResponse :: byte where [const_defs]: "kReadByTypeResponse = 0x09"
definition kReadRequest :: byte where [const_defs]: "kReadRequest = 0x0a"
definition kReadResponse :: byte where [const_defs]: "kReadResponse = 0x0b"
definition kReadBlobRequest :: byte where [const_defs]: "kReadBlobRequest = 0x0c"
definition kReadBlobResponse :: byte where [const_defs]: "kReadBlobResponse = 0x0d"
definition kReadByGroupTypeRequest :: byte where [const_defs]: "kReadByGroupTypeRequest = 0x10"
definition kReadByGroupTypeResponse :: byte where [const_defs]: "kReadByGroupTypeResponse = 0x11"
definition kWriteRequest :: byte where [const_defs]: "kWriteRequest = 0x12"
definition kWriteResponse :: byte where [const_defs]: "kWriteResponse = 0x13"
definition kWriteCommand :: byte where [const_defs]: "kWriteCommand = 0x52"
definition kHandleValueNotification :: byte where [const_defs]: "kHandleValueNotification = 0x1b"
definition kHandleValueIndication :: byte where [const_defs]: "kHandleValueIndication = 0x1d"
definition kHandleValueConfirmation :: byte where [const_defs]: "kHandleValueConfirmation = 0x1e"

definition kInvalidHandle :: byte where [const_defs]: "kInvalidHandle = 0x01"
definition kReadNotPermitted :: byte where [const_defs]: "kReadNotPermitted = 0x02"
definition kWriteNotPermitted :: byte where [const_defs]: "kWriteNotPermitted = 0x03"
definition kInvalidPdu :: byte where [const_defs]: "kInvalidPdu = 0x04"
definition kRequestNotSupported :: byte where [const_defs]: "kRequestNotSupported = 0x06"
definition kInvalidOffset :: byte where [const_defs]: "kInvalidOffset = 0x07"
definition kAttributeNotFound :: byte where [const_defs]: "kAttributeNotFound = 0x0a"
definition kUnsupportedGroupType :: byte where [const_defs]: "kUnsupportedGroupType = 0x10"

definition kDefaultMtu :: u16 where [const_defs]: "kDefaultMtu = 23"

definition kUuidPrimaryService :: u16 where [const_defs]: "kUuidPrimaryService = 0x2800"
definition kUuidSecondaryService :: u16 where [const_defs]: "kUuidSecondaryService = 0x2801"
definition kUuidCharacteristic :: u16 where [const_defs]: "kUuidCharacteristic = 0x2803"
definition kUuidCharUserDescription :: u16 where [const_defs]: "kUuidCharUserDescription = 0x2901"
definition kUuidClientCharConfig :: u16 where [const_defs]: "kUuidClientCharConfig = 0x2902"

definition kPropRead :: byte where [const_defs]: "kPropRead = 0x02"
definition kPropWriteWithoutResponse :: byte where [const_defs]: "kPropWriteWithoutResponse = 0x04"
definition kPropWrite :: byte where [const_defs]: "kPropWrite = 0x08"
definition kPropNotify :: byte where [const_defs]: "kPropNotify = 0x10"
definition kPropIndicate :: byte where [const_defs]: "kPropIndicate = 0x20"

definition error_table :: "(byte \<times> string) list" where
  "error_table =
    [(0x01, ''invalid handle''), (0x02, ''read not permitted''), (0x03, ''write not permitted''),
     (0x04, ''invalid PDU''), (0x05, ''insufficient authentication''),
     (0x06, ''request not supported''), (0x07, ''invalid offset''),
     (0x08, ''insufficient authorization''), (0x09, ''prepare queue full''),
     (0x0a, ''attribute not found''), (0x0b, ''attribute not long''),
     (0x0c, ''insufficient encryption key size''), (0x0d, ''invalid attribute value length''),
     (0x0e, ''unlikely error''), (0x0f, ''insufficient encryption''),
     (0x10, ''unsupported group type''), (0x11, ''insufficient resources'')]"

definition error_name :: "byte \<Rightarrow> string" where
  "error_name c = (case map_of error_table c of Some n \<Rightarrow> n | None \<Rightarrow> ''ATT error 0x'' @ hex2 c)"

definition att_opcode_table :: "(byte \<times> string) list" where
  "att_opcode_table =
    [(0x01, ''Error Response''), (0x02, ''Exchange MTU Request''), (0x03, ''Exchange MTU Response''),
     (0x04, ''Find Information Request''), (0x05, ''Find Information Response''),
     (0x06, ''Find By Type Value Request''), (0x07, ''Find By Type Value Response''),
     (0x08, ''Read By Type Request''), (0x09, ''Read By Type Response''),
     (0x0a, ''Read Request''), (0x0b, ''Read Response''), (0x0c, ''Read Blob Request''),
     (0x0d, ''Read Blob Response''), (0x0e, ''Read Multiple Request''),
     (0x0f, ''Read Multiple Response''), (0x10, ''Read By Group Type Request''),
     (0x11, ''Read By Group Type Response''), (0x12, ''Write Request''), (0x13, ''Write Response''),
     (0x52, ''Write Command''), (0x16, ''Prepare Write Request''),
     (0x17, ''Prepare Write Response''), (0x18, ''Execute Write Request''),
     (0x19, ''Execute Write Response''), (0x1b, ''Handle Value Notification''),
     (0x1d, ''Handle Value Indication''), (0x1e, ''Handle Value Confirmation'')]"

definition att_opcode_name :: "byte \<Rightarrow> string" where
  "att_opcode_name op =
     (case map_of att_opcode_table op of Some n \<Rightarrow> n | None \<Rightarrow> ''ATT opcode 0x'' @ hex2 op)"

definition property_table :: "(byte \<times> string) list" where
  "property_table =
    [(0x01, ''broadcast''), (0x02, ''read''), (0x04, ''write-nr''), (0x08, ''write''),
     (0x10, ''notify''), (0x20, ''indicate''), (0x40, ''signed-write''), (0x80, ''extended'')]"

definition properties_to_string :: "byte \<Rightarrow> string" where
  "properties_to_string props =
     foldl (\<lambda>out (m, s). if props AND m \<noteq> 0 then (if out = [] then s else out @ '','' @ s) else out)
       [] property_table"

section \<open>Requests\<close>

definition exchange_mtu_request :: "u16 \<Rightarrow> bytes" where
  "exchange_mtu_request mtu = kExchangeMtuRequest # put16 mtu"

definition find_information_request :: "u16 \<Rightarrow> u16 \<Rightarrow> bytes" where
  "find_information_request start stop = kFindInformationRequest # put16 start @ put16 stop"

definition read_by_group_type_request :: "u16 \<Rightarrow> u16 \<Rightarrow> uuid \<Rightarrow> bytes" where
  "read_by_group_type_request start stop type =
     kReadByGroupTypeRequest # put16 start @ put16 stop @ uuid_to_le type"

definition read_by_type_request :: "u16 \<Rightarrow> u16 \<Rightarrow> uuid \<Rightarrow> bytes" where
  "read_by_type_request start stop type =
     kReadByTypeRequest # put16 start @ put16 stop @ uuid_to_le type"

definition read_request :: "u16 \<Rightarrow> bytes" where
  "read_request handle = kReadRequest # put16 handle"

definition read_blob_request :: "u16 \<Rightarrow> u16 \<Rightarrow> bytes" where
  "read_blob_request handle offset = kReadBlobRequest # put16 handle @ put16 offset"

definition write_request :: "u16 \<Rightarrow> bytes \<Rightarrow> bytes" where
  "write_request handle value = kWriteRequest # put16 handle @ value"

definition write_command :: "u16 \<Rightarrow> bytes \<Rightarrow> bytes" where
  "write_command handle value = kWriteCommand # put16 handle @ value"

definition handle_value_confirmation :: bytes where
  "handle_value_confirmation = [kHandleValueConfirmation]"

section \<open>Responses\<close>

record error_response =
  er_request_opcode :: byte
  er_handle :: u16
  er_error :: byte

definition parse_error_response :: "bytes \<Rightarrow> error_response option" where
  "parse_error_response pdu =
     (if length pdu < 5 \<or> pdu ! 0 \<noteq> kErrorResponse then None
      else Some \<lparr>er_request_opcode = pdu ! 1, er_handle = get16_at pdu 2, er_error = pdu ! 4\<rparr>)"

definition parse_exchange_mtu_response :: "bytes \<Rightarrow> u16 option" where
  "parse_exchange_mtu_response pdu =
     (if length pdu < 3 \<or> pdu ! 0 \<noteq> kExchangeMtuResponse then None else Some (get16_at pdu 1))"

record service_range =
  sr_start :: u16
  sr_end :: u16
  sr_uuid :: uuid

text \<open>
  The loop \<open>for (off = 2; off + entry <= pdu.size(); off += entry)\<close> visits the blocks of
  width \<open>entry\<close> of the PDU past its two-byte header.
\<close>

definition service_entry :: "bytes \<Rightarrow> service_range option" where
  "service_entry b =
     (case uuid_from_le (drop 4 b) of None \<Rightarrow> None
      | Some u \<Rightarrow> Some \<lparr>sr_start = get16_at b 0, sr_end = get16_at b 2, sr_uuid = u\<rparr>)"

definition parse_read_by_group_type_response :: "bytes \<Rightarrow> bool \<times> service_range list" where
  "parse_read_by_group_type_response pdu =
     (if length pdu < 2 \<or> pdu ! 0 \<noteq> kReadByGroupTypeResponse then (False, [])
      else let entry = unat (pdu ! 1) in
        if entry \<noteq> 6 \<and> entry \<noteq> 20 then (False, [])
        else collect service_entry (blocks entry (drop 2 pdu)) [])"

record typed_value =
  tv_handle :: u16
  tv_value :: bytes

definition parse_read_by_type_response :: "bytes \<Rightarrow> bool \<times> typed_value list" where
  "parse_read_by_type_response pdu =
     (if length pdu < 2 \<or> pdu ! 0 \<noteq> kReadByTypeResponse then (False, [])
      else let entry = unat (pdu ! 1) in
        if entry < 3 then (False, [])
        else (True, map (\<lambda>b. \<lparr>tv_handle = get16_at b 0, tv_value = drop 2 b\<rparr>)
                      (blocks entry (drop 2 pdu))))"

record char_decl =
  cd_handle :: u16
  cd_properties :: byte
  cd_value_handle :: u16
  cd_uuid :: uuid

definition char_entry :: "typed_value \<Rightarrow> char_decl option" where
  "char_entry v =
     (if length (tv_value v) \<noteq> 5 \<and> length (tv_value v) \<noteq> 19 then None
      else case uuid_from_le (drop 3 (tv_value v)) of None \<Rightarrow> None
        | Some u \<Rightarrow> Some \<lparr>cd_handle = tv_handle v, cd_properties = tv_value v ! 0,
                          cd_value_handle = get16_at (tv_value v) 1, cd_uuid = u\<rparr>)"

definition parse_read_by_type_response_chars :: "bytes \<Rightarrow> bool \<times> char_decl list" where
  "parse_read_by_type_response_chars pdu =
     (case parse_read_by_type_response pdu of
        (False, _) \<Rightarrow> (False, [])
      | (True, raw) \<Rightarrow> collect char_entry raw [])"

record handle_uuid =
  hu_handle :: u16
  hu_uuid :: uuid

definition information_entry :: "bytes \<Rightarrow> handle_uuid option" where
  "information_entry b =
     (case uuid_from_le (drop 2 b) of None \<Rightarrow> None
      | Some u \<Rightarrow> Some \<lparr>hu_handle = get16_at b 0, hu_uuid = u\<rparr>)"

definition parse_find_information_response :: "bytes \<Rightarrow> bool \<times> handle_uuid list" where
  "parse_find_information_response pdu =
     (if length pdu < 2 \<or> pdu ! 0 \<noteq> kFindInformationResponse then (False, [])
      else let uuid_len = (if pdu ! 1 = 1 then 2 else if pdu ! 1 = 2 then 16 else 0) in
        if uuid_len = 0 then (False, [])
        else collect information_entry (blocks (2 + uuid_len) (drop 2 pdu)) [])"

definition parse_read_response :: "bytes \<Rightarrow> bytes option" where
  "parse_read_response pdu =
     (case pdu of [] \<Rightarrow> None
      | op # value \<Rightarrow> if op \<noteq> kReadResponse \<and> op \<noteq> kReadBlobResponse then None else Some value)"

record att_notification =
  nt_handle :: u16
  nt_value :: bytes
  nt_wants_confirmation :: bool

definition parse_notification :: "bytes \<Rightarrow> att_notification option" where
  "parse_notification pdu =
     (if length pdu < 3 \<or> (pdu ! 0 \<noteq> kHandleValueNotification \<and> pdu ! 0 \<noteq> kHandleValueIndication)
      then None
      else Some \<lparr>nt_handle = get16_at pdu 1, nt_value = drop 3 pdu,
                 nt_wants_confirmation = (pdu ! 0 = kHandleValueIndication)\<rparr>)"

section \<open>Reading a field past an opcode\<close>

lemma get16_at_Cons [simp]: "get16_at (x # p) (Suc i) = get16_at p i"
  by (simp add: get16_at_def)

lemma get16_at_1 [simp]: "get16_at (x # p) 1 = get16_at p 0"
  by (simp add: get16_at_def)

lemma get16_at_3 [simp]: "get16_at (x # p) 3 = get16_at p 2"
  by (simp add: get16_at_def numeral_eq_Suc)

lemma get16_at_5 [simp]: "get16_at (x # p) 5 = get16_at p 4"
  by (simp add: get16_at_def numeral_eq_Suc)

declare get16_at_put16_2 [simp]

lemma get16_at_put16_4 [simp]: "get16_at (put16 a @ put16 b @ put16 c @ rest) 4 = c"
  by (simp add: get16_at_def put16_def get16_of_put16)

lemma get16_at_put16_0 [simp]: "get16_at (put16 a) 0 = a"
  using get16_at_put16[of a "[]"] by simp

lemma get16_at_put16_2' [simp]: "get16_at (put16 a @ put16 b) 2 = b"
  using get16_at_put16_2[of a b "[]"] by simp

lemma drop_put16 [simp]: "drop 2 (put16 a @ rest) = rest" "drop 2 (put16 a) = []"
  "drop 4 (put16 a @ put16 b @ rest) = rest"
  by (simp_all add: put16_def)

end
