(* ===== verification/BoxMsg.thy ===== *)
theory BoxMsg
  imports Escape Framing
begin

text \<open>
  The box message layer (\<open>src/boxmsg.h\<close>, \<open>src/boxmsg.cc\<close>): a message is a verb
  and an ordered list of fields, one per line; \<open>LineReader\<close> turns a byte stream
  into whole lines and bounds what a peer can make it hold.

  \<open>decode_message\<close> returns the error text on the left or the message on the
  right; an encoder result of \<open>[]\<close> is the empty string the code returns for a
  verb that is not a bare token.
\<close>

section \<open>Messages\<close>

record message =
  msg_verb :: string
  msg_fields :: "(string \<times> string) list"

definition token_char :: "char \<Rightarrow> bool" where
  "token_char c \<longleftrightarrow>
     code CHR ''a'' \<le> code c \<and> code c \<le> code CHR ''z'' \<or>
     code CHR ''A'' \<le> code c \<and> code c \<le> code CHR ''Z'' \<or>
     code CHR ''0'' \<le> code c \<and> code c \<le> code CHR ''9'' \<or>
     c = CHR ''-'' \<or> c = CHR ''_'' \<or> c = CHR ''.''"

definition is_bare_token :: "string \<Rightarrow> bool" where
  "is_bare_token s \<longleftrightarrow> s \<noteq> [] \<and> list_all token_char s"

subsection \<open>Accessors\<close>

definition has_field :: "message \<Rightarrow> string \<Rightarrow> bool" where
  "has_field m k \<longleftrightarrow> list_ex (\<lambda>f. fst f = k) (msg_fields m)"

fun get_in :: "(string \<times> string) list \<Rightarrow> string \<Rightarrow> string \<Rightarrow> string" where
  "get_in [] k fallback = fallback"
| "get_in (f # fs) k fallback = (if fst f = k then snd f else get_in fs k fallback)"

definition get_field :: "message \<Rightarrow> string \<Rightarrow> string \<Rightarrow> string" where
  "get_field m k fallback = get_in (msg_fields m) k fallback"

definition all_fields :: "message \<Rightarrow> string \<Rightarrow> string list" where
  "all_fields m k = map snd (filter (\<lambda>f. fst f = k) (msg_fields m))"

fun set_in :: "(string \<times> string) list \<Rightarrow> string \<Rightarrow> string \<Rightarrow> (string \<times> string) list" where
  "set_in [] k v = [(k, v)]"
| "set_in (f # fs) k v = (if fst f = k then (fst f, v) # fs else f # set_in fs k v)"

definition set_field :: "message \<Rightarrow> string \<Rightarrow> string \<Rightarrow> message" where
  "set_field m k v = m\<lparr>msg_fields := set_in (msg_fields m) k v\<rparr>"

definition add_field :: "message \<Rightarrow> string \<Rightarrow> string \<Rightarrow> message" where
  "add_field m k v = m\<lparr>msg_fields := msg_fields m @ [(k, v)]\<rparr>"

definition set_bool :: "message \<Rightarrow> string \<Rightarrow> bool \<Rightarrow> message" where
  "set_bool m k b = set_field m k (if b then ''1'' else ''0'')"

text \<open>\<open>None\<close> is the \<open>false\<close> result that leaves the output alone.\<close>

definition get_bool :: "message \<Rightarrow> string \<Rightarrow> bool option" where
  "get_bool m k =
     (if \<not> has_field m k then None
      else let v = get_field m k [] in
        if v = ''1'' \<or> v = ''true'' \<or> v = ''yes'' \<or> v = ''on'' then Some True
        else if v = ''0'' \<or> v = ''false'' \<or> v = ''no'' \<or> v = ''off'' then Some False
        else None)"

subsection \<open>Integers\<close>

text \<open>
  \<open>std::snprintf("%lld")\<close> and \<open>std::strtoll(_, _, 10)\<close> as the code uses them:
  the parser skips white space, takes an optional sign and digits, saturates at
  the bounds of \<open>long long\<close>, and returns where it stopped (the start of the
  string when there were no digits).
\<close>

definition is_digit :: "char \<Rightarrow> bool" where
  "is_digit c \<longleftrightarrow> code CHR ''0'' \<le> code c \<and> code c \<le> code CHR ''9''"

definition digit_val :: "char \<Rightarrow> nat" where
  "digit_val c = code c - code CHR ''0''"

definition is_space :: "char \<Rightarrow> bool" where
  "is_space c \<longleftrightarrow> c = CHR '' '' \<or> 9 \<le> code c \<and> code c \<le> 13"

fun show_nat :: "nat \<Rightarrow> string" where
  "show_nat n = (if n < 10 then [char_of (48 + n)] else show_nat (n div 10) @ [char_of (48 + n mod 10)])"

declare show_nat.simps [simp del]

definition show_int :: "int \<Rightarrow> string" where
  "show_int i = (if i < 0 then CHR ''-'' # show_nat (nat (- i)) else show_nat (nat i))"

fun digits_value :: "nat \<Rightarrow> string \<Rightarrow> nat" where
  "digits_value acc [] = acc"
| "digits_value acc (c # s) = digits_value (10 * acc + digit_val c) s"

definition clamp_i64 :: "int \<Rightarrow> int" where
  "clamp_i64 i = max (- (2 ^ 63)) (min (2 ^ 63 - 1) i)"

definition strtoll :: "string \<Rightarrow> int \<times> string" where
  "strtoll s =
     (let t = dropWhile is_space s;
          (neg, u) = (case t of [] \<Rightarrow> (False, t)
                      | c # t' \<Rightarrow> if c = CHR ''-'' then (True, t')
                                 else if c = CHR ''+'' then (False, t') else (False, t));
          ds = takeWhile is_digit u in
      if ds = [] then (0, s)
      else (clamp_i64 (if neg then - int (digits_value 0 ds) else int (digits_value 0 ds)),
            dropWhile is_digit u))"

definition set_int :: "message \<Rightarrow> string \<Rightarrow> int \<Rightarrow> message" where
  "set_int m k v = set_field m k (show_int v)"

definition get_int :: "message \<Rightarrow> string \<Rightarrow> int option" where
  "get_int m k =
     (if \<not> has_field m k then None
      else let v = get_field m k [] in
        if v = [] then None
        else let (parsed, end) = strtoll (takeWhile (\<lambda>c. c \<noteq> CHR 0x00) v) in
          if end \<noteq> [] then None else Some parsed)"

subsection \<open>Encoding\<close>

definition encode_field :: "string \<times> string \<Rightarrow> string" where
  "encode_field f =
     (if is_bare_token (fst f) then CHR '' '' # fst f @ CHR ''='' # escape (snd f) else [])"

definition encode_message :: "message \<Rightarrow> string" where
  "encode_message m =
     (if \<not> is_bare_token (msg_verb m) then []
      else msg_verb m @ concat (map encode_field (msg_fields m)))"

subsection \<open>Decoding\<close>

definition strip_eol :: "string \<Rightarrow> string" where
  "strip_eol line = rev (dropWhile (\<lambda>c. c = CHR 0x0D \<or> c = CHR 0x0A) (rev line))"

abbreviation skip_spaces :: "string \<Rightarrow> string" where
  "skip_spaces \<equiv> dropWhile (\<lambda>c. c = CHR '' '')"

definition split_token :: "string \<Rightarrow> string \<times> string" where
  "split_token s = (takeWhile (\<lambda>c. c \<noteq> CHR '' '') s, dropWhile (\<lambda>c. c \<noteq> CHR '' '') s)"

definition decode_field :: "string \<Rightarrow> string + string \<times> string" where
  "decode_field token =
     (if CHR ''='' \<notin> set token then Inl (''a field has no '' @ [CHR 0x27, CHR ''='', CHR 0x27])
      else let key = takeWhile (\<lambda>c. c \<noteq> CHR ''='') token in
        if \<not> is_bare_token key then Inl ''a field key is not a bare token''
        else Inr (key, unescape (drop (Suc (length key)) token)))"

function decode_fields :: "string \<Rightarrow> (string \<times> string) list \<Rightarrow> string + (string \<times> string) list" where
  "decode_fields s acc =
     (let t = skip_spaces s in
      if t = [] then Inr acc
      else let (token, rest) = split_token t in
        case decode_field token of
          Inl e \<Rightarrow> Inl e
        | Inr f \<Rightarrow> decode_fields rest (acc @ [f]))"
  by pat_completeness auto
termination
proof (relation "measure (\<lambda>(s, acc). length s)", goal_cases)
  case (2 s acc t p token rest f)
  then obtain c t' where t: "t = c # t'" and "c \<noteq> CHR '' ''"
    by (metis (full_types) dropWhile_eq_Cons_conv list.exhaust)
  then have "length rest < length t"
    using 2 by (auto simp: split_token_def length_dropWhile_le less_Suc_eq_le)
  moreover have "length t \<le> length s" using 2 by (simp add: length_dropWhile_le)
  ultimately show ?case by simp
qed simp

declare decode_fields.simps [simp del]

definition decode_message :: "string \<Rightarrow> string + message" where
  "decode_message line =
     (let s = skip_spaces (strip_eol line) in
      if s = [] then Inl ''empty message''
      else let (v, rest) = split_token s in
        if \<not> is_bare_token v then Inl ''the verb is not a bare token''
        else case decode_fields rest [] of
            Inl e \<Rightarrow> Inl e
          | Inr fs \<Rightarrow> Inr \<lparr>msg_verb = v, msg_fields = fs\<rparr>)"

subsection \<open>The round trip\<close>

lemma token_char_code: "token_char c \<Longrightarrow> c \<noteq> CHR '' '' \<and> c \<noteq> CHR ''='' \<and> c \<noteq> CHR 0x0A \<and> c \<noteq> CHR 0x0D"
  by (auto simp: token_char_def)

lemma bare_no_space: "is_bare_token s \<Longrightarrow> c \<in> set s \<Longrightarrow> token_char c"
  by (simp add: is_bare_token_def list_all_iff)

lemma escape_chars: "c \<in> set (escape s) \<Longrightarrow> c \<noteq> CHR '' '' \<and> c \<noteq> CHR ''='' \<and> c \<noteq> CHR 0x0A \<and> c \<noteq> CHR 0x0D"
  by (drule escape_no_separator) auto

definition token_of :: "string \<times> string \<Rightarrow> string" where
  "token_of f = fst f @ CHR ''='' # escape (snd f)"

lemma token_of_no_space: "is_bare_token (fst f) \<Longrightarrow> c \<in> set (token_of f) \<Longrightarrow> c \<noteq> CHR '' ''"
  by (auto simp: token_of_def dest: bare_no_space token_char_code escape_chars)

lemma decode_field_token_of:
  assumes "is_bare_token (fst f)"
  shows "decode_field (token_of f) = Inr (fst f, filter (\<lambda>c. c \<noteq> CHR 0x00) (snd f))"
proof -
  have "takeWhile (\<lambda>c. c \<noteq> CHR ''='') (token_of f) = fst f"
    using assms unfolding token_of_def
    by (subst takeWhile_append2) (auto dest: bare_no_space token_char_code)
  then show ?thesis
    using assms by (simp add: decode_field_def token_of_def unescape_escape Let_def)
qed

text \<open>What is left of a field list once it has been through the wire.\<close>

definition wire_fields :: "(string \<times> string) list \<Rightarrow> (string \<times> string) list" where
  "wire_fields fs =
     map (\<lambda>f. (fst f, filter (\<lambda>c. c \<noteq> CHR 0x00) (snd f))) (filter (\<lambda>f. is_bare_token (fst f)) fs)"

lemma split_token_prefix:
  assumes "\<forall>c \<in> set s. c \<noteq> CHR '' ''" and "rest = [] \<or> hd rest = CHR '' ''"
  shows "split_token (s @ rest) = (s, rest)"
  using assms by (cases rest) (auto simp: split_token_def takeWhile_append2 dropWhile_append2)

lemma encoded_fields_head:
  "concat (map encode_field fs) = [] \<or> hd (concat (map encode_field fs)) = CHR '' ''"
  by (induction fs) (auto simp: encode_field_def)

lemma decode_encoded_fields:
  "decode_fields (concat (map encode_field fs)) acc = Inr (acc @ wire_fields fs)"
proof (induction fs arbitrary: acc)
  case Nil
  show ?case by (subst decode_fields.simps) (simp add: wire_fields_def)
next
  case (Cons f fs)
  show ?case
  proof (cases "is_bare_token (fst f)")
    case False
    then show ?thesis using Cons.IH by (simp add: encode_field_def wire_fields_def)
  next
    case True
    let ?rest = "concat (map encode_field fs)"
    have enc: "concat (map encode_field (f # fs)) = CHR '' '' # token_of f @ ?rest"
      using True by (simp add: encode_field_def token_of_def)
    obtain c t where tok: "token_of f = c # t"
      by (cases "token_of f") (auto simp: token_of_def)
    have c: "c \<noteq> CHR '' ''" using token_of_no_space[OF True, of c] tok by simp
    have "split_token (token_of f @ ?rest) = (token_of f, ?rest)"
      by (rule split_token_prefix[OF _ encoded_fields_head]) (auto dest: token_of_no_space[OF True])
    then have "decode_fields (CHR '' '' # token_of f @ ?rest) acc =
        decode_fields ?rest (acc @ [(fst f, filter (\<lambda>c. c \<noteq> CHR 0x00) (snd f))])"
      using tok c decode_field_token_of[OF True] by (subst decode_fields.simps) simp
    then show ?thesis unfolding enc using Cons.IH True by (simp add: wire_fields_def)
  qed
qed

lemma encode_no_newline:
  "c \<in> set (encode_message m) \<Longrightarrow> c \<noteq> CHR 0x0A \<and> c \<noteq> CHR 0x0D"
  by (auto simp: encode_message_def encode_field_def
      dest: bare_no_space token_char_code escape_chars split: if_splits)

lemma strip_eol_append:
  assumes e: "\<forall>c \<in> set e. c = CHR 0x0D \<or> c = CHR 0x0A"
    and s: "\<forall>c \<in> set s. c \<noteq> CHR 0x0A \<and> c \<noteq> CHR 0x0D"
  shows "strip_eol (s @ e) = s"
proof -
  have "\<forall>c \<in> set (rev s). c \<noteq> CHR 0x0A \<and> c \<noteq> CHR 0x0D" using s by simp
  then have "dropWhile (\<lambda>c. c = CHR 0x0D \<or> c = CHR 0x0A) (rev s) = rev s"
    by (cases "rev s") auto
  moreover have "dropWhile (\<lambda>c. c = CHR 0x0D \<or> c = CHR 0x0A) (rev e @ rev s) =
      dropWhile (\<lambda>c. c = CHR 0x0D \<or> c = CHR 0x0A) (rev s)"
    by (rule dropWhile_append2) (use e in auto)
  ultimately show ?thesis by (simp add: strip_eol_def)
qed

text \<open>
  C4. Encoding then decoding, for every message whatever its bytes: a verb that is
  not a bare token is refused at both ends; otherwise exactly the fields with a bare
  key come back, in order and with repeats, their values less any NUL bytes, and any
  trailing run of CR and LF makes no difference.
\<close>

theorem decode_encode_message:
  assumes e: "set e \<subseteq> {CHR 0x0D, CHR 0x0A}"
  shows "decode_message (encode_message m @ e) =
     (if is_bare_token (msg_verb m) then Inr \<lparr>msg_verb = msg_verb m, msg_fields = wire_fields (msg_fields m)\<rparr>
      else Inl ''empty message'')"
proof -
  have strip: "strip_eol (encode_message m @ e) = encode_message m"
    using e by (intro strip_eol_append) (auto dest: encode_no_newline)
  show ?thesis
  proof (cases "is_bare_token (msg_verb m)")
    case False
    with strip show ?thesis by (simp add: decode_message_def encode_message_def)
  next
    case True
    let ?rest = "concat (map encode_field (msg_fields m))"
    have v: "\<forall>c \<in> set (msg_verb m). c \<noteq> CHR '' ''"
      using True by (auto dest: bare_no_space token_char_code)
    obtain c t where vc: "msg_verb m = c # t" and "c \<noteq> CHR '' ''"
      using True v by (cases "msg_verb m") (auto simp: is_bare_token_def)
    moreover have "split_token (msg_verb m @ ?rest) = (msg_verb m, ?rest)"
      by (rule split_token_prefix[OF v encoded_fields_head])
    ultimately show ?thesis
      using True strip decode_encoded_fields[of "msg_fields m" "[]"]
      by (simp add: decode_message_def encode_message_def)
  qed
qed

theorem decode_encode_message_witness:
  "decode_message (encode_message \<lparr>msg_verb = ''dev'', msg_fields = [(''id'', ''a b''), (''x'', '''')]\<rparr> @ [CHR 0x0D])
     = Inr \<lparr>msg_verb = ''dev'', msg_fields = [(''id'', ''a b''), (''x'', '''')]\<rparr>"
  using decode_encode_message[of "[CHR 0x0D]" "\<lparr>msg_verb = ''dev'', msg_fields = [(''id'', ''a b''), (''x'', '''')]\<rparr>"]
  by (simp add: wire_fields_def is_bare_token_def token_char_def)

subsection \<open>Numbers survive the trip\<close>

lemma digit_char: "d < 10 \<Longrightarrow> is_digit (char_of (48 + d)) \<and> digit_val (char_of (48 + d)) = d"
proof -
  assume "d < 10"
  then have "d \<in> set [0..<10]" by simp
  moreover have "\<forall>d \<in> set [0..<10]. is_digit (char_of (48 + d)) \<and> digit_val (char_of (48 + d)) = d"
    by code_simp
  ultimately show ?thesis by blast
qed

lemma digits_value_append: "digits_value acc (xs @ ys) = digits_value (digits_value acc xs) ys"
  by (induction xs arbitrary: acc) auto

lemma show_nat_digits: "\<forall>c \<in> set (show_nat n). is_digit c"
proof (induction n rule: show_nat.induct)
  case (1 n)
  then show ?case by (subst show_nat.simps) (auto simp: digit_char)
qed

lemma show_nat_value: "digits_value 0 (show_nat n) = n"
proof (induction n rule: show_nat.induct)
  case (1 n)
  show ?case
  proof (cases "n < 10")
    case True
    then show ?thesis by (subst show_nat.simps) (simp add: digit_char)
  next
    case False
    with 1 have "digits_value 0 (show_nat (n div 10)) = n div 10" by blast
    with False show ?thesis
      by (subst show_nat.simps) (simp add: digits_value_append digit_char)
  qed
qed

lemma show_nat_ne: "show_nat n \<noteq> []"
  by (subst show_nat.simps) simp

lemma digit_not_sign: "is_digit c \<Longrightarrow> \<not> is_space c \<and> c \<noteq> CHR ''-'' \<and> c \<noteq> CHR ''+'' \<and> c \<noteq> CHR 0x00"
  by (auto simp: is_digit_def is_space_def)

lemma show_nat_span:
  "takeWhile is_digit (show_nat n) = show_nat n" "dropWhile is_digit (show_nat n) = []"
  using show_nat_digits by (auto simp: takeWhile_eq_all_conv)

lemma show_nat_head: "\<exists>c t. show_nat n = c # t \<and> is_digit c"
  using show_nat_ne[of n] show_nat_digits[of n] by (cases "show_nat n") auto

lemma strtoll_pos: "int n < 2 ^ 63 \<Longrightarrow> strtoll (show_nat n) = (int n, [])"
proof -
  assume n: "int n < 2 ^ 63"
  obtain c t where ct: "show_nat n = c # t" and c: "is_digit c" using show_nat_head by blast
  have "dropWhile is_space (show_nat n) = show_nat n" using ct digit_not_sign[OF c] by simp
  moreover have "(case show_nat n of [] \<Rightarrow> (False, show_nat n)
      | c # t' \<Rightarrow> if c = CHR ''-'' then (True, t') else if c = CHR ''+'' then (False, t') else (False, show_nat n))
      = (False, show_nat n)" using ct digit_not_sign[OF c] by simp
  ultimately show ?thesis using n
    by (simp add: strtoll_def show_nat_span show_nat_value show_nat_ne Let_def clamp_i64_def)
qed

lemma strtoll_neg: "int n \<le> 2 ^ 63 \<Longrightarrow> strtoll (CHR ''-'' # show_nat n) = (- int n, [])"
proof -
  assume n: "int n \<le> 2 ^ 63"
  have "\<not> is_space CHR ''-''" by (simp add: is_space_def)
  then show ?thesis using n
    by (simp add: strtoll_def show_nat_span show_nat_value show_nat_ne Let_def clamp_i64_def)
qed

lemma strtoll_show_int: "- (2 ^ 63) \<le> i \<Longrightarrow> i < 2 ^ 63 \<Longrightarrow> strtoll (show_int i) = (i, [])"
  using strtoll_pos[of "nat i"] strtoll_neg[of "nat (- i)"] by (simp add: show_int_def)

lemma get_in_set_in: "get_in (set_in fs k v) k' d = (if k' = k then v else get_in fs k' d)"
  by (induction fs) auto

lemma has_set_field: "has_field (set_field m k v) k' \<longleftrightarrow> k' = k \<or> has_field m k'"
proof -
  have "list_ex (\<lambda>f. fst f = k') (set_in fs k v) \<longleftrightarrow> k' = k \<or> list_ex (\<lambda>f. fst f = k') fs" for fs
    by (induction fs) auto
  then show ?thesis by (simp add: has_field_def set_field_def)
qed

lemma get_set_field: "get_field (set_field m k v) k' d = (if k' = k then v else get_field m k' d)"
  by (simp add: get_field_def set_field_def get_in_set_in)

lemma show_int_no_nul: "takeWhile (\<lambda>c. c \<noteq> CHR 0x00) (show_int i) = show_int i"
  using show_nat_digits digit_not_sign
  by (fastforce simp: takeWhile_eq_all_conv show_int_def)

text \<open>
  A 64-bit integer put into a message comes back out of it, and setting one
  field leaves the integers read from every other field as they were.
\<close>

theorem get_int_set_int:
  assumes "- (2 ^ 63) \<le> v" and "v < 2 ^ 63"
  shows "get_int (set_int m k v) k' = (if k' = k then Some v else get_int m k')"
proof (cases "k' = k")
  case True
  have "show_int v \<noteq> []" by (simp add: show_int_def show_nat_ne)
  with True strtoll_show_int[OF assms] show ?thesis
    by (simp add: get_int_def set_int_def has_set_field get_set_field show_int_no_nul)
next
  case False
  then show ?thesis by (simp add: get_int_def set_int_def has_set_field get_set_field)
qed

theorem get_int_set_int_witness:
  "get_int (set_int \<lparr>msg_verb = ''v'', msg_fields = [(''b'', ''7'')]\<rparr> ''a'' (-12)) ''a'' = Some (-12)"
  using get_int_set_int[of "-12" "\<lparr>msg_verb = ''v'', msg_fields = [(''b'', ''7'')]\<rparr>" "''a''" "''a''"]
  by simp

section \<open>Lines out of a byte stream\<close>

record line_reader =
  lr_buf :: string
  lr_dropping :: bool

definition kMaxLine :: nat where
  "kMaxLine = 4096"

definition line_reset :: line_reader where
  "line_reset = \<lparr>lr_buf = [], lr_dropping = False\<rparr>"

text \<open>
  One byte of \<open>LineReader::feed\<close>.  A completed line is \<open>Whole\<close>; \<open>Dropped\<close> is the
  point at which the code sets its local \<open>dropped\<close> flag.
\<close>

datatype line_event = Whole string | Dropped

definition line_step :: "line_reader \<Rightarrow> char \<Rightarrow> line_reader \<times> line_event list" where
  "line_step s c =
     (if c = CHR 0x0A then
        (\<lparr>lr_buf = [], lr_dropping = False\<rparr>, [if lr_dropping s then Dropped else Whole (lr_buf s)])
      else if lr_dropping s then (s, [])
      else if kMaxLine \<le> length (lr_buf s) then (\<lparr>lr_buf = [], lr_dropping = True\<rparr>, [])
      else (s\<lparr>lr_buf := lr_buf s @ [c]\<rparr>, []))"

definition line_events :: "line_reader \<Rightarrow> string \<Rightarrow> line_reader \<times> line_event list" where
  "line_events = step_all line_step"

fun lines_of :: "line_event list \<Rightarrow> string list" where
  "lines_of [] = []"
| "lines_of (Whole l # es) = l # lines_of es"
| "lines_of (Dropped # es) = lines_of es"

text \<open>The call itself: the new state, the lines appended, and \<open>!dropped\<close>.\<close>

definition line_feed :: "line_reader \<Rightarrow> string \<Rightarrow> line_reader \<times> string list \<times> bool" where
  "line_feed s data = (let (s', es) = line_events s data in (s', lines_of es, Dropped \<notin> set es))"

definition line_ok :: "line_reader \<Rightarrow> bool" where
  "line_ok s \<longleftrightarrow> length (lr_buf s) \<le> kMaxLine \<and> (lr_dropping s \<longrightarrow> lr_buf s = [])"

lemma line_ok_reset: "line_ok line_reset"
  by (simp add: line_ok_def line_reset_def)

lemma line_step_ok: "line_ok s \<Longrightarrow> line_ok (fst (line_step s c))"
  by (auto simp: line_ok_def line_step_def)

interpretation line_input: incremental line_events line_ok
  unfolding line_events_def
  by unfold_locales
    (simp_all add: step_all_append step_all_invariant[of line_ok] line_step_ok)

lemma line_events_fill:
  assumes "CHR 0x0A \<notin> set l" and "\<not> lr_dropping s" and "length (lr_buf s) + length l \<le> kMaxLine"
  shows "line_events s l = (s\<lparr>lr_buf := lr_buf s @ l\<rparr>, [])"
  using assms
proof (induction l arbitrary: s)
  case (Cons c l)
  then show ?case by (force simp: line_events_def line_step_def)
qed (simp add: line_events_def)

lemma line_events_skip:
  "CHR 0x0A \<notin> set l \<Longrightarrow> lr_dropping s \<Longrightarrow> line_events s l = (s, [])"
  by (induction l) (auto simp: line_events_def line_step_def)

lemma line_events_one:
  assumes l: "CHR 0x0A \<notin> set l"
  shows "line_events line_reset (l @ [CHR 0x0A]) =
    (line_reset, [if length l \<le> kMaxLine then Whole l else Dropped])"
proof (cases "length l \<le> kMaxLine")
  case True
  have "line_events line_reset l = (line_reset\<lparr>lr_buf := l\<rparr>, [])"
    using line_events_fill[OF l, of line_reset] True by (simp add: line_reset_def)
  with True show ?thesis
    using line_input.step_append[OF line_ok_reset, of l "[CHR 0x0A]"]
    by (simp add: line_events_def line_step_def line_reset_def)
next
  case False
  let ?head = "take kMaxLine l" and ?x = "l ! kMaxLine" and ?tail = "drop (Suc kMaxLine) l"
  have split: "l = ?head @ ?x # ?tail" using False by (simp add: id_take_nth_drop)
  then have no: "CHR 0x0A \<notin> set ?head" "?x \<noteq> CHR 0x0A" "CHR 0x0A \<notin> set ?tail"
    using l by (metis Un_iff list.set_intros set_append)+
  have full: "line_events line_reset ?head = (line_reset\<lparr>lr_buf := ?head\<rparr>, [])"
    using line_events_fill[OF no(1), of line_reset] by (simp add: line_reset_def)
  have over: "line_events (line_reset\<lparr>lr_buf := ?head\<rparr>) (?x # ?tail @ [CHR 0x0A]) = (line_reset, [Dropped])"
    using line_events_skip[OF no(3), of "\<lparr>lr_buf = [], lr_dropping = True\<rparr>"] no(2) False
    by (simp add: line_events_def line_step_def line_reset_def step_all_append)
  have "line_events line_reset (?head @ ?x # ?tail @ [CHR 0x0A]) = (line_reset, [Dropped])"
    using line_input.step_append[OF line_ok_reset, of ?head "?x # ?tail @ [CHR 0x0A]"] full over by simp
  then show ?thesis using False split by (metis append.assoc append_Cons)
qed

lemma line_events_lines:
  "\<forall>l \<in> set ls. CHR 0x0A \<notin> set l \<Longrightarrow>
   line_events line_reset (concat (map (\<lambda>l. l @ [CHR 0x0A]) ls)) =
     (line_reset, map (\<lambda>l. if length l \<le> kMaxLine then Whole l else Dropped) ls)"
proof (induction ls)
  case (Cons l ls)
  then show ?case
    using line_input.step_append[OF line_ok_reset, of "l @ [CHR 0x0A]"] line_events_one[of l] by simp
qed (simp add: line_events_def)

text \<open>
  However a stream of lines is cut into reads, a fresh reader delivers every
  line of at most \<open>kMaxLine\<close> bytes intact and in order, reports each longer one once
  in its place, and is back in its initial state at the end: an over-long line never
  costs its successors anything.
\<close>

theorem line_reader_delivers:
  assumes "\<forall>l \<in> set ls. CHR 0x0A \<notin> set l"
    and "concat cs = concat (map (\<lambda>l. l @ [CHR 0x0A]) ls)"
  shows "feed_chunks line_events line_reset cs =
    (line_reset, map (\<lambda>l. if length l \<le> kMaxLine then Whole l else Dropped) ls)"
  using line_input.feed_concat[OF line_ok_reset, of cs] line_events_lines[OF assms(1)] assms(2)
  by simp

theorem line_reader_delivers_witness:
  "feed_chunks line_events line_reset [''a'', ''b'' @ [CHR 0x0A] @ ''c'', [CHR 0x0A]] =
     (line_reset, [Whole ''ab'', Whole ''c''])"
  using line_reader_delivers[of "[''ab'', ''c'']" "[''a'', ''b'' @ [CHR 0x0A] @ ''c'', [CHR 0x0A]]"]
  by (simp add: kMaxLine_def)

text \<open>
  Whatever a peer sends, in whatever pieces, the reader never holds more than
  \<open>kMaxLine\<close> bytes, and holds none at all while it is discarding an over-long line.
\<close>

theorem line_reader_bounded:
  "let r = fst (feed_chunks line_events line_reset cs)
   in if lr_dropping r then lr_buf r = [] else length (lr_buf r) \<le> kMaxLine"
  using line_input.feed_good[OF line_ok_reset, of cs] by (simp add: line_ok_def Let_def)

end
