(* ===== verification/Store.thy ===== *)
theory Store
  imports Main
begin

text \<open>
  The interface of a store of values by key, for the components that keep one: the
  fields of a message, the attribute table of a GATT server, a device database.  A key
  may be refused (an attribute that does not exist), so the laws hold for keys a store
  accepts, and no write changes which keys those are.
\<close>

locale keyed_store =
  fixes get :: "'s \<Rightarrow> 'k \<Rightarrow> 'v option"
    and put :: "'s \<Rightarrow> 'k \<Rightarrow> 'v \<Rightarrow> 's"
    and accepts :: "'s \<Rightarrow> 'k \<Rightarrow> bool"
  assumes get_put: "accepts s k \<Longrightarrow> get (put s k v) k = Some v"
    and get_put_other: "k \<noteq> k' \<Longrightarrow> get (put s k v) k' = get s k'"
    and accepts_put: "accepts (put s k v) k' = accepts s k'"
begin

definition put_all :: "'s \<Rightarrow> ('k \<times> 'v) list \<Rightarrow> 's" where
  "put_all s kvs = foldl (\<lambda>s (k, v). put s k v) s kvs"

lemma put_all_simps [simp]:
  "put_all s [] = s"
  "put_all s (kv # kvs) = put_all (put s (fst kv) (snd kv)) kvs"
  by (simp_all add: put_all_def case_prod_beta)

lemma accepts_put_all: "accepts (put_all s kvs) k = accepts s k"
  by (induction kvs arbitrary: s) (simp_all add: accepts_put)

text \<open>After any sequence of writes a key holds the last value written to it.\<close>

lemma get_put_all:
  "accepts s k \<Longrightarrow>
   get (put_all s kvs) k = (case map_of (rev kvs) k of Some v \<Rightarrow> Some v | None \<Rightarrow> get s k)"
proof (induction kvs arbitrary: s)
  case (Cons kv kvs)
  have "accepts (put s (fst kv) (snd kv)) k" using Cons.prems by (simp add: accepts_put)
  from Cons.IH[OF this] show ?case
    using Cons.prems get_put[of s k "snd kv"] get_put_other[of "fst kv" k s "snd kv"]
    by (cases kv) (auto simp: map_add_def split: option.splits)
qed simp

end

end
