(* ===== verification/Ordmap.thy ===== *)
theory Ordmap
  imports Store "HOL-Library.List_Lexorder" "HOL-Library.Char_ord"
begin

text \<open>
  \<open>std::map\<close>: an association list kept in the order of its keys, so that iterating is
  walking the list.  Strings are ordered as \<open>std::string\<close> orders them, by unsigned
  characters from the left.
\<close>

type_synonym ('k, 'v) omap = "('k \<times> 'v) list"

definition om_ok :: "('k :: linorder, 'v) omap \<Rightarrow> bool" where
  "om_ok m = (sorted (map fst m) \<and> distinct (map fst m))"

abbreviation om_get :: "('k, 'v) omap \<Rightarrow> 'k \<Rightarrow> 'v option" where
  "om_get m k \<equiv> map_of m k"

fun om_put :: "('k :: linorder, 'v) omap \<Rightarrow> 'k \<Rightarrow> 'v \<Rightarrow> ('k, 'v) omap" where
  "om_put [] k v = [(k, v)]"
| "om_put ((k', v') # m) k v =
     (if k = k' then (k, v) # m else if k < k' then (k, v) # (k', v') # m
      else (k', v') # om_put m k v)"

definition om_del :: "('k, 'v) omap \<Rightarrow> 'k \<Rightarrow> ('k, 'v) omap" where
  "om_del m k = filter (\<lambda>e. fst e \<noteq> k) m"

definition om_map :: "('v \<Rightarrow> 'w) \<Rightarrow> ('k, 'v) omap \<Rightarrow> ('k, 'w) omap" where
  "om_map f m = map (\<lambda>(k, v). (k, f v)) m"

lemma om_get_put: "om_get (om_put m k v) k' = (if k' = k then Some v else om_get m k')"
  by (induction m k v rule: om_put.induct) auto

lemma om_get_del: "om_get (om_del m k) k' = (if k' = k then None else om_get m k')"
  unfolding om_del_def by (induction m) auto

lemma om_get_map: "om_get (om_map f m) k = map_option f (om_get m k)"
  unfolding om_map_def by (induction m) auto

lemma om_get_filter:
  "om_get (filter (\<lambda>e. P (fst e) (snd e)) m) k =
     (case om_get m k of None \<Rightarrow> None | Some v \<Rightarrow> if P k v then Some v else None)" if "om_ok m"
  using that by (induction m) (auto simp: om_ok_def map_of_eq_None_iff split: option.splits if_splits)

lemma keys_put: "fst ` set (om_put m k v) = insert k (fst ` set m)"
  by (induction m k v rule: om_put.induct) auto

lemma om_ok_put: "om_ok m \<Longrightarrow> om_ok (om_put m k v)"
proof (induction m k v rule: om_put.induct)
  case (2 k' v' m k v)
  have s: "set (map fst (om_put m k v)) = insert k (set (map fst m))" using keys_put[of m k v] by simp
  show ?case using 2 s by (auto simp: om_ok_def)
qed (simp add: om_ok_def)

lemma om_ok_filter: "om_ok m \<Longrightarrow> om_ok (filter P m)"
  unfolding om_ok_def by (induction m) auto

lemma om_ok_del: "om_ok m \<Longrightarrow> om_ok (om_del m k)"
  unfolding om_del_def by (rule om_ok_filter)

lemma om_ok_map: "om_ok (om_map f m) = om_ok m"
proof -
  have "map fst (om_map f m) = map fst m" unfolding om_map_def by (induction m) auto
  then show ?thesis by (simp only: om_ok_def)
qed

lemma om_ok_nil [simp]: "om_ok []" by (simp add: om_ok_def)

lemma om_put_snoc: "\<forall>e \<in> set m. fst e < k \<Longrightarrow> om_put m k v = m @ [(k, v)]"
  by (induction m) auto

lemma om_get_in: "om_ok m \<Longrightarrow> (om_get m k = Some v) = ((k, v) \<in> set m)"
  by (simp add: om_ok_def map_of_eq_Some_iff)

lemma om_put_values: "(\<And>v. v \<in> snd ` set m \<Longrightarrow> P v) \<Longrightarrow> P v \<Longrightarrow> v' \<in> snd ` set (om_put m k v) \<Longrightarrow> P v'"
  by (induction m k v rule: om_put.induct) (auto split: if_splits)

interpretation ordmap: keyed_store om_get om_put "\<lambda>_ _. True"
  by unfold_locales (simp_all add: om_get_put)

end
