(* ===== verification/HciLink.thy ===== *)
theory HciLink
  imports HciPackets AttClient BoxMsg Ordmap
begin

text \<open>
  The HCI host of \<open>hcilink.cc\<close>: the commands in flight and waiting, the connections,
  the controller's ACL buffers, the ATT request outstanding on each connection, and the
  connection and encryption procedures.

  A handler the program installed or passed is a token of the type variable \<open>'u\<close>; calling
  it appends what it was called with to the record of what the link did, together with every
  packet handed to the port.  What a handler does in turn is a later operation.  The closures
  the link itself hangs on its commands are values of the datatypes \<open>completion\<close>, \<open>seq_done\<close> and
  \<open>cmd_done\<close>, with what they capture as arguments.  The port is the function saying whether its
  \<open>n\<close>-th write is accepted.  Work put on the loop by \<open>defer\<close> is a queue.
\<close>

section \<open>Opcodes\<close>

definition kOpDisconnect :: u16 where [const_defs]: "kOpDisconnect = 0x0406"
definition kOpReset :: u16 where [const_defs]: "kOpReset = 0x0c03"
definition kOpSetEventMask :: u16 where [const_defs]: "kOpSetEventMask = 0x0c01"
definition kOpReadLocalVersion :: u16 where [const_defs]: "kOpReadLocalVersion = 0x1001"
definition kOpReadBdAddr :: u16 where [const_defs]: "kOpReadBdAddr = 0x1009"
definition kOpLeSetEventMask :: u16 where [const_defs]: "kOpLeSetEventMask = 0x2001"
definition kOpLeReadBufferSize :: u16 where [const_defs]: "kOpLeReadBufferSize = 0x2002"
definition kOpLeSetRandomAddress :: u16 where [const_defs]: "kOpLeSetRandomAddress = 0x2005"
definition kOpLeSetAdvParams :: u16 where [const_defs]: "kOpLeSetAdvParams = 0x2006"
definition kOpLeSetAdvData :: u16 where [const_defs]: "kOpLeSetAdvData = 0x2008"
definition kOpLeSetScanResponseData :: u16 where [const_defs]: "kOpLeSetScanResponseData = 0x2009"
definition kOpLeSetAdvEnable :: u16 where [const_defs]: "kOpLeSetAdvEnable = 0x200a"
definition kOpLeSetScanParams :: u16 where [const_defs]: "kOpLeSetScanParams = 0x200b"
definition kOpLeSetScanEnable :: u16 where [const_defs]: "kOpLeSetScanEnable = 0x200c"
definition kOpLeCreateConnection :: u16 where [const_defs]: "kOpLeCreateConnection = 0x200d"
definition kOpLeCreateConnectionCancel :: u16 where [const_defs]: "kOpLeCreateConnectionCancel = 0x200e"
definition kOpLeRand :: u16 where [const_defs]: "kOpLeRand = 0x2018"
definition kOpLeStartEncryption :: u16 where [const_defs]: "kOpLeStartEncryption = 0x2019"
definition kOpLeLtkRequestNegReply :: u16 where [const_defs]: "kOpLeLtkRequestNegReply = 0x201b"
definition kSuccess :: byte where [const_defs]: "kSuccess = 0x00"
definition kPinOrKeyMissing :: byte where [const_defs]: "kPinOrKeyMissing = 0x06"
definition kAdvInd :: byte where [const_defs]: "kAdvInd = 0x00"
definition kMaxQueuedFragments :: nat where [const_defs]: "kMaxQueuedFragments = 64"

section \<open>State\<close>

record conn =
  cn_handle :: u16
  cn_peer :: address
  cn_role :: byte

record adv_config =
  ac_adv_data :: bytes
  ac_scan_response :: bytes
  ac_type :: byte
  ac_interval_ms :: real

datatype 'u completion = NoDone | UserDone 'u | ConnectNext address real

datatype 'u seq_done =
    ScanStarted "'u completion" | ScanStopped "'u completion" | AdvStarted "'u completion" | AdvStopped "'u completion"

datatype 'u cmd_done =
    NoCmd
  | UserCmd 'u
  | InitReset | InitEventMask | InitLeMask | InitVersion | InitBuffers | InitAddress | InitRandom
  | InitSetAddress address
  | NextStep "(u16 \<times> bytes) list" "'u seq_done"
  | ConnectSent real
  | EncryptSent real

datatype 'u deferred =
    DeferDone "'u completion" bool string
  | DeferCmd "'u cmd_done"
  | DeferConnect 'u string
  | DeferResponse 'u string

datatype 'u action =
    Wrote bytes
  | CmdCalled 'u bool command_complete string
  | DoneCalled 'u bool string
  | ConnectCalled 'u bool u16 string
  | ResponseCalled 'u bool bytes string
  | ClosedCalled 'u string
  | EventSeen 'u event
  | AdvSeen 'u adv_report
  | ConnectedSeen 'u conn
  | DisconnectedSeen 'u u16 byte
  | L2capSeen 'u u16 u16 bytes
  | SmpSeen 'u u16 bytes
  | AttSeen 'u u16 bytes

record 'u queued_command =
  qc_opcode :: u16
  qc_params :: bytes
  qc_done :: "'u cmd_done"

record queued_fragment =
  qf_conn :: u16
  qf_pb :: byte
  qf_data :: bytes

record 'u queued_request =
  qr_req :: bytes
  qr_timeout :: real
  qr_done :: "'u option"

record 'u att_channel =
  ch_in_flight :: bool
  ch_req_opcode :: byte
  ch_done :: "'u option"
  ch_timer :: "(byte \<times> real) option"
  ch_queue :: "'u queued_request list"

record 'u link =
  lk_port_name :: string
  lk_accepts :: "nat \<Rightarrow> bool"
  lk_writes :: nat
  lk_command_timeout :: real
  lk_closed :: bool
  lk_rx :: bytes
  lk_on_ready :: "'u option"
  lk_on_closed :: "'u option"
  lk_cmd_queue :: "'u queued_command list"
  lk_cmd_in_flight :: bool
  lk_cmd_opcode :: u16
  lk_cmd_done :: "'u cmd_done"
  lk_cmd_timer :: "(u16 \<times> real) option"
  lk_acl_payload :: nat
  lk_acl_credits :: int
  lk_acl_total :: int
  lk_acl_queue :: "queued_fragment list"
  lk_local :: address
  lk_own_addr_type :: byte
  lk_version :: string
  lk_scanning :: bool
  lk_advertising :: bool
  lk_on_adv :: "'u option"
  lk_conns :: "(u16, conn) omap"
  lk_reasm :: "(u16, reassembler) omap"
  lk_att :: "(u16, 'u att_channel) omap"
  lk_encrypted :: "(u16, bool) omap"
  lk_connect_pending :: bool
  lk_restore_scan :: bool
  lk_connect_peer :: address
  lk_connect_done :: "'u option"
  lk_connect_timer :: "real option"
  lk_encrypt_pending :: bool
  lk_encrypt_done :: "'u option"
  lk_encrypt_timer :: "real option"
  lk_on_smp :: "'u option"
  lk_on_connect :: "'u option"
  lk_on_disconnect :: "'u option"
  lk_on_att :: "'u option"
  lk_on_l2cap :: "'u option"
  lk_on_event :: "'u option"
  lk_deferred :: "'u deferred list"
  lk_out :: "'u action list"

definition no_channel :: "'u att_channel" where
  "no_channel = \<lparr>ch_in_flight = False, ch_req_opcode = 0, ch_done = None, ch_timer = None, ch_queue = []\<rparr>"

definition no_address :: address where
  "no_address = Address (replicate 6 0) kAddrPublic"

definition kLinkClosed :: string where
  "kLinkClosed = ''the link is closed''"

definition response_opcode :: "byte \<Rightarrow> byte" where
  "response_opcode request = request + 1"

definition no_complete :: command_complete where
  "no_complete = \<lparr>cc_num_packets = 0, cc_opcode = 0, cc_status = 0, cc_params = []\<rparr>"

text \<open>A link that has just been attached to its port, before the first command.\<close>

definition new_link :: "string \<Rightarrow> (nat \<Rightarrow> bool) \<Rightarrow> real \<Rightarrow> 'u option \<Rightarrow> 'u link" where
  "new_link name accepts timeout on_ready =
     \<lparr>lk_port_name = name, lk_accepts = accepts, lk_writes = 0, lk_command_timeout = timeout,
      lk_closed = False, lk_rx = [], lk_on_ready = on_ready, lk_on_closed = None,
      lk_cmd_queue = [], lk_cmd_in_flight = False, lk_cmd_opcode = 0, lk_cmd_done = NoCmd,
      lk_cmd_timer = None, lk_acl_payload = 27, lk_acl_credits = 1, lk_acl_total = 1,
      lk_acl_queue = [], lk_local = no_address, lk_own_addr_type = kAddrPublic, lk_version = [],
      lk_scanning = False, lk_advertising = False, lk_on_adv = None, lk_conns = [], lk_reasm = [],
      lk_att = [], lk_encrypted = [], lk_connect_pending = False, lk_restore_scan = False,
      lk_connect_peer = no_address, lk_connect_done = None, lk_connect_timer = None,
      lk_encrypt_pending = False, lk_encrypt_done = None, lk_encrypt_timer = None,
      lk_on_smp = None, lk_on_connect = None, lk_on_disconnect = None, lk_on_att = None,
      lk_on_l2cap = None, lk_on_event = None, lk_deferred = [], lk_out = []\<rparr>"

definition emit :: "'u action \<Rightarrow> 'u link \<Rightarrow> 'u link" where
  "emit a s = s\<lparr>lk_out := lk_out s @ [a]\<rparr>"

definition call_opt :: "'u option \<Rightarrow> ('u \<Rightarrow> 'u action) \<Rightarrow> 'u link \<Rightarrow> 'u link" where
  "call_opt h f s = (case h of None \<Rightarrow> s | Some u \<Rightarrow> emit (f u) s)"

definition defer_work :: "'u deferred \<Rightarrow> 'u link \<Rightarrow> 'u link" where
  "defer_work d s = s\<lparr>lk_deferred := lk_deferred s @ [d]\<rparr>"

definition write_packet :: "bytes \<Rightarrow> 'u link \<Rightarrow> bool \<times> 'u link" where
  "write_packet pkt s =
     (let s' = s\<lparr>lk_writes := lk_writes s + 1\<rparr> in
      if lk_accepts s (lk_writes s) then (True, emit (Wrote pkt) s') else (False, s'))"

definition write_error :: "'u link \<Rightarrow> string" where
  "write_error s = ''write to '' @ lk_port_name s @ '' failed''"

section \<open>What the link hangs on its commands\<close>

text \<open>
  These operations issue further commands; \<open>send\<close> is the operation \<open>command\<close>, given as an
  argument because \<open>command\<close> can itself fail the link and so run them.
\<close>

type_synonym 'u send = "u16 \<Rightarrow> bytes \<Rightarrow> 'u cmd_done \<Rightarrow> 'u link \<Rightarrow> 'u link"

definition finish_init :: "bool \<Rightarrow> string \<Rightarrow> 'u link \<Rightarrow> 'u link" where
  "finish_init ok err s = call_opt (lk_on_ready s) (\<lambda>u. DoneCalled u ok err) (s\<lparr>lk_on_ready := None\<rparr>)"

definition init_address :: "'u send \<Rightarrow> 'u link \<Rightarrow> 'u link" where
  "init_address send s = send kOpReadBdAddr [] InitAddress s"

definition init_step :: "'u send \<Rightarrow> nat \<Rightarrow> 'u link \<Rightarrow> 'u link" where
  "init_step send step s =
     (if step = 0 then send kOpReset [] InitReset s
      else if step = 1 then send kOpSetEventMask (replicate 8 0xff) InitEventMask s
      else if step = 2 then send kOpLeSetEventMask [0xff, 0x07, 0, 0, 0, 0, 0, 0] InitLeMask s
      else if step = 3 then send kOpReadLocalVersion [] InitVersion s
      else if step = 4 then send kOpLeReadBufferSize [] InitBuffers s
      else finish_init True [] s)"

definition version_text :: "bytes \<Rightarrow> string" where
  "version_text p =
     ''HCI version '' @ show_nat (unat (p ! 1)) @ '', LMP subversion 0x'' @ hex4 (get16_at p 7)"

definition learn_version :: "bool \<Rightarrow> bytes \<Rightarrow> 'u link \<Rightarrow> 'u link" where
  "learn_version ok p s = (if ok \<and> 9 \<le> length p then s\<lparr>lk_version := version_text p\<rparr> else s)"

definition learn_buffers :: "bool \<Rightarrow> bytes \<Rightarrow> 'u link \<Rightarrow> 'u link" where
  "learn_buffers ok p s =
     (if ok \<and> 4 \<le> length p then
        let payload = unat (get16_at p 1); total = int (unat (p ! 3));
            total' = (if total = 0 then 1 else total) in
        s\<lparr>lk_acl_payload := (if payload = 0 then 27 else payload),
          lk_acl_total := total', lk_acl_credits := total'\<rparr>
      else s)"

definition public_address :: "bool \<Rightarrow> bytes \<Rightarrow> address option" where
  "public_address ok p =
     (if ok \<and> 7 \<le> length p then
        let bs = map (\<lambda>i. p ! (6 - i)) [0..<6] in
        if \<exists>b \<in> set bs. b \<noteq> 0 then Some (Address bs kAddrPublic) else None
      else None)"

definition fallback_seed :: bytes where
  "fallback_seed = [0xc0, 0x0c, 0x70, 0x11, 0x4a, 0x11]"

definition random_static_address :: "bool \<Rightarrow> bytes \<Rightarrow> address" where
  "random_static_address ok p =
     (let bs = (if ok \<and> 9 \<le> length p then map (\<lambda>i. p ! (1 + i)) [0..<6] else fallback_seed) in
      Address (bs[0 := (bs ! 0) OR 0xc0]) kAddrRandom)"

definition random_address_params :: "address \<Rightarrow> bytes" where
  "random_address_params a = map (\<lambda>i. addr_bytes a ! (5 - i)) [0..<6]"

definition on_public_address :: "'u send \<Rightarrow> bool \<Rightarrow> bytes \<Rightarrow> 'u link \<Rightarrow> 'u link" where
  "on_public_address send ok p s =
     (case public_address ok p of
        Some a \<Rightarrow> finish_init True [] (s\<lparr>lk_local := a, lk_own_addr_type := kAddrPublic\<rparr>)
      | None \<Rightarrow> send kOpLeRand [] InitRandom s)"

definition on_random_bytes :: "'u send \<Rightarrow> bool \<Rightarrow> bytes \<Rightarrow> 'u link \<Rightarrow> 'u link" where
  "on_random_bytes send ok p s =
     (let rnd = random_static_address ok p in
      send kOpLeSetRandomAddress (random_address_params rnd) (InitSetAddress rnd) s)"

definition on_address_set :: "address \<Rightarrow> bool \<Rightarrow> string \<Rightarrow> 'u link \<Rightarrow> 'u link" where
  "on_address_set rnd ok err s =
     (if \<not> ok then finish_init False err s
      else finish_init True [] (s\<lparr>lk_local := rnd, lk_own_addr_type := kAddrRandom\<rparr>))"

definition command_sequence ::
    "'u send \<Rightarrow> u16 \<times> bytes \<Rightarrow> (u16 \<times> bytes) list \<Rightarrow> 'u seq_done \<Rightarrow> 'u link \<Rightarrow> 'u link" where
  "command_sequence send first rest fin s = send (fst first) (snd first) (NextStep rest fin) s"

definition start_scan_with ::
    "'u send \<Rightarrow> bool \<Rightarrow> bool \<Rightarrow> 'u option \<Rightarrow> 'u completion \<Rightarrow> 'u link \<Rightarrow> 'u link" where
  "start_scan_with send active filter_duplicates on_report fin s =
     (let s1 = (case on_report of None \<Rightarrow> s | Some u \<Rightarrow> s\<lparr>lk_on_adv := Some u\<rparr>) in
      command_sequence send
        (kOpLeSetScanParams, le_set_scan_params active (ms_to_scan_units 60) (ms_to_scan_units 60)
           (lk_own_addr_type s1) 0)
        [(kOpLeSetScanEnable, le_set_scan_enable True filter_duplicates)] (ScanStarted fin) s1)"

definition stop_scan_with :: "'u send \<Rightarrow> 'u completion \<Rightarrow> 'u link \<Rightarrow> 'u link" where
  "stop_scan_with send fin s =
     (if \<not> lk_scanning s then (case fin of NoDone \<Rightarrow> s | _ \<Rightarrow> defer_work (DeferDone fin True []) s)
      else command_sequence send (kOpLeSetScanEnable, le_set_scan_enable False False) []
             (ScanStopped fin) s)"

definition finish_connect_with ::
    "'u send \<Rightarrow> bool \<Rightarrow> u16 \<Rightarrow> string \<Rightarrow> 'u link \<Rightarrow> 'u link" where
  "finish_connect_with send ok handle err s =
     (if \<not> lk_connect_pending s then s
      else let s1 = s\<lparr>lk_connect_timer := None, lk_connect_pending := False, lk_connect_done := None\<rparr>;
               s2 = (if lk_restore_scan s \<and> \<not> ok \<and> \<not> lk_closed s
                     then start_scan_with send False False None NoDone s1 else s1) in
           call_opt (lk_connect_done s) (\<lambda>u. ConnectCalled u ok handle err)
             (s2\<lparr>lk_restore_scan := False\<rparr>))"

definition create_params :: "address \<Rightarrow> byte \<Rightarrow> bytes" where
  "create_params peer own =
     le_create_connection peer (ms_to_scan_units 60) (ms_to_scan_units 30) (ms_to_conn_units 30)
       (ms_to_conn_units 50) 0 (ms_to_supervision_units 4000) own"

definition run_completion :: "'u send \<Rightarrow> 'u completion \<Rightarrow> bool \<Rightarrow> string \<Rightarrow> 'u link \<Rightarrow> 'u link" where
  "run_completion send d ok err s =
     (case d of
        NoDone \<Rightarrow> s
      | UserDone u \<Rightarrow> emit (DoneCalled u ok err) s
      | ConnectNext peer timeout \<Rightarrow>
          if \<not> lk_connect_pending s then s
          else if \<not> ok then
            finish_connect_with send False 0 (''could not stop scanning to connect: '' @ err) s
          else send kOpLeCreateConnection (create_params peer (lk_own_addr_type s))
                 (ConnectSent timeout) s)"

definition run_seq_done :: "'u send \<Rightarrow> 'u seq_done \<Rightarrow> bool \<Rightarrow> string \<Rightarrow> 'u link \<Rightarrow> 'u link" where
  "run_seq_done send q ok err s =
     (case q of
        ScanStarted d \<Rightarrow> run_completion send d ok err (if ok then s\<lparr>lk_scanning := True\<rparr> else s)
      | ScanStopped d \<Rightarrow> run_completion send d ok err (s\<lparr>lk_scanning := False\<rparr>)
      | AdvStarted d \<Rightarrow> run_completion send d ok err (if ok then s\<lparr>lk_advertising := True\<rparr> else s)
      | AdvStopped d \<Rightarrow> run_completion send d ok err (s\<lparr>lk_advertising := False\<rparr>))"

definition run_sequence :: "'u send \<Rightarrow> (u16 \<times> bytes) list \<Rightarrow> 'u seq_done \<Rightarrow> 'u link \<Rightarrow> 'u link" where
  "run_sequence send steps fin s =
     (case steps of
        [] \<Rightarrow> run_seq_done send fin True [] s
      | st # rest \<Rightarrow> send (fst st) (snd st) (NextStep rest fin) s)"

definition finish_encryption :: "bool \<Rightarrow> string \<Rightarrow> 'u link \<Rightarrow> 'u link" where
  "finish_encryption ok err s =
     (if \<not> lk_encrypt_pending s then s
      else call_opt (lk_encrypt_done s) (\<lambda>u. DoneCalled u ok err)
             (s\<lparr>lk_encrypt_timer := None, lk_encrypt_pending := False, lk_encrypt_done := None\<rparr>))"

definition on_connect_sent :: "'u send \<Rightarrow> real \<Rightarrow> bool \<Rightarrow> string \<Rightarrow> 'u link \<Rightarrow> 'u link" where
  "on_connect_sent send timeout ok err s =
     (if \<not> lk_connect_pending s then s
      else if \<not> ok then finish_connect_with send False 0 err s
      else s\<lparr>lk_connect_timer := Some timeout\<rparr>)"

definition on_encrypt_sent :: "real \<Rightarrow> bool \<Rightarrow> string \<Rightarrow> 'u link \<Rightarrow> 'u link" where
  "on_encrypt_sent timeout ok err s =
     (if \<not> lk_encrypt_pending s then s
      else if \<not> ok then finish_encryption False err s
      else s\<lparr>lk_encrypt_timer := Some timeout\<rparr>)"

definition run_cmd_done ::
    "'u send \<Rightarrow> 'u cmd_done \<Rightarrow> bool \<Rightarrow> command_complete \<Rightarrow> string \<Rightarrow> 'u link \<Rightarrow> 'u link" where
  "run_cmd_done send d ok cc err s =
     (case d of
        NoCmd \<Rightarrow> s
      | UserCmd u \<Rightarrow> emit (CmdCalled u ok cc err) s
      | InitReset \<Rightarrow> if \<not> ok then finish_init False err s else init_step send 1 s
      | InitEventMask \<Rightarrow> if \<not> ok then finish_init False err s else init_step send 2 s
      | InitLeMask \<Rightarrow> if \<not> ok then finish_init False err s else init_step send 3 s
      | InitVersion \<Rightarrow> init_step send 4 (learn_version ok (cc_params cc) s)
      | InitBuffers \<Rightarrow> init_address send (learn_buffers ok (cc_params cc) s)
      | InitAddress \<Rightarrow> on_public_address send ok (cc_params cc) s
      | InitRandom \<Rightarrow> on_random_bytes send ok (cc_params cc) s
      | InitSetAddress rnd \<Rightarrow> on_address_set rnd ok err s
      | NextStep rest fin \<Rightarrow>
          if \<not> ok then run_seq_done send fin False err s else run_sequence send rest fin s
      | ConnectSent timeout \<Rightarrow> on_connect_sent send timeout ok err s
      | EncryptSent timeout \<Rightarrow> on_encrypt_sent timeout ok err s)"

section \<open>Failing, and the command queue\<close>

text \<open>\<open>command\<close> on a closed link: the answer is deferred, so the caller has returned by then.\<close>

definition closed_command :: "'u send" where
  "closed_command op ps d s = (case d of NoCmd \<Rightarrow> s | _ \<Rightarrow> defer_work (DeferCmd d) s)"

definition fail_channel :: "string \<Rightarrow> u16 \<times> 'u att_channel \<Rightarrow> 'u link \<Rightarrow> 'u link" where
  "fail_channel why e s =
     fold (\<lambda>q. call_opt (qr_done q) (\<lambda>u. ResponseCalled u False [] why)) (ch_queue (snd e))
       (call_opt (ch_done (snd e)) (\<lambda>u. ResponseCalled u False [] why) s)"

definition torn_down :: "'u link \<Rightarrow> 'u link" where
  "torn_down s =
     s\<lparr>lk_closed := True, lk_cmd_queue := [], lk_cmd_done := NoCmd, lk_cmd_in_flight := False,
       lk_cmd_timer := None, lk_att := [], lk_connect_done := None, lk_connect_pending := False,
       lk_connect_timer := None, lk_encrypt_done := None, lk_encrypt_pending := False,
       lk_encrypt_timer := None, lk_on_ready := None, lk_acl_queue := [], lk_scanning := False,
       lk_advertising := False\<rparr>"

definition fail_commands :: "string \<Rightarrow> 'u cmd_done list \<Rightarrow> 'u link \<Rightarrow> 'u link" where
  "fail_commands why ds = fold (\<lambda>d. run_cmd_done closed_command d False no_complete why) ds"

definition fail_link :: "string \<Rightarrow> 'u link \<Rightarrow> 'u link" where
  "fail_link why s =
     (if lk_closed s then s
      else let s1 = fail_commands why (lk_cmd_done s # map qc_done (lk_cmd_queue s)) (torn_down s);
               s2 = fold (fail_channel why) (lk_att s) s1;
               s3 = call_opt (lk_connect_done s) (\<lambda>u. ConnectCalled u False 0 why) s2;
               s4 = call_opt (lk_encrypt_done s) (\<lambda>u. DoneCalled u False why) s3;
               s5 = call_opt (lk_on_ready s) (\<lambda>u. DoneCalled u False why) s4 in
           call_opt (lk_on_closed s5) (\<lambda>u. ClosedCalled u why) s5)"

definition pump_commands :: "'u link \<Rightarrow> 'u link" where
  "pump_commands s =
     (case lk_cmd_queue s of
        [] \<Rightarrow> s
      | q # rest \<Rightarrow>
          if lk_cmd_in_flight s \<or> lk_closed s then s
          else let s1 = s\<lparr>lk_cmd_queue := rest, lk_cmd_in_flight := True,
                           lk_cmd_opcode := qc_opcode q, lk_cmd_done := qc_done q\<rparr>;
                   (ok, s2) = write_packet (build_command (qc_opcode q) (qc_params q)) s1 in
               if \<not> ok then fail_link (write_error s2) s2
               else s2\<lparr>lk_cmd_timer := Some (qc_opcode q, lk_command_timeout s2)\<rparr>)"

definition issue_command :: "'u send" where
  "issue_command op ps d s =
     (if lk_closed s then closed_command op ps d s
      else pump_commands
             (s\<lparr>lk_cmd_queue := lk_cmd_queue s @ [\<lparr>qc_opcode = op, qc_params = ps, qc_done = d\<rparr>]\<rparr>))"

definition finish_command :: "bool \<Rightarrow> command_complete \<Rightarrow> string \<Rightarrow> 'u link \<Rightarrow> 'u link" where
  "finish_command ok cc err s =
     (if \<not> lk_cmd_in_flight s then s
      else pump_commands (run_cmd_done issue_command (lk_cmd_done s) ok cc err
             (s\<lparr>lk_cmd_timer := None, lk_cmd_in_flight := False, lk_cmd_done := NoCmd\<rparr>)))"

definition command_timer_fires :: "'u link \<Rightarrow> 'u link" where
  "command_timer_fires s =
     (case lk_cmd_timer s of
        None \<Rightarrow> s
      | Some (op, _) \<Rightarrow>
          let s1 = s\<lparr>lk_cmd_timer := None\<rparr> in
          if \<not> lk_cmd_in_flight s \<or> lk_cmd_opcode s \<noteq> op then s1
          else finish_command False no_complete
                 (hci_opcode_name op @ '': no answer from the controller'') s1)"

definition attach :: "string \<Rightarrow> (nat \<Rightarrow> bool) \<Rightarrow> real \<Rightarrow> 'u option \<Rightarrow> 'u link" where
  "attach name accepts timeout on_ready =
     init_step issue_command 0 (new_link name accepts timeout on_ready)"

text \<open>\<open>~Link\<close>: nothing is called; the timers and the deferred work go with the object.\<close>

definition destroy_link :: "'u link \<Rightarrow> 'u link" where
  "destroy_link s =
     s\<lparr>lk_cmd_timer := None, lk_connect_timer := None, lk_encrypt_timer := None,
       lk_att := om_map (\<lambda>ch. ch\<lparr>ch_timer := None\<rparr>) (lk_att s), lk_deferred := []\<rparr>"

definition run_deferred :: "'u link \<Rightarrow> 'u link" where
  "run_deferred s =
     (case lk_deferred s of
        [] \<Rightarrow> s
      | d # rest \<Rightarrow>
          let s1 = s\<lparr>lk_deferred := rest\<rparr> in
          (case d of
             DeferDone c ok err \<Rightarrow> run_completion issue_command c ok err s1
           | DeferCmd c \<Rightarrow> run_cmd_done issue_command c False no_complete kLinkClosed s1
           | DeferConnect u err \<Rightarrow> emit (ConnectCalled u False 0 err) s1
           | DeferResponse u err \<Rightarrow> emit (ResponseCalled u False [] err) s1))"

section \<open>ACL data\<close>

fun pump_acl_from :: "queued_fragment list \<Rightarrow> 'u link \<Rightarrow> 'u link" where
  "pump_acl_from [] s = s"
| "pump_acl_from (q # qs) s =
     (if lk_closed s \<or> lk_acl_credits s \<le> 0 then s
      else let (ok, s1) = write_packet (build_acl (qf_conn q) (qf_pb q) (qf_data q))
                            (s\<lparr>lk_acl_queue := qs, lk_acl_credits := lk_acl_credits s - 1\<rparr>) in
        if \<not> ok then fail_link (write_error s1) s1 else pump_acl_from qs s1)"

definition pump_acl :: "'u link \<Rightarrow> 'u link" where
  "pump_acl s = pump_acl_from (lk_acl_queue s) s"

fun tag_fragments :: "u16 \<Rightarrow> byte \<Rightarrow> bytes list \<Rightarrow> queued_fragment list" where
  "tag_fragments c pb [] = []"
| "tag_fragments c pb (f # fs) =
     \<lparr>qf_conn = c, qf_pb = pb, qf_data = f\<rparr> # tag_fragments c kAclContinuing fs"

definition full_error :: "'u link \<Rightarrow> string" where
  "full_error s = ''the controller is not keeping up; '' @ show_nat (length (lk_acl_queue s)) @
     '' fragments are already queued''"

definition queue_acl :: "u16 \<Rightarrow> bytes \<Rightarrow> 'u link \<Rightarrow> string option \<times> 'u link" where
  "queue_acl c frame s =
     (if lk_closed s then (Some kLinkClosed, s)
      else if om_get (lk_conns s) c = None then (Some ''not connected'', s)
      else let frags = fragment frame (lk_acl_payload s) in
        if kMaxQueuedFragments < length (lk_acl_queue s) + length frags then (Some (full_error s), s)
        else let s' = pump_acl
                        (s\<lparr>lk_acl_queue := lk_acl_queue s @ tag_fragments c kAclFirstFlushable frags\<rparr>) in
             (if lk_closed s' then Some kLinkClosed else None, s'))"

definition send_l2cap :: "u16 \<Rightarrow> u16 \<Rightarrow> bytes \<Rightarrow> 'u link \<Rightarrow> string option \<times> 'u link" where
  "send_l2cap c cid payload s = queue_acl c (build_l2cap cid payload) s"

definition send_att :: "u16 \<Rightarrow> bytes \<Rightarrow> 'u link \<Rightarrow> string option \<times> 'u link" where
  "send_att c pdu s = send_l2cap c kCidAtt pdu s"

definition send_smp :: "u16 \<Rightarrow> bytes \<Rightarrow> 'u link \<Rightarrow> string option \<times> 'u link" where
  "send_smp c pdu s = send_l2cap c kCidSmp pdu s"

lemma att_emit [simp]: "lk_att (emit a s) = lk_att s"
  by (simp add: emit_def)

lemma att_call_opt [simp]: "lk_att (call_opt h f s) = lk_att s"
  by (simp add: call_opt_def split: option.split)

lemma att_closed_command [simp]: "lk_att (closed_command op ps d s) = lk_att s"
  by (simp add: closed_command_def defer_work_def split: cmd_done.split)

lemmas link_runs = run_cmd_done_def finish_init_def init_step_def learn_version_def init_address_def
  learn_buffers_def on_public_address_def on_random_bytes_def on_address_set_def on_connect_sent_def
  on_encrypt_sent_def run_sequence_def run_seq_done_def run_completion_def finish_connect_with_def
  start_scan_with_def command_sequence_def finish_encryption_def Let_def

lemma att_run_closed [simp]: "lk_att (run_cmd_done closed_command d ok cc err s) = lk_att s"
  by (simp add: link_runs split: cmd_done.split seq_done.split completion.split option.split list.split)

lemma att_fail_commands [simp]: "lk_att (fail_commands why ds s) = lk_att s"
  unfolding fail_commands_def by (induction ds arbitrary: s) simp_all

lemma att_answer_queue [simp]: "lk_att (fold (\<lambda>q. call_opt (qr_done q) (f q)) qs s) = lk_att s"
  by (induction qs arbitrary: s) simp_all

lemma att_fail_channels [simp]: "lk_att (fold (fail_channel why) cs s) = lk_att s"
  by (induction cs arbitrary: s) (simp_all add: fail_channel_def)

lemma att_fail_link: "lk_att (fail_link why s) = (if lk_closed s then lk_att s else [])"
  by (simp add: fail_link_def Let_def torn_down_def)

lemma att_pump_acl_from: "lk_att (pump_acl_from qs s) = lk_att s \<or> lk_att (pump_acl_from qs s) = []"
  by (induction qs s rule: pump_acl_from.induct)
    (auto simp: write_packet_def Let_def att_fail_link emit_def split: if_splits)

lemma att_send_att: "lk_att (snd (send_att c pdu s)) = lk_att s \<or> lk_att (snd (send_att c pdu s)) = []"
proof -
  define s0 where "s0 = s\<lparr>lk_acl_queue := lk_acl_queue s @
    tag_fragments c kAclFirstFlushable (fragment (build_l2cap kCidAtt pdu) (lk_acl_payload s))\<rparr>"
  have "lk_att (pump_acl s0) = lk_att s \<or> lk_att (pump_acl s0) = []"
    unfolding pump_acl_def using att_pump_acl_from[of "lk_acl_queue s0" s0] by (simp add: s0_def)
  then show ?thesis by (auto simp: send_att_def send_l2cap_def queue_acl_def Let_def s0_def)
qed

section \<open>ATT requests\<close>

definition put_channel :: "u16 \<Rightarrow> 'u att_channel \<Rightarrow> 'u link \<Rightarrow> 'u link" where
  "put_channel c ch s = s\<lparr>lk_att := om_put (lk_att s) c ch\<rparr>"

text \<open>The first half of \<open>finish_att\<close>: the request in flight is answered.\<close>

definition settle_att ::
    "u16 \<Rightarrow> 'u att_channel \<Rightarrow> bool \<Rightarrow> bytes \<Rightarrow> string \<Rightarrow> 'u link \<Rightarrow> 'u link" where
  "settle_att c ch ok rsp err s =
     call_opt (ch_done ch) (\<lambda>u. ResponseCalled u ok rsp err)
       (put_channel c (ch\<lparr>ch_timer := None, ch_in_flight := False, ch_done := None\<rparr>) s)"

definition begin_request :: "u16 \<Rightarrow> 'u att_channel \<Rightarrow> 'u queued_request \<Rightarrow> 'u queued_request list \<Rightarrow> 'u link \<Rightarrow> 'u link" where
  "begin_request c ch q rest s =
     put_channel c (ch\<lparr>ch_in_flight := True, ch_req_opcode := qr_req q ! 0, ch_done := qr_done q,
                       ch_queue := rest\<rparr>) s"

definition waiting :: "u16 \<Rightarrow> 'u link \<Rightarrow> nat" where
  "waiting c s = (case om_get (lk_att s) c of None \<Rightarrow> 0 | Some ch \<Rightarrow> length (ch_queue ch))"

lemma waiting_settle:
  "om_get (lk_att s) c = Some ch \<Longrightarrow> waiting c (settle_att c ch ok rsp err s) = waiting c s"
  by (simp add: waiting_def settle_att_def put_channel_def om_get_put)

lemma waiting_after_send:
  assumes "snd (send_att c pdu (begin_request c ch q rest s)) = s2" "om_get (lk_att s2) c = Some ch2"
  shows "waiting c s2 = length rest"
  using att_send_att[of c pdu "begin_request c ch q rest s"] assms
  by (auto simp: waiting_def begin_request_def put_channel_def om_get_put split: if_splits)

lemma pump_att_decreases:
  assumes "om_get (lk_att s) c = Some ch" "ch_queue ch = q # rest"
    and "(sent, s2) = send_att c pdu (begin_request c ch q rest s)" "om_get (lk_att s2) c = Some ch2"
  shows "waiting c (settle_att c ch2 ok rsp err s2) < waiting c s"
  using waiting_after_send[of c pdu ch q rest s s2 ch2] assms
  by (simp add: waiting_settle prod_eq_iff) (simp add: waiting_def)

function pump_att :: "u16 \<Rightarrow> 'u link \<Rightarrow> 'u link" where
  "pump_att c s =
     (case om_get (lk_att s) c of
        None \<Rightarrow> s
      | Some ch \<Rightarrow>
          (case ch_queue ch of
             [] \<Rightarrow> s
           | q # rest \<Rightarrow>
               if ch_in_flight ch \<or> lk_closed s then s
               else
                 (case send_att c (qr_req q) (begin_request c ch q rest s) of
                    (sent, s2) \<Rightarrow>
                      (case om_get (lk_att s2) c of
                         None \<Rightarrow> s2
                       | Some ch2 \<Rightarrow>
                           if \<not> ch_in_flight ch2 then s2
                           else (case sent of
                                   Some err \<Rightarrow> pump_att c (settle_att c ch2 False [] err s2)
                                 | None \<Rightarrow>
                                     put_channel c (ch2\<lparr>ch_timer := Some (qr_req q ! 0, qr_timeout q)\<rparr>) s2)))))"
  by pat_completeness auto
termination
  by (relation "measure (\<lambda>(c, s). waiting c s)")
    (auto intro: pump_att_decreases)

declare pump_att.simps [simp del]

definition finish_att :: "u16 \<Rightarrow> bool \<Rightarrow> bytes \<Rightarrow> string \<Rightarrow> 'u link \<Rightarrow> 'u link" where
  "finish_att c ok rsp err s =
     (case om_get (lk_att s) c of
        None \<Rightarrow> s
      | Some ch \<Rightarrow>
          if \<not> ch_in_flight ch then s else pump_att c (settle_att c ch ok rsp err s))"

definition att_timer_fires :: "u16 \<Rightarrow> 'u link \<Rightarrow> 'u link" where
  "att_timer_fires c s =
     (case om_get (lk_att s) c of
        None \<Rightarrow> s
      | Some ch \<Rightarrow>
          (case ch_timer ch of
             None \<Rightarrow> s
           | Some (op, _) \<Rightarrow>
               let s1 = put_channel c (ch\<lparr>ch_timer := None\<rparr>) s in
               if \<not> ch_in_flight ch \<or> ch_req_opcode ch \<noteq> op then s1
               else finish_att c False [] (att_opcode_name op @ '': no response'') s1))"

definition att_request :: "u16 \<Rightarrow> bytes \<Rightarrow> real \<Rightarrow> 'u option \<Rightarrow> 'u link \<Rightarrow> 'u link" where
  "att_request c req timeout fin s =
     (if req = [] then
        (case fin of None \<Rightarrow> s | Some u \<Rightarrow> defer_work (DeferResponse u ''empty ATT request'') s)
      else if lk_closed s \<or> om_get (lk_conns s) c = None then
        (case fin of None \<Rightarrow> s
         | Some u \<Rightarrow> defer_work (DeferResponse u (if lk_closed s then kLinkClosed else ''not connected'')) s)
      else
        let ch = (case om_get (lk_att s) c of None \<Rightarrow> no_channel | Some ch \<Rightarrow> ch);
            q = \<lparr>qr_req = req, qr_timeout = timeout, qr_done = fin\<rparr> in
        pump_att c (put_channel c (ch\<lparr>ch_queue := ch_queue ch @ [q]\<rparr>) s))"

section \<open>Scanning, advertising, connections and encryption\<close>

definition start_scan :: "bool \<Rightarrow> bool \<Rightarrow> 'u option \<Rightarrow> 'u completion \<Rightarrow> 'u link \<Rightarrow> 'u link" where
  "start_scan = start_scan_with issue_command"

definition stop_scan :: "'u completion \<Rightarrow> 'u link \<Rightarrow> 'u link" where
  "stop_scan = stop_scan_with issue_command"

definition defer_done :: "'u completion \<Rightarrow> bool \<Rightarrow> string \<Rightarrow> 'u link \<Rightarrow> 'u link" where
  "defer_done fin ok err s = (case fin of NoDone \<Rightarrow> s | _ \<Rightarrow> defer_work (DeferDone fin ok err) s)"

definition adv_steps :: "adv_config \<Rightarrow> bytes \<Rightarrow> (u16 \<times> bytes) list" where
  "adv_steps cfg d =
     (kOpLeSetAdvData, d) #
     (if ac_scan_response cfg = [] then []
      else [(kOpLeSetScanResponseData,
             case le_set_scan_response_data (ac_scan_response cfg) of Some r \<Rightarrow> r | None \<Rightarrow> [])]) @
     [(kOpLeSetAdvEnable, le_set_adv_enable True)]"

definition start_advertising :: "adv_config \<Rightarrow> 'u completion \<Rightarrow> 'u link \<Rightarrow> 'u link" where
  "start_advertising cfg fin s =
     (if 31 < length (ac_adv_data cfg) then
        defer_done fin False (''advertising data is '' @ show_nat (length (ac_adv_data cfg)) @
          '' bytes; the limit is 31'') s
      else if 31 < length (ac_scan_response cfg) then
        defer_done fin False ''scan response data is longer than 31 bytes'' s
      else case le_set_adv_data (ac_adv_data cfg) of
        None \<Rightarrow> defer_done fin False ''advertising data does not fit'' s
      | Some d \<Rightarrow>
          let interval = ms_to_adv_units (ac_interval_ms cfg) in
          command_sequence issue_command
            (kOpLeSetAdvParams, le_set_adv_params interval interval (ac_type cfg)
               (lk_own_addr_type s) no_address 0x07 0)
            (adv_steps cfg d) (AdvStarted fin) s)"

definition stop_advertising :: "'u completion \<Rightarrow> 'u link \<Rightarrow> 'u link" where
  "stop_advertising fin s =
     (if \<not> lk_advertising s then defer_done fin True [] s
      else command_sequence issue_command (kOpLeSetAdvEnable, le_set_adv_enable False) []
             (AdvStopped fin) s)"

definition defer_connect :: "'u option \<Rightarrow> string \<Rightarrow> 'u link \<Rightarrow> 'u link" where
  "defer_connect fin err s =
     (case fin of None \<Rightarrow> s | Some u \<Rightarrow> defer_work (DeferConnect u err) s)"

definition connect_to :: "address \<Rightarrow> real \<Rightarrow> 'u option \<Rightarrow> 'u link \<Rightarrow> 'u link" where
  "connect_to peer timeout fin s =
     (if lk_closed s then defer_connect fin kLinkClosed s
      else if lk_connect_pending s then
        defer_connect fin ''a connection attempt is already in progress; a controller has one initiator'' s
      else stop_scan (ConnectNext peer timeout)
             (s\<lparr>lk_connect_pending := True, lk_connect_peer := peer, lk_connect_done := fin,
                lk_restore_scan := lk_scanning s\<rparr>))"

definition finish_connect :: "bool \<Rightarrow> u16 \<Rightarrow> string \<Rightarrow> 'u link \<Rightarrow> 'u link" where
  "finish_connect = finish_connect_with issue_command"

definition connect_timer_fires :: "'u link \<Rightarrow> 'u link" where
  "connect_timer_fires s =
     (case lk_connect_timer s of
        None \<Rightarrow> s
      | Some _ \<Rightarrow>
          let s1 = s\<lparr>lk_connect_timer := None\<rparr> in
          if \<not> lk_connect_pending s then s1
          else let s2 = issue_command kOpLeCreateConnectionCancel [] NoCmd s1 in
            finish_connect False 0
              (''connection to '' @ address_to_string (lk_connect_peer s2) @ '' timed out'') s2)"

definition link_disconnect :: "u16 \<Rightarrow> byte \<Rightarrow> 'u link \<Rightarrow> 'u link" where
  "link_disconnect c reason s =
     (if lk_closed s \<or> om_get (lk_conns s) c = None then s
      else issue_command kOpDisconnect (disconnect_params c reason) NoCmd s)"

definition connections :: "'u link \<Rightarrow> conn list" where
  "connections s = map snd (lk_conns s)"

definition connected :: "u16 \<Rightarrow> 'u link \<Rightarrow> bool" where
  "connected c s \<longleftrightarrow> om_get (lk_conns s) c \<noteq> None"

definition encrypted :: "u16 \<Rightarrow> 'u link \<Rightarrow> bool" where
  "encrypted c s \<longleftrightarrow> om_get (lk_encrypted s) c = Some True"

definition encrypt_params :: "u16 \<Rightarrow> bytes \<Rightarrow> u16 \<Rightarrow> bytes \<Rightarrow> bytes" where
  "encrypt_params c rand ediv ltk = put16 c @ rand @ put16 ediv @ map (\<lambda>i. ltk ! (15 - i)) [0..<16]"

definition start_encryption ::
    "u16 \<Rightarrow> bytes \<Rightarrow> u16 \<Rightarrow> bytes \<Rightarrow> real \<Rightarrow> 'u option \<Rightarrow> 'u link \<Rightarrow> 'u link" where
  "start_encryption c ltk ediv rand timeout fin s =
     (let d = (case fin of None \<Rightarrow> NoDone | Some u \<Rightarrow> UserDone u) in
      if lk_closed s \<or> om_get (lk_conns s) c = None then
        defer_done d False (if lk_closed s then kLinkClosed else ''not connected'') s
      else if lk_encrypt_pending s then defer_done d False ''encryption is already being started'' s
      else issue_command kOpLeStartEncryption (encrypt_params c rand ediv ltk) (EncryptSent timeout)
             (s\<lparr>lk_encrypt_pending := True, lk_encrypt_done := fin\<rparr>))"

definition encrypt_timer_fires :: "'u link \<Rightarrow> 'u link" where
  "encrypt_timer_fires s =
     (case lk_encrypt_timer s of
        None \<Rightarrow> s
      | Some _ \<Rightarrow>
          let s1 = s\<lparr>lk_encrypt_timer := None\<rparr> in
          if \<not> lk_encrypt_pending s then s1
          else finish_encryption False ''the controller never reported encryption starting'' s1)"

text \<open>\<open>describe\<close>, for the logs.\<close>

definition describe_link :: "'u link \<Rightarrow> string" where
  "describe_link s =
     lk_port_name s @ (if lk_version s = [] then [] else '', '' @ lk_version s) @ '', address '' @
     address_to_string (lk_local s) @
     (if lk_own_addr_type s = kAddrRandom then '' (random static)'' else '' (public)'')"

section \<open>Events\<close>

definition outcome_text :: "u16 \<Rightarrow> byte \<Rightarrow> string" where
  "outcome_text op status = hci_opcode_name op @ '': '' @ status_name status"

definition on_command_complete :: "event \<Rightarrow> 'u link \<Rightarrow> 'u link" where
  "on_command_complete evt s =
     (case parse_command_complete evt of
        None \<Rightarrow> s
      | Some cc \<Rightarrow>
          if \<not> lk_cmd_in_flight s \<or> cc_opcode cc \<noteq> lk_cmd_opcode s then s
          else if cc_status cc \<noteq> kSuccess then
            finish_command False cc (outcome_text (cc_opcode cc) (cc_status cc)) s
          else finish_command True cc [] s)"

definition on_command_status :: "event \<Rightarrow> 'u link \<Rightarrow> 'u link" where
  "on_command_status evt s =
     (case parse_command_status evt of
        None \<Rightarrow> s
      | Some cs \<Rightarrow>
          if \<not> lk_cmd_in_flight s \<or> cs_opcode cs \<noteq> lk_cmd_opcode s then s
          else let cc = no_complete\<lparr>cc_opcode := cs_opcode cs, cc_status := cs_status cs\<rparr> in
            if cs_status cs \<noteq> kSuccess then
              finish_command False cc (outcome_text (cs_opcode cs) (cs_status cs)) s
            else finish_command True cc [] s)"

text \<open>The (handle, count) pairs of a Number Of Completed Packets event, as far as they go.\<close>

fun freed_packets :: "nat \<Rightarrow> bytes \<Rightarrow> nat" where
  "freed_packets 0 ps = 0"
| "freed_packets (Suc n) ps =
     (if length ps < 4 then 0 else unat (get16_at ps 2) + freed_packets n (drop 4 ps))"

definition on_completed_packets :: "event \<Rightarrow> 'u link \<Rightarrow> 'u link" where
  "on_completed_packets evt s =
     (if ev_params evt = [] then s
      else let freed = freed_packets (unat (ev_params evt ! 0)) (drop 1 (ev_params evt)) in
        pump_acl (s\<lparr>lk_acl_credits := min (lk_acl_credits s + int freed) (lk_acl_total s)\<rparr>))"

text \<open>Either event as an encryption change; a key refresh has no byte saying it is on.\<close>

definition encryption_event :: "event \<Rightarrow> encryption_change option" where
  "encryption_event evt =
     (if ev_code evt = kEvtEncryptionChange then parse_encryption_change evt
      else if length (ev_params evt) < 3 then None
      else Some \<lparr>ec_status = ev_params evt ! 0, ec_handle = get16_at (ev_params evt) 1 AND 0x0fff,
                 ec_enabled = (if ev_params evt ! 0 = kSuccess then 1 else 0)\<rparr>)"

definition encryption_refusal :: "byte \<Rightarrow> string" where
  "encryption_refusal status =
     ''encryption failed: '' @ status_name status @
     (if status = kPinOrKeyMissing
      then '' (the peer rejected the key; the passkey was probably wrong)'' else [])"

definition on_encryption_change :: "event \<Rightarrow> 'u link \<Rightarrow> 'u link" where
  "on_encryption_change evt s =
     (case encryption_event evt of
        None \<Rightarrow> s
      | Some ec \<Rightarrow>
          let s1 = s\<lparr>lk_encrypted := om_put (lk_encrypted s) (ec_handle ec)
                       (ec_status ec = kSuccess \<and> ec_enabled ec \<noteq> 0)\<rparr> in
          if \<not> lk_encrypt_pending s then s1
          else if ec_status ec \<noteq> kSuccess then
            finish_encryption False (encryption_refusal (ec_status ec)) s1
          else if ec_enabled ec = 0 then
            finish_encryption False ''the controller reported encryption off'' s1
          else finish_encryption True [] s1)"

text \<open>
  \<open>drop_connection\<close>.  A pending encryption is failed only on the path where the connection had
  an ATT channel.
\<close>

definition drop_connection :: "u16 \<Rightarrow> string \<Rightarrow> 'u link \<Rightarrow> 'u link" where
  "drop_connection c why s =
     (let s1 = s\<lparr>lk_conns := om_del (lk_conns s) c, lk_reasm := om_del (lk_reasm s) c,
                 lk_encrypted := om_del (lk_encrypted s) c,
                 lk_acl_queue := filter (\<lambda>q. qf_conn q \<noteq> c) (lk_acl_queue s)\<rparr> in
      case om_get (lk_att s) c of
        None \<Rightarrow> s1
      | Some ch \<Rightarrow>
          let s2 = fail_channel why (c, ch) (s1\<lparr>lk_att := om_del (lk_att s) c\<rparr>) in
          if lk_encrypt_pending s2 then finish_encryption False why s2 else s2)"

definition on_disconnection :: "event \<Rightarrow> 'u link \<Rightarrow> 'u link" where
  "on_disconnection evt s =
     (case parse_disconnection_complete evt of
        None \<Rightarrow> s
      | Some dc \<Rightarrow>
          let s1 = drop_connection (dc_handle dc) ''the connection dropped'' s in
          call_opt (lk_on_disconnect s1) (\<lambda>u. DisconnectedSeen u (dc_handle dc) (dc_reason dc)) s1)"

definition on_adv_event :: "event \<Rightarrow> 'u link \<Rightarrow> 'u link" where
  "on_adv_event evt s =
     (case parse_adv_reports evt [] of
        (ok, reports) \<Rightarrow>
          if \<not> ok then s
          else fold (\<lambda>r t. if lk_closed t then t else call_opt (lk_on_adv s) (\<lambda>u. AdvSeen u r) t)
                 reports s)"

definition note_connection :: "connection_complete \<Rightarrow> 'u link \<Rightarrow> 'u link" where
  "note_connection cc s =
     (if cx_status cc \<noteq> kSuccess then s
      else s\<lparr>lk_conns := om_put (lk_conns s) (cx_handle cc)
               \<lparr>cn_handle = cx_handle cc, cn_peer = cx_peer cc, cn_role = cx_role cc\<rparr>,
             lk_reasm := om_put (lk_reasm s) (cx_handle cc) reasm_reset,
             lk_advertising := (if cx_role cc = 1 then False else lk_advertising s)\<rparr>)"

definition connect_refusal :: "byte \<Rightarrow> 'u link \<Rightarrow> string" where
  "connect_refusal status s =
     ''connection to '' @ address_to_string (lk_connect_peer s) @ '': '' @ status_name status"

definition on_connection_complete :: "event \<Rightarrow> 'u link \<Rightarrow> 'u link" where
  "on_connection_complete evt s =
     (case parse_connection_complete evt of
        None \<Rightarrow> s
      | Some cc \<Rightarrow>
          let s1 = note_connection cc s;
              s2 = (if \<not> lk_connect_pending s1 then s1
                    else if cx_status cc = kSuccess then finish_connect True (cx_handle cc) [] s1
                    else finish_connect False 0 (connect_refusal (cx_status cc) s1) s1) in
          if cx_status cc \<noteq> kSuccess then s2
          else call_opt (lk_on_connect s2)
                 (\<lambda>u. ConnectedSeen u \<lparr>cn_handle = cx_handle cc, cn_peer = cx_peer cc,
                                        cn_role = cx_role cc\<rparr>) s2)"

definition on_ltk_request :: "event \<Rightarrow> 'u link \<Rightarrow> 'u link" where
  "on_ltk_request evt s =
     (case parse_ltk_request evt of
        None \<Rightarrow> s
      | Some req \<Rightarrow> issue_command kOpLeLtkRequestNegReply (put16 (ltk_handle req)) NoCmd s)"

definition dispatch_event :: "event \<Rightarrow> 'u link \<Rightarrow> 'u link" where
  "dispatch_event evt s0 =
     (let s = call_opt (lk_on_event s0) (\<lambda>u. EventSeen u evt) s0 in
      if ev_code evt = kEvtCommandComplete then on_command_complete evt s
      else if ev_code evt = kEvtCommandStatus then on_command_status evt s
      else if ev_code evt = kEvtNumCompletedPackets then on_completed_packets evt s
      else if ev_code evt = kEvtEncryptionChange \<or> ev_code evt = kEvtEncryptionKeyRefresh then
        on_encryption_change evt s
      else if ev_code evt = kEvtDisconnectionComplete then on_disconnection evt s
      else if ev_code evt \<noteq> kEvtLeMeta then s
      else if ev_subevent evt = kLeAdvertisingReport then on_adv_event evt s
      else if ev_subevent evt = kLeConnectionComplete \<or>
              ev_subevent evt = kLeEnhancedConnectionComplete then on_connection_complete evt s
      else if ev_subevent evt = kLeLongTermKeyRequest then on_ltk_request evt s
      else s)"

section \<open>Incoming data\<close>

definition is_notification :: "byte \<Rightarrow> bool" where
  "is_notification op \<longleftrightarrow> op = kHandleValueNotification \<or> op = kHandleValueIndication"

definition answers_request :: "byte \<Rightarrow> bytes \<Rightarrow> bool" where
  "answers_request req pdu \<longleftrightarrow>
     pdu ! 0 = response_opcode req \<or>
     (pdu ! 0 = kErrorResponse \<and> 2 \<le> length pdu \<and> pdu ! 1 = req)"

definition awaited :: "u16 \<Rightarrow> bytes \<Rightarrow> 'u link \<Rightarrow> bool" where
  "awaited c pdu s \<longleftrightarrow>
     \<not> is_notification (pdu ! 0) \<and>
     (case om_get (lk_att s) c of
        None \<Rightarrow> False
      | Some ch \<Rightarrow> ch_in_flight ch \<and> answers_request (ch_req_opcode ch) pdu)"

definition on_frame :: "u16 \<Rightarrow> u16 \<times> bytes \<Rightarrow> 'u link \<Rightarrow> 'u link" where
  "on_frame c frame s0 =
     (if lk_closed s0 then s0
      else
        let cid = fst frame; pdu = snd frame;
            s = call_opt (lk_on_l2cap s0) (\<lambda>u. L2capSeen u c cid pdu) s0 in
        if cid = kCidSmp then call_opt (lk_on_smp s) (\<lambda>u. SmpSeen u c pdu) s
        else if cid \<noteq> kCidAtt \<or> pdu = [] then s
        else if awaited c pdu s then finish_att c True pdu [] s
        else call_opt (lk_on_att s) (\<lambda>u. AttSeen u c pdu) s)"

definition dispatch_acl :: "bytes \<Rightarrow> 'u link \<Rightarrow> 'u link" where
  "dispatch_acl payload s =
     (case parse_acl payload of
        None \<Rightarrow> s
      | Some (hdr, data) \<Rightarrow>
          (case om_get (lk_reasm s) (acl_handle hdr) of
             None \<Rightarrow> s
           | Some r \<Rightarrow>
               (case reasm_push r (acl_pb hdr) data of
                  (r', frames) \<Rightarrow>
                    fold (on_frame (acl_handle hdr)) frames
                      (s\<lparr>lk_reasm := om_put (lk_reasm s) (acl_handle hdr) r'\<rparr>))))"

definition on_packet :: "packet \<Rightarrow> 'u link \<Rightarrow> 'u link" where
  "on_packet pkt s =
     (if lk_closed s then s
      else if pkt_type pkt = kPacketEvent then
        (case parse_event (pkt_payload pkt) of None \<Rightarrow> s | Some evt \<Rightarrow> dispatch_event evt s)
      else if pkt_type pkt = kPacketAclData then dispatch_acl (pkt_payload pkt) s
      else s)"

text \<open>What \<open>Port::read\<close> returned: nothing when the port has died, else the bytes read.\<close>

definition on_readable :: "bytes option \<Rightarrow> 'u link \<Rightarrow> 'u link" where
  "on_readable chunk s =
     (if lk_closed s then s
      else case chunk of
        None \<Rightarrow> fail_link (''the dongle at '' @ lk_port_name s @ '' went away'') s
      | Some bs \<Rightarrow>
          if bs = [] then s
          else (case rx_feed (lk_rx s) bs of
                  (rest, packets) \<Rightarrow> fold on_packet packets (s\<lparr>lk_rx := rest\<rparr>)))"

definition on_port_error :: "string \<Rightarrow> 'u link \<Rightarrow> 'u link" where
  "on_port_error why s = fail_link (''the dongle at '' @ lk_port_name s @ '': '' @ why) s"

end
