(* ===== verification/HciLinkLaws.thy ===== *)
theory HciLinkLaws
  imports HciLink "HOL-Library.Multiset"
begin

text \<open>
  What the host of \<open>hcilink.cc\<close> promises its callers: every completion handler it is given is
  called exactly once, whatever happens to the controller, and the fragments it holds are bounded.

  The operations that issue commands take the command operation as an argument, so their laws
  are proved in a locale over it and interpreted twice: for a closed link, where a command is
  only deferred, and for an open one.
\<close>

section \<open>The handlers a link holds\<close>

definition opt_tokens :: "'u option \<Rightarrow> 'u multiset" where
  "opt_tokens h = (case h of None \<Rightarrow> {#} | Some u \<Rightarrow> {#u#})"

definition completion_tokens :: "'u completion \<Rightarrow> 'u multiset" where
  "completion_tokens d = (case d of UserDone u \<Rightarrow> {#u#} | _ \<Rightarrow> {#})"

definition seq_tokens :: "'u seq_done \<Rightarrow> 'u multiset" where
  "seq_tokens q =
     (case q of ScanStarted d \<Rightarrow> completion_tokens d | ScanStopped d \<Rightarrow> completion_tokens d
      | AdvStarted d \<Rightarrow> completion_tokens d | AdvStopped d \<Rightarrow> completion_tokens d)"

definition cmd_tokens :: "'u cmd_done \<Rightarrow> 'u multiset" where
  "cmd_tokens d = (case d of UserCmd u \<Rightarrow> {#u#} | NextStep _ q \<Rightarrow> seq_tokens q | _ \<Rightarrow> {#})"

definition deferred_tokens :: "'u deferred \<Rightarrow> 'u multiset" where
  "deferred_tokens d =
     (case d of DeferDone c _ _ \<Rightarrow> completion_tokens c | DeferCmd c \<Rightarrow> cmd_tokens c
      | DeferConnect u _ \<Rightarrow> {#u#} | DeferResponse u _ \<Rightarrow> {#u#})"

definition channel_tokens :: "'u att_channel \<Rightarrow> 'u multiset" where
  "channel_tokens ch =
     opt_tokens (ch_done ch) + sum_list (map (\<lambda>q. opt_tokens (qr_done q)) (ch_queue ch))"

definition action_tokens :: "'u action \<Rightarrow> 'u multiset" where
  "action_tokens a =
     (case a of CmdCalled u _ _ _ \<Rightarrow> {#u#} | DoneCalled u _ _ \<Rightarrow> {#u#}
      | ConnectCalled u _ _ _ \<Rightarrow> {#u#} | ResponseCalled u _ _ _ \<Rightarrow> {#u#} | _ \<Rightarrow> {#})"

definition att_tokens :: "(u16, 'u att_channel) omap \<Rightarrow> 'u multiset" where
  "att_tokens m = sum_list (map (\<lambda>e. channel_tokens (snd e)) m)"

text \<open>The completion handlers still to be called, and those that have been.\<close>

definition owed :: "'u link \<Rightarrow> 'u multiset" where
  "owed s =
     cmd_tokens (lk_cmd_done s) + sum_list (map (\<lambda>q. cmd_tokens (qc_done q)) (lk_cmd_queue s)) +
     att_tokens (lk_att s) + opt_tokens (lk_connect_done s) + opt_tokens (lk_encrypt_done s) +
     opt_tokens (lk_on_ready s) + sum_list (map deferred_tokens (lk_deferred s))"

definition told :: "'u link \<Rightarrow> 'u multiset" where
  "told s = sum_list (map action_tokens (lk_out s))"

definition ledger :: "'u link \<Rightarrow> 'u multiset" where
  "ledger s = owed s + told s"

lemmas token_defs = opt_tokens_def completion_tokens_def seq_tokens_def cmd_tokens_def
  deferred_tokens_def channel_tokens_def action_tokens_def

section \<open>The invariant\<close>

definition channel_ok :: "'u att_channel \<Rightarrow> bool" where
  "channel_ok ch \<longleftrightarrow> (\<not> ch_in_flight ch \<longrightarrow> ch_done ch = None)"

definition link_ok :: "'u link \<Rightarrow> bool" where
  "link_ok s \<longleftrightarrow>
     (\<not> lk_cmd_in_flight s \<longrightarrow> lk_cmd_done s = NoCmd) \<and>
     (\<not> lk_connect_pending s \<longrightarrow> lk_connect_done s = None) \<and>
     (\<not> lk_encrypt_pending s \<longrightarrow> lk_encrypt_done s = None) \<and>
     om_ok (lk_att s) \<and> (\<forall>e \<in> set (lk_att s). channel_ok (snd e)) \<and>
     0 \<le> lk_acl_credits s \<and> lk_acl_credits s \<le> lk_acl_total s \<and>
     length (lk_acl_queue s) \<le> kMaxQueuedFragments \<and>
     (lk_closed s \<longrightarrow> lk_cmd_queue s = [] \<and> \<not> lk_cmd_in_flight s \<and> lk_att s = [] \<and>
        \<not> lk_connect_pending s \<and> \<not> lk_encrypt_pending s \<and> lk_on_ready s = None \<and>
        lk_acl_queue s = [])"

text \<open>\<open>s'\<close> is a good state that has taken the handlers \<open>m\<close> on and lost none.\<close>

definition accounts :: "'u link \<Rightarrow> 'u multiset \<Rightarrow> 'u link \<Rightarrow> bool" where
  "accounts s m s' \<longleftrightarrow> link_ok s' \<and> ledger s' = ledger s + m"

lemma accounts_refl: "link_ok s \<Longrightarrow> accounts s {#} s"
  by (simp add: accounts_def)

lemma accounts_trans: "accounts s m t \<Longrightarrow> accounts t n u \<Longrightarrow> accounts s (m + n) u"
  by (simp add: accounts_def ac_simps)

lemma accounts_ok: "accounts s m t \<Longrightarrow> link_ok t"
  by (simp add: accounts_def)

lemmas ledger_defs = ledger_def owed_def told_def

lemma ledger_emit [simp]: "ledger (emit a s) = ledger s + action_tokens a"
  by (simp add: ledger_defs emit_def)

lemma link_ok_emit [simp]: "link_ok (emit a s) = link_ok s"
  by (simp add: link_ok_def emit_def)

lemma ledger_defer [simp]: "ledger (defer_work d s) = ledger s + deferred_tokens d"
  by (simp add: ledger_defs defer_work_def)

lemma link_ok_defer [simp]: "link_ok (defer_work d s) = link_ok s"
  by (simp add: link_ok_def defer_work_def)

lemma link_ok_call_opt [simp]: "link_ok (call_opt h f s) = link_ok s"
  by (simp add: call_opt_def split: option.split)

lemma ledger_call_opt:
  "(\<And>u. action_tokens (f u) = {#u#}) \<Longrightarrow> ledger (call_opt h f s) = ledger s + opt_tokens h"
  by (simp add: call_opt_def opt_tokens_def split: option.split)

lemma ledger_call_event:
  "(\<And>u. action_tokens (f u) = {#}) \<Longrightarrow> ledger (call_opt h f s) = ledger s"
  by (simp add: call_opt_def split: option.split)

section \<open>What runs when a command is answered\<close>

locale command_sender =
  fixes send :: "'u send"
  assumes send_accounts: "link_ok s \<Longrightarrow> accounts s (cmd_tokens d) (send op ps d s)"
begin

lemma accounts_send_after:
  assumes "link_ok s'" "ledger s' = ledger s"
  shows "accounts s (cmd_tokens d) (send op ps d s')"
  using send_accounts[OF assms(1), of d op ps] assms(2) by (simp add: accounts_def)

lemma accounts_finish_init: "link_ok s \<Longrightarrow> accounts s {#} (finish_init ok err s)"
proof -
  assume ok: "link_ok s"
  have a: "link_ok (s\<lparr>lk_on_ready := None\<rparr>)" using ok by (simp add: link_ok_def)
  have b: "ledger (s\<lparr>lk_on_ready := None\<rparr>) + opt_tokens (lk_on_ready s) = ledger s"
    by (simp add: ledger_defs opt_tokens_def)
  show ?thesis using a b by (simp add: accounts_def finish_init_def ledger_call_opt action_tokens_def)
qed

lemma accounts_init_step: "link_ok s \<Longrightarrow> accounts s {#} (init_step send k s)"
proof -
  assume ok: "link_ok s"
  have e: "accounts s {#} (send op ps d s)" if "cmd_tokens d = {#}" for op ps d
    using send_accounts[OF ok, of d op ps] that by simp
  show ?thesis unfolding init_step_def
    using accounts_finish_init[OF ok] by (simp add: e cmd_tokens_def)
qed

lemma learned_ok:
  assumes "link_ok s"
  shows "link_ok (learn_version ok p s)" "ledger (learn_version ok p s) = ledger s"
    "link_ok (learn_buffers ok p s)" "ledger (learn_buffers ok p s) = ledger s"
  using assms by (simp_all add: learn_version_def learn_buffers_def link_ok_def ledger_defs Let_def)

lemma accounts_address:
  assumes ok: "link_ok s"
  shows "accounts s {#} (on_public_address send a p s)" "accounts s {#} (on_random_bytes send a p s)"
    "accounts s {#} (on_address_set rnd a err s)"
proof -
  have u: "link_ok (s\<lparr>lk_local := x, lk_own_addr_type := y\<rparr>)"
    "ledger (s\<lparr>lk_local := x, lk_own_addr_type := y\<rparr>) = ledger s" for x y
    using ok by (simp_all add: link_ok_def ledger_defs)
  have f: "accounts s {#} (finish_init True [] (s\<lparr>lk_local := x, lk_own_addr_type := y\<rparr>))" for x y
    using accounts_finish_init[where ok = True and err = "[]", OF u(1)[where x = x and y = y]] u(2)[where x = x and y = y] by (simp add: accounts_def)
  show "accounts s {#} (on_public_address send a p s)"
    using send_accounts[where d = InitRandom, OF ok] f
    by (simp add: on_public_address_def cmd_tokens_def split: option.split)
  show "accounts s {#} (on_random_bytes send a p s)"
    using send_accounts[where d = "InitSetAddress (random_static_address a p)", OF ok]
    by (simp add: on_random_bytes_def Let_def cmd_tokens_def)
  show "accounts s {#} (on_address_set rnd a err s)"
    using f accounts_finish_init[OF ok] by (simp add: on_address_set_def)
qed

lemma accounts_command_sequence:
  "link_ok s \<Longrightarrow> accounts s (seq_tokens q) (command_sequence send first rest q s)"
  using send_accounts[of s "NextStep rest q"] by (simp add: command_sequence_def cmd_tokens_def)

lemma accounts_start_scan:
  assumes "link_ok s"
  shows "accounts s (completion_tokens d) (start_scan_with send active filt rep d s)"
proof -
  define s1 where "s1 = (case rep of None \<Rightarrow> s | Some u \<Rightarrow> s\<lparr>lk_on_adv := Some u\<rparr>)"
  have "link_ok s1" "ledger s1 = ledger s"
    using assms by (simp_all add: s1_def link_ok_def ledger_defs split: option.split)
  then show ?thesis
    using accounts_command_sequence[of s1 "ScanStarted d"]
    by (simp add: start_scan_with_def s1_def[symmetric] Let_def accounts_def seq_tokens_def)
qed

lemma accounts_stop_scan:
  "link_ok s \<Longrightarrow> accounts s (completion_tokens d) (stop_scan_with send d s)"
  using accounts_command_sequence[of s "ScanStopped d"]
  by (cases d) (auto simp: stop_scan_with_def accounts_def seq_tokens_def completion_tokens_def
      deferred_tokens_def)

lemma accounts_finish_connect:
  assumes ok: "link_ok s"
  shows "accounts s {#} (finish_connect_with send good h err s)"
proof (cases "lk_connect_pending s")
  case False
  then show ?thesis using ok by (simp add: finish_connect_with_def accounts_refl)
next
  case True
  define s1 where "s1 = s\<lparr>lk_connect_timer := None, lk_connect_pending := False, lk_connect_done := None\<rparr>"
  define s2 where "s2 = (if lk_restore_scan s \<and> \<not> good \<and> \<not> lk_closed s
                     then start_scan_with send False False None NoDone s1 else s1)"
  have 1: "link_ok s1" "ledger s1 + opt_tokens (lk_connect_done s) = ledger s"
    using ok by (simp_all add: s1_def link_ok_def ledger_defs opt_tokens_def)
  have "accounts s1 {#} s2"
    using accounts_start_scan[OF 1(1), of NoDone] accounts_refl[OF 1(1)]
    by (simp add: s2_def completion_tokens_def)
  then have 2: "link_ok s2" "ledger s2 + opt_tokens (lk_connect_done s) = ledger s"
    using 1(2) by (simp_all add: accounts_def)
  have 3: "link_ok (s2\<lparr>lk_restore_scan := False\<rparr>)" "ledger (s2\<lparr>lk_restore_scan := False\<rparr>) = ledger s2"
    using 2(1) by (simp_all add: link_ok_def ledger_defs)
  show ?thesis
    using 3 2(2) True unfolding finish_connect_with_def s1_def[symmetric] s2_def[symmetric] Let_def
    by (simp add: accounts_def ledger_call_opt action_tokens_def)
qed

lemma accounts_completion:
  assumes ok: "link_ok s"
  shows "accounts s (completion_tokens d) (run_completion send d good err s)"
  using ok accounts_refl[OF ok] accounts_finish_connect[OF ok] send_accounts[where d = "ConnectSent _", OF ok]
  by (cases d) (auto simp: run_completion_def completion_tokens_def accounts_def action_tokens_def cmd_tokens_def)

lemma accounts_flags:
  assumes "link_ok s"
  shows "link_ok (s\<lparr>lk_scanning := b\<rparr>)" "ledger (s\<lparr>lk_scanning := b\<rparr>) = ledger s"
    "link_ok (s\<lparr>lk_advertising := b\<rparr>)" "ledger (s\<lparr>lk_advertising := b\<rparr>) = ledger s"
  using assms by (simp_all add: link_ok_def ledger_defs)

lemma accounts_seq_done:
  assumes ok: "link_ok s"
  shows "accounts s (seq_tokens q) (run_seq_done send q good err s)"
  using accounts_completion[OF ok] accounts_completion[OF accounts_flags(1)[OF ok]]
    accounts_completion[OF accounts_flags(3)[OF ok]] accounts_flags[OF ok]
  by (cases q) (simp_all add: run_seq_done_def seq_tokens_def accounts_def)

lemma accounts_sequence:
  "link_ok s \<Longrightarrow> accounts s (seq_tokens q) (run_sequence send steps q s)"
  using accounts_seq_done[of s q] send_accounts[of s "NextStep _ q"]
  by (simp add: run_sequence_def cmd_tokens_def split: list.split)

lemma accounts_finish_encryption:
  assumes ok: "link_ok s"
  shows "accounts s {#} (finish_encryption good err s)"
proof (cases "lk_encrypt_pending s")
  case False
  then show ?thesis using ok by (simp add: finish_encryption_def accounts_refl)
next
  case True
  define s1 where "s1 = s\<lparr>lk_encrypt_timer := None, lk_encrypt_pending := False, lk_encrypt_done := None\<rparr>"
  have "link_ok s1" "ledger s1 + opt_tokens (lk_encrypt_done s) = ledger s"
    using ok by (simp_all add: s1_def link_ok_def ledger_defs opt_tokens_def)
  then show ?thesis using True unfolding finish_encryption_def s1_def[symmetric]
    by (simp add: accounts_def ledger_call_opt action_tokens_def)
qed

lemma accounts_procedures:
  assumes ok: "link_ok s"
  shows "accounts s {#} (on_connect_sent send t good err s)" "accounts s {#} (on_encrypt_sent t good err s)"
proof -
  have u: "link_ok (s\<lparr>lk_connect_timer := x\<rparr>)" "ledger (s\<lparr>lk_connect_timer := x\<rparr>) = ledger s"
    "link_ok (s\<lparr>lk_encrypt_timer := x\<rparr>)" "ledger (s\<lparr>lk_encrypt_timer := x\<rparr>) = ledger s" for x
    using ok by (simp_all add: link_ok_def ledger_defs)
  show "accounts s {#} (on_connect_sent send t good err s)"
    using accounts_finish_connect[OF ok] u ok by (simp add: on_connect_sent_def accounts_def)
  show "accounts s {#} (on_encrypt_sent t good err s)"
    using accounts_finish_encryption[OF ok] u ok by (simp add: on_encrypt_sent_def accounts_def)
qed

lemma accounts_run:
  assumes ok: "link_ok s"
  shows "accounts s (cmd_tokens d) (run_cmd_done send d good cc err s)"
proof (cases d)
  case InitVersion
  then show ?thesis
    using accounts_init_step[where k = 4, OF learned_ok(1)[OF ok]] learned_ok(2)[OF ok]
    by (simp add: run_cmd_done_def accounts_def cmd_tokens_def)
next
  case InitBuffers
  then show ?thesis
    using send_accounts[where d = InitAddress, OF learned_ok(3)[OF ok]] learned_ok(4)[OF ok]
    by (simp add: run_cmd_done_def init_address_def accounts_def cmd_tokens_def)
next
  case (NextStep rest q)
  then show ?thesis using accounts_seq_done[OF ok] accounts_sequence[OF ok]
    by (simp add: run_cmd_done_def cmd_tokens_def)
next
  case (UserCmd u)
  then show ?thesis using ok by (simp add: run_cmd_done_def cmd_tokens_def accounts_def action_tokens_def)
next
  case NoCmd
  then show ?thesis using ok by (simp add: run_cmd_done_def cmd_tokens_def accounts_refl)
qed (use accounts_init_step[OF ok] accounts_finish_init[OF ok] accounts_address[OF ok]
    accounts_procedures[OF ok] in \<open>simp_all add: run_cmd_done_def cmd_tokens_def\<close>)

end

interpretation closed: command_sender closed_command
proof
  fix s :: "'u link" and d op ps
  assume "link_ok s"
  then show "accounts s (cmd_tokens d) (closed_command op ps d s)"
    by (cases d) (simp_all add: closed_command_def accounts_def cmd_tokens_def deferred_tokens_def)
qed

section \<open>Failing, and issuing commands\<close>

lemma accounts_fail_commands:
  "link_ok s \<Longrightarrow> accounts s (sum_list (map cmd_tokens ds)) (fail_commands why ds s)"
proof (induction ds arbitrary: s)
  case Nil
  then show ?case by (simp add: fail_commands_def accounts_refl)
next
  case (Cons d ds)
  have 1: "accounts s (cmd_tokens d) (run_cmd_done closed_command d False no_complete why s)"
    by (rule closed.accounts_run[OF Cons.prems])
  show ?case
    using accounts_trans[OF 1 Cons.IH[OF accounts_ok[OF 1]]] by (simp add: fail_commands_def)
qed

lemma accounts_response:
  "link_ok s \<Longrightarrow> accounts s (opt_tokens h) (call_opt h (\<lambda>u. ResponseCalled u ok rsp why) s)"
  by (simp add: accounts_def ledger_call_opt action_tokens_def)

lemma accounts_answer_queue:
  "link_ok s \<Longrightarrow> accounts s (sum_list (map (\<lambda>q. opt_tokens (qr_done q)) qs))
     (fold (\<lambda>q. call_opt (qr_done q) (\<lambda>u. ResponseCalled u ok rsp why)) qs s)"
proof (induction qs arbitrary: s)
  case (Cons q qs)
  note 1 = accounts_response[OF Cons.prems, of "qr_done q" ok rsp why]
  show ?case using accounts_trans[OF 1 Cons.IH[OF accounts_ok[OF 1]]] by simp
qed (simp add: accounts_refl)

lemma accounts_fail_channel:
  assumes "link_ok s"
  shows "accounts s (channel_tokens (snd e)) (fail_channel why e s)"
proof -
  note 1 = accounts_response[OF assms, of "ch_done (snd e)" False "[]" why]
  show ?thesis
    using accounts_trans[OF 1 accounts_answer_queue[OF accounts_ok[OF 1]]]
    unfolding fail_channel_def channel_tokens_def .
qed

lemma accounts_fail_channels: "link_ok s \<Longrightarrow> accounts s (att_tokens cs) (fold (fail_channel why) cs s)"
proof (induction cs arbitrary: s)
  case (Cons c cs)
  note 1 = accounts_fail_channel[OF Cons.prems, of c why]
  show ?case using accounts_trans[OF 1 Cons.IH[OF accounts_ok[OF 1]]] by (simp add: att_tokens_def)
qed (simp add: accounts_refl att_tokens_def)

lemma torn_down_ok:
  assumes "link_ok s"
  shows "link_ok (torn_down s)"
  using assms by (simp add: link_ok_def torn_down_def om_ok_def)

lemma torn_down_ledger:
  "ledger (torn_down s) + (sum_list (map cmd_tokens (lk_cmd_done s # map qc_done (lk_cmd_queue s))) +
     att_tokens (lk_att s) + opt_tokens (lk_connect_done s) + opt_tokens (lk_encrypt_done s) +
     opt_tokens (lk_on_ready s)) = ledger s"
  by (simp add: torn_down_def ledger_defs att_tokens_def opt_tokens_def cmd_tokens_def comp_def)

lemma accounts_call_done:
  assumes "accounts s m t" "\<And>u. action_tokens (f u) = {#u#}"
  shows "accounts s (m + opt_tokens h) (call_opt h f t)"
  using assms by (simp add: accounts_def ledger_call_opt ac_simps)

lemma accounts_fail:
  assumes "link_ok s"
  shows "accounts s {#} (fail_link why s)"
proof (cases "lk_closed s")
  case True
  then show ?thesis using assms by (simp add: fail_link_def accounts_refl)
next
  case False
  define s1 where "s1 = fail_commands why (lk_cmd_done s # map qc_done (lk_cmd_queue s)) (torn_down s)"
  define s2 where "s2 = fold (fail_channel why) (lk_att s) s1"
  have 1: "accounts (torn_down s) (sum_list (map cmd_tokens (lk_cmd_done s # map qc_done (lk_cmd_queue s)))) s1"
    unfolding s1_def by (rule accounts_fail_commands[OF torn_down_ok[OF assms]])
  have 2: "accounts s1 (att_tokens (lk_att s)) s2"
    unfolding s2_def by (rule accounts_fail_channels[OF accounts_ok[OF 1]])
  note 3 = accounts_call_done[OF accounts_call_done[OF accounts_call_done[OF accounts_trans[OF 1 2],
        of "\<lambda>u. ConnectCalled u False 0 why" "lk_connect_done s"],
        of "\<lambda>u. DoneCalled u False why" "lk_encrypt_done s"], of "\<lambda>u. DoneCalled u False why" "lk_on_ready s"]
  show ?thesis
    using 3 torn_down_ledger[of s] False
    unfolding fail_link_def s1_def[symmetric] s2_def[symmetric] Let_def
    by (simp add: accounts_def action_tokens_def ledger_call_event)
qed

lemma accounts_write:
  assumes "link_ok s"
  shows "accounts s {#} (snd (write_packet pkt s))"
proof -
  have "link_ok (s\<lparr>lk_writes := n\<rparr>)" "ledger (s\<lparr>lk_writes := n\<rparr>) = ledger s" for n
    using assms by (simp_all add: link_ok_def ledger_defs)
  then show ?thesis by (simp add: write_packet_def Let_def accounts_def action_tokens_def)
qed

lemma accounts_pump:
  assumes ok: "link_ok s"
  shows "accounts s {#} (pump_commands s)"
proof (cases "lk_cmd_queue s = [] \<or> lk_cmd_in_flight s \<or> lk_closed s")
  case True
  then show ?thesis using ok by (auto simp: pump_commands_def accounts_refl split: list.split)
next
  case False
  then obtain q rest where q: "lk_cmd_queue s = q # rest" by (cases "lk_cmd_queue s") auto
  define s1 where "s1 = s\<lparr>lk_cmd_queue := rest, lk_cmd_in_flight := True,
                           lk_cmd_opcode := qc_opcode q, lk_cmd_done := qc_done q\<rparr>"
  have 1: "accounts s {#} s1"
    using ok q False by (simp add: accounts_def s1_def link_ok_def ledger_defs cmd_tokens_def)
  obtain sent s2 where w: "write_packet (build_command (qc_opcode q) (qc_params q)) s1 = (sent, s2)"
    by (cases "write_packet (build_command (qc_opcode q) (qc_params q)) s1")
  have 2: "accounts s {#} s2"
    using accounts_trans[OF 1 accounts_write[OF accounts_ok[OF 1]]] w by (metis add_0 snd_conv)
  have 3: "accounts s {#} (s2\<lparr>lk_cmd_timer := t\<rparr>)" for t
    using 2 by (simp add: accounts_def link_ok_def ledger_defs)
  show ?thesis
    using accounts_trans[OF 2 accounts_fail[OF accounts_ok[OF 2]]] 3 False q w
    by (simp add: pump_commands_def s1_def[symmetric])
qed

interpretation live: command_sender issue_command
proof
  fix s :: "'u link" and d op ps
  assume ok: "link_ok s"
  show "accounts s (cmd_tokens d) (issue_command op ps d s)"
  proof (cases "lk_closed s")
    case True
    then show ?thesis using closed.send_accounts[OF ok] by (simp add: issue_command_def)
  next
    case False
    define s1 where "s1 = s\<lparr>lk_cmd_queue := lk_cmd_queue s @ [\<lparr>qc_opcode = op, qc_params = ps, qc_done = d\<rparr>]\<rparr>"
    have 1: "accounts s (cmd_tokens d) s1"
      using ok False by (simp add: accounts_def s1_def link_ok_def ledger_defs)
    show ?thesis using accounts_trans[OF 1 accounts_pump[OF accounts_ok[OF 1]]] False
      by (simp add: issue_command_def s1_def)
  qed
qed

lemma accounts_finish_command:
  assumes ok: "link_ok s"
  shows "accounts s {#} (finish_command good cc err s)"
proof (cases "lk_cmd_in_flight s")
  case False
  then show ?thesis using ok by (simp add: finish_command_def accounts_refl)
next
  case True
  define s1 where "s1 = s\<lparr>lk_cmd_timer := None, lk_cmd_in_flight := False, lk_cmd_done := NoCmd\<rparr>"
  have 1: "link_ok s1" "ledger s1 + cmd_tokens (lk_cmd_done s) = ledger s"
    using ok by (simp_all add: s1_def link_ok_def ledger_defs) (simp add: cmd_tokens_def)
  note 2 = live.accounts_run[OF 1(1), of "lk_cmd_done s" good cc err]
  show ?thesis
    using accounts_trans[OF 2 accounts_pump[OF accounts_ok[OF 2]]] True 1(2)
    by (simp add: finish_command_def s1_def[symmetric] accounts_def)
qed

lemma accounts_timer_clear:
  assumes "link_ok s"
  shows "accounts s {#} (s\<lparr>lk_cmd_timer := None\<rparr>)" "accounts s {#} (s\<lparr>lk_connect_timer := None\<rparr>)"
    "accounts s {#} (s\<lparr>lk_encrypt_timer := None\<rparr>)"
  using assms by (simp_all add: accounts_def link_ok_def ledger_defs)

lemma accounts_then: "accounts s {#} t \<Longrightarrow> (link_ok t \<Longrightarrow> accounts t m u) \<Longrightarrow> accounts s m u"
  by (simp add: accounts_def)

lemma accounts_command_timer:
  assumes "link_ok s"
  shows "accounts s {#} (command_timer_fires s)"
  using assms accounts_then[OF accounts_timer_clear(1)[OF assms] accounts_finish_command] accounts_timer_clear[OF assms]
  by (simp add: command_timer_fires_def Let_def accounts_refl split: option.split prod.split)

section \<open>ACL data and ATT requests\<close>

lemma accounts_pump_acl_from:
  "link_ok s \<Longrightarrow> length qs \<le> kMaxQueuedFragments \<Longrightarrow> accounts s {#} (pump_acl_from qs s)"
proof (induction qs s rule: pump_acl_from.induct)
  case (2 q qs s)
  show ?case
  proof (cases "lk_closed s \<or> lk_acl_credits s \<le> 0")
    case True
    then show ?thesis using 2 by (simp add: accounts_refl)
  next
    case False
    define s0 where "s0 = s\<lparr>lk_acl_queue := qs, lk_acl_credits := lk_acl_credits s - 1\<rparr>"
    have 0: "accounts s {#} s0"
      using 2 False by (simp add: accounts_def s0_def link_ok_def ledger_defs)
    obtain sent s1 where w: "write_packet (build_acl (qf_conn q) (qf_pb q) (qf_data q)) s0 = (sent, s1)"
      by (cases "write_packet (build_acl (qf_conn q) (qf_pb q) (qf_data q)) s0")
    have 1: "accounts s {#} s1"
      using accounts_trans[OF 0 accounts_write[OF accounts_ok[OF 0]]] w by (metis add_0 snd_conv)
    have "accounts s1 {#} (if sent then pump_acl_from qs s1 else fail_link (write_error s1) s1)"
      using 2 False w s0_def accounts_fail[OF accounts_ok[OF 1]] accounts_ok[OF 1] by auto
    then have "accounts s {#} (if sent then pump_acl_from qs s1 else fail_link (write_error s1) s1)"
      using accounts_then[OF 1] by blast
    then show ?thesis using False w by (simp add: s0_def[symmetric] split: if_splits)
  qed
qed (simp add: accounts_refl)

lemma accounts_pump_acl: "link_ok s \<Longrightarrow> accounts s {#} (pump_acl s)"
  unfolding pump_acl_def by (rule accounts_pump_acl_from) (simp_all add: link_ok_def)

lemma length_tag [simp]: "length (tag_fragments c pb fs) = length fs"
  by (induction fs arbitrary: pb) simp_all

lemma accounts_queue_acl:
  assumes ok: "link_ok s"
  shows "accounts s {#} (snd (queue_acl c frame s))"
proof -
  have "accounts s {#} (s\<lparr>lk_acl_queue := lk_acl_queue s @ tag_fragments c kAclFirstFlushable fs\<rparr>)"
    if "\<not> kMaxQueuedFragments < length (lk_acl_queue s) + length fs" "\<not> lk_closed s" for fs
    using ok that by (simp add: accounts_def link_ok_def ledger_defs)
  note 1 = accounts_then[OF this accounts_pump_acl]
  show ?thesis using 1 ok by (simp add: queue_acl_def Let_def accounts_refl)
qed

lemma accounts_send_att: "link_ok s \<Longrightarrow> accounts s {#} (snd (send_att c pdu s))"
  unfolding send_att_def send_l2cap_def by (rule accounts_queue_acl)

definition channel_at :: "u16 \<Rightarrow> 'u link \<Rightarrow> 'u multiset" where
  "channel_at c s = (case om_get (lk_att s) c of None \<Rightarrow> {#} | Some ch \<Rightarrow> channel_tokens ch)"

lemma att_tokens_put:
  "om_ok m \<Longrightarrow> att_tokens (om_put m c ch) +
     (case om_get m c of None \<Rightarrow> {#} | Some old \<Rightarrow> channel_tokens old) = att_tokens m + channel_tokens ch"
proof (induction m c ch rule: om_put.induct)
  case (2 k' v' m k v)
  have "om_get m k = None" if "k < k'"
    using 2(2) that by (force simp: om_ok_def map_of_eq_None_iff)
  moreover have "om_ok m" using 2(2) by (simp add: om_ok_def)
  ultimately show ?case using 2(1) by (auto simp: att_tokens_def ac_simps split: option.splits)
qed (simp add: att_tokens_def)

lemma att_tokens_del:
  "om_ok m \<Longrightarrow> att_tokens (om_del m c) +
     (case om_get m c of None \<Rightarrow> {#} | Some old \<Rightarrow> channel_tokens old) = att_tokens m"
proof (induction m)
  case (Cons e m)
  have d: "om_get m (fst e) = None" "om_ok m" using Cons.prems by (auto simp: om_ok_def map_of_eq_None_iff)
  have k: "om_del m k = m" if "om_get m k = None" for k
    using that unfolding om_del_def by (force simp: filter_id_conv map_of_eq_None_iff)
  show ?case
  proof (cases "fst e = c")
    case True
    have "om_del (e # m) c = m" using True k[OF d(1)] by (simp add: om_del_def)
    then show ?thesis using True d(1) by (cases e) (simp add: att_tokens_def)
  next
    case False
    then show ?thesis using Cons.IH[OF d(2)] by (cases e) (simp add: att_tokens_def om_del_def ac_simps)
  qed
qed (simp add: att_tokens_def om_del_def)

lemma channel_ok_get:
  assumes "link_ok s" "om_get (lk_att s) c = Some ch"
  shows "channel_ok ch"
  using assms map_of_SomeD[OF assms(2)] by (auto simp: link_ok_def)

lemma not_closed_get: "link_ok s \<Longrightarrow> om_get (lk_att s) c = Some ch \<Longrightarrow> \<not> lk_closed s"
  by (auto simp: link_ok_def)

lemma om_put_entry: "e \<in> set (om_put m k v) \<Longrightarrow> e = (k, v) \<or> e \<in> set m"
  by (induction m k v rule: om_put.induct) (auto split: if_splits)

lemma put_channel_ok:
  assumes "link_ok s" "channel_ok ch" "\<not> lk_closed s"
  shows "link_ok (put_channel c ch s)"
  using assms by (auto simp: link_ok_def put_channel_def om_ok_put dest: om_put_entry)

lemma put_channel_ledger:
  assumes "link_ok s"
  shows "ledger (put_channel c ch s) + channel_at c s = ledger s + channel_tokens ch"
  using assms att_tokens_put[of "lk_att s" c ch]
  by (simp add: ledger_defs put_channel_def channel_at_def link_ok_def ac_simps)

lemma accounts_put:
  assumes "link_ok s" "channel_ok ch" "\<not> lk_closed s" "channel_tokens ch = channel_at c s + m"
  shows "accounts s m (put_channel c ch s)"
  using put_channel_ledger[OF assms(1), of c ch] put_channel_ok[OF assms(1,2,3), of c] assms(4)
  by (simp add: accounts_def)

lemma accounts_settle:
  assumes ok: "link_ok s" and ch: "om_get (lk_att s) c = Some ch"
  shows "accounts s {#} (settle_att c ch good rsp err s)"
proof -
  define ch' where "ch' = ch\<lparr>ch_timer := None, ch_in_flight := False, ch_done := None\<rparr>"
  have 1: "channel_tokens ch' + opt_tokens (ch_done ch) = channel_at c s" "channel_ok ch'"
    by (simp_all add: ch'_def channel_at_def ch channel_tokens_def channel_ok_def opt_tokens_def)
  show ?thesis
    using put_channel_ledger[OF ok, of c ch'] put_channel_ok[OF ok 1(2) not_closed_get[OF ok ch]] 1(1)
    unfolding settle_att_def ch'_def[symmetric]
    by (simp add: accounts_def ledger_call_opt action_tokens_def)
      (metis add_right_cancel union_assoc union_commute)
qed

lemma accounts_begin:
  assumes ok: "link_ok s" and ch: "om_get (lk_att s) c = Some ch" "ch_queue ch = q # rest"
    and idle: "\<not> ch_in_flight ch"
  shows "accounts s {#} (begin_request c ch q rest s)"
  unfolding begin_request_def
  using channel_ok_get[OF ok ch(1)] ch idle
  by (intro accounts_put[OF ok _ not_closed_get[OF ok ch(1)]])
    (simp_all add: channel_ok_def channel_at_def channel_tokens_def opt_tokens_def)

lemma accounts_retime:
  assumes ok: "link_ok s" and ch: "om_get (lk_att s) c = Some ch"
  shows "accounts s {#} (put_channel c (ch\<lparr>ch_timer := t\<rparr>) s)"
  using channel_ok_get[OF ok ch]
  by (intro accounts_put[OF ok _ not_closed_get[OF ok ch]])
    (simp_all add: channel_ok_def channel_at_def channel_tokens_def ch)

lemma accounts_pump_att: "link_ok s \<Longrightarrow> accounts s {#} (pump_att c s)"
proof (induction c s rule: pump_att.induct)
  case (1 c s)
  show ?case
  proof (cases "\<exists>ch q rest. om_get (lk_att s) c = Some ch \<and> ch_queue ch = q # rest \<and> \<not> ch_in_flight ch \<and> \<not> lk_closed s")
    case False
    then show ?thesis using 1(2)
      by (subst pump_att.simps) (auto simp: accounts_refl split: option.split list.split)
  next
    case True
    then obtain ch q rest where ch: "om_get (lk_att s) c = Some ch" "ch_queue ch = q # rest"
        "\<not> ch_in_flight ch" "\<not> lk_closed s" by auto
    obtain sent s2 where w: "send_att c (qr_req q) (begin_request c ch q rest s) = (sent, s2)"
      by (cases "send_att c (qr_req q) (begin_request c ch q rest s)")
    note b = accounts_begin[OF 1(2) ch(1,2,3)]
    have 2: "accounts s {#} s2"
      using accounts_then[OF b accounts_send_att] w by (metis snd_conv)
    note ok2 = accounts_ok[OF 2]
    show ?thesis
    proof (cases "\<exists>ch2 err. om_get (lk_att s2) c = Some ch2 \<and> ch_in_flight ch2 \<and> sent = Some err")
      case False
      then show ?thesis using ch w 2 accounts_then[OF 2 accounts_retime[OF ok2]]
        by (subst pump_att.simps) (auto split: option.split)
    next
      case True
      then obtain ch2 err where c2: "om_get (lk_att s2) c = Some ch2" "ch_in_flight ch2" "sent = Some err"
        by auto
      note 3 = accounts_settle[OF ok2 c2(1), of False "[]" err]
      have "accounts (settle_att c ch2 False [] err s2) {#} (pump_att c (settle_att c ch2 False [] err s2))"
        by (rule 1(1)[OF ch(1,2) _ w[symmetric] c2(1) _ c2(3) accounts_ok[OF 3]]) (use ch c2 in simp_all)
      then have "accounts s {#} (pump_att c (settle_att c ch2 False [] err s2))"
        using accounts_then[OF 2] accounts_then[OF 3] by blast
      then show ?thesis using ch w c2 by (subst pump_att.simps) simp
    qed
  qed
qed

lemma accounts_finish_att: "link_ok s \<Longrightarrow> accounts s {#} (finish_att c good rsp err s)"
  using accounts_then[OF accounts_settle[of s c] accounts_pump_att] accounts_refl[of s]
  unfolding finish_att_def by (auto split: option.split)

lemma accounts_att_timer:
  assumes ok: "link_ok s"
  shows "accounts s {#} (att_timer_fires c s)"
  using accounts_refl[OF ok] accounts_retime[OF ok, of c]
    accounts_then[OF accounts_retime[OF ok] accounts_finish_att]
  unfolding att_timer_fires_def by (auto simp: Let_def split: option.split)

lemma accounts_att_request:
  assumes ok: "link_ok s"
  shows "accounts s (opt_tokens h) (att_request c req timeout h s)"
proof (cases "req = [] \<or> lk_closed s \<or> om_get (lk_conns s) c = None")
  case True
  then show ?thesis using ok
    by (cases h) (auto simp: att_request_def accounts_def deferred_tokens_def opt_tokens_def)
next
  case False
  define ch where "ch = (case om_get (lk_att s) c of None \<Rightarrow> no_channel | Some ch \<Rightarrow> ch)"
  define ch' where "ch' = ch\<lparr>ch_queue := ch_queue ch @ [\<lparr>qr_req = req, qr_timeout = timeout, qr_done = h\<rparr>]\<rparr>"
  have c: "channel_ok ch'" using channel_ok_get[OF ok, of c]
    by (auto simp: ch'_def ch_def channel_ok_def no_channel_def split: option.split)
  have t: "channel_tokens ch' = channel_at c s + opt_tokens h"
    by (simp add: ch'_def ch_def channel_tokens_def channel_at_def no_channel_def opt_tokens_def ac_simps
        split: option.split)
  have "accounts s (opt_tokens h) (put_channel c ch' s)"
    using accounts_put[OF ok c _ t] False by simp
  from accounts_trans[OF this accounts_pump_att[OF accounts_ok[OF this]]]
  show ?thesis using False unfolding att_request_def ch_def[symmetric] Let_def ch'_def[symmetric] by auto
qed

section \<open>Procedures and events\<close>

lemma accounts_defer_done:
  "link_ok s \<Longrightarrow> accounts s (completion_tokens d) (defer_done d ok err s)"
  by (cases d) (simp_all add: defer_done_def accounts_def deferred_tokens_def completion_tokens_def)

lemma accounts_start_adv:
  "link_ok s \<Longrightarrow> accounts s (completion_tokens d) (start_advertising cfg d s)"
  using live.accounts_command_sequence[of s "AdvStarted d"] accounts_defer_done[of s d]
  by (simp add: start_advertising_def Let_def seq_tokens_def split: option.split)

lemma accounts_stop_adv: "link_ok s \<Longrightarrow> accounts s (completion_tokens d) (stop_advertising d s)"
  using live.accounts_command_sequence[of s "AdvStopped d"] accounts_defer_done[of s d]
  by (simp add: stop_advertising_def seq_tokens_def)

lemma accounts_connect:
  assumes ok: "link_ok s"
  shows "accounts s (opt_tokens h) (connect_to peer timeout h s)"
proof (cases "lk_closed s \<or> lk_connect_pending s")
  case True
  then show ?thesis using ok
    by (cases h) (auto simp: connect_to_def defer_connect_def accounts_def deferred_tokens_def opt_tokens_def)
next
  case False
  define s1 where "s1 = s\<lparr>lk_connect_pending := True, lk_connect_peer := peer, lk_connect_done := h,
                lk_restore_scan := lk_scanning s\<rparr>"
  have 1: "accounts s (opt_tokens h) s1"
    using ok False by (simp add: accounts_def s1_def link_ok_def ledger_defs opt_tokens_def ac_simps)
  show ?thesis
    using accounts_trans[OF 1 live.accounts_stop_scan[OF accounts_ok[OF 1], of "ConnectNext peer timeout"]] False
    by (simp add: connect_to_def stop_scan_def s1_def completion_tokens_def)
qed

lemma accounts_finish_connect_live: "link_ok s \<Longrightarrow> accounts s {#} (finish_connect ok c err s)"
  unfolding finish_connect_def by (rule live.accounts_finish_connect)

lemma accounts_plain_command: "link_ok s \<Longrightarrow> accounts s {#} (issue_command op ps NoCmd s)"
  using live.send_accounts[of s NoCmd] by (simp add: cmd_tokens_def)

lemma accounts_connect_timer:
  assumes ok: "link_ok s"
  shows "accounts s {#} (connect_timer_fires s)"
proof -
  note 1 = accounts_timer_clear(2)[OF ok]
  note 2 = accounts_then[OF 1 accounts_plain_command]
  show ?thesis
    using accounts_refl[OF ok] 1 accounts_then[OF 2 accounts_finish_connect_live]
    by (simp add: connect_timer_fires_def Let_def split: option.split)
qed

lemma accounts_encrypt_timer:
  assumes ok: "link_ok s"
  shows "accounts s {#} (encrypt_timer_fires s)"
  using accounts_refl[OF ok] accounts_timer_clear(3)[OF ok]
    accounts_then[OF accounts_timer_clear(3)[OF ok] live.accounts_finish_encryption]
  by (simp add: encrypt_timer_fires_def Let_def split: option.split)

lemma accounts_disconnect: "link_ok s \<Longrightarrow> accounts s {#} (link_disconnect c reason s)"
  by (simp add: link_disconnect_def accounts_plain_command accounts_refl)

lemma accounts_start_encryption:
  assumes ok: "link_ok s"
  shows "accounts s (opt_tokens h) (start_encryption c ltk ediv rand timeout h s)"
proof (cases "lk_closed s \<or> om_get (lk_conns s) c = None \<or> lk_encrypt_pending s")
  case True
  have "completion_tokens (case h of None \<Rightarrow> NoDone | Some u \<Rightarrow> UserDone u) = opt_tokens h"
    by (simp add: completion_tokens_def opt_tokens_def split: option.split)
  then show ?thesis
    using True accounts_defer_done[OF ok, of "case h of None \<Rightarrow> NoDone | Some u \<Rightarrow> UserDone u"]
    by (auto simp: start_encryption_def Let_def)
next
  case False
  define s1 where "s1 = s\<lparr>lk_encrypt_pending := True, lk_encrypt_done := h\<rparr>"
  have 1: "accounts s (opt_tokens h) s1"
    using ok False by (simp add: accounts_def s1_def link_ok_def ledger_defs opt_tokens_def ac_simps)
  show ?thesis
    using accounts_trans[OF 1 live.send_accounts[where d = "EncryptSent timeout", OF accounts_ok[OF 1]]] False
    by (auto simp: start_encryption_def s1_def cmd_tokens_def Let_def)
qed

lemma accounts_event_call:
  assumes "accounts s m t" "\<And>u. action_tokens (f u) = {#}"
  shows "accounts s m (call_opt h f t)"
  using assms by (simp add: accounts_def ledger_call_event)

lemma accounts_command_events:
  assumes ok: "link_ok s"
  shows "accounts s {#} (on_command_complete evt s)" "accounts s {#} (on_command_status evt s)"
  using accounts_finish_command[OF ok] accounts_refl[OF ok]
  by (simp_all add: on_command_complete_def on_command_status_def Let_def split: option.split)

lemma accounts_completed:
  assumes ok: "link_ok s"
  shows "accounts s {#} (on_completed_packets evt s)"
proof -
  have 1: "accounts s {#} (s\<lparr>lk_acl_credits := min (lk_acl_credits s + int n) (lk_acl_total s)\<rparr>)" for n
    using ok by (simp add: accounts_def link_ok_def ledger_defs)
  show ?thesis using accounts_then[OF 1 accounts_pump_acl] ok
    by (simp add: on_completed_packets_def Let_def accounts_refl)
qed

lemma accounts_encryption_event:
  assumes ok: "link_ok s"
  shows "accounts s {#} (on_encryption_change evt s)"
proof -
  have 1: "accounts s {#} (s\<lparr>lk_encrypted := m\<rparr>)" for m
    using ok by (simp add: accounts_def link_ok_def ledger_defs)
  note 2 = accounts_then[OF 1 live.accounts_finish_encryption]
  show ?thesis using 1 2 accounts_refl[OF ok]
    by (simp add: on_encryption_change_def Let_def split: option.split)
qed

lemma om_del_none: "om_get m k = None \<Longrightarrow> om_del m k = m"
  unfolding om_del_def by (induction m) (auto split: if_splits)

lemma accounts_drop:
  assumes ok: "link_ok s"
  shows "accounts s {#} (drop_connection c why s)"
proof -
  define s1 where "s1 = s\<lparr>lk_conns := om_del (lk_conns s) c, lk_reasm := om_del (lk_reasm s) c,
                 lk_encrypted := om_del (lk_encrypted s) c,
                 lk_acl_queue := filter (\<lambda>q. qf_conn q \<noteq> c) (lk_acl_queue s)\<rparr>"
  have len: "length (filter (\<lambda>q. qf_conn q \<noteq> c) (lk_acl_queue s)) \<le> kMaxQueuedFragments"
    using ok order_trans[OF length_filter_le] by (auto simp: link_ok_def)
  have 1: "accounts s {#} s1"
    using ok len by (simp add: accounts_def s1_def link_ok_def ledger_defs)
  show ?thesis
  proof (cases "om_get (lk_att s) c")
    case None
    then show ?thesis using 1 by (simp add: drop_connection_def s1_def Let_def)
  next
    case (Some ch)
    define s2 where "s2 = s1\<lparr>lk_att := om_del (lk_att s) c\<rparr>"
    have a: "lk_att s1 = lk_att s" by (simp add: s1_def)
    have ok2: "link_ok s2"
      using accounts_ok[OF 1] a not_closed_get[OF ok Some]
      by (auto simp: link_ok_def s2_def om_ok_del om_ok_filter om_del_def[of "lk_att s" c])
    have led: "ledger s2 + channel_tokens ch = ledger s1"
      using att_tokens_del[of "lk_att s" c] ok Some a by (simp add: ledger_defs s2_def link_ok_def ac_simps)
    define s3 where "s3 = fail_channel why (c, ch) s2"
    have 3: "accounts s {#} s3"
      using accounts_fail_channel[OF ok2, of "(c, ch)" why] led 1 by (simp add: accounts_def s3_def)
    have d: "drop_connection c why s = (if lk_encrypt_pending s3 then finish_encryption False why s3 else s3)"
      unfolding drop_connection_def s1_def[symmetric] Let_def by (simp add: Some s2_def s3_def)
    show ?thesis
      unfolding d using 3 accounts_then[OF 3 live.accounts_finish_encryption] by simp
  qed
qed

lemma accounts_disconnection: "link_ok s \<Longrightarrow> accounts s {#} (on_disconnection evt s)"
  unfolding on_disconnection_def
  by (auto simp: Let_def action_tokens_def intro!: accounts_refl accounts_event_call accounts_drop
      split: option.split)

lemma accounts_adv_event: "link_ok s \<Longrightarrow> accounts s {#} (on_adv_event evt s)"
proof -
  have "link_ok t \<Longrightarrow> accounts t {#} (fold (\<lambda>r t. if lk_closed t then t else call_opt h (\<lambda>u. AdvSeen u r) t) rs t)"
    for rs h and t :: "'a link"
  proof (induction rs arbitrary: t)
    case (Cons r rs)
    define t' where "t' = (if lk_closed t then t else call_opt h (\<lambda>u. AdvSeen u r) t)"
    have 1: "accounts t {#} t'"
      using accounts_event_call[OF accounts_refl[OF Cons.prems], of "\<lambda>u. AdvSeen u r" h] accounts_refl[OF Cons.prems]
      by (simp add: t'_def action_tokens_def)
    show ?case using accounts_then[OF 1 Cons.IH] by (simp add: t'_def)
  qed (simp add: accounts_refl)
  then show "link_ok s \<Longrightarrow> accounts s {#} (on_adv_event evt s)"
    by (simp add: on_adv_event_def accounts_refl split: prod.split)
qed

lemma accounts_note_connection:
  assumes "link_ok s"
  shows "accounts s {#} (note_connection cc s)"
  using assms by (simp add: note_connection_def accounts_def link_ok_def ledger_defs)

lemma accounts_connection_event:
  assumes ok: "link_ok s"
  shows "accounts s {#} (on_connection_complete evt s)"
proof (cases "parse_connection_complete evt")
  case None
  then show ?thesis using ok by (simp add: on_connection_complete_def accounts_refl)
next
  case (Some cc)
  note 1 = accounts_note_connection[OF ok, of cc]
  note f = accounts_then[OF 1 accounts_finish_connect_live]
  define s2 where "s2 = (if \<not> lk_connect_pending (note_connection cc s) then note_connection cc s
    else if cx_status cc = kSuccess then finish_connect True (cx_handle cc) [] (note_connection cc s)
    else finish_connect False 0 (connect_refusal (cx_status cc) (note_connection cc s)) (note_connection cc s))"
  have "accounts s {#} s2" using 1 f by (simp add: s2_def)
  then show ?thesis
    using Some accounts_event_call[of s "{#}" s2]
    by (simp add: on_connection_complete_def Let_def s2_def[symmetric] action_tokens_def)
qed

lemma accounts_ltk: "link_ok s \<Longrightarrow> accounts s {#} (on_ltk_request evt s)"
  by (simp add: on_ltk_request_def accounts_plain_command accounts_refl split: option.split)

lemma accounts_event:
  assumes "link_ok s"
  shows "accounts s {#} (dispatch_event evt s)"
proof -
  define s1 where "s1 = call_opt (lk_on_event s) (\<lambda>u. EventSeen u evt) s"
  have 1: "accounts s {#} s1"
    using accounts_event_call[OF accounts_refl[OF assms]] by (simp add: s1_def action_tokens_def)
  note ok = accounts_ok[OF 1]
  note each = accounts_command_events[OF ok, of evt] accounts_completed[OF ok, of evt]
    accounts_encryption_event[OF ok, of evt] accounts_disconnection[OF ok, of evt]
    accounts_adv_event[OF ok, of evt] accounts_connection_event[OF ok, of evt] accounts_ltk[OF ok, of evt]
  show ?thesis
    unfolding dispatch_event_def s1_def[symmetric] Let_def
    using each[THEN accounts_then[OF 1]] 1 by simp
qed

lemma accounts_frame:
  assumes ok: "link_ok s"
  shows "accounts s {#} (on_frame c frame s)"
proof -
  define s1 where "s1 = call_opt (lk_on_l2cap s) (\<lambda>u. L2capSeen u c (fst frame) (snd frame)) s"
  have 1: "accounts s {#} s1"
    using accounts_event_call[OF accounts_refl[OF ok]] by (simp add: s1_def action_tokens_def)
  have e: "accounts s {#} (call_opt h f s1)" if "\<And>u. action_tokens (f u) = {#}" for h f
    using accounts_event_call[OF 1 that] .
  show ?thesis
    unfolding on_frame_def s1_def[symmetric] Let_def
    using accounts_refl[OF ok] 1 accounts_then[OF 1 accounts_finish_att]
    by (simp add: e action_tokens_def)
qed

lemma accounts_fold:
  assumes "\<And>x t. link_ok t \<Longrightarrow> accounts t {#} (f x t)"
  shows "link_ok s \<Longrightarrow> accounts s {#} (fold f xs s)"
proof (induction xs arbitrary: s)
  case (Cons x xs)
  show ?case using accounts_then[OF assms[OF Cons.prems] Cons.IH] by simp
qed (simp add: accounts_refl)

lemma accounts_acl:
  assumes ok: "link_ok s"
  shows "accounts s {#} (dispatch_acl payload s)"
proof -
  have 1: "accounts s {#} (s\<lparr>lk_reasm := m\<rparr>)" for m
    using ok by (simp add: accounts_def link_ok_def ledger_defs)
  have 2: "accounts s {#} (fold (on_frame c) frames (s\<lparr>lk_reasm := m\<rparr>))" for c frames m
    by (rule accounts_then[OF 1 accounts_fold[OF accounts_frame]])
  show ?thesis
    using accounts_refl[OF ok] by (simp add: dispatch_acl_def 2 split: option.split prod.split)
qed

lemma accounts_packet: "link_ok s \<Longrightarrow> accounts s {#} (on_packet pkt s)"
  by (simp add: on_packet_def accounts_refl accounts_event accounts_acl split: option.split)

lemma accounts_readable:
  assumes ok: "link_ok s"
  shows "accounts s {#} (on_readable chunk s)"
proof -
  have 1: "accounts s {#} (s\<lparr>lk_rx := m\<rparr>)" for m
    using ok by (simp add: accounts_def link_ok_def ledger_defs)
  have 2: "accounts s {#} (fold on_packet packets (s\<lparr>lk_rx := m\<rparr>))" for packets m
    by (rule accounts_then[OF 1 accounts_fold[OF accounts_packet]])
  show ?thesis
    using accounts_refl[OF ok] accounts_fail[OF ok]
    by (simp add: on_readable_def 2 split: option.split prod.split)
qed

lemma accounts_deferred:
  assumes ok: "link_ok s"
  shows "accounts s {#} (run_deferred s)"
proof (cases "lk_deferred s")
  case Nil
  then show ?thesis using ok by (simp add: run_deferred_def accounts_refl)
next
  case (Cons d rest)
  define s1 where "s1 = s\<lparr>lk_deferred := rest\<rparr>"
  have 1: "link_ok s1" "ledger s1 + deferred_tokens d = ledger s"
    using ok Cons by (simp_all add: s1_def link_ok_def ledger_defs ac_simps)
  have "accounts s1 (deferred_tokens d) (run_deferred s)"
    using live.accounts_completion[OF 1(1)] live.accounts_run[OF 1(1)] 1(1) Cons
    by (cases d) (simp_all add: run_deferred_def s1_def[symmetric] deferred_tokens_def accounts_def
        action_tokens_def)
  then show ?thesis using 1(2) by (simp add: accounts_def)
qed

section \<open>Every operation\<close>

text \<open>What a program and the loop can do to a link.\<close>

datatype 'u link_op =
    Readable "bytes option"
  | PortError string
  | Command u16 bytes "'u option"
  | StartScan bool bool "'u option" "'u option"
  | StopScan "'u option"
  | StartAdvertising adv_config "'u option"
  | StopAdvertising "'u option"
  | Connect address real "'u option"
  | Disconnect u16 byte
  | SendL2cap u16 u16 bytes
  | AttRequest u16 bytes real "'u option"
  | StartEncryption u16 bytes u16 bytes real "'u option"
  | CommandTimer | ConnectTimer | EncryptTimer | AttTimer u16
  | Deferred
  | SetHandlers "'u option" "'u option" "'u option" "'u option" "'u option" "'u option" "'u option"

definition to_completion :: "'u option \<Rightarrow> 'u completion" where
  "to_completion h = (case h of None \<Rightarrow> NoDone | Some u \<Rightarrow> UserDone u)"

definition to_cmd :: "'u option \<Rightarrow> 'u cmd_done" where
  "to_cmd h = (case h of None \<Rightarrow> NoCmd | Some u \<Rightarrow> UserCmd u)"

text \<open>\<open>set_closed_handler\<close>, \<open>set_connection_handlers\<close> and the setters for frames and events.\<close>

definition set_handlers ::
    "'u option \<Rightarrow> 'u option \<Rightarrow> 'u option \<Rightarrow> 'u option \<Rightarrow> 'u option \<Rightarrow> 'u option \<Rightarrow> 'u option \<Rightarrow>
     'u link \<Rightarrow> 'u link" where
  "set_handlers gone conn disc att smp l2cap evt s =
     s\<lparr>lk_on_closed := gone, lk_on_connect := conn, lk_on_disconnect := disc, lk_on_att := att,
       lk_on_smp := smp, lk_on_l2cap := l2cap, lk_on_event := evt\<rparr>"

fun perform :: "'u link_op \<Rightarrow> 'u link \<Rightarrow> 'u link" where
  "perform (Readable chunk) s = on_readable chunk s"
| "perform (PortError why) s = on_port_error why s"
| "perform (Command op ps h) s = issue_command op ps (to_cmd h) s"
| "perform (StartScan active filt rep h) s = start_scan active filt rep (to_completion h) s"
| "perform (StopScan h) s = stop_scan (to_completion h) s"
| "perform (StartAdvertising cfg h) s = start_advertising cfg (to_completion h) s"
| "perform (StopAdvertising h) s = stop_advertising (to_completion h) s"
| "perform (Connect peer timeout h) s = connect_to peer timeout h s"
| "perform (Disconnect c reason) s = link_disconnect c reason s"
| "perform (SendL2cap c cid payload) s = snd (send_l2cap c cid payload s)"
| "perform (AttRequest c req timeout h) s = att_request c req timeout h s"
| "perform (StartEncryption c ltk ediv rand timeout h) s = start_encryption c ltk ediv rand timeout h s"
| "perform CommandTimer s = command_timer_fires s"
| "perform ConnectTimer s = connect_timer_fires s"
| "perform EncryptTimer s = encrypt_timer_fires s"
| "perform (AttTimer c) s = att_timer_fires c s"
| "perform Deferred s = run_deferred s"
| "perform (SetHandlers a b c d e f g) s = set_handlers a b c d e f g s"

text \<open>The completion handler an operation brings.\<close>

fun brought :: "'u link_op \<Rightarrow> 'u multiset" where
  "brought (Command op ps h) = opt_tokens h"
| "brought (StartScan active filt rep h) = opt_tokens h"
| "brought (StopScan h) = opt_tokens h"
| "brought (StartAdvertising cfg h) = opt_tokens h"
| "brought (StopAdvertising h) = opt_tokens h"
| "brought (Connect peer timeout h) = opt_tokens h"
| "brought (AttRequest c req timeout h) = opt_tokens h"
| "brought (StartEncryption c ltk ediv rand timeout h) = opt_tokens h"
| "brought _ = {#}"

lemma to_tokens:
  "completion_tokens (to_completion h) = opt_tokens h" "cmd_tokens (to_cmd h) = opt_tokens h"
  by (simp_all add: to_completion_def to_cmd_def completion_tokens_def cmd_tokens_def opt_tokens_def
      split: option.split)

lemma accounts_handlers: "link_ok s \<Longrightarrow> accounts s {#} (set_handlers a b c d e f g s)"
  by (simp add: accounts_def set_handlers_def link_ok_def ledger_defs)

lemma accounts_perform:
  assumes ok: "link_ok s"
  shows "accounts s (brought op) (perform op s)"
proof (cases op)
  case (Command c ps h)
  then show ?thesis using live.send_accounts[OF ok, of "to_cmd h" c ps] by (simp add: to_tokens)
next
  case (StartScan active filt rep h)
  then show ?thesis using live.accounts_start_scan[OF ok, of "to_completion h"]
    by (simp add: to_tokens start_scan_def)
next
  case (StopScan h)
  then show ?thesis using live.accounts_stop_scan[OF ok, of "to_completion h"]
    by (simp add: to_tokens stop_scan_def)
next
  case (StartAdvertising cfg h)
  then show ?thesis using accounts_start_adv[OF ok, of "to_completion h"] by (simp add: to_tokens)
next
  case (StopAdvertising h)
  then show ?thesis using accounts_stop_adv[OF ok, of "to_completion h"] by (simp add: to_tokens)
qed (use ok in \<open>simp_all add: accounts_readable on_port_error_def accounts_fail accounts_connect
    accounts_disconnect send_l2cap_def accounts_queue_acl accounts_att_request accounts_start_encryption
    accounts_command_timer accounts_connect_timer accounts_encrypt_timer accounts_att_timer
    accounts_deferred accounts_handlers\<close>)

lemma accounts_performs:
  "link_ok s \<Longrightarrow> accounts s (sum_list (map brought ops)) (fold perform ops s)"
proof (induction ops arbitrary: s)
  case (Cons op ops)
  note 1 = accounts_perform[OF Cons.prems, of op]
  show ?case using accounts_trans[OF 1 Cons.IH[OF accounts_ok[OF 1]]] by simp
qed (simp add: accounts_refl)

lemma new_link_ok: "link_ok (new_link name acc timeout h)"
  by (simp add: link_ok_def new_link_def om_ok_def kMaxQueuedFragments_def)

lemma new_link_ledger: "ledger (new_link name acc timeout h) = opt_tokens h"
  by (simp add: ledger_defs new_link_def att_tokens_def cmd_tokens_def opt_tokens_def)

lemma accounts_attach: "accounts (new_link name acc timeout h) {#} (attach name acc timeout h)"
  unfolding attach_def by (rule live.accounts_init_step[OF new_link_ok])

definition run_link :: "string \<Rightarrow> (nat \<Rightarrow> bool) \<Rightarrow> real \<Rightarrow> 'u option \<Rightarrow> 'u link_op list \<Rightarrow> 'u link" where
  "run_link name acc timeout h ops = fold perform ops (attach name acc timeout h)"

lemma run_link_accounts:
  "link_ok (run_link name acc timeout h ops) \<and>
   ledger (run_link name acc timeout h ops) = opt_tokens h + sum_list (map brought ops)"
proof -
  note a = accounts_attach[of name acc timeout h]
  from accounts_then[OF a accounts_performs[OF accounts_ok[OF a], of ops]] show ?thesis
    by (simp add: accounts_def run_link_def new_link_ledger)
qed

text \<open>
  C6. Whatever bytes the controller sends, whenever the port breaks and whatever the program asks
  for, every completion handler the link was ever given is either still to be called or has been
  called, exactly once: none is lost and none is called twice.
\<close>

theorem handlers_called_at_most_once:
  "told (run_link name acc timeout h ops) + owed (run_link name acc timeout h ops) =
     opt_tokens h + sum_list (map brought ops)"
  using run_link_accounts[of name acc timeout h ops] by (simp add: ledger_def ac_simps)

text \<open>
  The credits the link believes it has are never negative and never more than the controller has
  buffers, and no more fragments are ever held than the limit, so the memory used is bounded
  whatever the peer does.
\<close>

theorem flow_control_bounded:
  "0 \<le> lk_acl_credits (run_link name acc timeout h ops) \<and>
   lk_acl_credits (run_link name acc timeout h ops) \<le> lk_acl_total (run_link name acc timeout h ops) \<and>
   length (lk_acl_queue (run_link name acc timeout h ops)) \<le> kMaxQueuedFragments"
  using run_link_accounts[of name acc timeout h ops] by (simp add: link_ok_def)

section \<open>When the port dies\<close>

text \<open>How many times the loop can run a piece of deferred work before nothing is left of it.\<close>

fun cmd_rank :: "'u cmd_done \<Rightarrow> nat" where
  "cmd_rank InitVersion = 5"
| "cmd_rank InitBuffers = 4"
| "cmd_rank InitAddress = 3"
| "cmd_rank InitRandom = 2"
| "cmd_rank _ = 1"

fun deferred_rank :: "'u deferred \<Rightarrow> nat" where
  "deferred_rank (DeferCmd d) = cmd_rank d"
| "deferred_rank _ = 1"

definition rank :: "'u link \<Rightarrow> nat" where
  "rank s = sum_list (map deferred_rank (lk_deferred s))"

lemma cmd_rank_bounds: "0 < cmd_rank d \<and> cmd_rank d \<le> 5"
  by (cases d) simp_all

lemma deferred_rank_bounds: "0 < deferred_rank d \<and> deferred_rank d \<le> 5"
  by (cases d) (simp_all add: cmd_rank_bounds)

lemma rank_le: "rank s \<le> 5 * length (lk_deferred s)"
proof -
  have "sum_list (map deferred_rank ds) \<le> 5 * length ds" for ds :: "'a deferred list"
    using deferred_rank_bounds by (induction ds) (auto intro: add_mono)
  then show ?thesis by (simp add: rank_def)
qed

lemma closed_emit [simp]: "lk_closed (emit a s) = lk_closed s" "lk_deferred (emit a s) = lk_deferred s"
  by (simp_all add: emit_def)

lemma closed_call_opt [simp]:
  "lk_closed (call_opt h f s) = lk_closed s" "lk_deferred (call_opt h f s) = lk_deferred s"
  by (simp_all add: call_opt_def split: option.split)

lemma issue_when_closed: "lk_closed s \<Longrightarrow> issue_command op ps d s = closed_command op ps d s"
  by (simp add: issue_command_def)

lemma closed_closed_command [simp]: "lk_closed (closed_command op ps d s) = lk_closed s"
  by (simp add: closed_command_def defer_work_def split: cmd_done.split)

lemma closed_link:
  assumes "link_ok s" "lk_closed s"
  shows "lk_connect_pending s = False" "lk_encrypt_pending s = False" "owed s = sum_list (map deferred_tokens (lk_deferred s))"
  using assms by (auto simp: link_ok_def owed_def att_tokens_def cmd_tokens_def opt_tokens_def)

lemma run_deferred_closed:
  assumes ok: "link_ok s" and cl: "lk_closed s" and d: "lk_deferred s = d # rest"
  shows "lk_closed (run_deferred s) \<and> rank (run_deferred s) < rank s"
proof -
  note pend = closed_link(1,2)[OF ok cl]
  show ?thesis
  proof (cases d)
    case (DeferCmd c)
    show ?thesis using DeferCmd d cl pend
      by (cases c) (simp_all add: run_deferred_def rank_def link_runs issue_when_closed closed_command_def
          defer_work_def split: seq_done.split completion.split option.split)
  qed (use d cl pend in \<open>simp_all add: run_deferred_def rank_def run_completion_def Let_def split: completion.split\<close>)
qed

lemma drained:
  "link_ok s \<Longrightarrow> lk_closed s \<Longrightarrow> rank s \<le> n \<Longrightarrow>
     lk_closed ((run_deferred ^^ n) s) \<and> lk_deferred ((run_deferred ^^ n) s) = [] \<and>
     accounts s {#} ((run_deferred ^^ n) s)"
proof (induction n arbitrary: s)
  case 0
  then have "lk_deferred s = []" using deferred_rank_bounds[of "hd (lk_deferred s)"]
    by (cases "lk_deferred s") (auto simp: rank_def)
  then show ?case using 0 by (simp add: accounts_refl)
next
  case (Suc n)
  note a = accounts_deferred[OF Suc.prems(1)]
  have "lk_closed (run_deferred s) \<and> rank (run_deferred s) \<le> n"
  proof (cases "lk_deferred s")
    case Nil
    then show ?thesis using Suc.prems by (simp add: run_deferred_def rank_def)
  next
    case (Cons d rest)
    then show ?thesis using run_deferred_closed[OF Suc.prems(1,2) Cons] Suc.prems(3) by simp
  qed
  with Suc.IH[OF accounts_ok[OF a]] accounts_then[OF a]
  show ?case unfolding funpow_Suc_right comp_def by blast
qed

lemma fail_commands_closed [simp]: "lk_closed s \<Longrightarrow> lk_closed (fail_commands why ds s)"
proof (induction ds arbitrary: s)
  case (Cons d ds)
  have "lk_closed (run_cmd_done closed_command d False no_complete why s)"
    using Cons.prems by (simp add: link_runs split: cmd_done.split seq_done.split completion.split option.split)
  then show ?case using Cons.IH by (simp add: fail_commands_def)
qed (simp add: fail_commands_def)

lemma closed_answer_queue [simp]: "lk_closed (fold (\<lambda>q. call_opt (qr_done q) (f q)) qs s) = lk_closed s"
  by (induction qs arbitrary: s) simp_all

lemma fail_closes [simp]: "lk_closed (fail_link why s)"
proof -
  have "lk_closed (fold (fail_channel why) cs t) = lk_closed t" for cs and t :: "'a link"
    by (induction cs arbitrary: t) (simp_all add: fail_channel_def)
  moreover have "lk_closed (torn_down s)" by (simp add: torn_down_def)
  ultimately show ?thesis by (simp add: fail_link_def Let_def)
qed

text \<open>
  C7. When the port dies, nobody is left waiting: once the loop has run the work that was deferred,
  every completion handler the link was ever given has been called exactly once and none is owed.
\<close>

theorem dead_link_has_told_everyone:
  "let s = on_port_error why (run_link name acc timeout h ops) in
     told ((run_deferred ^^ (5 * length (lk_deferred s))) s) = opt_tokens h + sum_list (map brought ops)"
proof -
  define r where "r = run_link name acc timeout h ops"
  define s where "s = on_port_error why r"
  define t where "t = (run_deferred ^^ (5 * length (lk_deferred s))) s"
  have r: "link_ok r" "ledger r = opt_tokens h + sum_list (map brought ops)"
    using run_link_accounts[of name acc timeout h ops] by (simp_all add: r_def)
  have a: "accounts r {#} s" unfolding s_def on_port_error_def by (rule accounts_fail[OF r(1)])
  have "lk_closed s" by (simp add: s_def on_port_error_def)
  from drained[OF accounts_ok[OF a] this rank_le]
  have t: "lk_closed t" "lk_deferred t = []" "accounts s {#} t" by (simp_all add: t_def)
  have "owed t = {#}" using closed_link(3)[OF accounts_ok[OF t(3)] t(1)] t(2) by simp
  then have "told t = opt_tokens h + sum_list (map brought ops)"
    using t(3) a r(2) by (simp add: accounts_def ledger_def)
  then show ?thesis unfolding t_def s_def r_def by (simp add: Let_def)
qed

end
