(* ===== verification/HciLinkFlow.thy ===== *)
theory HciLinkFlow
  imports HciLinkLaws
begin

text \<open>
  How work moves through the host of \<open>hcilink.cc\<close>: neither the command queue nor an ATT channel is
  ever left with work waiting and nothing in flight; fragments leave in order against the
  controller's credits; an ATT packet handed to one link comes out of another whole; and the
  corners where a handler is called early or a pending procedure is completed by something else.
\<close>

section \<open>Nothing waits with nothing in flight\<close>

text \<open>
  Most operations touch the command queue and the ATT channels only through the commands they
  issue, so a property of those parts that issuing a command keeps is kept by all of them.
\<close>

type_synonym 'u flow =
  "bool \<times> 'u queued_command list \<times> bool \<times> u16 \<times> (u16 \<times> real) option \<times> (u16, 'u att_channel) omap"

definition flow_of :: "'u link \<Rightarrow> 'u flow" where
  "flow_of s = (lk_closed s, lk_cmd_queue s, lk_cmd_in_flight s, lk_cmd_opcode s, lk_cmd_timer s, lk_att s)"

lemma flow_emit [simp]: "flow_of (emit a s) = flow_of s" "flow_of (defer_work d s) = flow_of s"
  by (simp_all add: flow_of_def emit_def defer_work_def)

lemma flow_call_opt [simp]: "flow_of (call_opt h f s) = flow_of s"
  by (simp add: call_opt_def split: option.split)

lemma flow_closed_command [simp]: "flow_of (closed_command op ps d s) = flow_of s"
  by (simp add: closed_command_def split: cmd_done.split)

lemma flow_updates [simp]:
  "flow_of (s\<lparr>lk_on_ready := a1\<rparr>) = flow_of s" "flow_of (s\<lparr>lk_version := a2\<rparr>) = flow_of s"
  "flow_of (s\<lparr>lk_acl_payload := a3, lk_acl_total := a4, lk_acl_credits := a5\<rparr>) = flow_of s"
  "flow_of (s\<lparr>lk_local := a6, lk_own_addr_type := a7\<rparr>) = flow_of s"
  "flow_of (s\<lparr>lk_on_adv := a8\<rparr>) = flow_of s"
  "flow_of (s\<lparr>lk_connect_timer := b1, lk_connect_pending := b2, lk_connect_done := b3\<rparr>) = flow_of s"
  "flow_of (s\<lparr>lk_restore_scan := b4\<rparr>) = flow_of s" "flow_of (s\<lparr>lk_scanning := b5\<rparr>) = flow_of s"
  "flow_of (s\<lparr>lk_advertising := b6\<rparr>) = flow_of s"
  "flow_of (s\<lparr>lk_encrypt_timer := b7, lk_encrypt_pending := b8, lk_encrypt_done := b9\<rparr>) = flow_of s"
  "flow_of (s\<lparr>lk_connect_timer := c1\<rparr>) = flow_of s" "flow_of (s\<lparr>lk_encrypt_timer := c2\<rparr>) = flow_of s"
  "flow_of (s\<lparr>lk_deferred := c3\<rparr>) = flow_of s" "flow_of (s\<lparr>lk_reasm := c4\<rparr>) = flow_of s"
  "flow_of (s\<lparr>lk_rx := c5\<rparr>) = flow_of s" "flow_of (s\<lparr>lk_acl_credits := c6\<rparr>) = flow_of s"
  "flow_of (s\<lparr>lk_acl_queue := c7\<rparr>) = flow_of s" "flow_of (s\<lparr>lk_encrypted := c8\<rparr>) = flow_of s"
  "flow_of (s\<lparr>lk_acl_queue := c7, lk_acl_credits := c6\<rparr>) = flow_of s"
  "flow_of (s\<lparr>lk_writes := c9\<rparr>) = flow_of s"
  by (simp_all add: flow_of_def)

lemma flow_learn [simp]:
  "flow_of (learn_version ok p s) = flow_of s" "flow_of (learn_buffers ok p s) = flow_of s"
  by (simp_all add: flow_of_def learn_version_def learn_buffers_def Let_def)

locale flow_keeper =
  fixes send :: "'u send" and P :: "'u flow \<Rightarrow> bool"
  assumes send_keeps: "P (flow_of s) \<Longrightarrow> P (flow_of (send op ps d s))"
begin

lemma finish_connect_keeps: "P (flow_of s) \<Longrightarrow> P (flow_of (finish_connect_with send ok c err s))"
  by (simp add: finish_connect_with_def Let_def start_scan_with_def command_sequence_def send_keeps)

lemma completion_keeps: "P (flow_of s) \<Longrightarrow> P (flow_of (run_completion send d ok err s))"
  by (cases d) (simp_all add: run_completion_def send_keeps finish_connect_keeps)

lemma seq_done_keeps: "P (flow_of s) \<Longrightarrow> P (flow_of (run_seq_done send q ok err s))"
  by (cases q) (simp_all add: run_seq_done_def completion_keeps)

lemma init_keeps: "P (flow_of s) \<Longrightarrow> P (flow_of (init_step send k s))"
  by (simp add: init_step_def send_keeps finish_init_def)

lemma run_keeps: "P (flow_of s) \<Longrightarrow> P (flow_of (run_cmd_done send d ok cc err s))"
  by (cases d) (simp_all add: run_cmd_done_def send_keeps finish_init_def init_keeps
      init_address_def on_public_address_def on_random_bytes_def on_address_set_def
      on_connect_sent_def on_encrypt_sent_def run_sequence_def seq_done_keeps finish_connect_keeps
      finish_encryption_def Let_def split: option.split list.split)

lemma start_scan_keeps: "P (flow_of s) \<Longrightarrow> P (flow_of (start_scan_with send a f rep d s))"
  by (simp add: start_scan_with_def Let_def command_sequence_def send_keeps split: option.split)

lemma stop_scan_keeps: "P (flow_of s) \<Longrightarrow> P (flow_of (stop_scan_with send d s))"
  by (simp add: stop_scan_with_def command_sequence_def send_keeps split: completion.split)

lemma finish_encryption_keeps: "P (flow_of s) \<Longrightarrow> P (flow_of (finish_encryption ok err s))"
  by (simp add: finish_encryption_def)

end

definition channel_timed :: "'u att_channel \<Rightarrow> bool" where
  "channel_timed ch \<longleftrightarrow> (ch_in_flight ch \<longrightarrow> (\<exists>t. ch_timer ch = Some (ch_req_opcode ch, t)))"

definition channel_busy :: "'u att_channel \<Rightarrow> bool" where
  "channel_busy ch \<longleftrightarrow> channel_timed ch \<and> (ch_queue ch \<noteq> [] \<longrightarrow> ch_in_flight ch)"

text \<open>What holds while a command is being answered, and what holds between operations.\<close>

fun timed :: "'u flow \<Rightarrow> bool" where
  "timed (cl, queue, busy, op, timer, att) \<longleftrightarrow>
     cl \<or> ((busy \<longrightarrow> (\<exists>t. timer = Some (op, t))) \<and> (\<forall>e \<in> set att. channel_busy (snd e)))"

fun flowing :: "'u flow \<Rightarrow> bool" where
  "flowing (cl, queue, busy, op, timer, att) \<longleftrightarrow>
     timed (cl, queue, busy, op, timer, att) \<and> (cl \<or> queue = [] \<or> busy)"

lemma timed_of: "timed (flow_of s) \<longleftrightarrow> lk_closed s \<or>
    ((lk_cmd_in_flight s \<longrightarrow> (\<exists>t. lk_cmd_timer s = Some (lk_cmd_opcode s, t))) \<and>
     (\<forall>e \<in> set (lk_att s). channel_busy (snd e)))"
  by (simp add: flow_of_def)

lemma flowing_of: "flowing (flow_of s) \<longleftrightarrow> timed (flow_of s) \<and> (lk_closed s \<or> lk_cmd_queue s = [] \<or> lk_cmd_in_flight s)"
  by (simp add: flow_of_def)

lemma flowing_timed: "flowing (flow_of s) \<Longrightarrow> timed (flow_of s)"
  by (simp add: flowing_of)

lemma flowing_closed: "lk_closed s \<Longrightarrow> flowing (flow_of s)"
  by (simp add: flowing_of timed_of)

lemma pump_flowing: "timed (flow_of s) \<Longrightarrow> flowing (flow_of (pump_commands s))"
  by (auto simp: pump_commands_def write_packet_def Let_def flowing_closed split: list.split)
    (auto simp: flowing_of timed_of emit_def)

lemma issue_flowing: "timed (flow_of s) \<Longrightarrow> flowing (flow_of (issue_command op ps d s))"
proof (cases "lk_closed s")
  case True
  then show ?thesis by (simp add: issue_command_def flowing_closed)
next
  case False
  assume "timed (flow_of s)"
  then show ?thesis using False unfolding issue_command_def by (simp add: pump_flowing timed_of)
qed

interpretation answering: flow_keeper issue_command timed
  by unfold_locales (rule flowing_timed[OF issue_flowing])

interpretation between: flow_keeper issue_command flowing
  by unfold_locales (rule issue_flowing[OF flowing_timed])

lemma finish_command_flowing: "flowing (flow_of s) \<or> timed (flow_of s) \<and> lk_cmd_in_flight s \<Longrightarrow>
    flowing (flow_of (finish_command ok cc err s))"
proof (cases "lk_cmd_in_flight s")
  case False
  then show "flowing (flow_of s) \<or> timed (flow_of s) \<and> lk_cmd_in_flight s \<Longrightarrow> ?thesis"
    by (simp add: finish_command_def)
next
  case True
  assume "flowing (flow_of s) \<or> timed (flow_of s) \<and> lk_cmd_in_flight s"
  then have "timed (flow_of (s\<lparr>lk_cmd_timer := None, lk_cmd_in_flight := False, lk_cmd_done := NoCmd\<rparr>))"
    by (auto simp: flowing_of timed_of)
  then show ?thesis using True
    by (simp add: finish_command_def pump_flowing answering.run_keeps)
qed

lemma write_flow: "flow_of (snd (write_packet pkt s)) = flow_of s"
  by (simp add: write_packet_def Let_def)

lemma pump_acl_from_flow:
  "flow_of (pump_acl_from qs s) = flow_of s \<or> lk_closed (pump_acl_from qs s)"
proof (induction qs s rule: pump_acl_from.induct)
  case (2 q qs s)
  define s0 where "s0 = s\<lparr>lk_acl_queue := qs, lk_acl_credits := lk_acl_credits s - 1\<rparr>"
  obtain sent s1 where w: "write_packet (build_acl (qf_conn q) (qf_pb q) (qf_data q)) s0 = (sent, s1)"
    by (cases "write_packet (build_acl (qf_conn q) (qf_pb q) (qf_data q)) s0")
  have 1: "flow_of s1 = flow_of s"
    using write_flow[of "build_acl (qf_conn q) (qf_pb q) (qf_data q)" s0] w by (simp add: s0_def)
  show ?case
  proof (cases "lk_closed s \<or> lk_acl_credits s \<le> 0 \<or> \<not> sent")
    case True
    then show ?thesis using w by (auto simp: s0_def)
  next
    case False
    then have "flow_of (pump_acl_from qs s1) = flow_of s1 \<or> lk_closed (pump_acl_from qs s1)"
      using 2 w s0_def by auto
    then show ?thesis using False w 1 by (simp add: s0_def[symmetric])
  qed
qed simp

lemma pump_acl_flow: "flow_of (pump_acl s) = flow_of s \<or> lk_closed (pump_acl s)"
  unfolding pump_acl_def by (rule pump_acl_from_flow)

lemma queue_acl_flow: "flow_of (snd (queue_acl c frame s)) = flow_of s \<or> lk_closed (snd (queue_acl c frame s))"
proof -
  define s0 where "s0 = s\<lparr>lk_acl_queue := lk_acl_queue s @ tag_fragments c kAclFirstFlushable (fragment frame (lk_acl_payload s))\<rparr>"
  have "flow_of (pump_acl s0) = flow_of s \<or> lk_closed (pump_acl s0)"
    using pump_acl_flow[of s0] by (simp add: s0_def)
  then show ?thesis by (auto simp: queue_acl_def Let_def s0_def)
qed

lemma send_att_flow: "flow_of (snd (send_att c pdu s)) = flow_of s \<or> lk_closed (snd (send_att c pdu s))"
  unfolding send_att_def send_l2cap_def by (rule queue_acl_flow)

lemma flow_same:
  assumes "flow_of t = flow_of s \<or> lk_closed t" "flowing (flow_of s)"
  shows "flowing (flow_of t)"
  using assms flowing_closed by metis

text \<open>Every channel but one has what it waits for in flight.\<close>

definition busy_but :: "u16 \<Rightarrow> 'u link \<Rightarrow> bool" where
  "busy_but c s \<longleftrightarrow> lk_closed s \<or>
     ((lk_cmd_in_flight s \<longrightarrow> (\<exists>t. lk_cmd_timer s = Some (lk_cmd_opcode s, t))) \<and>
      (lk_cmd_queue s = [] \<or> lk_cmd_in_flight s) \<and> om_ok (lk_att s) \<and>
      (\<forall>k ch. om_get (lk_att s) k = Some ch \<longrightarrow> k \<noteq> c \<longrightarrow> channel_busy ch))"

lemma flowing_get:
  assumes "om_ok (lk_att s)"
  shows "flowing (flow_of s) \<longleftrightarrow> lk_closed s \<or>
     ((lk_cmd_in_flight s \<longrightarrow> (\<exists>t. lk_cmd_timer s = Some (lk_cmd_opcode s, t))) \<and>
      (lk_cmd_queue s = [] \<or> lk_cmd_in_flight s) \<and>
      (\<forall>k ch. om_get (lk_att s) k = Some ch \<longrightarrow> channel_busy ch))"
proof -
  have "(\<forall>e \<in> set (lk_att s). channel_busy (snd e)) \<longleftrightarrow>
      (\<forall>k ch. om_get (lk_att s) k = Some ch \<longrightarrow> channel_busy ch)"
    using assms by (auto simp: om_ok_def dest: map_of_SomeD)
  then show ?thesis unfolding flowing_of timed_of by blast
qed

lemma flowing_but:
  assumes "busy_but c s" "\<And>ch. om_get (lk_att s) c = Some ch \<Longrightarrow> \<not> lk_closed s \<Longrightarrow> channel_busy ch"
  shows "flowing (flow_of s)"
proof (cases "lk_closed s")
  case False
  then show ?thesis using assms by (subst flowing_get) (auto simp: busy_but_def)
qed (rule flowing_closed)

lemma busy_but_put:
  assumes "busy_but c s"
  shows "busy_but c (put_channel c ch s)"
  using assms om_ok_put[of "lk_att s" c ch] by (auto simp: busy_but_def put_channel_def om_get_put)

lemma flow_busy_but: "flow_of t = flow_of s \<Longrightarrow> busy_but c s \<Longrightarrow> busy_but c t"
  by (simp add: flow_of_def busy_but_def)

lemma busy_but_settle: "busy_but c s \<Longrightarrow> busy_but c (settle_att c ch ok rsp err s)"
  unfolding settle_att_def by (rule flow_busy_but[OF _ busy_but_put]) simp_all

lemma busy_but_send:
  assumes "busy_but c s"
  shows "busy_but c (snd (send_att c' pdu s))"
  using send_att_flow[of c' pdu s] flow_busy_but[OF _ assms] by (auto simp: busy_but_def)

lemma pump_att_flowing: "busy_but c s \<Longrightarrow>
    (\<And>ch. om_get (lk_att s) c = Some ch \<Longrightarrow> channel_timed ch) \<Longrightarrow> flowing (flow_of (pump_att c s))"
proof (induction c s rule: pump_att.induct)
  case (1 c s)
  show ?case
  proof (cases "\<exists>ch q rest. om_get (lk_att s) c = Some ch \<and> ch_queue ch = q # rest \<and> \<not> ch_in_flight ch \<and> \<not> lk_closed s")
    case False
    have "flowing (flow_of s)"
    proof (rule flowing_but[OF 1(2)])
      fix ch
      assume "om_get (lk_att s) c = Some ch" "\<not> lk_closed s"
      with False 1(3)[of ch] show "channel_busy ch" by (cases "ch_queue ch") (auto simp: channel_busy_def)
    qed
    then show ?thesis using False
      by (subst pump_att.simps) (auto split: option.split list.split)
  next
    case True
    then obtain ch q rest where ch: "om_get (lk_att s) c = Some ch" "ch_queue ch = q # rest"
        "\<not> ch_in_flight ch" "\<not> lk_closed s" by auto
    define s1 where "s1 = begin_request c ch q rest s"
    obtain sent s2 where w: "send_att c (qr_req q) s1 = (sent, s2)" by (cases "send_att c (qr_req q) s1")
    have b1: "busy_but c s1" unfolding s1_def begin_request_def by (rule busy_but_put[OF 1(2)])
    have b2: "busy_but c s2" using busy_but_send[OF b1, of c "qr_req q"] w by simp
    show ?thesis
    proof (cases "om_get (lk_att s2) c")
      case None
      have "flowing (flow_of s2)" by (rule flowing_but[OF b2]) (simp add: None)
      then show ?thesis using ch w None by (subst pump_att.simps) (simp add: s1_def[symmetric])
    next
      case (Some ch2)
      have same: "lk_closed s2 \<or> lk_att s2 = lk_att s1"
        using send_att_flow[of c "qr_req q" s1] w by (auto simp: flow_of_def)
      have c2: "lk_closed s2 \<or> (ch_in_flight ch2 \<and> ch_req_opcode ch2 = qr_req q ! 0)"
        using same Some by (auto simp: s1_def begin_request_def put_channel_def om_get_put)
      show ?thesis
      proof (cases sent)
        case None
        define s3 where "s3 = put_channel c (ch2\<lparr>ch_timer := Some (qr_req q ! 0, qr_timeout q)\<rparr>) s2"
        have "flowing (flow_of s3)"
          unfolding s3_def by (rule flowing_but[OF busy_but_put[OF b2]])
            (use c2 in \<open>auto simp: put_channel_def om_get_put channel_busy_def channel_timed_def\<close>)
        moreover have "flowing (flow_of s2)" if "\<not> ch_in_flight ch2"
          using that c2 flowing_closed by auto
        ultimately show ?thesis using ch w Some None
          by (subst pump_att.simps) (auto simp: s1_def[symmetric] s3_def)
      next
        case (Some err)
        define s3 where "s3 = settle_att c ch2 False [] err s2"
        have t3: "channel_timed ch3" if "om_get (lk_att s3) c = Some ch3" for ch3
          using that by (auto simp: s3_def settle_att_def put_channel_def om_get_put channel_timed_def)
        have "flowing (flow_of (pump_att c s3))" if "ch_in_flight ch2" unfolding s3_def
          by (rule 1(1)[OF ch(1,2) _ w[unfolded s1_def, symmetric] \<open>om_get (lk_att s2) c = Some ch2\<close> _ Some
            busy_but_settle[OF b2] t3[unfolded s3_def]]) (use ch that in auto)
        moreover have "flowing (flow_of s2)" if "\<not> ch_in_flight ch2"
          using that c2 flowing_closed by auto
        ultimately show ?thesis using ch w Some \<open>om_get (lk_att s2) c = Some ch2\<close>
          by (subst pump_att.simps) (auto simp: s1_def[symmetric] s3_def)
      qed
    qed
  qed
qed

definition good_flow :: "'u link \<Rightarrow> bool" where
  "good_flow s \<longleftrightarrow> link_ok s \<and> flowing (flow_of s)"

lemma flow_answer_queue [simp]: "flow_of (fold (\<lambda>q. call_opt (qr_done q) (f q)) qs s) = flow_of s"
  by (induction qs arbitrary: s) simp_all

lemma flow_fail_channel [simp]: "flow_of (fail_channel why e s) = flow_of s"
  by (simp add: fail_channel_def)

lemma flowing_busy_but:
  assumes "good_flow s" "flow_of t = flow_of s"
  shows "busy_but c t"
proof -
  have "lk_att t = lk_att s" using assms(2) by (simp add: flow_of_def)
  then have "om_ok (lk_att t)" using assms(1) by (simp add: good_flow_def link_ok_def)
  moreover have "flowing (flow_of t)" using assms by (simp add: good_flow_def)
  ultimately show ?thesis by (cases "lk_closed t") (simp_all add: flowing_get busy_but_def)
qed

lemma flowing_timed_get:
  assumes "good_flow s" "om_get (lk_att s) c = Some ch"
  shows "channel_busy ch"
proof -
  have f: "flowing (flow_of s)" and ok: "link_ok s" using assms(1) by (simp_all add: good_flow_def)
  have "\<forall>e \<in> set (lk_att s). channel_busy (snd e)"
    using flowing_timed[OF f] not_closed_get[OF ok assms(2)] unfolding timed_of by simp
  from bspec[OF this map_of_SomeD[OF assms(2)]] show ?thesis by simp
qed

lemma settle_flowing:
  assumes g: "good_flow s" and ch: "om_get (lk_att s) c = Some ch" and t: "busy_but c t" "lk_att t = lk_att s"
  shows "flowing (flow_of (pump_att c (settle_att c ch2 ok rsp err t)))"
  by (rule pump_att_flowing[OF busy_but_settle[OF t(1)]])
    (auto simp: settle_att_def put_channel_def om_get_put channel_timed_def)

lemma finish_att_flowing:
  assumes "good_flow s"
  shows "flowing (flow_of (finish_att c ok rsp err s))"
  using assms settle_flowing[OF assms _ flowing_busy_but[OF assms refl]]
  unfolding finish_att_def by (auto simp: good_flow_def split: option.split)

lemma att_timer_flowing:
  assumes g: "good_flow s"
  shows "flowing (flow_of (att_timer_fires c s))"
proof (cases "om_get (lk_att s) c")
  case None
  then show ?thesis using g by (simp add: att_timer_fires_def good_flow_def)
next
  case (Some ch)
  define s1 where "s1 = put_channel c (ch\<lparr>ch_timer := None\<rparr>) s"
  note busy = flowing_timed_get[OF g Some]
  have ch1: "om_get (lk_att s1) c = Some (ch\<lparr>ch_timer := None\<rparr>)"
    by (simp add: s1_def put_channel_def om_get_put)
  have b1: "busy_but c s1" unfolding s1_def by (rule busy_but_put[OF flowing_busy_but[OF g refl]])
  have fin: "flowing (flow_of (finish_att c False rsp err s1))" if "ch_in_flight ch" for rsp err
    using that ch1 pump_att_flowing[OF busy_but_settle[OF b1]]
    by (simp add: finish_att_def settle_att_def put_channel_def om_get_put channel_timed_def)
  have idle: "flowing (flow_of s1)" if "\<not> ch_in_flight ch"
    by (rule flowing_but[OF b1]) (use that busy ch1 in \<open>auto simp: channel_busy_def channel_timed_def\<close>)
  show ?thesis
  proof (cases "ch_timer ch")
    case None
    then show ?thesis using g Some by (simp add: att_timer_fires_def good_flow_def)
  next
    case (Some t)
    then show ?thesis using \<open>om_get (lk_att s) c = Some ch\<close> fin idle busy
      by (cases t) (auto simp: att_timer_fires_def s1_def[symmetric] Let_def channel_busy_def channel_timed_def)
  qed
qed

lemma att_request_flowing:
  assumes g: "good_flow s"
  shows "flowing (flow_of (att_request c req timeout h s))"
proof (cases "req = [] \<or> lk_closed s \<or> om_get (lk_conns s) c = None")
  case True
  then show ?thesis using g by (auto simp: att_request_def good_flow_def split: option.split)
next
  case False
  define ch where "ch = (case om_get (lk_att s) c of None \<Rightarrow> no_channel | Some ch \<Rightarrow> ch)"
  define ch' where "ch' = ch\<lparr>ch_queue := ch_queue ch @ [\<lparr>qr_req = req, qr_timeout = timeout, qr_done = h\<rparr>]\<rparr>"
  have "channel_timed ch'" using flowing_timed_get[OF g, of c]
    by (auto simp: ch'_def ch_def channel_timed_def channel_busy_def no_channel_def split: option.splits)
  then have "flowing (flow_of (pump_att c (put_channel c ch' s)))"
    by (intro pump_att_flowing busy_but_put flowing_busy_but[OF g refl])
      (simp add: put_channel_def om_get_put)
  then show ?thesis using False unfolding att_request_def ch_def[symmetric] Let_def ch'_def[symmetric] by auto
qed

lemma drop_flowing:
  assumes g: "good_flow s"
  shows "flowing (flow_of (drop_connection c why s))"
proof -
  define s1 where "s1 = s\<lparr>lk_conns := om_del (lk_conns s) c, lk_reasm := om_del (lk_reasm s) c,
                 lk_encrypted := om_del (lk_encrypted s) c,
                 lk_acl_queue := filter (\<lambda>q. qf_conn q \<noteq> c) (lk_acl_queue s)\<rparr>"
  have f1: "flow_of s1 = flow_of s" by (simp add: s1_def flow_of_def)
  show ?thesis
  proof (cases "om_get (lk_att s) c")
    case None
    then show ?thesis using f1 g by (simp add: drop_connection_def s1_def good_flow_def Let_def)
  next
    case (Some ch)
    define s2 where "s2 = s1\<lparr>lk_att := om_del (lk_att s) c\<rparr>"
    have "flowing (flow_of s2)"
      using g f1 by (auto simp: s2_def flow_of_def good_flow_def om_del_def)
    then have "flowing (flow_of (fail_channel why (c, ch) s2))" by simp
    then show ?thesis using Some unfolding drop_connection_def s1_def[symmetric] Let_def
      by (simp add: s2_def between.finish_encryption_keeps)
  qed
qed

lemma event_flowing:
  assumes g: "good_flow s"
  shows "flowing (flow_of (dispatch_event evt s))"
proof -
  define s1 where "s1 = call_opt (lk_on_event s) (\<lambda>u. EventSeen u evt) s"
  have f: "flowing (flow_of s1)" using g by (simp add: s1_def good_flow_def)
  have ok1: "link_ok s1" using g by (simp add: s1_def good_flow_def)
  have adv: "flow_of (fold (\<lambda>r t. if lk_closed t then t else call_opt h (\<lambda>u. AdvSeen u r) t) rs t) = flow_of t"
    for rs h and t :: "'a link" by (induction rs arbitrary: t) simp_all
  have 1: "flowing (flow_of (on_command_complete evt s1))" "flowing (flow_of (on_command_status evt s1))"
    using f finish_command_flowing[of s1]
    by (simp_all add: on_command_complete_def on_command_status_def Let_def split: option.split)
  have 2: "flowing (flow_of (on_completed_packets evt s1))"
    using flow_same[OF pump_acl_flow, of "s1\<lparr>lk_acl_credits := _\<rparr>"] f
    by (simp add: on_completed_packets_def Let_def)
  have 3: "flowing (flow_of (on_encryption_change evt s1))"
    using f by (simp add: on_encryption_change_def Let_def between.finish_encryption_keeps split: option.split)
  have 4: "flowing (flow_of (on_disconnection evt s1))"
    using drop_flowing[of s1] f ok1 by (simp add: on_disconnection_def Let_def good_flow_def split: option.split)
  have 5: "flowing (flow_of (on_adv_event evt s1))" using f
    by (simp add: on_adv_event_def adv split: prod.split)
  have note_conn: "flow_of (note_connection cc s1) = flow_of s1" for cc
    by (simp add: note_connection_def flow_of_def)
  have 6: "flowing (flow_of (on_connection_complete evt s1))"
    using f by (simp add: on_connection_complete_def Let_def finish_connect_def note_conn
        between.finish_connect_keeps split: option.split)
  have 7: "flowing (flow_of (on_ltk_request evt s1))"
    using f by (simp add: on_ltk_request_def between.send_keeps split: option.split)
  show ?thesis unfolding dispatch_event_def s1_def[symmetric] Let_def using f 1 2 3 4 5 6 7 by simp
qed

lemma frame_flowing:
  assumes g: "good_flow s"
  shows "flowing (flow_of (on_frame c frame s))"
proof -
  define s1 where "s1 = call_opt (lk_on_l2cap s) (\<lambda>u. L2capSeen u c (fst frame) (snd frame)) s"
  have "good_flow s1" using g by (simp add: s1_def good_flow_def)
  then have "flowing (flow_of s1)" "flowing (flow_of (finish_att c ok rsp err s1))" for ok rsp err
    by (simp_all add: finish_att_flowing) (simp add: good_flow_def)
  then show ?thesis using g unfolding on_frame_def s1_def[symmetric] Let_def by (simp add: good_flow_def)
qed

lemma good_frame: "good_flow s \<Longrightarrow> good_flow (on_frame c frame s)"
  using frame_flowing[of s] accounts_frame[of s] by (simp add: good_flow_def accounts_def)

lemma fold_keeps: "(\<And>x t. Q t \<Longrightarrow> Q (f x t)) \<Longrightarrow> Q s \<Longrightarrow> Q (fold f xs s)"
  by (induction xs arbitrary: s) simp_all

lemma good_packet: "good_flow s \<Longrightarrow> good_flow (on_packet pkt s)"
proof -
  assume g: "good_flow s"
  have r: "good_flow (s\<lparr>lk_reasm := m\<rparr>)" for m using g by (simp add: good_flow_def link_ok_def)
  have "good_flow (fold (on_frame c) frames (s\<lparr>lk_reasm := m\<rparr>))" for c frames m
    by (rule fold_keeps[of good_flow, OF good_frame r])
  then have "good_flow (dispatch_acl p s)" for p
    using g by (simp add: dispatch_acl_def split: option.split prod.split)
  moreover have "good_flow (dispatch_event evt s)" for evt
    using event_flowing[OF g] accounts_event[of s] g by (simp add: good_flow_def accounts_def)
  ultimately show ?thesis using g by (simp add: on_packet_def split: option.split)
qed

lemma good_readable: "good_flow s \<Longrightarrow> good_flow (on_readable chunk s)"
proof -
  assume g: "good_flow s"
  have r: "good_flow (s\<lparr>lk_rx := m\<rparr>)" for m using g by (simp add: good_flow_def link_ok_def)
  have "good_flow (fold on_packet ps (s\<lparr>lk_rx := m\<rparr>))" for ps m
    by (rule fold_keeps[of good_flow, OF good_packet r])
  then show ?thesis
    using g accounts_fail[of s] by (simp add: on_readable_def good_flow_def accounts_def flowing_closed
        split: option.split prod.split)
qed

lemma queue_flowing: "good_flow s \<Longrightarrow> flowing (flow_of (snd (queue_acl c frame s)))"
  by (rule flow_same[OF queue_acl_flow]) (simp add: good_flow_def)

lemma perform_flowing:
  assumes g: "good_flow s"
  shows "flowing (flow_of (perform op s))"
proof -
  have f: "flowing (flow_of s)" using g by (simp add: good_flow_def)
  have u: "flow_of (s\<lparr>lk_encrypt_pending := a, lk_encrypt_done := c\<rparr>) = flow_of s" for a c
    by (simp add: flow_of_def)
  have dd: "flow_of (defer_done d ok err s) = flow_of s" for d ok err
    by (simp add: defer_done_def split: completion.split)
  note keeps = between.send_keeps between.start_scan_keeps between.stop_scan_keeps
    between.finish_connect_keeps between.finish_encryption_keeps between.completion_keeps between.run_keeps
  show ?thesis
  proof (cases op)
    case (Readable chunk)
    then show ?thesis using good_readable[OF g] by (simp add: good_flow_def)
  next
    case CommandTimer
    have "flowing (flow_of (finish_command ok cc err (s\<lparr>lk_cmd_timer := None\<rparr>)))" if "lk_cmd_in_flight s" for ok cc err
    proof -
      have "timed (flow_of (s\<lparr>lk_cmd_timer := None, lk_cmd_in_flight := False, lk_cmd_done := NoCmd\<rparr>))"
        using flowing_timed[OF f] by (auto simp: timed_of)
      then show ?thesis using that by (simp add: finish_command_def pump_flowing answering.run_keeps)
    qed
    moreover have "flowing (flow_of (s\<lparr>lk_cmd_timer := None\<rparr>))" if "\<not> lk_cmd_in_flight s"
      using f that by (auto simp: flowing_of timed_of)
    moreover have "lk_closed s \<or> lk_cmd_in_flight s \<longrightarrow> lk_closed s \<or> fst (the (lk_cmd_timer s)) = lk_cmd_opcode s"
      using flowing_timed[OF f] by (auto simp: timed_of)
    moreover have "flowing (flow_of (s\<lparr>lk_cmd_timer := None\<rparr>))" if "lk_closed s"
      using that by (simp add: flowing_closed)
    ultimately show ?thesis using CommandTimer f
      by (cases "lk_cmd_timer s") (auto simp: command_timer_fires_def Let_def)
  next
    case Deferred
    then show ?thesis using f by (simp add: run_deferred_def Let_def keeps split: list.split deferred.split)
  next
    case (SetHandlers a b c d e f g)
    then show ?thesis using \<open>flowing (flow_of s)\<close> by (simp add: set_handlers_def flow_of_def)
  next
    case (Connect peer timeout h)
    define s1 where "s1 = s\<lparr>lk_connect_pending := True, lk_connect_peer := peer, lk_connect_done := h,
                lk_restore_scan := lk_scanning s\<rparr>"
    have "flowing (flow_of s1)" using f by (simp add: s1_def flow_of_def)
    then have "flowing (flow_of (stop_scan d s1))" for d by (simp add: stop_scan_def keeps)
    then show ?thesis using Connect f
      by (simp add: connect_to_def defer_connect_def s1_def split: option.split)
  qed (use f in \<open>simp_all add: on_port_error_def flowing_closed keeps start_scan_def stop_scan_def dd u
      start_advertising_def stop_advertising_def command_sequence_def
      link_disconnect_def send_l2cap_def queue_flowing[OF g] att_request_flowing[OF g] start_encryption_def
      connect_timer_fires_def encrypt_timer_fires_def finish_connect_def att_timer_flowing[OF g] Let_def
      split: option.split\<close>)
qed

lemma good_performs: "good_flow s \<Longrightarrow> good_flow (fold perform ops s)"
proof (rule fold_keeps[of good_flow])
  fix op and t :: "'a link"
  assume "good_flow t"
  then show "good_flow (perform op t)"
    using perform_flowing[of t op] accounts_perform[of t op] by (simp add: good_flow_def accounts_def)
qed

lemma good_attach: "good_flow (attach name acc timeout h)"
proof -
  have "flowing (flow_of (new_link name acc timeout h))" by (simp add: new_link_def flow_of_def)
  then show ?thesis unfolding good_flow_def attach_def
    using between.init_keeps accounts_ok[OF accounts_attach] by (auto simp: attach_def)
qed

text \<open>
  C14. The link never stalls: while the port is open, a command waits only behind a command in flight,
  a request on a connection only behind a request in flight there, and whatever is in flight has a
  timer armed for it, so it will be answered or given up.
\<close>

theorem nothing_waits_idle:
  assumes "s = run_link name acc timeout h ops" "\<not> lk_closed s"
  shows "(lk_cmd_queue s \<noteq> [] \<longrightarrow> lk_cmd_in_flight s) \<and>
     (lk_cmd_in_flight s \<longrightarrow> (\<exists>t. lk_cmd_timer s = Some (lk_cmd_opcode s, t))) \<and>
     (\<forall>c ch. om_get (lk_att s) c = Some ch \<longrightarrow>
        (ch_queue ch \<noteq> [] \<longrightarrow> ch_in_flight ch) \<and>
        (ch_in_flight ch \<longrightarrow> (\<exists>t. ch_timer ch = Some (ch_req_opcode ch, t))))"
proof -
  have g: "good_flow s" unfolding assms(1) run_link_def by (rule good_performs[OF good_attach])
  then have f: "flowing (flow_of s)" by (simp add: good_flow_def)
  have "lk_cmd_queue s \<noteq> [] \<longrightarrow> lk_cmd_in_flight s"
    using f assms(2) unfolding flowing_of by blast
  moreover have "lk_cmd_in_flight s \<longrightarrow> (\<exists>t. lk_cmd_timer s = Some (lk_cmd_opcode s, t))"
    using flowing_timed[OF f] assms(2) unfolding timed_of by blast
  moreover have "channel_busy ch" if "om_get (lk_att s) c = Some ch" for c ch
    by (rule flowing_timed_get[OF g that])
  ultimately show ?thesis by (simp add: channel_busy_def channel_timed_def)
qed

section \<open>Fragments on the wire\<close>

definition acl_packet :: "queued_fragment \<Rightarrow> bytes" where
  "acl_packet q = build_acl (qf_conn q) (qf_pb q) (qf_data q)"

lemma pump_acl_from_open:
  "\<not> lk_closed s \<Longrightarrow> (\<forall>n. lk_accepts s n) \<Longrightarrow> lk_acl_queue s = qs \<Longrightarrow>
   (let k = min (nat (lk_acl_credits s)) (length qs); s' = pump_acl_from qs s in
      lk_out s' = lk_out s @ map (\<lambda>q. Wrote (acl_packet q)) (take k qs) \<and>
      lk_acl_queue s' = drop k qs \<and> lk_acl_credits s' = lk_acl_credits s - int k \<and> \<not> lk_closed s')"
proof (induction qs s rule: pump_acl_from.induct)
  case (2 q qs s)
  define s1 where "s1 = emit (Wrote (acl_packet q))
    (s\<lparr>lk_acl_queue := qs, lk_acl_credits := lk_acl_credits s - 1, lk_writes := lk_writes s + 1\<rparr>)"
  have w: "write_packet (build_acl (qf_conn q) (qf_pb q) (qf_data q))
      (s\<lparr>lk_acl_queue := qs, lk_acl_credits := lk_acl_credits s - 1\<rparr>) = (True, s1)"
    using 2(3) by (simp add: write_packet_def s1_def acl_packet_def)
  show ?case
  proof (cases "lk_acl_credits s \<le> 0")
    case True
    then show ?thesis using 2 by simp
  next
    case False
    have 1: "\<not> lk_closed s1" "\<forall>n. lk_accepts s1 n" "lk_acl_queue s1 = qs"
      "lk_acl_credits s1 = lk_acl_credits s - 1" "lk_out s1 = lk_out s @ [Wrote (acl_packet q)]"
      using 2(2,3) by (simp_all add: s1_def emit_def)
    have k: "min (nat (lk_acl_credits s)) (length (q # qs)) = Suc (min (nat (lk_acl_credits s1)) (length qs))"
    proof -
      obtain n where "lk_acl_credits s = int n" "0 < n" using zero_less_imp_eq_int[of "lk_acl_credits s"] False by auto
      then show ?thesis using 1(4) by (cases n) simp_all
    qed
    show ?thesis
      using 2(1)[OF _ w[symmetric] refl _ 1(1,2,3)] 2(2) False w 1(4,5) unfolding k
      by (auto simp: Let_def)
  qed
qed simp

text \<open>
  On a port that takes what it is given, pumping sends exactly as many of the waiting fragments as
  there are credits, the oldest first, and uses one credit for each.
\<close>

theorem fragments_leave_in_order:
  assumes "\<not> lk_closed s" "\<forall>n. lk_accepts s n"
  shows "let k = min (nat (lk_acl_credits s)) (length (lk_acl_queue s)); s' = pump_acl s in
      lk_out s' = lk_out s @ map (\<lambda>q. Wrote (acl_packet q)) (take k (lk_acl_queue s)) \<and>
      lk_acl_queue s' = drop k (lk_acl_queue s) \<and> lk_acl_credits s' = lk_acl_credits s - int k"
  using pump_acl_from_open[OF assms refl] unfolding pump_acl_def by (simp add: Let_def)

lemma parse_acl_packets:
  assumes "\<forall>q \<in> set qs. length (qf_data q) < 65536"
  shows "hci_parse_stream (concat (map acl_packet qs)) =
     (length (concat (map acl_packet qs)),
      map (\<lambda>q. \<lparr>pkt_type = kPacketAclData, pkt_payload = tl (acl_packet q)\<rparr>) qs)"
  using assms
proof (induction qs)
  case (Cons q qs)
  define p where "p = \<lparr>pkt_type = kPacketAclData, pkt_payload = tl (acl_packet q)\<rparr>"
  have "acl_packet q = packet_bytes p" "packet_wf p"
    using build_acl_packet[of "qf_data q"] Cons.prems
    by (simp_all add: p_def acl_packet_def packet_bytes_def build_acl_def)
  moreover have "\<lparr>pkt_type = kPacketAclData, pkt_payload = tl (packet_bytes p)\<rparr> = p"
    by (simp add: packet_bytes_def p_def)
  ultimately show ?case using hci_parse_packet[of p] Cons by simp
qed simp

lemma om_put_again: "om_put (om_put m k v) k w = om_put m k w"
  by (induction m k v rule: om_put.induct) auto

definition acl_arrives :: "u16 \<Rightarrow> byte \<Rightarrow> bytes \<Rightarrow> packet" where
  "acl_arrives c pb f = \<lparr>pkt_type = kPacketAclData, pkt_payload = tl (build_acl c pb f)\<rparr>"

lemma on_acl_fragment:
  assumes "\<not> lk_closed s" "c AND 0x0fff = c" "pb AND 0x03 = pb" "length f < 65536"
    "om_get (lk_reasm s) c = Some r" "reasm_push r pb f = (r', frames)"
  shows "on_packet (acl_arrives c pb f) s =
    fold (on_frame c) frames (s\<lparr>lk_reasm := om_put (lk_reasm s) c r'\<rparr>)"
proof -
  have "kPacketAclData \<noteq> kPacketEvent" by (simp add: const_defs)
  then show ?thesis
    using parse_build_acl[OF assms(4), of c pb] assms
    by (simp add: on_packet_def acl_arrives_def dispatch_acl_def)
qed

lemma continuing_arrive:
  assumes len: "length payload < 65536" and c: "c AND 0x0fff = c"
    and cs: "\<forall>f \<in> set cs. f \<noteq> [] \<and> length f < 65536" "b \<noteq> []" "cs \<noteq> []"
    and split: "build_l2cap cid payload = b @ concat cs"
    and s: "\<not> lk_closed s" "om_get (lk_reasm s) c = Some \<lparr>ra_buf = b, ra_expecting = e\<rparr>"
  shows "fold (\<lambda>f. on_packet (acl_arrives c kAclContinuing f)) cs s =
     on_frame c (cid, payload) (s\<lparr>lk_reasm := om_put (lk_reasm s) c reasm_reset\<rparr>)"
  using cs split s
proof (induction cs arbitrary: b e s)
  case (Cons f cs)
  have pb: "kAclContinuing AND 0x03 = kAclContinuing" by (simp add: const_defs)
  show ?case
  proof (cases "cs = []")
    case True
    have "reasm_push \<lparr>ra_buf = b, ra_expecting = e\<rparr> kAclContinuing f = (reasm_reset, [(cid, payload)])"
      using Cons.prems True reasm_loop_whole[OF len, of cid] by (simp add: reasm_push_def)
    then show ?thesis using True on_acl_fragment[OF Cons.prems(5) c pb _ Cons.prems(6)] Cons.prems(1) by simp
  next
    case False
    then have "concat cs \<noteq> []" using Cons.prems(1) by (cases cs) auto
    then obtain e' where "reasm_loop (b @ f) = (\<lparr>ra_buf = b @ f, ra_expecting = e'\<rparr>, [])"
      using reasm_loop_partial[OF len, of cid "b @ f" "concat cs"] Cons.prems by auto
    then have "reasm_push \<lparr>ra_buf = b, ra_expecting = e\<rparr> kAclContinuing f = (\<lparr>ra_buf = b @ f, ra_expecting = e'\<rparr>, [])"
      using Cons.prems by (simp add: reasm_push_def)
    then have 1: "on_packet (acl_arrives c kAclContinuing f) s =
        s\<lparr>lk_reasm := om_put (lk_reasm s) c \<lparr>ra_buf = b @ f, ra_expecting = e'\<rparr>\<rparr>"
      using on_acl_fragment[OF Cons.prems(5) c pb _ Cons.prems(6)] Cons.prems(1) by simp
    show ?thesis
      using Cons.IH[of "b @ f" "s\<lparr>lk_reasm := om_put (lk_reasm s) c \<lparr>ra_buf = b @ f, ra_expecting = e'\<rparr>\<rparr>" e']
        Cons.prems False 1 by (simp add: om_get_put om_put_again)
  qed
qed simp

lemma fragments_arrive:
  assumes len: "length payload < 65536" and c: "c AND 0x0fff = c" and m: "0 < m" "m < 65536"
    and s: "\<not> lk_closed s" "om_get (lk_reasm s) c = Some r"
  shows "fold (\<lambda>q. on_packet (acl_arrives (qf_conn q) (qf_pb q) (qf_data q)))
       (tag_fragments c kAclFirstFlushable (fragment (build_l2cap cid payload) m)) s =
     on_frame c (cid, payload) (s\<lparr>lk_reasm := om_put (lk_reasm s) c reasm_reset\<rparr>)"
proof -
  let ?f = "build_l2cap cid payload"
  have all: "concat (fragment ?f m) = ?f" by (rule concat_fragment[OF m(1)])
  have sz: "\<forall>f \<in> set (fragment ?f m). f \<noteq> [] \<and> length f < 65536"
    using fragment_sizes[of _ ?f m] m(2) by fastforce
  have "?f \<noteq> []" by (simp add: build_l2cap_def put16_def)
  with all obtain g cs where g: "fragment ?f m = g # cs" by (cases "fragment ?f m") auto
  have f: "?f = g @ concat cs" using all g by simp
  have pb: "kAclFirstFlushable AND 0x03 = kAclFirstFlushable" "kAclFirstFlushable \<noteq> kAclContinuing"
    by (simp_all add: const_defs)
  have rest: "fold (\<lambda>q. on_packet (acl_arrives (qf_conn q) (qf_pb q) (qf_data q))) (tag_fragments c kAclContinuing cs) t =
      fold (\<lambda>f. on_packet (acl_arrives c kAclContinuing f)) cs t" for t :: "'a link"
    by (induction cs arbitrary: t) simp_all
  show ?thesis
  proof (cases "cs = []")
    case True
    then have "reasm_push r kAclFirstFlushable g = (reasm_reset, [(cid, payload)])"
      using f pb(2) reasm_loop_whole[OF len, of cid] by (simp add: reasm_push_def)
    then show ?thesis using on_acl_fragment[OF s(1) c pb(1) _ s(2)] sz g True by simp
  next
    case False
    then have "concat cs \<noteq> []" using sz g by (cases cs) auto
    then obtain e where "reasm_loop g = (\<lparr>ra_buf = g, ra_expecting = e\<rparr>, [])"
      using reasm_loop_partial[OF len f] by blast
    then have 1: "on_packet (acl_arrives c kAclFirstFlushable g) s =
        s\<lparr>lk_reasm := om_put (lk_reasm s) c \<lparr>ra_buf = g, ra_expecting = e\<rparr>\<rparr>"
      using on_acl_fragment[OF s(1) c pb(1) _ s(2), of g] sz g pb(2) by (simp add: reasm_push_def)
    show ?thesis
      using continuing_arrive[OF len c _ _ False f,
          of "s\<lparr>lk_reasm := om_put (lk_reasm s) c \<lparr>ra_buf = g, ra_expecting = e\<rparr>\<rparr>" e] sz g 1 s(1)
      by (simp add: rest om_get_put om_put_again)
  qed
qed

definition packets_written :: "'u action list \<Rightarrow> bytes" where
  "packets_written acts = concat (map (\<lambda>a. case a of Wrote p \<Rightarrow> p | _ \<Rightarrow> []) acts)"

lemma packets_written_acl: "packets_written (map (\<lambda>q. Wrote (acl_packet q)) qs) = concat (map acl_packet qs)"
  by (induction qs) (simp_all add: packets_written_def)

lemma fold_arrivals:
  "fold on_packet (map (\<lambda>q. \<lparr>pkt_type = kPacketAclData, pkt_payload = tl (acl_packet q)\<rparr>) qs) s =
   fold (\<lambda>q. on_packet (acl_arrives (qf_conn q) (qf_pb q) (qf_data q))) qs s"
  by (induction qs arbitrary: s) (simp_all add: acl_arrives_def acl_packet_def)

lemma tag_sizes:
  "0 < m \<Longrightarrow> m < 65536 \<Longrightarrow> \<forall>q \<in> set (tag_fragments c pb (fragment f m)). length (qf_data q) < 65536"
proof -
  assume m: "0 < m" "m < 65536"
  have "\<forall>g \<in> set gs. length g < 65536 \<Longrightarrow> \<forall>q \<in> set (tag_fragments c pb gs). length (qf_data q) < 65536" for gs
    by (induction gs arbitrary: pb) auto
  moreover have "\<forall>g \<in> set (fragment f m). length g < 65536" using fragment_sizes[of _ f m] m(2) by fastforce
  ultimately show ?thesis by blast
qed

text \<open>
  C17. Two links that trust nothing but the wire: when one queues a frame on an idle connection with
  credits enough for its fragments, it reports it accepted, and the bytes it puts on its port, read
  in one go by the other, are dispatched there as exactly that channel and payload, whatever the
  other had half assembled.
\<close>

theorem frame_crosses_the_wire:
  assumes "\<not> lk_closed a" "\<forall>n. lk_accepts a n" "om_get (lk_conns a) c \<noteq> None" "lk_acl_queue a = []"
    and "0 < lk_acl_payload a" "lk_acl_payload a < 65536" "c AND 0x0fff = c" "length payload < 65536"
    and "length (fragment (build_l2cap cid payload) (lk_acl_payload a)) \<le> min kMaxQueuedFragments (nat (lk_acl_credits a))"
    and "send_l2cap c cid payload a = (err, a')"
    and "\<not> lk_closed b" "lk_rx b = []" "om_get (lk_reasm b) c = Some r"
  shows "on_readable (Some (packets_written (drop (length (lk_out a)) (lk_out a')))) b =
     on_frame c (cid, payload) (b\<lparr>lk_rx := [], lk_reasm := om_put (lk_reasm b) c reasm_reset\<rparr>) \<and> err = None"
proof -
  define qs where "qs = tag_fragments c kAclFirstFlushable (fragment (build_l2cap cid payload) (lk_acl_payload a))"
  define a0 where "a0 = a\<lparr>lk_acl_queue := qs\<rparr>"
  have n: "length qs \<le> nat (lk_acl_credits a)" "\<not> kMaxQueuedFragments < length qs" using assms(9) by (simp_all add: qs_def)
  have p: "lk_out (pump_acl a0) = lk_out a @ map (\<lambda>q. Wrote (acl_packet q)) qs" "\<not> lk_closed (pump_acl a0)"
    using pump_acl_from_open[of a0 qs] assms(1,2) n(1) by (simp_all add: a0_def pump_acl_def Let_def)
  have s: "err = None" "a' = pump_acl a0"
    using assms(1,3,4,10) n(2) p(2) by (auto simp: send_l2cap_def queue_acl_def a0_def qs_def)
  have w: "packets_written (drop (length (lk_out a)) (lk_out a')) = concat (map acl_packet qs)"
    using p(1) s(2) by (simp add: packets_written_acl)
  have ne: "concat (map acl_packet qs) \<noteq> []"
  proof -
    have "build_l2cap cid payload \<noteq> []" by (simp add: build_l2cap_def put16_def)
    then have "qs \<noteq> []" using concat_fragment[OF assms(5), of "build_l2cap cid payload"]
      by (cases "fragment (build_l2cap cid payload) (lk_acl_payload a)") (auto simp: qs_def)
    then show ?thesis by (cases qs) (simp_all add: acl_packet_def build_acl_def)
  qed
  have feed: "rx_feed (lk_rx b) (concat (map acl_packet qs)) =
      ([], map (\<lambda>q. \<lparr>pkt_type = kPacketAclData, pkt_payload = tl (acl_packet q)\<rparr>) qs)"
    using parse_acl_packets[of qs] tag_sizes[OF assms(5,6)] assms(12) by (simp add: rx_feed_def qs_def)
  have "fold (\<lambda>q. on_packet (acl_arrives (qf_conn q) (qf_pb q) (qf_data q))) qs (b\<lparr>lk_rx := []\<rparr>) =
      on_frame c (cid, payload) (b\<lparr>lk_rx := [], lk_reasm := om_put (lk_reasm b) c reasm_reset\<rparr>)"
    using fragments_arrive[OF assms(8,7,5,6), of "b\<lparr>lk_rx := []\<rparr>" r] assms(11,13) by (simp add: qs_def)
  then show ?thesis using w ne feed assms(11) s(1) by (auto simp: on_readable_def fold_arrivals)
qed

section \<open>Corners\<close>

text \<open>
  When the fragments of a request do not fit behind those already waiting, the request's handler
  is called with the refusal before \<open>att_request\<close> has returned.
\<close>

theorem full_queue_answers_inside_call:
  assumes "\<not> lk_closed s" "om_get (lk_conns s) c \<noteq> None" "om_get (lk_att s) c = None" "req \<noteq> []"
    and "kMaxQueuedFragments < length (lk_acl_queue s) +
           length (fragment (build_l2cap kCidAtt req) (lk_acl_payload s))"
  shows "lk_out (att_request c req timeout (Some u) s) = lk_out s @ [ResponseCalled u False [] (full_error s)]"
proof -
  define ch where "ch = no_channel\<lparr>ch_queue := [\<lparr>qr_req = req, qr_timeout = timeout, qr_done = Some u\<rparr>]\<rparr>"
  define s1 where "s1 = begin_request c ch \<lparr>qr_req = req, qr_timeout = timeout, qr_done = Some u\<rparr> [] (put_channel c ch s)"
  have send: "send_att c req s1 = (Some (full_error s), s1)"
    using assms by (simp add: send_att_def send_l2cap_def queue_acl_def s1_def begin_request_def put_channel_def full_error_def)
  define ch2 where "ch2 = ch\<lparr>ch_in_flight := True, ch_req_opcode := req ! 0, ch_done := Some u, ch_queue := []\<rparr>"
  have get: "om_get (lk_att s1) c = Some ch2"
    by (simp add: s1_def begin_request_def put_channel_def om_get_put ch2_def)
  have "pump_att c (put_channel c ch s) = pump_att c (settle_att c ch2 False [] (full_error s) s1)"
    using assms send get
    by (subst pump_att.simps) (simp add: s1_def put_channel_def om_get_put ch_def no_channel_def ch2_def)
  also have "\<dots> = settle_att c ch2 False [] (full_error s) s1"
    by (subst pump_att.simps) (simp add: settle_att_def put_channel_def om_get_put ch2_def)
  finally show ?thesis
    using assms by (auto simp: att_request_def ch_def no_channel_def settle_att_def ch2_def call_opt_def
        emit_def put_channel_def s1_def begin_request_def)
qed

text \<open>
  A connection that completes while an outward one is being attempted is reported to the caller as
  the one it asked for, whoever made it: an inbound one, too, ends the attempt with success.
\<close>

theorem inbound_completes_outward:
  assumes "lk_connect_pending s" "lk_connect_done s = Some u"
    and "parse_connection_complete evt = Some cx" "cx_status cx = kSuccess" "cx_role cx = 1"
  shows "\<exists>rest. lk_out (on_connection_complete evt s) = lk_out s @ ConnectCalled u True (cx_handle cx) [] # rest
     \<and> \<not> lk_connect_pending (on_connection_complete evt s)"
  using assms by (auto simp: on_connection_complete_def Let_def note_connection_def finish_connect_def
      finish_connect_with_def call_opt_def emit_def split: option.split)

text \<open>An encryption being started is failed by a drop only if the connection had an ATT channel.\<close>

lemma drop_without_channel:
  "om_get (lk_att s) c = None \<Longrightarrow>
     lk_encrypt_pending (drop_connection c why s) = lk_encrypt_pending s \<and> lk_out (drop_connection c why s) = lk_out s"
  by (simp add: drop_connection_def Let_def)

lemma drop_returns_no_credits: "om_get (lk_att s) c = None \<Longrightarrow>
    lk_acl_credits (drop_connection c why s) = lk_acl_credits s"
  by (simp add: drop_connection_def Let_def)

text \<open>A connection that succeeds leaves the scan that was stopped for it stopped.\<close>

lemma success_leaves_scan_stopped:
  "lk_connect_pending s \<Longrightarrow> lk_writes (finish_connect True c err s) = lk_writes s \<and>
     lk_scanning (finish_connect True c err s) = lk_scanning s \<and>
     lk_cmd_queue (finish_connect True c err s) = lk_cmd_queue s"
  by (simp add: finish_connect_def finish_connect_with_def call_opt_def emit_def Let_def split: option.split)

definition open_link :: "nat link" where
  "open_link = (new_link ''tty'' (\<lambda>n. True) 10 None)
     \<lparr>lk_acl_credits := 2, lk_acl_total := 2,
       lk_conns := [(0x40, \<lparr>cn_handle = 0x40, cn_peer = no_address, cn_role = 0\<rparr>)],
       lk_reasm := [(0x40, reasm_reset)]\<rparr>"

theorem fragments_leave_in_order_witness:
  "lk_acl_credits (pump_acl (open_link\<lparr>lk_acl_queue := [\<lparr>qf_conn = 0x40, qf_pb = 2, qf_data = [1]\<rparr>]\<rparr>)) = 1"
  using fragments_leave_in_order[of "open_link\<lparr>lk_acl_queue := [\<lparr>qf_conn = 0x40, qf_pb = 2, qf_data = [1]\<rparr>]\<rparr>"]
  by (simp add: open_link_def new_link_def Let_def)

lemma open_link_simps:
  "\<not> lk_closed open_link" "lk_accepts open_link n" "lk_acl_queue open_link = []" "lk_acl_payload open_link = 27"
  "om_get (lk_conns open_link) 0x40 \<noteq> None" "lk_acl_credits open_link = 2" "lk_rx open_link = []"
  "om_get (lk_reasm open_link) 0x40 = Some reasm_reset" "om_get (lk_att open_link) 0x40 = None"
  "lk_out open_link = []"
  by (simp_all add: open_link_def new_link_def)

theorem frame_crosses_the_wire_witness:
  "on_readable (Some (packets_written (lk_out (snd (send_l2cap 0x40 4 [2, 23, 0] open_link))))) open_link =
     on_frame 0x40 (4, [2, 23, 0])
       (open_link\<lparr>lk_rx := [], lk_reasm := om_put (lk_reasm open_link) 0x40 reasm_reset\<rparr>)"
proof -
  have one: "length (fragment (build_l2cap 4 [2, 23, 0]) (lk_acl_payload open_link)) = 1"
    by (simp add: open_link_simps build_l2cap_def put16_def fragment.simps)
  obtain err a where s: "send_l2cap 0x40 4 [2, 23, 0] open_link = (err, a)"
    by (cases "send_l2cap 0x40 4 [2, 23, 0] open_link")
  show ?thesis
    using frame_crosses_the_wire[of open_link "0x40" "[2, 23, 0]" 4 err a open_link reasm_reset] s one
    by (simp add: open_link_simps kMaxQueuedFragments_def)
qed

theorem full_queue_answers_inside_call_witness:
  "lk_out (att_request 0x40 [2] 1 (Some 7)
       (open_link\<lparr>lk_acl_queue := replicate 64 \<lparr>qf_conn = 0x40, qf_pb = 2, qf_data = [1]\<rparr>\<rparr>)) =
     [ResponseCalled 7 False [] (full_error
       (open_link\<lparr>lk_acl_queue := replicate 64 \<lparr>qf_conn = 0x40, qf_pb = 2, qf_data = [1]\<rparr>\<rparr>))]"
  using full_queue_answers_inside_call
    [of "open_link\<lparr>lk_acl_queue := replicate 64 \<lparr>qf_conn = 0x40, qf_pb = 2, qf_data = [1]\<rparr>\<rparr>" "0x40" "[2]" 1 7]
  by (simp add: open_link_simps kMaxQueuedFragments_def build_l2cap_def put16_def fragment.simps)

theorem nothing_waits_idle_witness:
  "let s = run_link ''tty'' (\<lambda>n. True) 10 (None :: nat option) [] in
     lk_cmd_in_flight s \<and> (\<exists>t. lk_cmd_timer s = Some (lk_cmd_opcode s, t))"
proof -
  have "\<not> lk_closed (run_link ''tty'' (\<lambda>n. True) 10 (None :: nat option) [])"
    "lk_cmd_in_flight (run_link ''tty'' (\<lambda>n. True) 10 (None :: nat option) [])"
    by (simp_all add: run_link_def attach_def init_step_def issue_command_def pump_commands_def
        write_packet_def new_link_def emit_def Let_def)
  then show ?thesis
    using nothing_waits_idle[where name = "''tty''" and acc = "\<lambda>n. True" and timeout = 10 and
        h = "None :: nat option" and ops = "[]", OF refl] by (simp add: Let_def)
qed

definition inbound_event :: event where
  "inbound_event = \<lparr>ev_code = kEvtLeMeta, ev_subevent = kLeConnectionComplete,
     ev_params = [1, 0, 0x41, 0, 1, 0, 1, 2, 3, 4, 5, 6, 0, 0, 0, 0, 0, 0, 0]\<rparr>"

theorem inbound_completes_outward_witness:
  "\<exists>h rest. lk_out (on_connection_complete inbound_event
       (open_link\<lparr>lk_connect_pending := True, lk_connect_done := Some 7\<rparr>)) = ConnectCalled 7 True h [] # rest"
proof -
  obtain cx where cx: "parse_connection_complete inbound_event = Some cx" "cx_status cx = kSuccess" "cx_role cx = 1"
    by (simp add: inbound_event_def parse_connection_complete_def connection_fields_def const_defs Let_def)
  show ?thesis
    using inbound_completes_outward[where s = "open_link\<lparr>lk_connect_pending := True, lk_connect_done := Some 7\<rparr>"
        and u = 7, OF _ _ cx]
    by (auto simp: open_link_simps)
qed

end
