(* ===== verification/HciShare.thy ===== *)
theory HciShare
  imports HciLink
begin

text \<open>
  One controller shared by several users (\<open>hcishare.cc\<close>): the users' votes on scanning are
  reconciled into what the radio is asked to do, one command at a time, and events are fanned out
  to every user.

  The link is seen through what this file uses of it: whether it is closed and scanning, and the
  completion of the one scan command it has been given.  Handlers are tokens, and calling one is
  recorded, as in the model of the link.  A user is known by a number.
\<close>

section \<open>State\<close>

datatype share_state = Opening | Ready | ShareFailed

datatype asked = AskedStop | AskedStart

datatype 'u share_action =
    LinkStart bool
  | LinkStop
  | LinkConnect address real
  | DoneSaid 'u bool string
  | ConnectSaid 'u bool u16 string
  | ClosedSaid 'u string
  | AdvertSaid 'u adv_report
  | ConnectedSaid 'u conn
  | DisconnectedSaid 'u u16 byte

record 'u share_user =
  us_id :: nat
  us_name :: string
  us_on_ready :: "'u option"
  us_on_closed :: "'u option"
  us_on_advert :: "'u option"
  us_on_connected :: "'u option"
  us_on_disconnected :: "'u option"
  us_want_scan :: bool
  us_want_active :: bool

record 'u share =
  sh_alive :: bool
  sh_link_closed :: bool
  sh_link_scanning :: bool
  sh_state :: share_state
  sh_error :: string
  sh_users :: "'u share_user list"
  sh_applied_scanning :: bool
  sh_applied_active :: bool
  sh_reconciling :: bool
  sh_asked :: "asked option"
  sh_connecting :: bool
  sh_force :: bool
  sh_pending :: "'u list"
  sh_deferred :: "(nat option \<times> 'u share_action) list"
  sh_out :: "'u share_action list"

definition kGone :: string where
  "kGone = ''the radio is gone''"

definition new_share :: "'u share" where
  "new_share = \<lparr>sh_alive = True, sh_link_closed = False, sh_link_scanning = False, sh_state = Opening,
     sh_error = [], sh_users = [], sh_applied_scanning = False, sh_applied_active = False,
     sh_reconciling = False, sh_asked = None, sh_connecting = False, sh_force = False, sh_pending = [],
     sh_deferred = [], sh_out = []\<rparr>"

definition new_user :: "nat \<Rightarrow> string \<Rightarrow> 'u share_user" where
  "new_user i name = \<lparr>us_id = i, us_name = name, us_on_ready = None, us_on_closed = None,
     us_on_advert = None, us_on_connected = None, us_on_disconnected = None, us_want_scan = False,
     us_want_active = False\<rparr>"

definition say :: "'u share_action \<Rightarrow> 'u share \<Rightarrow> 'u share" where
  "say a s = s\<lparr>sh_out := sh_out s @ [a]\<rparr>"

definition say_opt :: "'u option \<Rightarrow> ('u \<Rightarrow> 'u share_action) \<Rightarrow> 'u share \<Rightarrow> 'u share" where
  "say_opt h f s = (case h of None \<Rightarrow> s | Some u \<Rightarrow> say (f u) s)"

section \<open>Reconciling\<close>

definition settle :: "bool \<Rightarrow> string \<Rightarrow> 'u share \<Rightarrow> 'u share" where
  "settle ok err s = fold (\<lambda>u. say (DoneSaid u ok err)) (sh_pending s) (s\<lparr>sh_pending := []\<rparr>)"

definition wanted :: "'u share \<Rightarrow> bool" where
  "wanted s \<longleftrightarrow> (\<exists>u \<in> set (sh_users s). us_want_scan u)"

definition wants_active :: "'u share \<Rightarrow> bool" where
  "wants_active s \<longleftrightarrow> (\<exists>u \<in> set (sh_users s). us_want_scan u \<and> us_want_active u)"

definition ask_stop :: "'u share \<Rightarrow> 'u share" where
  "ask_stop s = say LinkStop (s\<lparr>sh_reconciling := True, sh_asked := Some AskedStop\<rparr>)"

definition ask_start :: "bool \<Rightarrow> 'u share \<Rightarrow> 'u share" where
  "ask_start active s =
     say (LinkStart active)
       (s\<lparr>sh_reconciling := True, sh_applied_active := active, sh_asked := Some AskedStart\<rparr>)"

text \<open>The part of \<open>pump\<close> that compares what is wanted with what the radio does.\<close>

definition pump_scan :: "'u share \<Rightarrow> 'u share" where
  "pump_scan s =
     (if \<not> wanted s then
        (if \<not> sh_link_scanning s then settle True [] (s\<lparr>sh_applied_scanning := False\<rparr>)
         else ask_stop s)
      else if sh_link_scanning s \<and> wants_active s = sh_applied_active s then
        settle True [] (s\<lparr>sh_applied_scanning := True\<rparr>)
      else if sh_link_scanning s then ask_stop s
      else ask_start (wants_active s) s)"

definition pump :: "'u share \<Rightarrow> 'u share" where
  "pump s =
     (if sh_link_closed s \<or> sh_state s = ShareFailed then
        settle False (if sh_error s = [] then kGone else sh_error s) s
      else if sh_state s = Opening then s
      else if sh_connecting s then s
      else if sh_force s \<and> sh_link_scanning s then ask_stop (s\<lparr>sh_force := False\<rparr>)
      else pump_scan (s\<lparr>sh_force := False\<rparr>))"

definition reconcile :: "'u option \<Rightarrow> 'u share \<Rightarrow> 'u share" where
  "reconcile fin s =
     (let s1 = (case fin of None \<Rightarrow> s | Some u \<Rightarrow> s\<lparr>sh_pending := sh_pending s @ [u]\<rparr>) in
      if sh_reconciling s1 then s1 else pump s1)"

text \<open>The completions given to the link with each scan command.\<close>

definition scan_next :: "bool \<Rightarrow> string \<Rightarrow> 'u share \<Rightarrow> 'u share" where
  "scan_next ok err s =
     (let s1 = s\<lparr>sh_reconciling := False, sh_asked := None\<rparr> in
      if \<not> ok then settle False err s1 else pump s1)"

definition scan_stopped :: "bool \<Rightarrow> string \<Rightarrow> 'u share \<Rightarrow> 'u share" where
  "scan_stopped ok err s =
     (if \<not> sh_alive s then s else scan_next ok err (s\<lparr>sh_applied_scanning := False\<rparr>))"

definition scan_started :: "bool \<Rightarrow> string \<Rightarrow> 'u share \<Rightarrow> 'u share" where
  "scan_started ok err s =
     (if \<not> sh_alive s then s
      else scan_next ok err (if ok then s\<lparr>sh_applied_scanning := True\<rparr> else s))"

section \<open>Events of the link\<close>

definition fan_out :: "('u share_user \<Rightarrow> 'u option) \<Rightarrow> ('u \<Rightarrow> 'u share_action) \<Rightarrow> 'u share \<Rightarrow> 'u share" where
  "fan_out h f s = fold (\<lambda>x. say_opt (h x) f) (sh_users s) s"

definition share_ready :: "bool \<Rightarrow> string \<Rightarrow> 'u share \<Rightarrow> 'u share" where
  "share_ready ok err s =
     (if \<not> sh_alive s then s
      else
        let s1 = s\<lparr>sh_state := (if ok then Ready else ShareFailed), sh_error := (if ok then sh_error s else err)\<rparr>;
            s2 = fan_out us_on_ready (\<lambda>u. DoneSaid u ok err) s1;
            s3 = s2\<lparr>sh_users := map (\<lambda>x. x\<lparr>us_on_ready := None\<rparr>) (sh_users s2)\<rparr> in
        if ok then pump s3 else settle False err s3)"

definition share_closed :: "string \<Rightarrow> 'u share \<Rightarrow> 'u share" where
  "share_closed why s =
     (if \<not> sh_alive s then s
      else fan_out us_on_closed (\<lambda>u. ClosedSaid u why)
             (settle False why (s\<lparr>sh_state := ShareFailed, sh_error := why\<rparr>)))"

definition share_advert :: "adv_report \<Rightarrow> 'u share \<Rightarrow> 'u share" where
  "share_advert r s =
     (if \<not> sh_alive s then s
      else fan_out (\<lambda>x. if us_want_scan x then us_on_advert x else None) (\<lambda>u. AdvertSaid u r) s)"

definition share_connected :: "conn \<Rightarrow> 'u share \<Rightarrow> 'u share" where
  "share_connected c s = (if \<not> sh_alive s then s else fan_out us_on_connected (\<lambda>u. ConnectedSaid u c) s)"

definition share_disconnected :: "u16 \<Rightarrow> byte \<Rightarrow> 'u share \<Rightarrow> 'u share" where
  "share_disconnected h reason s =
     (if \<not> sh_alive s then s else fan_out us_on_disconnected (\<lambda>u. DisconnectedSaid u h reason) s)"

definition begin_connect :: "'u share \<Rightarrow> 'u share" where
  "begin_connect s = s\<lparr>sh_connecting := True\<rparr>"

definition end_connect :: "'u share \<Rightarrow> 'u share" where
  "end_connect s = reconcile None (s\<lparr>sh_connecting := False, sh_force := True\<rparr>)"

section \<open>What a user can do\<close>

definition on_user :: "nat \<Rightarrow> ('u share_user \<Rightarrow> 'u share_user) \<Rightarrow> 'u share \<Rightarrow> 'u share" where
  "on_user i f s = s\<lparr>sh_users := map (\<lambda>x. if us_id x = i then f x else x) (sh_users s)\<rparr>"

definition later :: "nat option \<Rightarrow> 'u option \<Rightarrow> ('u \<Rightarrow> 'u share_action) \<Rightarrow> 'u share \<Rightarrow> 'u share" where
  "later i h f s = (case h of None \<Rightarrow> s | Some u \<Rightarrow> s\<lparr>sh_deferred := sh_deferred s @ [(i, f u)]\<rparr>)"

definition run_later :: "'u share \<Rightarrow> 'u share" where
  "run_later s =
     (case sh_deferred s of
        [] \<Rightarrow> s
      | (i, a) # rest \<Rightarrow>
          let s1 = s\<lparr>sh_deferred := rest\<rparr> in
          (case i of
             None \<Rightarrow> say a s1
           | Some k \<Rightarrow> if sh_alive s \<and> k \<in> us_id ` set (sh_users s) then say a s1 else s1))"

definition add_user :: "nat \<Rightarrow> string \<Rightarrow> 'u share \<Rightarrow> 'u share" where
  "add_user i name s = s\<lparr>sh_users := sh_users s @ [new_user i name]\<rparr>"

definition drop_user :: "nat \<Rightarrow> 'u share \<Rightarrow> 'u share" where
  "drop_user i s =
     (if \<not> sh_alive s then s
      else reconcile None (s\<lparr>sh_users := filter (\<lambda>x. us_id x \<noteq> i) (sh_users s)\<rparr>))"

definition when_ready :: "nat \<Rightarrow> 'u option \<Rightarrow> 'u share \<Rightarrow> 'u share" where
  "when_ready i h s =
     (if \<not> sh_alive s then later None h (\<lambda>u. DoneSaid u False kGone) s
      else if sh_state s = Opening then on_user i (\<lambda>x. x\<lparr>us_on_ready := h\<rparr>) s
      else later (Some i) h (\<lambda>u. DoneSaid u (sh_state s = Ready) (sh_error s)) s)"

definition user_start_scan :: "nat \<Rightarrow> bool \<Rightarrow> 'u option \<Rightarrow> 'u option \<Rightarrow> 'u share \<Rightarrow> 'u share" where
  "user_start_scan i active on_report fin s =
     (if \<not> sh_alive s then later None fin (\<lambda>u. DoneSaid u False kGone) s
      else reconcile fin
             (on_user i (\<lambda>x. x\<lparr>us_on_advert := (case on_report of None \<Rightarrow> us_on_advert x | Some u \<Rightarrow> Some u),
                              us_want_scan := True, us_want_active := active\<rparr>) s))"

definition user_stop_scan :: "nat \<Rightarrow> 'u option \<Rightarrow> 'u share \<Rightarrow> 'u share" where
  "user_stop_scan i fin s =
     (if \<not> sh_alive s then later None fin (\<lambda>u. DoneSaid u True []) s
      else reconcile fin (on_user i (\<lambda>x. x\<lparr>us_want_scan := False, us_want_active := False\<rparr>) s))"

definition user_connect :: "address \<Rightarrow> real \<Rightarrow> 'u option \<Rightarrow> 'u share \<Rightarrow> 'u share" where
  "user_connect peer timeout fin s =
     (if \<not> sh_alive s then later None fin (\<lambda>u. ConnectSaid u False 0 kGone) s
      else say (LinkConnect peer timeout) (begin_connect s))"

text \<open>The completion \<open>User::connect\<close> hands the link.\<close>

definition connect_ended :: "bool \<Rightarrow> u16 \<Rightarrow> string \<Rightarrow> 'u option \<Rightarrow> 'u share \<Rightarrow> 'u share" where
  "connect_ended ok h err fin s =
     say_opt fin (\<lambda>u. ConnectSaid u ok h err) (if sh_alive s then end_connect s else s)"

definition set_user_closed :: "nat \<Rightarrow> 'u option \<Rightarrow> 'u share \<Rightarrow> 'u share" where
  "set_user_closed i h s = on_user i (\<lambda>x. x\<lparr>us_on_closed := h\<rparr>) s"

definition set_user_connections :: "nat \<Rightarrow> 'u option \<Rightarrow> 'u option \<Rightarrow> 'u share \<Rightarrow> 'u share" where
  "set_user_connections i c d s = on_user i (\<lambda>x. x\<lparr>us_on_connected := c, us_on_disconnected := d\<rparr>) s"

text \<open>The destructor: users are detached and nobody waiting is told.\<close>

definition destroy_share :: "'u share \<Rightarrow> 'u share" where
  "destroy_share s = s\<lparr>sh_alive := False, sh_users := [], sh_pending := []\<rparr>"

section \<open>The union wins\<close>

text \<open>A radio that does what it is asked: the completion of the outstanding command.\<close>

definition obey :: "'u share \<Rightarrow> 'u share" where
  "obey s =
     (case sh_asked s of
        None \<Rightarrow> s
      | Some AskedStop \<Rightarrow> scan_stopped True [] (s\<lparr>sh_link_scanning := False\<rparr>)
      | Some AskedStart \<Rightarrow> scan_started True [] (s\<lparr>sh_link_scanning := True\<rparr>))"

definition in_line :: "'u share \<Rightarrow> bool" where
  "in_line s \<longleftrightarrow> (sh_link_scanning s \<longleftrightarrow> wanted s) \<and> (wanted s \<longrightarrow> sh_applied_active s = wants_active s)"

lemma settle_simps [simp]:
  "sh_users (settle ok err s) = sh_users s" "sh_link_scanning (settle ok err s) = sh_link_scanning s"
  "sh_applied_active (settle ok err s) = sh_applied_active s" "sh_asked (settle ok err s) = sh_asked s"
  "sh_reconciling (settle ok err s) = sh_reconciling s" "sh_pending (settle ok err s) = []"
proof -
  have "let t = fold (\<lambda>u. say (DoneSaid u ok err)) us t0 in
      sh_users t = sh_users t0 \<and> sh_link_scanning t = sh_link_scanning t0 \<and>
      sh_applied_active t = sh_applied_active t0 \<and> sh_asked t = sh_asked t0 \<and>
      sh_reconciling t = sh_reconciling t0 \<and> sh_pending t = sh_pending t0" for us and t0 :: "'a share"
    by (induction us arbitrary: t0) (simp_all add: say_def Let_def)
  from this[of "sh_pending s" "s\<lparr>sh_pending := []\<rparr>"] show
    "sh_users (settle ok err s) = sh_users s" "sh_link_scanning (settle ok err s) = sh_link_scanning s"
    "sh_applied_active (settle ok err s) = sh_applied_active s" "sh_asked (settle ok err s) = sh_asked s"
    "sh_reconciling (settle ok err s) = sh_reconciling s" "sh_pending (settle ok err s) = []"
    by (simp_all add: settle_def Let_def)
qed

lemma votes_simps [simp]:
  "wanted (settle ok err s) = wanted s" "wants_active (settle ok err s) = wants_active s"
  by (simp_all add: wanted_def wants_active_def)

lemma votes_update [simp]:
  "wanted (s\<lparr>sh_link_scanning := b\<rparr>) = wanted s" "wants_active (s\<lparr>sh_link_scanning := b\<rparr>) = wants_active s"
  "wanted (s\<lparr>sh_reconciling := b, sh_asked := a\<rparr>) = wanted s"
  "wants_active (s\<lparr>sh_reconciling := b, sh_asked := a\<rparr>) = wants_active s"
  "wanted (s\<lparr>sh_applied_scanning := b\<rparr>) = wanted s" "wants_active (s\<lparr>sh_applied_scanning := b\<rparr>) = wants_active s"
  "wanted (s\<lparr>sh_force := b\<rparr>) = wanted s" "wants_active (s\<lparr>sh_force := b\<rparr>) = wants_active s"
  "wanted (say x s) = wanted s" "wants_active (say x s) = wants_active s"
  "wanted (s\<lparr>sh_reconciling := b, sh_applied_active := b', sh_asked := a\<rparr>) = wanted s"
  "wants_active (s\<lparr>sh_reconciling := b, sh_applied_active := b', sh_asked := a\<rparr>) = wants_active s"
  by (simp_all add: wanted_def wants_active_def say_def)

definition settled :: "'u share \<Rightarrow> bool" where
  "settled s \<longleftrightarrow> \<not> sh_reconciling s \<and> sh_asked s = None \<and> sh_pending s = [] \<and> in_line s"

text \<open>What the radio is told to do next, by what is wanted and what it does.\<close>

lemma pump_scan_cases:
  assumes "\<not> sh_reconciling s" "sh_asked s = None"
  shows "(in_line s \<and> settled (pump_scan s) \<and> sh_out (pump_scan s) = sh_out s @ map (\<lambda>u. DoneSaid u True []) (sh_pending s)) \<or>
     (\<not> in_line s \<and> sh_link_scanning s \<and> pump_scan s = ask_stop s) \<or>
     (\<not> in_line s \<and> \<not> sh_link_scanning s \<and> wanted s \<and> pump_scan s = ask_start (wants_active s) s)"
proof -
  have out: "sh_out (settle ok err t) = sh_out t @ map (\<lambda>u. DoneSaid u ok err) (sh_pending t)"
    for ok err and t :: "'a share"
  proof -
    have "sh_out (fold (\<lambda>u. say (DoneSaid u ok err)) us t0) = sh_out t0 @ map (\<lambda>u. DoneSaid u ok err) us"
      for us and t0 :: "'a share" by (induction us arbitrary: t0) (simp_all add: say_def)
    from this[of "sh_pending t" "t\<lparr>sh_pending := []\<rparr>"] show ?thesis by (simp add: settle_def)
  qed
  have alt: "wanted s \<or> (\<not> wants_active s)" by (auto simp: wanted_def wants_active_def)
  show ?thesis using assms alt
    by (auto simp: pump_scan_def settled_def in_line_def out)
qed

text \<open>
  Telling a user that its scan request succeeded means the radio is doing what all of them want
  together: if a reconciliation answers anybody with success, the radio is scanning exactly when some
  user wants it to, and actively exactly when some user that wants it asks for that.
\<close>

theorem yes_means_the_union:
  assumes "\<not> sh_reconciling s" "sh_asked s = None" "\<forall>u err. DoneSaid u True err \<notin> set (sh_out s)"
    and "DoneSaid u True err \<in> set (sh_out (pump s))"
  shows "(sh_link_scanning (pump s) \<longleftrightarrow> wanted (pump s)) \<and>
     (wanted (pump s) \<longrightarrow> sh_applied_active (pump s) = wants_active (pump s))"
proof -
  have fail: "sh_out (settle False e t) = sh_out t @ map (\<lambda>u. DoneSaid u False e) (sh_pending t)"
    for e and t :: "'a share"
  proof -
    have "sh_out (fold (\<lambda>u. say (DoneSaid u False e)) us t0) = sh_out t0 @ map (\<lambda>u. DoneSaid u False e) us"
      for us and t0 :: "'a share" by (induction us arbitrary: t0) (simp_all add: say_def)
    from this[of "sh_pending t" "t\<lparr>sh_pending := []\<rparr>"] show ?thesis by (simp add: settle_def)
  qed
  define s1 where "s1 = s\<lparr>sh_force := False\<rparr>"
  have "\<not> (sh_link_closed s \<or> sh_state s = ShareFailed)" "sh_state s \<noteq> Opening" "\<not> sh_connecting s"
    using assms(3,4) by (auto simp: pump_def fail split: if_splits)
  moreover have "\<not> (sh_force s \<and> sh_link_scanning s)"
    using assms(3,4) calculation by (auto simp: pump_def ask_stop_def say_def split: if_splits)
  ultimately have p: "pump s = pump_scan s1" by (auto simp: pump_def s1_def)
  have "\<not> sh_reconciling s1" "sh_asked s1 = None" "sh_out s1 = sh_out s" using assms(1,2) by (simp_all add: s1_def)
  with pump_scan_cases[of s1] assms(3,4) p have "settled (pump s)"
    by (auto simp: ask_stop_def ask_start_def say_def)
  then show ?thesis by (simp add: settled_def in_line_def)
qed

lemma obey_stop:
  assumes "sh_alive s" "sh_state s = Ready" "\<not> sh_link_closed s" "\<not> sh_connecting s" "\<not> sh_force s"
  shows "obey (ask_stop s) = pump_scan (say LinkStop
     (s\<lparr>sh_reconciling := False, sh_asked := None, sh_link_scanning := False, sh_applied_scanning := False\<rparr>))"
  using assms by (cases s) (simp add: obey_def ask_stop_def scan_stopped_def scan_next_def pump_def say_def Let_def)

lemma obey_start:
  assumes "sh_alive s" "sh_state s = Ready" "\<not> sh_link_closed s" "\<not> sh_connecting s" "\<not> sh_force s"
  shows "obey (ask_start a s) = pump_scan (say (LinkStart a)
     (s\<lparr>sh_reconciling := False, sh_asked := None, sh_link_scanning := True, sh_applied_active := a,
        sh_applied_scanning := True\<rparr>))"
  using assms by (cases s) (simp add: obey_def ask_start_def scan_started_def scan_next_def pump_def say_def Let_def)

lemma obey_settled: "settled s \<Longrightarrow> obey s = s"
  by (simp add: settled_def obey_def)

lemma start_settles:
  assumes "sh_alive s" "sh_state s = Ready" "\<not> sh_link_closed s" "\<not> sh_connecting s" "\<not> sh_force s" "wanted s"
  shows "settled (obey (ask_start (wants_active s) s)) \<and> wanted (obey (ask_start (wants_active s) s)) = wanted s \<and>
    wants_active (obey (ask_start (wants_active s) s)) = wants_active s"
  using assms
  by (simp add: obey_start pump_scan_def settled_def in_line_def wanted_def wants_active_def say_def)

lemma stop_leads:
  assumes "sh_alive s" "sh_state s = Ready" "\<not> sh_link_closed s" "\<not> sh_connecting s" "\<not> sh_force s"
  shows "settled (obey (obey (ask_stop s))) \<and> wanted (obey (obey (ask_stop s))) = wanted s \<and>
    wants_active (obey (obey (ask_stop s))) = wants_active s"
proof -
  define t where "t = say LinkStop
     (s\<lparr>sh_reconciling := False, sh_asked := None, sh_link_scanning := False, sh_applied_scanning := False\<rparr>)"
  have t: "sh_alive t" "sh_state t = Ready" "\<not> sh_link_closed t" "\<not> sh_connecting t" "\<not> sh_force t"
    "\<not> sh_link_scanning t" "\<not> sh_reconciling t" "sh_asked t = None"
    "wanted t = wanted s" "wants_active t = wants_active s"
    using assms by (simp_all add: t_def say_def wanted_def wants_active_def)
  have o: "obey (ask_stop s) = pump_scan t" using obey_stop[OF assms] by (simp add: t_def)
  show ?thesis
  proof (cases "wanted s")
    case True
    then have "pump_scan t = ask_start (wants_active t) t" using t by (simp add: pump_scan_def)
    then show ?thesis using start_settles[of t] t True o by simp
  next
    case False
    then have "settled (pump_scan t)" using t pump_scan_cases[of t] by (auto simp: in_line_def)
    moreover have "wanted (pump_scan t) = wanted s" "wants_active (pump_scan t) = wants_active s"
      using False t by (simp_all add: pump_scan_def wanted_def wants_active_def)
    ultimately show ?thesis using o obey_settled[of "pump_scan t"] by simp
  qed
qed


text \<open>An attempt to connect that is refused while another is being made lets the scan start under it.\<close>

lemma refused_connect_restarts_scan:
  assumes "sh_alive s" "sh_state s = Ready" "\<not> sh_link_closed s" "\<not> sh_reconciling s" "\<not> sh_link_scanning s"
    and "wanted s" "sh_connecting s"
  shows "sh_out (connect_ended False 0 err None s) = sh_out s @ [LinkStart (wants_active s)]"
  using assms
  by (simp add: connect_ended_def say_opt_def end_connect_def reconcile_def pump_def pump_scan_def
      ask_start_def say_def wanted_def wants_active_def)

definition two_users :: "nat share" where
  "two_users = new_share\<lparr>sh_state := Ready, sh_link_scanning := True, sh_force := True, sh_pending := [7],
     sh_users := [(new_user 1 ''clock'')\<lparr>us_want_scan := True\<rparr>,
                  (new_user 2 ''camera'')\<lparr>us_want_scan := True, us_want_active := True\<rparr>]\<rparr>"


theorem yes_means_the_union_witness:
  "let s = two_users\<lparr>sh_force := False, sh_applied_active := True\<rparr> in
     DoneSaid 7 True [] \<in> set (sh_out (pump s)) \<and> sh_applied_active (pump s) = wants_active (pump s)"
proof -
  let ?s = "two_users\<lparr>sh_force := False, sh_applied_active := True\<rparr>"
  have "DoneSaid 7 True [] \<in> set (sh_out (pump ?s))"
    by (simp add: two_users_def new_share_def new_user_def pump_def pump_scan_def wanted_def wants_active_def
        settle_def say_def)
  moreover have "wanted (pump ?s)"
    by (simp add: two_users_def new_share_def new_user_def pump_def pump_scan_def wanted_def wants_active_def
        settle_def say_def)
  ultimately show ?thesis using yes_means_the_union[of ?s 7 "[]"]
    by (simp add: two_users_def new_share_def Let_def)
qed

end
