(* ===== verification/Crypto.thy ===== *)
theory Crypto
  imports Prelude
begin

text \<open>
  The cryptography of pairing (\<open>src/crypto.h\<close>, \<open>src/crypto.cc\<close>): AES-128, AES-CMAC, the
  legacy functions c1 and s1, the Secure Connections functions f4, f5, f6 and g2, and
  the comparison of blocks.  A \<open>Block\<close> or a key is a list of sixteen bytes, most
  significant first; a loop over an array with a fixed bound is a \<open>map\<close> over its indices.
  The random source is a device of the system and is a parameter where it is used.
\<close>

section \<open>AES-128\<close>

definition kSbox :: bytes where
  "kSbox =
    [0x63, 0x7c, 0x77, 0x7b, 0xf2, 0x6b, 0x6f, 0xc5, 0x30, 0x01, 0x67, 0x2b, 0xfe, 0xd7, 0xab, 0x76,
     0xca, 0x82, 0xc9, 0x7d, 0xfa, 0x59, 0x47, 0xf0, 0xad, 0xd4, 0xa2, 0xaf, 0x9c, 0xa4, 0x72, 0xc0,
     0xb7, 0xfd, 0x93, 0x26, 0x36, 0x3f, 0xf7, 0xcc, 0x34, 0xa5, 0xe5, 0xf1, 0x71, 0xd8, 0x31, 0x15,
     0x04, 0xc7, 0x23, 0xc3, 0x18, 0x96, 0x05, 0x9a, 0x07, 0x12, 0x80, 0xe2, 0xeb, 0x27, 0xb2, 0x75,
     0x09, 0x83, 0x2c, 0x1a, 0x1b, 0x6e, 0x5a, 0xa0, 0x52, 0x3b, 0xd6, 0xb3, 0x29, 0xe3, 0x2f, 0x84,
     0x53, 0xd1, 0x00, 0xed, 0x20, 0xfc, 0xb1, 0x5b, 0x6a, 0xcb, 0xbe, 0x39, 0x4a, 0x4c, 0x58, 0xcf,
     0xd0, 0xef, 0xaa, 0xfb, 0x43, 0x4d, 0x33, 0x85, 0x45, 0xf9, 0x02, 0x7f, 0x50, 0x3c, 0x9f, 0xa8,
     0x51, 0xa3, 0x40, 0x8f, 0x92, 0x9d, 0x38, 0xf5, 0xbc, 0xb6, 0xda, 0x21, 0x10, 0xff, 0xf3, 0xd2,
     0xcd, 0x0c, 0x13, 0xec, 0x5f, 0x97, 0x44, 0x17, 0xc4, 0xa7, 0x7e, 0x3d, 0x64, 0x5d, 0x19, 0x73,
     0x60, 0x81, 0x4f, 0xdc, 0x22, 0x2a, 0x90, 0x88, 0x46, 0xee, 0xb8, 0x14, 0xde, 0x5e, 0x0b, 0xdb,
     0xe0, 0x32, 0x3a, 0x0a, 0x49, 0x06, 0x24, 0x5c, 0xc2, 0xd3, 0xac, 0x62, 0x91, 0x95, 0xe4, 0x79,
     0xe7, 0xc8, 0x37, 0x6d, 0x8d, 0xd5, 0x4e, 0xa9, 0x6c, 0x56, 0xf4, 0xea, 0x65, 0x7a, 0xae, 0x08,
     0xba, 0x78, 0x25, 0x2e, 0x1c, 0xa6, 0xb4, 0xc6, 0xe8, 0xdd, 0x74, 0x1f, 0x4b, 0xbd, 0x8b, 0x8a,
     0x70, 0x3e, 0xb5, 0x66, 0x48, 0x03, 0xf6, 0x0e, 0x61, 0x35, 0x57, 0xb9, 0x86, 0xc1, 0x1d, 0x9e,
     0xe1, 0xf8, 0x98, 0x11, 0x69, 0xd9, 0x8e, 0x94, 0x9b, 0x1e, 0x87, 0xe9, 0xce, 0x55, 0x28, 0xdf,
     0x8c, 0xa1, 0x89, 0x0d, 0xbf, 0xe6, 0x42, 0x68, 0x41, 0x99, 0x2d, 0x0f, 0xb0, 0x54, 0xbb, 0x16]"

definition xtime :: "byte \<Rightarrow> byte" where
  "xtime x = push_bit 1 x XOR (if x AND 0x80 \<noteq> 0 then 0x1b else 0x00)"

function mul_loop :: "byte \<Rightarrow> byte \<Rightarrow> byte \<Rightarrow> byte" where
  "mul_loop a b result =
     (if b = 0 then result
      else mul_loop (xtime a) (drop_bit 1 b) (if b AND 1 \<noteq> 0 then result XOR a else result))"
  by pat_completeness auto
termination
proof (relation "measure (\<lambda>(a, b, r). unat b)")
  fix b :: byte
  assume "b \<noteq> 0"
  then have "0 < unat b" by (simp add: unat_gt_0)
  moreover have "take_bit 8 (unat b) \<le> unat b" by (rule take_bit_nat_less_eq_self)
  ultimately have "take_bit 8 (unat b) div 2 < unat b" by linarith
  then show "\<And>a r r'. ((xtime a, drop_bit 1 b, r'), (a, b, r)) \<in> measure (\<lambda>(a, b, r). unat b)"
    by (simp add: unsigned_drop_bit_eq) (simp add: drop_bit_eq_div)
qed simp

declare mul_loop.simps [simp del]

definition mul :: "byte \<Rightarrow> byte \<Rightarrow> byte" where
  "mul a b = mul_loop a b 0"

definition xor_bytes :: "bytes \<Rightarrow> bytes \<Rightarrow> bytes" where
  "xor_bytes xs ys = map2 (XOR) xs ys"

definition sub_word :: "bytes \<Rightarrow> byte \<Rightarrow> bytes" where
  "sub_word t rcon =
     [kSbox ! unat (t ! 1) XOR rcon, kSbox ! unat (t ! 2), kSbox ! unat (t ! 3), kSbox ! unat (t ! 0)]"

text \<open>The key schedule: \<open>n\<close> words are still to be appended to \<open>out\<close>.\<close>

fun expand_words :: "nat \<Rightarrow> byte \<Rightarrow> bytes \<Rightarrow> bytes" where
  "expand_words 0 rcon out = out"
| "expand_words (Suc n) rcon out =
     (let i = length out; t = drop (i - 4) out;
          (t, rcon) = (if i mod 16 = 0 then (sub_word t rcon, xtime rcon) else (t, rcon))
      in expand_words n rcon (out @ xor_bytes (take 4 (drop (i - 16) out)) t))"

definition expand_key :: "bytes \<Rightarrow> bytes" where
  "expand_key key = expand_words 40 0x01 key"

definition sub_bytes :: "bytes \<Rightarrow> bytes" where
  "sub_bytes s = map (\<lambda>b. kSbox ! unat b) s"

definition shift_rows :: "bytes \<Rightarrow> bytes" where
  "shift_rows s = map (\<lambda>j. s ! ((j div 4 + j mod 4) mod 4 * 4 + j mod 4)) [0..<16]"

definition mix_column :: "bytes \<Rightarrow> nat \<Rightarrow> bytes" where
  "mix_column s c =
     (let a0 = s ! (c * 4); a1 = s ! (c * 4 + 1); a2 = s ! (c * 4 + 2); a3 = s ! (c * 4 + 3)
      in [mul a0 2 XOR mul a1 3 XOR a2 XOR a3,
          a0 XOR mul a1 2 XOR mul a2 3 XOR a3,
          a0 XOR a1 XOR mul a2 2 XOR mul a3 3,
          mul a0 3 XOR a1 XOR a2 XOR mul a3 2])"

definition mix_columns :: "bytes \<Rightarrow> bytes" where
  "mix_columns s = concat (map (mix_column s) [0..<4])"

definition add_round_key :: "bytes \<Rightarrow> nat \<Rightarrow> bytes \<Rightarrow> bytes" where
  "add_round_key rk round s = xor_bytes s (take 16 (drop (round * 16) rk))"

definition aes_round :: "bytes \<Rightarrow> nat \<Rightarrow> bytes \<Rightarrow> bytes" where
  "aes_round rk round s =
     (let t = shift_rows (sub_bytes s)
      in add_round_key rk round (if round \<noteq> 10 then mix_columns t else t))"

definition aes128_encrypt :: "bytes \<Rightarrow> bytes \<Rightarrow> bytes" where
  "aes128_encrypt key plaintext =
     (let rk = expand_key key
      in foldl (\<lambda>s round. aes_round rk round s) (add_round_key rk 0 plaintext) [1..<11])"

section \<open>AES-CMAC\<close>

text \<open>\<open>shift_left_one\<close>, from the last byte with the carry of the byte after it.\<close>

fun shift_left_one :: "bytes \<Rightarrow> bytes \<times> byte" where
  "shift_left_one [] = ([], 0)"
| "shift_left_one (b # bs) =
     (let (r, carry) = shift_left_one bs
      in ((push_bit 1 b OR carry) # r, if b AND 0x80 \<noteq> 0 then 1 else 0))"

definition cmac_double :: "bytes \<Rightarrow> bytes" where
  "cmac_double l =
     (let k = fst (shift_left_one l)
      in if l ! 0 AND 0x80 \<noteq> 0 then k[15 := k ! 15 XOR 0x87] else k)"

definition cmac_subkeys :: "bytes \<Rightarrow> bytes \<times> bytes" where
  "cmac_subkeys key =
     (let k1 = cmac_double (aes128_encrypt key (replicate 16 0)) in (k1, cmac_double k1))"

definition aes_cmac :: "bytes \<Rightarrow> bytes \<Rightarrow> bytes" where
  "aes_cmac key msg =
     (let (k1, k2) = cmac_subkeys key; len = length msg;
          nblocks = (if (len + 15) div 16 = 0 then 1 else (len + 15) div 16);
          whole = (0 < len \<and> len mod 16 = 0);
          tail = drop ((nblocks - 1) * 16) msg;
          last_block = (if whole then xor_bytes tail k1
            else xor_bytes (tail @ [0x80] @ replicate (15 - length tail) 0) k2);
          x = foldl (\<lambda>x i. aes128_encrypt key (xor_bytes x (take 16 (drop (i * 16) msg))))
                (replicate 16 0) [0..<nblocks - 1]
      in aes128_encrypt key (xor_bytes x last_block))"

section \<open>The pairing functions\<close>

definition c1 :: "bytes \<Rightarrow> bytes \<Rightarrow> bytes \<Rightarrow> bytes \<Rightarrow> byte \<Rightarrow> bytes \<Rightarrow> byte \<Rightarrow> bytes \<Rightarrow> bytes" where
  "c1 k r preq pres iat ia rat ra =
     (let p1 = take 7 pres @ take 7 preq @ [rat AND 0x01, iat AND 0x01];
          e1 = aes128_encrypt k (xor_bytes r p1);
          p2 = replicate 4 0 @ take 6 ia @ take 6 ra
      in aes128_encrypt k (xor_bytes e1 p2))"

definition s1 :: "bytes \<Rightarrow> bytes \<Rightarrow> bytes \<Rightarrow> bytes" where
  "s1 k r1 r2 = aes128_encrypt k (take 8 (drop 8 r1) @ take 8 (drop 8 r2))"

definition f4 :: "bytes \<Rightarrow> bytes \<Rightarrow> bytes \<Rightarrow> byte \<Rightarrow> bytes" where
  "f4 u v x z = aes_cmac x (take 32 u @ take 32 v @ [z])"

definition kSalt :: bytes where
  "kSalt = [0x6c, 0x88, 0x83, 0x91, 0xaa, 0xf5, 0xa5, 0x38,
            0x60, 0x37, 0x0b, 0xdb, 0x5a, 0x60, 0x83, 0xbe]"

definition f5_message :: "byte \<Rightarrow> bytes \<Rightarrow> bytes \<Rightarrow> byte \<Rightarrow> bytes \<Rightarrow> byte \<Rightarrow> bytes \<Rightarrow> bytes" where
  "f5_message counter n1 n2 a1t a1 a2t a2 =
     [counter, 0x62, 0x74, 0x6c, 0x65] @ n1 @ n2 @ [a1t AND 0x01] @ take 6 a1 @
     [a2t AND 0x01] @ take 6 a2 @ [0x01, 0x00]"

definition f5 :: "bytes \<Rightarrow> bytes \<Rightarrow> bytes \<Rightarrow> byte \<Rightarrow> bytes \<Rightarrow> byte \<Rightarrow> bytes \<Rightarrow> bytes \<times> bytes" where
  "f5 dhkey n1 n2 a1t a1 a2t a2 =
     (let key = aes_cmac kSalt (take 32 dhkey)
      in (aes_cmac key (f5_message 0 n1 n2 a1t a1 a2t a2), aes_cmac key (f5_message 1 n1 n2 a1t a1 a2t a2)))"

definition f6 :: "bytes \<Rightarrow> bytes \<Rightarrow> bytes \<Rightarrow> bytes \<Rightarrow> bytes \<Rightarrow> byte \<Rightarrow> bytes \<Rightarrow> byte \<Rightarrow> bytes \<Rightarrow> bytes" where
  "f6 mac_key n1 n2 r iocap a1t a1 a2t a2 =
     aes_cmac mac_key (n1 @ n2 @ r @ take 3 iocap @ [a1t AND 0x01] @ take 6 a1 @
       [a2t AND 0x01] @ take 6 a2)"

definition g2 :: "bytes \<Rightarrow> bytes \<Rightarrow> bytes \<Rightarrow> bytes \<Rightarrow> u32" where
  "g2 u v x y =
     (let t = aes_cmac x (take 32 u @ take 32 v @ y);
          val = push_bit 24 (ucast (t ! 12)) OR push_bit 16 (ucast (t ! 13)) OR
                push_bit 8 (ucast (t ! 14)) OR ucast (t ! 15)
      in val mod 1000000)"

definition block_equal :: "bytes \<Rightarrow> bytes \<Rightarrow> bool" where
  "block_equal a b \<longleftrightarrow> foldl (OR) 0 (map2 (XOR) a b) = (0 :: byte)"

definition from_vector :: "bytes \<Rightarrow> bytes" where
  "from_vector v = take 16 v @ replicate (16 - length v) 0"


section \<open>AES is a permutation of blocks\<close>

text \<open>The inverse cipher of FIPS-197, as a reference: the code only ever encrypts.\<close>

definition kInvSbox :: bytes where
  "kInvSbox =
    [0x52, 0x09, 0x6a, 0xd5, 0x30, 0x36, 0xa5, 0x38, 0xbf, 0x40, 0xa3, 0x9e, 0x81, 0xf3, 0xd7, 0xfb,
     0x7c, 0xe3, 0x39, 0x82, 0x9b, 0x2f, 0xff, 0x87, 0x34, 0x8e, 0x43, 0x44, 0xc4, 0xde, 0xe9, 0xcb,
     0x54, 0x7b, 0x94, 0x32, 0xa6, 0xc2, 0x23, 0x3d, 0xee, 0x4c, 0x95, 0x0b, 0x42, 0xfa, 0xc3, 0x4e,
     0x08, 0x2e, 0xa1, 0x66, 0x28, 0xd9, 0x24, 0xb2, 0x76, 0x5b, 0xa2, 0x49, 0x6d, 0x8b, 0xd1, 0x25,
     0x72, 0xf8, 0xf6, 0x64, 0x86, 0x68, 0x98, 0x16, 0xd4, 0xa4, 0x5c, 0xcc, 0x5d, 0x65, 0xb6, 0x92,
     0x6c, 0x70, 0x48, 0x50, 0xfd, 0xed, 0xb9, 0xda, 0x5e, 0x15, 0x46, 0x57, 0xa7, 0x8d, 0x9d, 0x84,
     0x90, 0xd8, 0xab, 0x00, 0x8c, 0xbc, 0xd3, 0x0a, 0xf7, 0xe4, 0x58, 0x05, 0xb8, 0xb3, 0x45, 0x06,
     0xd0, 0x2c, 0x1e, 0x8f, 0xca, 0x3f, 0x0f, 0x02, 0xc1, 0xaf, 0xbd, 0x03, 0x01, 0x13, 0x8a, 0x6b,
     0x3a, 0x91, 0x11, 0x41, 0x4f, 0x67, 0xdc, 0xea, 0x97, 0xf2, 0xcf, 0xce, 0xf0, 0xb4, 0xe6, 0x73,
     0x96, 0xac, 0x74, 0x22, 0xe7, 0xad, 0x35, 0x85, 0xe2, 0xf9, 0x37, 0xe8, 0x1c, 0x75, 0xdf, 0x6e,
     0x47, 0xf1, 0x1a, 0x71, 0x1d, 0x29, 0xc5, 0x89, 0x6f, 0xb7, 0x62, 0x0e, 0xaa, 0x18, 0xbe, 0x1b,
     0xfc, 0x56, 0x3e, 0x4b, 0xc6, 0xd2, 0x79, 0x20, 0x9a, 0xdb, 0xc0, 0xfe, 0x78, 0xcd, 0x5a, 0xf4,
     0x1f, 0xdd, 0xa8, 0x33, 0x88, 0x07, 0xc7, 0x31, 0xb1, 0x12, 0x10, 0x59, 0x27, 0x80, 0xec, 0x5f,
     0x60, 0x51, 0x7f, 0xa9, 0x19, 0xb5, 0x4a, 0x0d, 0x2d, 0xe5, 0x7a, 0x9f, 0x93, 0xc9, 0x9c, 0xef,
     0xa0, 0xe0, 0x3b, 0x4d, 0xae, 0x2a, 0xf5, 0xb0, 0xc8, 0xeb, 0xbb, 0x3c, 0x83, 0x53, 0x99, 0x61,
     0x17, 0x2b, 0x04, 0x7e, 0xba, 0x77, 0xd6, 0x26, 0xe1, 0x69, 0x14, 0x63, 0x55, 0x21, 0x0c, 0x7d]"

definition inv_sub_bytes :: "bytes \<Rightarrow> bytes" where
  "inv_sub_bytes s = map (\<lambda>b. kInvSbox ! unat b) s"

definition inv_shift_rows :: "bytes \<Rightarrow> bytes" where
  "inv_shift_rows s = map (\<lambda>j. s ! ((j div 4 + 4 - j mod 4) mod 4 * 4 + j mod 4)) [0..<16]"

definition times9 :: "byte \<Rightarrow> byte" where "times9 x = xtime (xtime (xtime x)) XOR x"
definition times11 :: "byte \<Rightarrow> byte" where "times11 x = xtime (xtime (xtime x)) XOR xtime x XOR x"
definition times13 :: "byte \<Rightarrow> byte" where
  "times13 x = xtime (xtime (xtime x)) XOR xtime (xtime x) XOR x"
definition times14 :: "byte \<Rightarrow> byte" where
  "times14 x = xtime (xtime (xtime x)) XOR xtime (xtime x) XOR xtime x"

definition inv_mix_column :: "bytes \<Rightarrow> nat \<Rightarrow> bytes" where
  "inv_mix_column s c =
     (let a0 = s ! (c * 4); a1 = s ! (c * 4 + 1); a2 = s ! (c * 4 + 2); a3 = s ! (c * 4 + 3)
      in [times14 a0 XOR times11 a1 XOR times13 a2 XOR times9 a3,
          times9 a0 XOR times14 a1 XOR times11 a2 XOR times13 a3,
          times13 a0 XOR times9 a1 XOR times14 a2 XOR times11 a3,
          times11 a0 XOR times13 a1 XOR times9 a2 XOR times14 a3])"

definition inv_mix_columns :: "bytes \<Rightarrow> bytes" where
  "inv_mix_columns s = concat (map (inv_mix_column s) [0..<4])"

definition inv_aes_round :: "bytes \<Rightarrow> nat \<Rightarrow> bytes \<Rightarrow> bytes" where
  "inv_aes_round rk round s =
     (let t = add_round_key rk round s
      in inv_sub_bytes (inv_shift_rows (if round \<noteq> 10 then inv_mix_columns t else t)))"

definition aes128_decrypt :: "bytes \<Rightarrow> bytes \<Rightarrow> bytes" where
  "aes128_decrypt key c =
     (let rk = expand_key key
      in add_round_key rk 0 (foldl (\<lambda>s round. inv_aes_round rk round s) c (rev [1..<11])))"

lemma mul_2_3: "mul a 2 = xtime a" "mul a 3 = xtime a XOR a"
  by (simp_all add: mul_def mul_loop.simps[of a 2 0] mul_loop.simps[of a 3 0] mul_loop.simps[of "xtime a" 1 _]
      mul_loop.simps[of _ 0 _] xor.commute)

lemma xtime_xor: "xtime (x XOR y) = xtime x XOR xtime y"
proof -
  have "(x XOR y) AND 0x80 \<noteq> 0 \<longleftrightarrow> (x AND 0x80 \<noteq> 0) \<noteq> (y AND 0x80 \<noteq> 0)"
  proof -
    have "z AND 0x80 \<noteq> 0 \<longleftrightarrow> bit z 7" for z :: byte
      using and_exp_eq_0_iff_not_bit[of z 7] by simp
    then show ?thesis by (simp add: bit_simps)
  qed
  moreover have "push_bit 1 (x XOR y) = push_bit 1 x XOR push_bit 1 y" by (simp add: push_bit_xor)
  ultimately show ?thesis by (auto simp: xtime_def xor.assoc xor.left_commute)
qed

lemma xor_cancel: "x XOR (x XOR y) = (y :: byte)"
  by (simp add: xor.assoc[symmetric])

lemma inv_mix_mix:
  "inv_mix_column [mul a0 2 XOR mul a1 3 XOR a2 XOR a3, a0 XOR mul a1 2 XOR mul a2 3 XOR a3,
     a0 XOR a1 XOR mul a2 2 XOR mul a3 3, mul a0 3 XOR a1 XOR a2 XOR mul a3 2] 0 = [a0, a1, a2, a3]"
  by (simp add: inv_mix_column_def times9_def times11_def times13_def times14_def mul_2_3 xtime_xor
      numeral_eq_Suc xor.assoc xor.commute xor.left_commute xor_cancel)


lemma length_xor_bytes [simp]: "length (xor_bytes xs ys) = min (length xs) (length ys)"
  by (simp add: xor_bytes_def)

lemma xor_bytes_twice: "length xs \<le> length ks \<Longrightarrow> xor_bytes (xor_bytes xs ks) ks = xs"
proof (induction xs arbitrary: ks)
  case (Cons x xs)
  then show ?case by (cases ks) (auto simp: xor_bytes_def xor.assoc)
qed (simp add: xor_bytes_def)

lemma length_expand_words: "16 \<le> length out \<Longrightarrow> length (expand_words n rcon out) = length out + 4 * n"
  by (induction n arbitrary: rcon out) (auto simp: Let_def sub_word_def)

lemma length_expand_key: "length key = 16 \<Longrightarrow> length (expand_key key) = 176"
  by (simp add: expand_key_def length_expand_words)

lemma add_round_key_twice:
  "length rk = 176 \<Longrightarrow> round \<le> 10 \<Longrightarrow> length s = 16 \<Longrightarrow> add_round_key rk round (add_round_key rk round s) = s"
proof -
  assume a: "length rk = 176" "round \<le> 10" "length s = 16"
  then have "16 \<le> 176 - round * 16" by linarith
  then show ?thesis using a(1,3) unfolding add_round_key_def by (intro xor_bytes_twice) simp
qed

lemma upt_4: "[0..<4] = [0, 1, 2, 3 :: nat]"
  by code_simp

lemma length_steps [simp]:
  "length (sub_bytes s) = length s" "length (shift_rows s) = 16"
  by (simp_all add: sub_bytes_def shift_rows_def)

lemma length_mix_columns [simp]: "length (mix_columns s) = 16"
  unfolding mix_columns_def mix_column_def Let_def upt_4 by simp

lemma length_add_round_key [simp]:
  assumes "length rk = 176" and "round \<le> 10" and "length s = 16"
  shows "length (add_round_key rk round s) = 16"
proof -
  have "16 \<le> 176 - round * 16" using assms(2) by linarith
  then show ?thesis using assms(1,3) by (simp add: add_round_key_def min_def)
qed

lemma sbox_rows:
  "\<forall>i \<in> set [0..<64]. kInvSbox ! unat (kSbox ! i) = word_of_nat i"
  "\<forall>i \<in> set [64..<128]. kInvSbox ! unat (kSbox ! i) = word_of_nat i"
  "\<forall>i \<in> set [128..<192]. kInvSbox ! unat (kSbox ! i) = word_of_nat i"
  "\<forall>i \<in> set [192..<256]. kInvSbox ! unat (kSbox ! i) = word_of_nat i"
  by (code_simp, code_simp, code_simp, code_simp)

lemma inv_sbox_sbox: "kInvSbox ! unat (kSbox ! unat b) = b"
proof -
  have "unat b < 256" using unsigned_less[of b, where ?'a = nat] by simp
  then consider "unat b < 64" | "64 \<le> unat b" "unat b < 128" | "128 \<le> unat b" "unat b < 192"
    | "192 \<le> unat b" "unat b < 256" by linarith
  then have "kInvSbox ! unat (kSbox ! unat b) = word_of_nat (unat b)"
  proof cases
    case 1 then show ?thesis by (intro bspec[OF sbox_rows(1)]) (simp only: set_upt atLeastLessThan_iff le0)
  next
    case 2 then show ?thesis by (intro bspec[OF sbox_rows(2)]) (simp only: set_upt atLeastLessThan_iff)
  next
    case 3 then show ?thesis by (intro bspec[OF sbox_rows(3)]) (simp only: set_upt atLeastLessThan_iff)
  next
    case 4 then show ?thesis by (intro bspec[OF sbox_rows(4)]) (simp only: set_upt atLeastLessThan_iff)
  qed
  then show ?thesis by simp
qed

lemma inv_sub_sub: "inv_sub_bytes (sub_bytes s) = s"
  by (simp add: inv_sub_bytes_def sub_bytes_def comp_def inv_sbox_sbox)

lemma map_nth_16: "length s = 16 \<Longrightarrow> map (\<lambda>j. s ! j) [0..<16] = s"
  using map_nth[of s] by simp

lemma inv_shift_shift:
  assumes "length s = 16"
  shows "inv_shift_rows (shift_rows s) = s"
proof -
  have "\<forall>j \<in> set [0..<16]. let i = (j div 4 + 4 - j mod 4) mod 4 * 4 + j mod 4 :: nat in
      i < 16 \<and> (i div 4 + i mod 4) mod 4 * 4 + i mod 4 = j" by code_simp
  then have "inv_shift_rows (shift_rows s) = map (\<lambda>j. s ! j) [0..<16]"
    unfolding inv_shift_rows_def by (intro map_cong refl) (auto simp: shift_rows_def Let_def)
  then show ?thesis using assms by (simp add: map_nth_16)
qed

lemma list_16:
  "length s = 16 \<Longrightarrow> \<exists>a b c d e f g h i j k l m n p q. s = [a, b, c, d, e, f, g, h, i, j, k, l, m, n, p, q]"
  by (auto simp: length_Suc_conv numeral_eq_Suc)

lemma inv_mix_columns_mix:
  assumes "length s = 16"
  shows "inv_mix_columns (mix_columns s) = s"
proof -
  obtain a b c d e f g h i j k l m n p q where s: "s = [a, b, c, d, e, f, g, h, i, j, k, l, m, n, p, q]"
    using list_16[OF assms] by blast
  note col = inv_mix_mix[unfolded inv_mix_column_def Let_def, simplified]
  show ?thesis
    unfolding s inv_mix_columns_def inv_mix_column_def mix_columns_def mix_column_def Let_def
    by (simp add: upt_4 col)
qed


lemma foldl_inverse:
  assumes "\<And>x s. x \<in> set xs \<Longrightarrow> P s \<Longrightarrow> P (f s x) \<and> g (f s x) x = s" and "P s"
  shows "P (foldl f s xs) \<and> foldl g (foldl f s xs) (rev xs) = s"
  using assms
proof (induction xs arbitrary: s)
  case (Cons x xs)
  have x: "P (f s x)" "g (f s x) x = s" using Cons.prems(1)[of x s] Cons.prems(2) by simp_all
  have "P (foldl f (f s x) xs) \<and> foldl g (foldl f (f s x) xs) (rev xs) = f s x"
    by (rule Cons.IH) (use Cons.prems(1) x in auto)
  with x show ?case by simp
qed simp

lemma inv_round:
  assumes "length rk = 176" and "round \<le> 10" and "length s = 16"
  shows "length (aes_round rk round s) = 16 \<and> inv_aes_round rk round (aes_round rk round s) = s"
proof -
  have "inv_shift_rows (shift_rows (sub_bytes s)) = sub_bytes s"
    using assms(3) by (intro inv_shift_shift) simp
  then show ?thesis
    using assms by (auto simp: aes_round_def inv_aes_round_def Let_def add_round_key_twice
        inv_mix_columns_mix inv_sub_sub)
qed

lemma aes_decrypts:
  assumes "length key = 16" and "length p = 16"
  shows "length (aes128_encrypt key p) = 16 \<and> aes128_decrypt key (aes128_encrypt key p) = p"
proof -
  note rk = length_expand_key[OF assms(1)]
  have "x \<in> set [1..<11] \<Longrightarrow> length s = 16 \<Longrightarrow> length (aes_round (expand_key key) x s) = 16 \<and>
      inv_aes_round (expand_key key) x (aes_round (expand_key key) x s) = s" for x s
    by (rule inv_round[OF rk]) auto
  with rk assms(2) have
    "length (foldl (\<lambda>s x. aes_round (expand_key key) x s) (add_round_key (expand_key key) 0 p) [1..<11]) = 16 \<and>
     foldl (\<lambda>s x. inv_aes_round (expand_key key) x s)
       (foldl (\<lambda>s x. aes_round (expand_key key) x s) (add_round_key (expand_key key) 0 p) [1..<11])
       (rev [1..<11]) = add_round_key (expand_key key) 0 p"
    by (intro foldl_inverse[where P = "\<lambda>s. length s = 16"]) simp_all
  then show ?thesis
    using rk assms(2) unfolding aes128_encrypt_def aes128_decrypt_def Let_def
    by (simp add: add_round_key_twice)
qed

text \<open>
  C39. The block cipher loses nothing: the inverse cipher of FIPS-197, which the program
  does not contain, recovers every block from its encryption under every key, so
  encryption under a key is a permutation of the blocks.
\<close>

theorem aes_is_permutation:
  assumes "length key = 16" and "length p = 16" and "length q = 16"
  shows "aes128_decrypt key (aes128_encrypt key p) = p \<and>
    (aes128_encrypt key p = aes128_encrypt key q \<longleftrightarrow> p = q)"
  using aes_decrypts[OF assms(1,2)] aes_decrypts[OF assms(1,3)] by metis

theorem aes_is_permutation_witness:
  "aes128_encrypt (replicate 16 1) (replicate 16 2) \<noteq> aes128_encrypt (replicate 16 1) (replicate 16 3)"
  using aes_is_permutation[of "replicate 16 1" "replicate 16 2" "replicate 16 3"] by simp

lemma aes_inj:
  "length key = 16 \<Longrightarrow> length p = 16 \<Longrightarrow> length q = 16 \<Longrightarrow>
   aes128_encrypt key p = aes128_encrypt key q \<Longrightarrow> p = q"
  by (metis aes_decrypts)

lemma length_aes [simp]: "length key = 16 \<Longrightarrow> length p = 16 \<Longrightarrow> length (aes128_encrypt key p) = 16"
  by (simp add: aes_decrypts)

lemma xor_bytes_inj:
  assumes "length xs = length ys" and "length xs \<le> length ks" and "xor_bytes xs ks = xor_bytes ys ks"
  shows "xs = ys"
proof -
  have "xs = xor_bytes (xor_bytes xs ks) ks" using assms(2) by (rule xor_bytes_twice[symmetric])
  also have "\<dots> = xor_bytes (xor_bytes ys ks) ks" by (simp only: assms(3))
  also have "\<dots> = ys" using assms(1,2) by (intro xor_bytes_twice) simp
  finally show ?thesis .
qed

lemma xor_bytes_inj_right:
  assumes "length xs = length ys" and "length xs \<le> length ks" and "xor_bytes ks xs = xor_bytes ks ys"
  shows "xs = ys"
proof -
  have comm: "xor_bytes a b = xor_bytes b a" for a b
    by (rule nth_equalityI) (simp_all add: xor_bytes_def xor.commute)
  show ?thesis by (rule xor_bytes_inj[OF assms(1,2)]) (use assms(3) in \<open>simp only: comm[of _ ks]\<close>)
qed

text \<open>
  Under one temporary key and one pair of addresses the confirm value determines the
  random (for given PDUs) and both pairing PDUs (for a given random).
\<close>

lemma confirm_inj:
  assumes "length k = 16" "length r = 16" "length r' = 16" "length ia = 6" "length ra = 6"
    "length preq = 7" "length pres = 7" "length preq' = 7" "length pres' = 7"
  shows "(c1 k r preq pres iat ia rat ra = c1 k r' preq pres iat ia rat ra \<longleftrightarrow> r = r') \<and>
    (c1 k r preq pres iat ia rat ra = c1 k r preq' pres' iat ia rat ra \<longleftrightarrow> preq = preq' \<and> pres = pres')"
proof -
  let ?p2 = "replicate 4 0 @ ia @ ra"
  let ?p1 = "pres @ preq @ [rat AND 1, iat AND 1]" and ?p1' = "pres' @ preq' @ [rat AND 1, iat AND 1]"
  have c: "c1 k r preq pres iat ia rat ra = aes128_encrypt k (xor_bytes (aes128_encrypt k (xor_bytes r ?p1)) ?p2)"
    "c1 k r' preq pres iat ia rat ra = aes128_encrypt k (xor_bytes (aes128_encrypt k (xor_bytes r' ?p1)) ?p2)"
    "c1 k r preq' pres' iat ia rat ra = aes128_encrypt k (xor_bytes (aes128_encrypt k (xor_bytes r ?p1')) ?p2)"
    using assms by (simp_all add: c1_def Let_def)
  have len2: "length ?p2 = 16" using assms by simp
  have out: "xs = ys" if l: "length xs = 16" "length ys = 16" and
    eq: "aes128_encrypt k (xor_bytes (aes128_encrypt k xs) ?p2) = aes128_encrypt k (xor_bytes (aes128_encrypt k ys) ?p2)" for xs ys
  proof -
    have e: "length (aes128_encrypt k xs) = 16" "length (aes128_encrypt k ys) = 16"
      using l assms(1) by (simp_all only: length_aes)
    have "xor_bytes (aes128_encrypt k xs) ?p2 = xor_bytes (aes128_encrypt k ys) ?p2"
      by (rule aes_inj[OF assms(1) _ _ eq]) (simp_all only: length_xor_bytes e len2 min.idem)
    then have "aes128_encrypt k xs = aes128_encrypt k ys"
      by (rule xor_bytes_inj[rotated 2]) (simp_all only: e len2 order.refl)
    then show ?thesis by (rule aes_inj[OF assms(1) l])
  qed
  have lens: "length ?p1 = 16" "length ?p1' = 16" "length (xor_bytes r ?p1) = 16"
    "length (xor_bytes r' ?p1) = 16" "length (xor_bytes r ?p1') = 16" using assms by simp_all
  have rand: "r = r'" if eq: "c1 k r preq pres iat ia rat ra = c1 k r' preq pres iat ia rat ra"
    using out[OF lens(3,4) eq[unfolded c]] lens(1) assms(2,3) by (intro xor_bytes_inj[of r r' ?p1]) simp_all
  have pdus: "?p1 = ?p1'" if eq: "c1 k r preq pres iat ia rat ra = c1 k r preq' pres' iat ia rat ra"
    using out[OF lens(3,5) eq[unfolded c]] lens(1,2) assms(2) by (intro xor_bytes_inj_right[of ?p1 ?p1' r]) simp_all
  have split: "?p1 = ?p1' \<longleftrightarrow> preq = preq' \<and> pres = pres'" using assms(6-9) by auto
  show ?thesis
  proof (rule conjI; rule iffI)
    assume "c1 k r preq pres iat ia rat ra = c1 k r' preq pres iat ia rat ra"
    then show "r = r'" by (rule rand)
  next
    assume "c1 k r preq pres iat ia rat ra = c1 k r preq' pres' iat ia rat ra"
    then have "?p1 = ?p1'" by (rule pdus)
    then show "preq = preq' \<and> pres = pres'" by (simp only: split)
  next
    assume "preq = preq' \<and> pres = pres'"
    then show "c1 k r preq pres iat ia rat ra = c1 k r preq' pres' iat ia rat ra" by (simp only:)
  qed (simp only:)
qed

lemma xor_eq_0: "x XOR y = 0 \<longleftrightarrow> x = (y :: byte)"
proof
  assume "x XOR y = 0"
  then have "x XOR (x XOR y) = x XOR 0" by (rule arg_cong)
  then show "x = y" by (simp add: xor_cancel)
qed simp

lemma all_zero: "foldl (OR) z ws = 0 \<longleftrightarrow> z = 0 \<and> list_all (\<lambda>w. w = 0) ws" for z :: byte
  by (induction ws arbitrary: z) (simp_all add: or_eq_0_iff conj_assoc)

lemma block_equal_iff: "length a = length b \<Longrightarrow> block_equal a b \<longleftrightarrow> a = b"
proof -
  assume "length a = length b"
  then have "list_all (\<lambda>w. w = 0) (map2 (XOR) a b) \<longleftrightarrow> a = b"
    by (induction a b rule: list_induct2) (simp_all add: xor_eq_0)
  then show ?thesis by (simp only: block_equal_def all_zero simp_thms)
qed

end
