(* ===== verification/Smp.thy ===== *)
theory Smp
  imports Crypto Hci
begin

text \<open>
  The Security Manager (\<open>src/smp.h\<close>, \<open>src/smp.cc\<close>): the choice of a pairing method, the
  pairing PDUs, and \<open>Initiator\<close>, the state machine of LE Legacy pairing.

  The random source and the passkey provider are outside the program; a call of
  \<open>handle\<close> takes the block the source would give and the passkey the provider would
  return (\<open>None\<close> when there is no provider or it declines).  The output PDU and the error
  text come back beside the new state; \<open>None\<close> is an error string left as it was.
\<close>

section \<open>Codes, methods and pairing parameters\<close>

definition kPairingRequest :: byte where [const_defs]: "kPairingRequest = 0x01"
definition kPairingResponse :: byte where [const_defs]: "kPairingResponse = 0x02"
definition kPairingConfirm :: byte where [const_defs]: "kPairingConfirm = 0x03"
definition kPairingRandom :: byte where [const_defs]: "kPairingRandom = 0x04"
definition kPairingFailed :: byte where [const_defs]: "kPairingFailed = 0x05"

definition kPasskeyEntryFailed :: byte where [const_defs]: "kPasskeyEntryFailed = 0x01"
definition kAuthenticationRequirements :: byte where [const_defs]: "kAuthenticationRequirements = 0x03"
definition kConfirmValueFailed :: byte where [const_defs]: "kConfirmValueFailed = 0x04"
definition kEncryptionKeySize :: byte where [const_defs]: "kEncryptionKeySize = 0x06"
definition kCommandNotSupported :: byte where [const_defs]: "kCommandNotSupported = 0x07"
definition kUnspecifiedReason :: byte where [const_defs]: "kUnspecifiedReason = 0x08"
definition kInvalidParameters :: byte where [const_defs]: "kInvalidParameters = 0x0a"

definition kDisplayOnly :: byte where [const_defs]: "kDisplayOnly = 0x00"
definition kDisplayYesNo :: byte where [const_defs]: "kDisplayYesNo = 0x01"
definition kKeyboardOnly :: byte where [const_defs]: "kKeyboardOnly = 0x02"
definition kNoInputNoOutput :: byte where [const_defs]: "kNoInputNoOutput = 0x03"
definition kKeyboardDisplay :: byte where [const_defs]: "kKeyboardDisplay = 0x04"

definition kBondingFlag :: byte where [const_defs]: "kBondingFlag = 0x01"
definition kMitmFlag :: byte where [const_defs]: "kMitmFlag = 0x04"
definition kSecureConnectionsFlag :: byte where [const_defs]: "kSecureConnectionsFlag = 0x08"

definition reason_table :: "(byte \<times> string) list" where
  "reason_table =
    [(0x01, ''passkey entry failed''), (0x02, ''out-of-band data not available''),
     (0x03, ''authentication requirements not met''), (0x04, ''confirm value did not match''),
     (0x05, ''pairing not supported''), (0x06, ''encryption key size too small''),
     (0x07, ''command not supported''), (0x08, ''unspecified reason''),
     (0x09, ''repeated attempts; try again later''), (0x0a, ''invalid parameters''),
     (0x0b, ''DHKey check failed''), (0x0c, ''numeric comparison failed'')]"

definition reason_name :: "byte \<Rightarrow> string" where
  "reason_name r = (case map_of reason_table r of Some n \<Rightarrow> n | None \<Rightarrow> ''reason 0x'' @ hex2 r)"

datatype pair_method = JustWorks | PasskeyInput | PasskeyDisplay | Oob

definition choose_method :: "byte \<Rightarrow> byte \<Rightarrow> bool \<Rightarrow> pair_method" where
  "choose_method local_io remote_io mitm_wanted =
     (if \<not> mitm_wanted then JustWorks
      else if local_io = kNoInputNoOutput \<or> remote_io = kNoInputNoOutput then JustWorks
      else let can_input = (\<lambda>io. io = kKeyboardOnly \<or> io = kKeyboardDisplay);
               can_display = (\<lambda>io. io = kDisplayOnly \<or> io = kDisplayYesNo \<or> io = kKeyboardDisplay)
        in if can_display remote_io \<and> can_input local_io then PasskeyInput
           else if can_display local_io \<and> can_input remote_io then PasskeyDisplay
           else JustWorks)"

record pairing_params =
  pp_code :: byte
  pp_io_capability :: byte
  pp_oob_flag :: byte
  pp_auth_req :: byte
  pp_max_key_size :: byte
  pp_initiator_keys :: byte
  pp_responder_keys :: byte

definition default_params :: pairing_params where
  "default_params =
     \<lparr>pp_code = kPairingRequest, pp_io_capability = kKeyboardOnly, pp_oob_flag = 0,
      pp_auth_req = kBondingFlag OR kMitmFlag, pp_max_key_size = 16, pp_initiator_keys = 0,
      pp_responder_keys = 0\<rparr>"

definition params_encode :: "pairing_params \<Rightarrow> bytes" where
  "params_encode p =
     [pp_code p, pp_io_capability p, pp_oob_flag p, pp_auth_req p, pp_max_key_size p,
      pp_initiator_keys p, pp_responder_keys p]"

definition params_decode :: "bytes \<Rightarrow> pairing_params option" where
  "params_decode pdu =
     (if length pdu < 7 then None
      else Some \<lparr>pp_code = pdu ! 0, pp_io_capability = pdu ! 1, pp_oob_flag = pdu ! 2,
                 pp_auth_req = pdu ! 3, pp_max_key_size = pdu ! 4, pp_initiator_keys = pdu ! 5,
                 pp_responder_keys = pdu ! 6\<rparr>)"

definition block_to_wire :: "bytes \<Rightarrow> bytes" where
  "block_to_wire b = map (\<lambda>i. b ! (15 - i)) [0..<16]"

definition block_from_wire :: "bytes \<Rightarrow> bytes" where
  "block_from_wire data = rev (take 16 data @ replicate (16 - length data) 0)"

section \<open>The initiator\<close>

record smp_config =
  cf_local :: address
  cf_remote :: address
  cf_io_capability :: byte
  cf_want_bonding :: bool
  cf_want_mitm :: bool

datatype smp_state = Idle | WaitingForResponse | WaitingForConfirm | WaitingForRandom
  | ReadyToEncrypt | Failed

record initiator =
  in_config :: smp_config
  in_state :: smp_state
  in_method :: pair_method
  in_request :: pairing_params
  in_response :: pairing_params
  in_request_bytes :: bytes
  in_response_bytes :: bytes
  in_tk :: bytes
  in_local_rand :: bytes
  in_remote_rand :: bytes
  in_remote_confirm :: bytes
  in_stk :: bytes

definition zero_block :: bytes where
  "zero_block = replicate 16 0"

definition new_initiator :: "smp_config \<Rightarrow> initiator" where
  "new_initiator cfg =
     \<lparr>in_config = cfg, in_state = Idle, in_method = JustWorks,
      in_request = default_params\<lparr>pp_code := kPairingRequest, pp_io_capability := cf_io_capability cfg,
        pp_oob_flag := 0,
        pp_auth_req := (if cf_want_bonding cfg then kBondingFlag else 0) OR
                       (if cf_want_mitm cfg then kMitmFlag else 0),
        pp_max_key_size := 16, pp_initiator_keys := 0, pp_responder_keys := 0\<rparr>,
      in_response = default_params, in_request_bytes = [], in_response_bytes = [],
      in_tk = zero_block, in_local_rand = zero_block, in_remote_rand = zero_block,
      in_remote_confirm = zero_block, in_stk = zero_block\<rparr>"

definition smp_begin :: "initiator \<Rightarrow> initiator \<times> bytes" where
  "smp_begin i =
     (let i' = i\<lparr>in_request_bytes := params_encode (in_request i), in_state := WaitingForResponse\<rparr>
      in (i', in_request_bytes i'))"

record smp_result =
  rs_state :: initiator
  rs_ok :: bool
  rs_out :: bytes
  rs_error :: "string option"

definition smp_fail :: "initiator \<Rightarrow> byte \<Rightarrow> string \<Rightarrow> smp_result" where
  "smp_fail i reason text =
     \<lparr>rs_state = i\<lparr>in_state := Failed\<rparr>, rs_ok = False, rs_out = [kPairingFailed, reason],
      rs_error = Some text\<rparr>"

definition confirm_for :: "initiator \<Rightarrow> bytes \<Rightarrow> bytes" where
  "confirm_for i rand =
     (let l = cf_local (in_config i); r = cf_remote (in_config i)
      in c1 (in_tk i) rand (in_request_bytes i) (in_response_bytes i)
           (addr_type l) (addr_bytes l) (addr_type r) (addr_bytes r))"

definition passkey_tk :: "u32 \<Rightarrow> bytes" where
  "passkey_tk passkey =
     replicate 12 0 @ [ucast (drop_bit 24 passkey AND 0xff), ucast (drop_bit 16 passkey AND 0xff),
                       ucast (drop_bit 8 passkey AND 0xff), ucast (passkey AND 0xff)]"


text \<open>The \<open>kWaitingForResponse\<close> case after the checks on the response: the temporary key,
  the nonce and our confirm value.\<close>

definition send_confirm :: "initiator \<Rightarrow> bytes \<Rightarrow> smp_result" where
  "send_confirm i rnd =
     (let i = i\<lparr>in_local_rand := rnd\<rparr> in
      if block_equal rnd zero_block
      then smp_fail i kUnspecifiedReason ''no randomness available for the pairing nonce''
      else \<lparr>rs_state = i\<lparr>in_state := WaitingForConfirm\<rparr>, rs_ok = True,
            rs_out = kPairingConfirm # block_to_wire (confirm_for i rnd), rs_error = None\<rparr>)"

definition choose_key :: "u32 option \<Rightarrow> bytes \<Rightarrow> initiator \<Rightarrow> smp_result" where
  "choose_key passkey rnd i =
     (let mitm = (pp_auth_req (in_request i) AND kMitmFlag \<noteq> 0 \<and>
                  pp_auth_req (in_response i) AND kMitmFlag \<noteq> 0);
          i = i\<lparr>in_method := choose_method (pp_io_capability (in_request i))
                               (pp_io_capability (in_response i)) mitm,
                in_tk := zero_block\<rparr>
      in if in_method i = PasskeyInput \<or> in_method i = PasskeyDisplay then
           (case passkey of
              None \<Rightarrow> smp_fail i kPasskeyEntryFailed ''no passkey was supplied''
            | Some pk \<Rightarrow>
                if 999999 < pk then smp_fail i kPasskeyEntryFailed ''the passkey must be six digits''
                else send_confirm (i\<lparr>in_tk := passkey_tk pk\<rparr>) rnd)
         else send_confirm i rnd)"

definition on_response :: "u32 option \<Rightarrow> bytes \<Rightarrow> initiator \<Rightarrow> bytes \<Rightarrow> smp_result" where
  "on_response passkey rnd i pdu =
     (if pdu ! 0 \<noteq> kPairingResponse
      then smp_fail i kCommandNotSupported ''expected a Pairing Response''
      else case params_decode pdu of
          None \<Rightarrow> smp_fail i kInvalidParameters ''malformed Pairing Response''
        | Some resp \<Rightarrow>
            (let i = i\<lparr>in_response := resp, in_response_bytes := take 7 pdu\<rparr> in
             if pp_auth_req resp AND kSecureConnectionsFlag \<noteq> 0
             then smp_fail i kAuthenticationRequirements
               ''the peer requires LE Secure Connections, which is not implemented; see doc/dongle-notes.md''
             else if pp_max_key_size resp < 7 \<or> 16 < pp_max_key_size resp
             then smp_fail i kEncryptionKeySize ''the peer asked for an unusable key size''
             else choose_key passkey rnd i))"

definition on_confirm :: "initiator \<Rightarrow> bytes \<Rightarrow> smp_result" where
  "on_confirm i pdu =
     (if pdu ! 0 \<noteq> kPairingConfirm \<or> length pdu < 17
      then smp_fail i kInvalidParameters ''expected a Pairing Confirm''
      else \<lparr>rs_state = i\<lparr>in_remote_confirm := block_from_wire (take 16 (drop 1 pdu)),
                          in_state := WaitingForRandom\<rparr>,
            rs_ok = True, rs_out = kPairingRandom # block_to_wire (in_local_rand i), rs_error = None\<rparr>)"

definition on_random :: "initiator \<Rightarrow> bytes \<Rightarrow> smp_result" where
  "on_random i pdu =
     (if pdu ! 0 \<noteq> kPairingRandom \<or> length pdu < 17
      then smp_fail i kInvalidParameters ''expected a Pairing Random''
      else let i = i\<lparr>in_remote_rand := block_from_wire (take 16 (drop 1 pdu))\<rparr> in
        if \<not> block_equal (confirm_for i (in_remote_rand i)) (in_remote_confirm i)
        then smp_fail i kConfirmValueFailed
          (if in_method i = JustWorks then ''the peer's confirm value did not match''
           else ''the peer's confirm value did not match; the passkey was probably wrong'')
        else \<lparr>rs_state = i\<lparr>in_stk := s1 (in_tk i) (in_remote_rand i) (in_local_rand i),
                            in_state := ReadyToEncrypt\<rparr>,
              rs_ok = True, rs_out = [], rs_error = None\<rparr>)"

definition smp_handle :: "u32 option \<Rightarrow> bytes \<Rightarrow> initiator \<Rightarrow> bytes \<Rightarrow> smp_result" where
  "smp_handle passkey rnd i pdu =
     (if pdu = [] then smp_fail i kInvalidParameters ''empty SMP PDU''
      else if pdu ! 0 = kPairingFailed then
        \<lparr>rs_state = i\<lparr>in_state := Failed\<rparr>, rs_ok = False, rs_out = [],
         rs_error = Some (''the peer refused pairing: '' @
           reason_name (if 1 < length pdu then pdu ! 1 else kUnspecifiedReason))\<rparr>
      else case in_state i of
          WaitingForResponse \<Rightarrow> on_response passkey rnd i pdu
        | WaitingForConfirm \<Rightarrow> on_confirm i pdu
        | WaitingForRandom \<Rightarrow> on_random i pdu
        | Idle \<Rightarrow> smp_fail i kCommandNotSupported ''pairing has not been started''
        | ReadyToEncrypt \<Rightarrow> \<lparr>rs_state = i, rs_ok = True, rs_out = [], rs_error = None\<rparr>
        | Failed \<Rightarrow> \<lparr>rs_state = i, rs_ok = False, rs_out = [],
                      rs_error = Some ''pairing has already failed''\<rparr>)"

section \<open>What an initiator can reach\<close>

inductive smp_reach :: "smp_config \<Rightarrow> initiator \<Rightarrow> bool" for cfg where
  fresh: "smp_reach cfg (new_initiator cfg)"
| begun: "smp_reach cfg i \<Longrightarrow> smp_reach cfg (fst (smp_begin i))"
| handled: "smp_reach cfg i \<Longrightarrow> length rnd = 16 \<Longrightarrow> smp_reach cfg (rs_state (smp_handle pk rnd i pdu))"

definition smp_inv :: "smp_config \<Rightarrow> initiator \<Rightarrow> bool" where
  "smp_inv cfg i \<longleftrightarrow>
     in_config i = cfg \<and> in_request i = in_request (new_initiator cfg) \<and>
     length (in_tk i) = 16 \<and> length (in_local_rand i) = 16 \<and> length (in_remote_rand i) = 16 \<and>
     length (in_remote_confirm i) = 16 \<and>
     (in_state i \<in> {WaitingForConfirm, WaitingForRandom, ReadyToEncrypt} \<longrightarrow>
        in_request_bytes i = params_encode (in_request i) \<and>
        length (in_response_bytes i) = 7 \<and> hd (in_response_bytes i) = kPairingResponse) \<and>
     (in_state i = WaitingForResponse \<longrightarrow> in_request_bytes i = params_encode (in_request i)) \<and>
     (in_state i = ReadyToEncrypt \<longrightarrow>
        in_remote_confirm i = confirm_for i (in_remote_rand i) \<and>
        in_stk i = s1 (in_tk i) (in_remote_rand i) (in_local_rand i))"


definition config_ok :: "smp_config \<Rightarrow> bool" where
  "config_ok cfg \<longleftrightarrow> addr_wf (cf_local cfg) \<and> addr_wf (cf_remote cfg)"

lemma length_blocks [simp]:
  "length zero_block = 16" "length (block_to_wire b) = 16" "length (passkey_tk pk) = 16"
  "length (params_encode p) = 7"
  by (simp_all add: zero_block_def block_to_wire_def passkey_tk_def params_encode_def)

lemma length_from_wire [simp]: "length (block_from_wire data) = 16"
  by (simp add: block_from_wire_def)

lemma length_c1 [simp]:
  assumes "length k = 16" "length r = 16" "length preq = 7" "length pres = 7" "length ia = 6" "length ra = 6"
  shows "length (c1 k r preq pres iat ia rat ra) = 16"
proof -
  let ?e = "aes128_encrypt k (xor_bytes r (pres @ preq @ [rat AND 1, iat AND 1]))"
  have "length (xor_bytes r (pres @ preq @ [rat AND 1, iat AND 1])) = 16" using assms by simp
  then have "length ?e = 16" using assms(1) by (simp only: length_aes)
  then have "length (xor_bytes ?e (replicate 4 0 @ ia @ ra)) = 16" using assms(5,6) by simp
  then have "length (aes128_encrypt k (xor_bytes ?e (replicate 4 0 @ ia @ ra))) = 16"
    using assms(1) by (simp only: length_aes)
  then show ?thesis using assms by (simp add: c1_def Let_def)
qed

lemma length_confirm [simp]:
  "config_ok (in_config i) \<Longrightarrow> length (in_tk i) = 16 \<Longrightarrow> length rand = 16 \<Longrightarrow>
   length (in_request_bytes i) = 7 \<Longrightarrow> length (in_response_bytes i) = 7 \<Longrightarrow>
   length (confirm_for i rand) = 16"
  by (simp add: confirm_for_def Let_def config_ok_def addr_wf_def)

lemma confirm_for_update [simp]:
  "confirm_for (i\<lparr>in_local_rand := x\<rparr>) r = confirm_for i r"
  "confirm_for (i\<lparr>in_remote_rand := x\<rparr>) r = confirm_for i r"
  "confirm_for (i\<lparr>in_remote_confirm := x\<rparr>) r = confirm_for i r"
  "confirm_for (i\<lparr>in_state := st\<rparr>) r = confirm_for i r"
  "confirm_for (i\<lparr>in_stk := x\<rparr>) r = confirm_for i r"
  by (simp_all add: confirm_for_def)

lemma smp_inv_failed: "smp_inv cfg i \<Longrightarrow> smp_inv cfg (i\<lparr>in_state := Failed\<rparr>)"
  by (simp add: smp_inv_def)

lemma smp_inv_new: "smp_inv cfg (new_initiator cfg)"
  by (simp add: smp_inv_def new_initiator_def)

lemma smp_inv_begin: "smp_inv cfg i \<Longrightarrow> smp_inv cfg (fst (smp_begin i))"
  by (simp add: smp_inv_def smp_begin_def Let_def)

lemma send_confirm_inv:
  assumes "in_config i = cfg" "in_request i = in_request (new_initiator cfg)" "length (in_tk i) = 16"
    "length (in_remote_rand i) = 16" "length (in_remote_confirm i) = 16"
    "in_request_bytes i = params_encode (in_request i)" "length (in_response_bytes i) = 7"
    "hd (in_response_bytes i) = kPairingResponse" "length rnd = 16"
  shows "smp_inv cfg (rs_state (send_confirm i rnd))"
  using assms by (simp add: send_confirm_def smp_fail_def smp_inv_def Let_def)

lemma choose_key_inv:
  assumes "in_config i = cfg" "in_request i = in_request (new_initiator cfg)"
    "length (in_remote_rand i) = 16" "length (in_remote_confirm i) = 16" "length (in_local_rand i) = 16"
    "in_request_bytes i = params_encode (in_request i)" "length (in_response_bytes i) = 7"
    "hd (in_response_bytes i) = kPairingResponse" "length rnd = 16"
  shows "smp_inv cfg (rs_state (choose_key pk rnd i))"
proof -
  have s: "smp_inv cfg (rs_state (send_confirm (i\<lparr>in_method := m, in_tk := t\<rparr>) rnd))"
    if "length t = 16" for m t using assms that by (intro send_confirm_inv) simp_all
  have f: "smp_inv cfg (rs_state (smp_fail (i\<lparr>in_method := m, in_tk := t\<rparr>) r x))"
    if "length t = 16" for m t r x using assms that by (simp add: smp_inv_def smp_fail_def)
  show ?thesis unfolding choose_key_def Let_def by (simp add: s f split: option.split)
qed

lemma on_response_inv:
  assumes "smp_inv cfg i" "in_state i = WaitingForResponse" "length rnd = 16" "pdu \<noteq> []"
  shows "smp_inv cfg (rs_state (on_response pk rnd i pdu))"
proof -
  have s: "smp_inv cfg (rs_state (choose_key pk rnd (i\<lparr>in_response := r, in_response_bytes := take 7 pdu\<rparr>)))"
    if "7 \<le> length pdu" "pdu ! 0 = kPairingResponse" for r
    using assms that by (intro choose_key_inv) (auto simp: smp_inv_def hd_take hd_conv_nth)
  have f: "smp_inv cfg (rs_state (smp_fail (i\<lparr>in_response := r, in_response_bytes := b\<rparr>) c x))"
    "smp_inv cfg (rs_state (smp_fail i c x))" for r b c x
    using assms by (simp_all add: smp_inv_def smp_fail_def)
  show ?thesis
    unfolding on_response_def Let_def params_decode_def by (simp add: s f not_less split: option.split)
qed

lemma smp_inv_handle:
  assumes "config_ok cfg" "smp_inv cfg i" "length rnd = 16"
  shows "smp_inv cfg (rs_state (smp_handle pk rnd i pdu))"
proof (cases "in_state i")
  case WaitingForResponse
  with assms show ?thesis by (auto simp: smp_handle_def smp_fail_def intro: smp_inv_failed on_response_inv)
next
  case WaitingForConfirm
  with assms show ?thesis
    by (auto simp: smp_handle_def smp_fail_def on_confirm_def smp_inv_def)
next
  case WaitingForRandom
  have "length (confirm_for i r) = 16" if "length r = 16" for r
    using assms that WaitingForRandom by (intro length_confirm) (auto simp: smp_inv_def)
  with WaitingForRandom assms show ?thesis
    by (auto simp: smp_handle_def smp_fail_def on_random_def smp_inv_def Let_def block_equal_iff)
next
  case Idle
  with assms show ?thesis by (auto simp: smp_handle_def smp_fail_def intro: smp_inv_failed)
next
  case ReadyToEncrypt
  with assms show ?thesis by (auto simp: smp_handle_def smp_fail_def intro: smp_inv_failed)
next
  case Failed
  with assms show ?thesis by (auto simp: smp_handle_def smp_fail_def intro: smp_inv_failed)
qed

lemma smp_reach_inv: "smp_reach cfg i \<Longrightarrow> config_ok cfg \<Longrightarrow> smp_inv cfg i"
  by (induction rule: smp_reach.induct) (auto intro: smp_inv_new smp_inv_begin smp_inv_handle)


section \<open>Properties\<close>

lemma block_wire_trip: "length b = 16 \<Longrightarrow> block_from_wire (block_to_wire b) = b"
proof -
  assume b: "length b = 16"
  have "rev b = map (\<lambda>i. b ! (15 - i)) [0..<16]"
    by (rule nth_equalityI) (simp_all add: b rev_nth)
  then have "block_to_wire b = rev b" by (simp add: block_to_wire_def)
  then show ?thesis using b by (simp add: block_from_wire_def)
qed

text \<open>
  C21. No key without a matching confirm: in every state the initiator can reach in which
  the short term key is ready, the peer's earlier confirm value is the one its random
  gives under our temporary key and both pairing PDUs, and the key is derived from that
  temporary key and the two randoms, the peer's first.
\<close>

theorem key_needs_matching_confirm:
  assumes "smp_reach cfg i" and "config_ok cfg" and "in_state i = ReadyToEncrypt"
  shows "in_remote_confirm i = confirm_for i (in_remote_rand i) \<and>
    in_stk i = s1 (in_tk i) (in_remote_rand i) (in_local_rand i) \<and>
    in_request_bytes i = params_encode (in_request (new_initiator cfg)) \<and>
    length (in_response_bytes i) = 7"
  using smp_reach_inv[OF assms(1,2)] assms(3) by (simp add: smp_inv_def)

text \<open>
  The peer is held to its commitment.  Once our random has been asked for, a peer
  whose confirm value commits to a random \<open>r\<close> gets the key if it reveals \<open>r\<close>, and is
  refused with Confirm Value Failed if it reveals anything else.
\<close>

theorem commitment_is_binding:
  assumes "smp_reach cfg i" and "config_ok cfg" and "in_state i = WaitingForRandom"
    and "in_remote_confirm i = confirm_for i r" and "length r = 16" and "length r' = 16"
    and "res = smp_handle pk rnd i (kPairingRandom # block_to_wire r')"
  shows "if r' = r
    then rs_ok res \<and> in_state (rs_state res) = ReadyToEncrypt \<and>
      in_stk (rs_state res) = s1 (in_tk i) r (in_local_rand i)
    else \<not> rs_ok res \<and> in_state (rs_state res) = Failed \<and>
      rs_out res = [kPairingFailed, kConfirmValueFailed]"
proof -
  have inv: "smp_inv cfg i" by (rule smp_reach_inv[OF assms(1,2)])
  have lens: "length (in_tk i) = 16" "length (in_request_bytes i) = 7" "length (in_response_bytes i) = 7"
    "in_config i = cfg" using inv assms(3) by (simp_all add: smp_inv_def)
  have "length (confirm_for i r') = 16" "length (confirm_for i r) = 16"
    using lens assms(2,5,6) by (simp_all add: length_confirm)
  moreover have "confirm_for i r' = confirm_for i r \<longleftrightarrow> r' = r"
    unfolding confirm_for_def Let_def using assms(2,5,6) lens
    by (intro confirm_inj[THEN conjunct1]) (simp_all add: config_ok_def addr_wf_def)
  ultimately have eq: "block_equal (confirm_for i r') (confirm_for i r) \<longleftrightarrow> r' = r"
    by (simp add: block_equal_iff)
  have "res = on_random i (kPairingRandom # block_to_wire r')"
    using assms(3,7) by (simp add: smp_handle_def) (simp add: const_defs)
  then show ?thesis
    using assms(4) eq by (simp add: on_random_def Let_def smp_fail_def block_wire_trip[OF assms(6)])
qed

text \<open>
  Failure is final and never silent: a PDU that is refused leaves the machine failed,
  with an explanation and with a Pairing Failed for the peer unless the peer is the one
  that failed or pairing had failed already; and a failed machine refuses everything.
\<close>

theorem failure_final_and_told:
  assumes "res = smp_handle pk rnd i pdu"
  shows "(rs_ok res \<or> in_state (rs_state res) = Failed \<and> rs_error res \<noteq> None \<and>
      ((\<exists>c. rs_out res = [kPairingFailed, c]) \<or> hd pdu = kPairingFailed \<or> in_state i = Failed)) \<and>
    (in_state i = Failed \<longrightarrow> \<not> rs_ok res \<and> in_state (rs_state res) = Failed)"
proof (cases "pdu = [] \<or> hd pdu = kPairingFailed")
  case True
  then show ?thesis
    unfolding assms smp_handle_def by (auto simp: smp_fail_def hd_conv_nth)
next
  case False
  have ok: "rs_ok (send_confirm j x) \<or> (\<exists>c t. rs_out (send_confirm j x) = [kPairingFailed, c] \<and>
      rs_error (send_confirm j x) = Some t \<and> in_state (rs_state (send_confirm j x)) = Failed)" for j x
    by (simp add: send_confirm_def smp_fail_def Let_def)
  have "rs_ok (choose_key pk rnd j) \<or> (\<exists>c t. rs_out (choose_key pk rnd j) = [kPairingFailed, c] \<and>
      rs_error (choose_key pk rnd j) = Some t \<and> in_state (rs_state (choose_key pk rnd j)) = Failed)" for j
    unfolding choose_key_def Let_def using ok by (simp add: smp_fail_def split: option.split)
  then have "rs_ok (on_response pk rnd i pdu) \<or> (\<exists>c t. rs_out (on_response pk rnd i pdu) = [kPairingFailed, c] \<and>
      rs_error (on_response pk rnd i pdu) = Some t \<and> in_state (rs_state (on_response pk rnd i pdu)) = Failed)"
    unfolding on_response_def Let_def by (simp add: smp_fail_def split: option.split)
  with False show ?thesis
    unfolding assms smp_handle_def
    by (cases "in_state i") (auto simp: smp_fail_def on_confirm_def on_random_def Let_def hd_conv_nth)
qed


lemma handle_confirm:
  "in_state i = WaitingForConfirm \<Longrightarrow> length c = 16 \<Longrightarrow>
   smp_handle pk rnd i (kPairingConfirm # block_to_wire c) =
     \<lparr>rs_state = i\<lparr>in_remote_confirm := c, in_state := WaitingForRandom\<rparr>, rs_ok = True,
      rs_out = kPairingRandom # block_to_wire (in_local_rand i), rs_error = None\<rparr>"
  by (simp add: smp_handle_def on_confirm_def block_wire_trip) (simp add: const_defs)

lemma handle_random:
  "in_state i = WaitingForRandom \<Longrightarrow> length r = 16 \<Longrightarrow> block_equal (confirm_for i r) (in_remote_confirm i) \<Longrightarrow>
   smp_handle pk rnd i (kPairingRandom # block_to_wire r) =
     \<lparr>rs_state = i\<lparr>in_remote_rand := r, in_stk := s1 (in_tk i) r (in_local_rand i), in_state := ReadyToEncrypt\<rparr>,
      rs_ok = True, rs_out = [], rs_error = None\<rparr>"
  by (simp add: smp_handle_def on_random_def block_wire_trip Let_def) (simp add: const_defs)

lemma send_confirm_ok:
  "rs_ok (send_confirm i rnd) \<Longrightarrow>
   rs_out (send_confirm i rnd) = kPairingConfirm # block_to_wire (confirm_for (rs_state (send_confirm i rnd)) rnd) \<and>
   in_state (rs_state (send_confirm i rnd)) = WaitingForConfirm \<and>
   in_local_rand (rs_state (send_confirm i rnd)) = rnd \<and> in_tk (rs_state (send_confirm i rnd)) = in_tk i \<and>
   in_method (rs_state (send_confirm i rnd)) = in_method i"
  by (simp add: send_confirm_def smp_fail_def Let_def split: if_splits)

lemma choose_method_cases: "choose_method a b m \<noteq> Oob"
  by (simp add: choose_method_def Let_def)

lemma choose_key_ok:
  assumes "rs_ok (choose_key pk rnd i)"
  shows "rs_out (choose_key pk rnd i) = kPairingConfirm # block_to_wire (confirm_for (rs_state (choose_key pk rnd i)) rnd) \<and>
   in_state (rs_state (choose_key pk rnd i)) = WaitingForConfirm \<and>
   in_local_rand (rs_state (choose_key pk rnd i)) = rnd \<and>
   (if in_method (rs_state (choose_key pk rnd i)) = JustWorks then in_tk (rs_state (choose_key pk rnd i)) = zero_block
    else \<exists>p. pk = Some p \<and> p \<le> 999999 \<and> in_tk (rs_state (choose_key pk rnd i)) = passkey_tk p)"
proof -
  define m where "m = choose_method (pp_io_capability (in_request i)) (pp_io_capability (in_response i))
    (pp_auth_req (in_request i) AND kMitmFlag \<noteq> 0 \<and> pp_auth_req (in_response i) AND kMitmFlag \<noteq> 0)"
  have e: "choose_key pk rnd i =
    (if m = PasskeyInput \<or> m = PasskeyDisplay then
       (case pk of None \<Rightarrow> smp_fail (i\<lparr>in_method := m, in_tk := zero_block\<rparr>) kPasskeyEntryFailed ''no passkey was supplied''
        | Some p \<Rightarrow> if 999999 < p
            then smp_fail (i\<lparr>in_method := m, in_tk := zero_block\<rparr>) kPasskeyEntryFailed ''the passkey must be six digits''
            else send_confirm (i\<lparr>in_method := m, in_tk := passkey_tk p\<rparr>) rnd)
     else send_confirm (i\<lparr>in_method := m, in_tk := zero_block\<rparr>) rnd)"
    unfolding choose_key_def m_def by (simp add: Let_def split: option.split)
  show ?thesis
  proof (cases "m = PasskeyInput \<or> m = PasskeyDisplay")
    case True
    with assms e obtain p where p: "pk = Some p" "\<not> 999999 < p"
      by (auto simp: smp_fail_def split: option.splits if_splits)
    with True e assms have "choose_key pk rnd i = send_confirm (i\<lparr>in_method := m, in_tk := passkey_tk p\<rparr>) rnd" by simp
    with assms True p show ?thesis using send_confirm_ok[of "i\<lparr>in_method := m, in_tk := passkey_tk p\<rparr>" rnd] by auto
  next
    case False
    then have "m = JustWorks" using choose_method_cases unfolding m_def by (metis pair_method.exhaust)
    with False assms e show ?thesis using send_confirm_ok[of "i\<lparr>in_method := m, in_tk := zero_block\<rparr>" rnd] by auto
  qed
qed

lemma on_response_ok:
  assumes "rs_ok (on_response pk rnd i pdu)"
  shows "\<exists>r. on_response pk rnd i pdu = choose_key pk rnd (i\<lparr>in_response := r, in_response_bytes := take 7 pdu\<rparr>)"
  using assms by (auto simp: on_response_def smp_fail_def Let_def split: if_splits option.splits)



section \<open>A concrete exchange\<close>

definition demo_config :: smp_config where
  "demo_config =
     \<lparr>cf_local = Address [0xc0, 1, 2, 3, 4, 5] 1, cf_remote = Address [6, 7, 8, 9, 10, 11] 0,
      cf_io_capability = kKeyboardOnly, cf_want_bonding = True, cf_want_mitm = True\<rparr>"

definition demo_waiting :: initiator where
  "demo_waiting = fst (smp_begin (new_initiator demo_config))"

text \<open>A camera with a display that insists on protection: passkey entry.\<close>

definition demo_response :: bytes where
  "demo_response = [0x02, 0x00, 0x00, 0x05, 0x10, 0x00, 0x00]"

definition demo_result :: smp_result where
  "demo_result = smp_handle (Some 123456) (replicate 16 7) demo_waiting demo_response"

definition demo_confirmed :: initiator where
  "demo_confirmed = rs_state (smp_handle None zero_block (rs_state demo_result)
     (kPairingConfirm # block_to_wire (confirm_for (rs_state demo_result) (replicate 16 9))))"

definition demo_ready :: initiator where
  "demo_ready = rs_state (smp_handle None zero_block demo_confirmed
     (kPairingRandom # block_to_wire (replicate 16 9)))"

lemma demo_ok: "config_ok demo_config"
  by (simp add: config_ok_def demo_config_def addr_wf_def)

lemma demo_waiting_facts: "smp_reach demo_config demo_waiting" "in_state demo_waiting = WaitingForResponse"
  by (auto simp: demo_waiting_def intro: smp_reach.begun smp_reach.fresh)
    (simp add: smp_begin_def Let_def)

lemma demo_result_ok: "rs_ok demo_result" "in_method (rs_state demo_result) = PasskeyInput"
proof -
  have "\<not> block_equal (replicate 16 7) zero_block" by (simp add: block_equal_iff zero_block_def)
  then show "rs_ok demo_result" "in_method (rs_state demo_result) = PasskeyInput"
    by (simp_all add: demo_result_def smp_handle_def demo_waiting_facts on_response_def demo_response_def
        params_decode_def choose_key_def choose_method_def send_confirm_def Let_def const_defs
        demo_waiting_def smp_begin_def new_initiator_def demo_config_def default_params_def)
qed

lemma demo_steps:
  "in_stk demo_ready = s1 (passkey_tk 123456) (replicate 16 9) (replicate 16 7) \<and>
   in_state demo_ready = ReadyToEncrypt \<and> in_state demo_confirmed = WaitingForRandom"
  "smp_reach demo_config demo_confirmed" "smp_reach demo_config demo_ready"
  "in_remote_confirm demo_confirmed = confirm_for demo_confirmed (replicate 16 9)"
  "in_state (rs_state demo_result) = WaitingForConfirm"
proof -
  show r: "smp_reach demo_config demo_confirmed" "smp_reach demo_config demo_ready"
    unfolding demo_ready_def demo_confirmed_def demo_result_def
    by (intro smp_reach.handled demo_waiting_facts; simp)+
  have inv: "smp_inv demo_config (rs_state demo_result)"
    unfolding demo_result_def by (intro smp_inv_handle demo_ok smp_reach_inv demo_waiting_facts) simp
  have "demo_result = on_response (Some 123456) (replicate 16 7) demo_waiting demo_response"
    using demo_result_ok(1) demo_waiting_facts(2)
    by (auto simp: demo_result_def smp_handle_def smp_fail_def split: if_splits)
  then obtain r0 where ck: "demo_result = choose_key (Some 123456) (replicate 16 7)
      (demo_waiting\<lparr>in_response := r0, in_response_bytes := take 7 demo_response\<rparr>)"
    using on_response_ok demo_result_ok(1) by metis
  note j = choose_key_ok[OF demo_result_ok(1)[unfolded ck], folded ck]
  then show "in_state (rs_state demo_result) = WaitingForConfirm" by simp
  have len: "length (confirm_for (rs_state demo_result) (replicate 16 9)) = 16"
    using inv j demo_ok by (intro length_confirm) (simp_all add: smp_inv_def)
  note c = handle_confirm[where pk = None and rnd = zero_block, OF _ len]
  have w: "demo_confirmed = (rs_state demo_result)\<lparr>in_remote_confirm :=
      confirm_for (rs_state demo_result) (replicate 16 9), in_state := WaitingForRandom\<rparr>"
    unfolding demo_confirmed_def using c j by simp
  show "in_remote_confirm demo_confirmed = confirm_for demo_confirmed (replicate 16 9)"
    unfolding w by simp
  show "in_stk demo_ready = s1 (passkey_tk 123456) (replicate 16 9) (replicate 16 7) \<and>
     in_state demo_ready = ReadyToEncrypt \<and> in_state demo_confirmed = WaitingForRandom"
    unfolding demo_ready_def
    using handle_random[of demo_confirmed "replicate 16 9" None zero_block] j demo_result_ok(2)
    unfolding w by (simp add: block_equal_iff)
qed

theorem key_needs_matching_confirm_witness:
  "in_stk demo_ready = s1 (in_tk demo_ready) (in_remote_rand demo_ready) (in_local_rand demo_ready)"
  using key_needs_matching_confirm[OF demo_steps(3) demo_ok] demo_steps(1) by simp

theorem commitment_is_binding_witness:
  "in_state (rs_state (smp_handle None zero_block demo_confirmed
     (kPairingRandom # block_to_wire (replicate 16 8)))) = Failed"
  using commitment_is_binding[where r' = "replicate 16 8" and pk = None and rnd = zero_block,
      OF demo_steps(2) demo_ok _ demo_steps(4) _ _ refl] demo_steps(1) by simp

theorem failure_final_and_told_witness:
  "rs_error (smp_handle None zero_block (new_initiator demo_config) [2]) \<noteq> None"
  using failure_final_and_told[where pk = None and rnd = zero_block and i = "new_initiator demo_config"
      and pdu = "[2]", OF refl]
  by (simp add: smp_handle_def new_initiator_def smp_fail_def const_defs)


section \<open>The order of the pairing PDUs\<close>

text \<open>
  The confirm value is not the one of the Core Specification (Vol 3 Part H 2.2.3).
  There, and in \<open>crypto.h\<close>, c1 works most significant byte first, so the two PDUs, sent
  least significant byte first, are reversed before they enter it; \<open>confirm_for\<close> hands
  them over in wire order, and the value it computes always differs from the one a
  conforming peer computes.
\<close>

theorem confirm_not_in_specified_order:
  assumes "smp_reach cfg i" and "config_ok cfg" and "in_state i = WaitingForConfirm"
    and "length r = 16"
  shows "confirm_for i r \<noteq>
    c1 (in_tk i) r (rev (in_request_bytes i)) (rev (in_response_bytes i))
      (addr_type (cf_local cfg)) (addr_bytes (cf_local cfg))
      (addr_type (cf_remote cfg)) (addr_bytes (cf_remote cfg))"
proof -
  have inv: "smp_inv cfg i" by (rule smp_reach_inv[OF assms(1,2)])
  then have "hd (in_request_bytes i) = 1" "last (in_request_bytes i) = 0"
    using assms(3) by (simp_all add: smp_inv_def new_initiator_def params_encode_def const_defs)
  then have "in_request_bytes i \<noteq> rev (in_request_bytes i)"
    by (metis hd_rev zero_neq_one)
  then show ?thesis
    using inv assms(2-4) confirm_inj[of "in_tk i" r r "addr_bytes (cf_local cfg)" "addr_bytes (cf_remote cfg)"
        "in_request_bytes i" "in_response_bytes i" "rev (in_request_bytes i)" "rev (in_response_bytes i)"
        "addr_type (cf_local cfg)" "addr_type (cf_remote cfg)"]
    by (simp add: smp_inv_def confirm_for_def Let_def config_ok_def addr_wf_def)
qed


theorem confirm_not_in_specified_order_witness:
  "confirm_for (rs_state demo_result) (replicate 16 9) \<noteq>
   c1 (in_tk (rs_state demo_result)) (replicate 16 9) (rev (in_request_bytes (rs_state demo_result)))
     (rev (in_response_bytes (rs_state demo_result))) 1 [0xc0, 1, 2, 3, 4, 5] 0 [6, 7, 8, 9, 10, 11]"
proof -
  have "smp_reach demo_config (rs_state demo_result)"
    unfolding demo_result_def by (intro smp_reach.handled demo_waiting_facts) simp
  from confirm_not_in_specified_order[OF this demo_ok demo_steps(5), of "replicate 16 9"]
  show ?thesis by (simp add: demo_config_def)
qed

end
