(* ===== verification/Pairing.thy ===== *)
theory Pairing
  imports Smp
begin

text \<open>
  What a pairing attempt meant (\<open>pairing.cc\<close>): the verdict over what the radio saw, the word a
  script matches, and the sentence a person reads.
\<close>

record attempt =
  at_connected :: bool
  at_subscribed :: bool
  at_saw_state :: bool
  at_radio_error :: string

datatype pair_verdict = Bonded | NotConnected | Refused | Silent

text \<open>\<open>tolower\<close> in the C locale.\<close>

definition lower_char :: "char \<Rightarrow> char" where
  "lower_char c = (if 65 \<le> (of_char c :: nat) \<and> (of_char c :: nat) \<le> 90 then char_of ((of_char c :: nat) + 32) else c)"

definition lowered :: "string \<Rightarrow> string" where
  "lowered s = map lower_char s"

text \<open>\<open>haystack.find(needle) != npos\<close>.\<close>

fun starts_with :: "string \<Rightarrow> string \<Rightarrow> bool" where
  "starts_with [] s = True"
| "starts_with (c # cs) [] = False"
| "starts_with (c # cs) (d # ds) = (c = d \<and> starts_with cs ds)"

fun contains :: "string \<Rightarrow> string \<Rightarrow> bool" where
  "contains [] needle = (needle = [])"
| "contains (c # cs) needle = (starts_with needle (c # cs) \<or> contains cs needle)"

definition names_authentication_failure :: "string \<Rightarrow> bool" where
  "names_authentication_failure radio_error =
     (let e = lowered radio_error in
      contains e ''authentic'' \<or> contains e ''encrypt'' \<or> contains e ''insufficient'' \<or> contains e ''pair'' \<or>
      contains e ''bond'')"

definition judge_attempt :: "attempt \<Rightarrow> pair_verdict" where
  "judge_attempt a =
     (if names_authentication_failure (at_radio_error a) then Refused
      else if \<not> at_connected a then NotConnected
      else if at_saw_state a then Bonded
      else Silent)"

fun verdict_word :: "pair_verdict \<Rightarrow> string" where
  "verdict_word Bonded = ''bonded''"
| "verdict_word NotConnected = ''not-connected''"
| "verdict_word Refused = ''refused''"
| "verdict_word Silent = ''silent''"

definition named :: "string \<Rightarrow> string" where
  "named label = (if label = [] then ''the camera'' else label)"

definition nl :: string where "nl = [CHR 0x0A]"

definition explain :: "pair_verdict \<Rightarrow> string \<Rightarrow> string" where
  "explain v label = (case v of
       Bonded \<Rightarrow>
     ''paired with '' @ named label @
     '': the control characteristics are answering, so the clock can be read and set from now on.''
     | NotConnected \<Rightarrow>
     ''could not connect to '' @ named label @ ''.'' @ nl @
     ''  * a camera already connected to something else -- the Blackmagic Camera app on a'' @ nl @
     ''    phone, or the firmware updater -- will not accept a second connection'' @ nl @
     ''  * check Bluetooth is still enabled in the camera's setup menu'' @ nl @
     ''  * move the camera nearer: this radio is weak enough that a room away is often'' @ nl @
     ''    the difference''
     | Refused \<Rightarrow>
     ''pairing with '' @ named label @ '' was refused.'' @ nl @
     ''  * if macOS asked for a passkey and it was mistyped, forget the device in'' @ nl @
     ''    System Settings > Bluetooth and run this again'' @ nl @
     ''  * a bond that exists on only one of the two sides fails exactly this way: clear'' @ nl @
     ''    it on the camera as well as on the Mac, then pair afresh''
     | Silent \<Rightarrow>
     ''connected to '' @ named label @ '', but it sent nothing back.'' @ nl @
     ''  This is what an unpaired camera looks like: the control characteristics are'' @ nl @
     ''  encrypted, so without a bond they stay silent rather than returning an error.'' @ nl @
     ''  * macOS should have shown a pairing request with a six-digit code. The code is'' @ nl @
     ''    displayed on the camera itself -- look at its screen while this runs'' @ nl @
     ''  * if no request appeared, the Mac probably still holds a stale bond. Forget the'' @ nl @
     ''    device in System Settings > Bluetooth, clear the pairing on the camera too,'' @ nl @
     ''    and run this again so both sides start from nothing'')"

lemma starts_with_prefix: "starts_with p s \<longleftrightarrow> (\<exists>r. s = p @ r)"
  by (induction p s rule: starts_with.induct) auto

lemma contains_iff: "contains s w \<longleftrightarrow> (\<exists>a b. s = a @ w @ b)"
proof (induction s)
  case (Cons c cs)
  have "(\<exists>a b. c # cs = a @ w @ b) \<longleftrightarrow> (\<exists>b. c # cs = w @ b) \<or> (\<exists>a b. cs = a @ w @ b)"
  proof
    assume "\<exists>a b. c # cs = a @ w @ b"
    then obtain a b where "c # cs = a @ w @ b" by auto
    then show "(\<exists>b. c # cs = w @ b) \<or> (\<exists>a b. cs = a @ w @ b)" by (cases a) auto
  next
    assume "(\<exists>b. c # cs = w @ b) \<or> (\<exists>a b. cs = a @ w @ b)"
    then show "\<exists>a b. c # cs = a @ w @ b" by (metis append_Cons append_Nil)
  qed
  then show ?case using Cons by (simp add: starts_with_prefix)
qed auto

text \<open>
  The verdict separates the ways an attempt ends: it is refused exactly when the radio's words,
  whatever their case, name authentication, encryption, pairing or a bond, whatever else was seen; and
  otherwise it follows the connection and then whether the camera said anything.
\<close>

theorem verdict_of_attempt:
  "judge_attempt a =
     (if \<exists>w \<in> {''authentic'', ''encrypt'', ''insufficient'', ''pair'', ''bond''}. \<exists>p q. lowered (at_radio_error a) = p @ w @ q
      then Refused else if at_connected a then (if at_saw_state a then Bonded else Silent) else NotConnected)"
  by (simp add: judge_attempt_def names_authentication_failure_def contains_iff Let_def)

end
