(* ===== verification/HciAd.thy ===== *)
theory HciAd
  imports HciPackets BoxMsg
begin

text \<open>
  Advertising data (\<open>src/hci.cc\<close>): the length-prefixed structures an
  advertisement is made of, what a caller wants out of them, building them under the
  31-byte budget, and the description lines of the logs.
\<close>

record ad_structure =
  ad_type :: byte
  ad_value :: bytes

definition kAdFlags :: byte where [const_defs]: "kAdFlags = 0x01"
definition kAdIncomplete16 :: byte where [const_defs]: "kAdIncomplete16 = 0x02"
definition kAdComplete16 :: byte where [const_defs]: "kAdComplete16 = 0x03"
definition kAdIncomplete32 :: byte where [const_defs]: "kAdIncomplete32 = 0x04"
definition kAdComplete32 :: byte where [const_defs]: "kAdComplete32 = 0x05"
definition kAdIncomplete128 :: byte where [const_defs]: "kAdIncomplete128 = 0x06"
definition kAdComplete128 :: byte where [const_defs]: "kAdComplete128 = 0x07"
definition kAdShortName :: byte where [const_defs]: "kAdShortName = 0x08"
definition kAdCompleteName :: byte where [const_defs]: "kAdCompleteName = 0x09"
definition kAdTxPower :: byte where [const_defs]: "kAdTxPower = 0x0a"
definition kAdServiceData16 :: byte where [const_defs]: "kAdServiceData16 = 0x16"
definition kAdServiceData32 :: byte where [const_defs]: "kAdServiceData32 = 0x20"
definition kAdServiceData128 :: byte where [const_defs]: "kAdServiceData128 = 0x21"
definition kAdManufacturer :: byte where [const_defs]: "kAdManufacturer = 0xff"

section \<open>Parsing\<close>

function parse_ad :: "bytes \<Rightarrow> ad_structure list" where
  "parse_ad [] = []"
| "parse_ad (l # rest) =
     (if l = 0 then []
      else if length rest < unat l then []
      else \<lparr>ad_type = rest ! 0, ad_value = take (unat l - 1) (drop 1 rest)\<rparr> #
           parse_ad (drop (unat l) rest))"
  by pat_completeness auto
termination
  by (relation "measure length") auto

text \<open>Bytes read as the characters of a \<open>std::string\<close>, and back.\<close>

definition bytes_to_string :: "bytes \<Rightarrow> string" where
  "bytes_to_string bs = map (\<lambda>b. char_of (unat b)) bs"

definition string_to_bytes :: "string \<Rightarrow> bytes" where
  "string_to_bytes s = map (\<lambda>c. word_of_nat (of_char c)) s"

record ad_info =
  ai_name :: string
  ai_has_flags :: bool
  ai_flags :: byte
  ai_has_tx_power :: bool
  ai_tx_power :: int
  ai_services :: "uuid list"
  ai_service_data :: "(uuid \<times> bytes) list"
  ai_manufacturer :: bytes

definition ad_info_empty :: ad_info where
  "ad_info_empty = \<lparr>ai_name = [], ai_has_flags = False, ai_flags = 0, ai_has_tx_power = False,
     ai_tx_power = 0, ai_services = [], ai_service_data = [], ai_manufacturer = []\<rparr>"

text \<open>The UUIDs of a list field, \<open>w\<close> bytes each; a short tail is ignored.\<close>

function uuid_list :: "nat \<Rightarrow> bytes \<Rightarrow> uuid list" where
  "uuid_list w v =
     (if w = 0 \<or> length v < w then []
      else (case uuid_from_le (take w v) of None \<Rightarrow> [] | Some u \<Rightarrow> [u]) @ uuid_list w (drop w v))"
  by pat_completeness auto
termination
  by (relation "measure (\<lambda>(w, v). length v)") auto

declare uuid_list.simps [simp del]

definition service_data_width :: "byte \<Rightarrow> nat" where
  "service_data_width t = (if t = kAdServiceData16 then 2 else if t = kAdServiceData32 then 4 else 16)"

definition summarise_one :: "ad_info \<Rightarrow> ad_structure \<Rightarrow> ad_info" where
  "summarise_one info s =
     (let t = ad_type s; v = ad_value s in
      if t = kAdFlags then
        (if v \<noteq> [] then info\<lparr>ai_has_flags := True, ai_flags := v ! 0\<rparr> else info)
      else if t = kAdShortName \<or> t = kAdCompleteName then
        (if ai_name info = [] \<or> t = kAdCompleteName then info\<lparr>ai_name := bytes_to_string v\<rparr> else info)
      else if t = kAdTxPower then
        (if v \<noteq> [] then info\<lparr>ai_has_tx_power := True, ai_tx_power := sint (v ! 0)\<rparr> else info)
      else if t = kAdIncomplete16 \<or> t = kAdComplete16 then
        info\<lparr>ai_services := ai_services info @ uuid_list 2 v\<rparr>
      else if t = kAdIncomplete32 \<or> t = kAdComplete32 then
        info\<lparr>ai_services := ai_services info @ uuid_list 4 v\<rparr>
      else if t = kAdIncomplete128 \<or> t = kAdComplete128 then
        info\<lparr>ai_services := ai_services info @ uuid_list 16 v\<rparr>
      else if t = kAdServiceData16 \<or> t = kAdServiceData32 \<or> t = kAdServiceData128 then
        (let idlen = service_data_width t in
         if length v < idlen then info
         else case uuid_from_le (take idlen v) of None \<Rightarrow> info
           | Some u \<Rightarrow> info\<lparr>ai_service_data := ai_service_data info @ [(u, drop idlen v)]\<rparr>)
      else if t = kAdManufacturer then info\<lparr>ai_manufacturer := v\<rparr>
      else info)"

definition summarise_ad :: "ad_structure list \<Rightarrow> ad_info" where
  "summarise_ad ss = foldl summarise_one ad_info_empty ss"

section \<open>Building under a budget\<close>

text \<open>\<open>None\<close> is \<open>false\<close>, which leaves the buffer as it was.\<close>

definition append_ad :: "bytes \<Rightarrow> byte \<Rightarrow> bytes \<Rightarrow> nat \<Rightarrow> bytes option" where
  "append_ad out ty value budget =
     (if 254 < length value then None
      else if budget < length out + (2 + length value) then None
      else Some (out @ [word_of_nat (1 + length value), ty] @ value))"

definition append_ad_flags :: "bytes \<Rightarrow> byte \<Rightarrow> nat \<Rightarrow> bytes option" where
  "append_ad_flags out flags budget = append_ad out kAdFlags [flags] budget"

definition append_ad_name :: "bytes \<Rightarrow> string \<Rightarrow> bool \<Rightarrow> nat \<Rightarrow> bytes option" where
  "append_ad_name out name full budget =
     append_ad out (if full then kAdCompleteName else kAdShortName) (string_to_bytes name) budget"

definition append_ad_service :: "bytes \<Rightarrow> uuid \<Rightarrow> bool \<Rightarrow> nat \<Rightarrow> bytes option" where
  "append_ad_service out u full budget =
     (let le = uuid_to_le u;
          ty = (if length le = 2 then (if full then kAdComplete16 else kAdIncomplete16)
                else (if full then kAdComplete128 else kAdIncomplete128)) in
      append_ad out ty le budget)"

definition append_ad_service_data :: "bytes \<Rightarrow> uuid \<Rightarrow> bytes \<Rightarrow> nat \<Rightarrow> bytes option" where
  "append_ad_service_data out u data budget =
     (let le = uuid_to_le u;
          ty = (if length le = 2 then kAdServiceData16 else kAdServiceData128) in
      append_ad out ty (le @ data) budget)"

section \<open>Descriptions\<close>

definition ad_uuid_width :: "byte \<Rightarrow> nat" where
  "ad_uuid_width t =
     (if t = kAdIncomplete16 \<or> t = kAdComplete16 then 2
      else if t = kAdIncomplete32 \<or> t = kAdComplete32 then 4 else 16)"

definition describe_structure :: "ad_structure \<Rightarrow> string" where
  "describe_structure s =
     (let t = ad_type s; v = ad_value s in
      if t = kAdFlags then
        (let f = (if v = [] then 0 else v ! 0) in
         ''flags 0x'' @ hex2 f @
         (if f AND 0x01 \<noteq> 0 then '' limited-discoverable'' else []) @
         (if f AND 0x02 \<noteq> 0 then '' general-discoverable'' else []) @
         (if f AND 0x04 \<noteq> 0 then '' le-only'' else []))
      else if t = kAdShortName \<or> t = kAdCompleteName then
        (if t = kAdCompleteName then ''name '' else ''short name '') @ bytes_to_string v
      else if t = kAdTxPower then
        ''tx power '' @ show_int (if v = [] then 0 else sint (v ! 0)) @ '' dBm''
      else if t \<in> {kAdIncomplete16, kAdComplete16, kAdIncomplete32, kAdComplete32,
                   kAdIncomplete128, kAdComplete128} then
        ''services'' @ concat (map (\<lambda>u. CHR '' '' # uuid_to_string u) (uuid_list (ad_uuid_width t) v))
      else if t = kAdServiceData16 \<or> t = kAdServiceData32 \<or> t = kAdServiceData128 then
        (let w = service_data_width t in
         if length v < w then ''service data (truncated)''
         else ''service data '' @
           uuid_to_string (case uuid_from_le (take w v) of None \<Rightarrow> Uuid (replicate 16 0) | Some u \<Rightarrow> u) @
           '' = '' @ hci_to_hex (drop w v))
      else if t = kAdManufacturer then
        (if 2 \<le> length v then
           ''manufacturer 0x'' @ hex4 (get16_at v 0) @ '' = '' @ hci_to_hex (drop 2 v)
         else ''manufacturer (truncated)'')
      else ''type 0x'' @ hex2 t @ '' = '' @ hci_to_hex v)"

definition describe_ad :: "bytes \<Rightarrow> string list" where
  "describe_ad data = map describe_structure (parse_ad data)"

section \<open>What is built is what is parsed\<close>

definition ad_bytes :: "ad_structure \<Rightarrow> bytes" where
  "ad_bytes s = word_of_nat (1 + length (ad_value s)) # ad_type s # ad_value s"

definition ad_wf :: "ad_structure \<Rightarrow> bool" where
  "ad_wf s \<longleftrightarrow> length (ad_value s) \<le> 254"

lemma parse_ad_cons:
  assumes "ad_wf s"
  shows "parse_ad (ad_bytes s @ rest) = s # parse_ad rest"
proof -
  have n: "unat (word_of_nat (1 + length (ad_value s)) :: byte) = 1 + length (ad_value s)"
    using assms by (subst unsigned_of_nat) (simp add: ad_wf_def take_bit_nat_eq_self)
  then have "(word_of_nat (1 + length (ad_value s)) :: byte) \<noteq> 0" by fastforce
  with n show ?thesis by (simp add: ad_bytes_def)
qed

lemma parse_ad_concat:
  "\<forall>s \<in> set ss. ad_wf s \<Longrightarrow> parse_ad (concat (map ad_bytes ss) @ rest) = ss @ parse_ad rest"
  by (induction ss) (auto simp: parse_ad_cons)

lemma parse_ad_zeros: "parse_ad (replicate pad 0) = []"
  by (cases pad) simp_all

interpretation ad_frame:
  framed_codec "\<lambda>s. ad_bytes s" "\<lambda>d. case parse_ad d of [] \<Rightarrow> None | s # _ \<Rightarrow> Some s" ad_wf
  by unfold_locales (simp add: parse_ad_cons)

text \<open>
  Appending a structure either refuses, because the value cannot be length-prefixed
  or the result would pass the budget, or keeps the whole advertisement inside the budget
  and makes it read back as everything built so far followed by exactly that structure,
  with the zero padding of the controller's fixed block adding nothing.
\<close>

theorem append_ad_read_back:
  assumes ss: "\<forall>s \<in> set ss. ad_wf s" and out: "out = concat (map ad_bytes ss)"
  shows "case append_ad out ty v budget of
      None \<Rightarrow> 254 < length v \<or> budget < length out + 2 + length v
    | Some out' \<Rightarrow> length out' \<le> budget \<and>
        parse_ad (out' @ replicate pad 0) = ss @ [\<lparr>ad_type = ty, ad_value = v\<rparr>]"
proof (cases "append_ad out ty v budget")
  case None
  then show ?thesis by (auto simp: append_ad_def split: if_splits)
next
  case (Some out')
  let ?s = "\<lparr>ad_type = ty, ad_value = v\<rparr>"
  from Some have v: "length v \<le> 254" and b: "length out + (2 + length v) \<le> budget"
    and o': "out' = out @ ad_bytes ?s"
    by (auto simp: append_ad_def ad_bytes_def split: if_splits)
  have "parse_ad (concat (map ad_bytes (ss @ [?s])) @ replicate pad 0) = ss @ [?s]"
    using ss v parse_ad_zeros[of pad] by (subst parse_ad_concat) (auto simp: ad_wf_def)
  moreover have "length out' \<le> budget" using b by (simp add: o' ad_bytes_def)
  ultimately show ?thesis using Some by (simp add: o' out)
qed

theorem append_ad_read_back_witness:
  "parse_ad [2, 1, 6, 3, 3, 0xac, 0xfd, 0, 0] =
     [\<lparr>ad_type = 1, ad_value = [6]\<rparr>, \<lparr>ad_type = 3, ad_value = [0xac, 0xfd]\<rparr>]"
  using append_ad_read_back[where ss = "[\<lparr>ad_type = 1, ad_value = [6]\<rparr>]" and out = "[2, 1, 6]"
      and budget = 31 and ty = 3 and v = "[0xac, 0xfd]" and pad = 2]
  by (simp add: ad_wf_def ad_bytes_def append_ad_def numeral_2_eq_2)

end
