(* ===== verification/AttServer.thy ===== *)
theory AttServer
  imports AttClient HciAd Store "HOL-Library.Sublist"
begin

text \<open>
  The GATT server (\<open>ServerBuilder\<close> and \<open>Server\<close> in \<open>src/att.h\<close>, \<open>src/att.cc\<close>): the
  attribute table, the builder that lays it out, and the answers to requests.

  An attribute's \<open>read_fn\<close> is a callback for a live value; here it is a function of the
  moment at which a request is handled, and \<open>handle_request\<close> takes that moment.  The
  write handler is a callback too: a request returns, beside its response, the handle
  and value the handler is called with, if it is called.
\<close>

section \<open>The attribute table\<close>

record attribute =
  at_handle :: u16
  at_type :: uuid
  at_value :: bytes
  at_readable :: bool
  at_writable :: bool
  at_read_fn :: "(nat \<Rightarrow> bytes) option"

definition new_attribute :: attribute where
  "new_attribute =
     \<lparr>at_handle = 0, at_type = Uuid (replicate 16 0), at_value = [], at_readable = True,
      at_writable = False, at_read_fn = None\<rparr>"

definition is_service_decl :: "uuid \<Rightarrow> bool" where
  "is_service_decl type \<longleftrightarrow>
     type = uuid_from_16 kUuidPrimaryService \<or> type = uuid_from_16 kUuidSecondaryService"

definition current_value :: "nat \<Rightarrow> attribute \<Rightarrow> bytes" where
  "current_value now a = (case at_read_fn a of Some f \<Rightarrow> f now | None \<Rightarrow> at_value a)"

section \<open>The builder\<close>

record server_builder =
  sb_next :: u16
  sb_attrs :: "attribute list"

definition new_builder :: server_builder where
  "new_builder = \<lparr>sb_next = 1, sb_attrs = []\<rparr>"

definition add_primary_service :: "server_builder \<Rightarrow> uuid \<Rightarrow> server_builder \<times> u16" where
  "add_primary_service b u =
     (let a = new_attribute\<lparr>at_handle := sb_next b, at_type := uuid_from_16 kUuidPrimaryService,
                            at_value := uuid_to_le u\<rparr>
      in (\<lparr>sb_next = sb_next b + 1, sb_attrs = sb_attrs b @ [a]\<rparr>, sb_next b))"

definition characteristic_decl :: "u16 \<Rightarrow> u16 \<Rightarrow> uuid \<Rightarrow> byte \<Rightarrow> attribute" where
  "characteristic_decl decl_handle value_handle u props =
     new_attribute\<lparr>at_handle := decl_handle, at_type := uuid_from_16 kUuidCharacteristic,
                   at_value := [props] @ put16 value_handle @ uuid_to_le u\<rparr>"

definition characteristic_value :: "u16 \<Rightarrow> uuid \<Rightarrow> byte \<Rightarrow> (nat \<Rightarrow> bytes) option \<Rightarrow> attribute" where
  "characteristic_value value_handle u props read_fn =
     new_attribute\<lparr>at_handle := value_handle, at_type := u,
                   at_readable := (props AND kPropRead \<noteq> 0),
                   at_writable := (props AND (kPropWrite OR kPropWriteWithoutResponse) \<noteq> 0),
                   at_read_fn := read_fn\<rparr>"

definition description_attr :: "u16 \<Rightarrow> string \<Rightarrow> attribute" where
  "description_attr handle description =
     new_attribute\<lparr>at_handle := handle, at_type := uuid_from_16 kUuidCharUserDescription,
                   at_value := string_to_bytes description\<rparr>"

definition cccd_attr :: "u16 \<Rightarrow> attribute" where
  "cccd_attr handle =
     new_attribute\<lparr>at_handle := handle, at_type := uuid_from_16 kUuidClientCharConfig,
                   at_value := [0x00, 0x00], at_readable := True, at_writable := True\<rparr>"

definition add_dynamic_characteristic ::
    "server_builder \<Rightarrow> uuid \<Rightarrow> byte \<Rightarrow> (nat \<Rightarrow> bytes) option \<Rightarrow> string \<Rightarrow> server_builder \<times> u16" where
  "add_dynamic_characteristic b u props read_fn description =
     (let decl_handle = sb_next b; value_handle = sb_next b + 1;
          n = sb_next b + 2;
          attrs = sb_attrs b @ [characteristic_decl decl_handle value_handle u props,
                                characteristic_value value_handle u props read_fn];
          (n, attrs) = (if description = [] then (n, attrs)
                        else (n + 1, attrs @ [description_attr n description]));
          (n, attrs) = (if props AND (kPropNotify OR kPropIndicate) = 0 then (n, attrs)
                        else (n + 1, attrs @ [cccd_attr n]))
      in (\<lparr>sb_next = n, sb_attrs = attrs\<rparr>, value_handle))"

fun set_value_at :: "u16 \<Rightarrow> bytes \<Rightarrow> attribute list \<Rightarrow> attribute list" where
  "set_value_at h v [] = []"
| "set_value_at h v (a # rest) =
     (if at_handle a = h then a\<lparr>at_value := v\<rparr> # rest else a # set_value_at h v rest)"

definition add_characteristic ::
    "server_builder \<Rightarrow> uuid \<Rightarrow> byte \<Rightarrow> bytes \<Rightarrow> string \<Rightarrow> server_builder \<times> u16" where
  "add_characteristic b u props value description =
     (let (b', h) = add_dynamic_characteristic b u props None description
      in (b'\<lparr>sb_attrs := set_value_at h value (sb_attrs b')\<rparr>, h))"

section \<open>The server\<close>

record server =
  sv_attrs :: "attribute list"
  sv_mtu :: u16

definition new_server :: "attribute list \<Rightarrow> server" where
  "new_server attrs = \<lparr>sv_attrs = attrs, sv_mtu = kDefaultMtu\<rparr>"

definition server_find :: "server \<Rightarrow> u16 \<Rightarrow> attribute option" where
  "server_find s h = find (\<lambda>a. at_handle a = h) (sv_attrs s)"

definition server_error :: "byte \<Rightarrow> u16 \<Rightarrow> byte \<Rightarrow> bytes" where
  "server_error req handle c = [kErrorResponse, req] @ put16 handle @ [c]"

fun subscribed_from :: "u16 \<Rightarrow> bool \<Rightarrow> attribute list \<Rightarrow> bool" where
  "subscribed_from vh seen [] = False"
| "subscribed_from vh seen (a # rest) =
     (if at_handle a = vh then subscribed_from vh True rest
      else if \<not> seen then subscribed_from vh seen rest
      else if at_type a = uuid_from_16 kUuidCharacteristic \<or> is_service_decl (at_type a) then False
      else if at_type a = uuid_from_16 kUuidClientCharConfig then
        2 \<le> length (at_value a) \<and> (at_value a ! 0) AND 0x03 \<noteq> 0
      else subscribed_from vh seen rest)"

definition subscribed :: "server \<Rightarrow> u16 \<Rightarrow> bool" where
  "subscribed s vh = subscribed_from vh False (sv_attrs s)"

definition notification :: "server \<Rightarrow> u16 \<Rightarrow> bytes \<Rightarrow> bytes" where
  "notification s vh value =
     (if \<not> subscribed s vh then []
      else let room = (if 3 < unat (sv_mtu s) then unat (sv_mtu s) - 3 else 0)
        in kHandleValueNotification # put16 vh @ take room value)"

definition in_range :: "u16 \<Rightarrow> u16 \<Rightarrow> attribute \<Rightarrow> bool" where
  "in_range start stop a \<longleftrightarrow> start \<le> at_handle a \<and> at_handle a \<le> stop"

text \<open>\<open>chose\<close> and \<open>want_16\<close> of the Find Information loop as one option.\<close>

fun find_info_loop :: "nat \<Rightarrow> u16 \<Rightarrow> u16 \<Rightarrow> attribute list \<Rightarrow> bool option \<Rightarrow> bytes \<Rightarrow> bool option \<times> bytes" where
  "find_info_loop mtu start stop [] chose p = (chose, p)"
| "find_info_loop mtu start stop (a # rest) chose p =
     (if \<not> in_range start stop a then find_info_loop mtu start stop rest chose p
      else let is16 = is_16bit (at_type a) in
        if chose = Some (\<not> is16) then (chose, p)
        else let p1 = (if chose = None then p[1 := (if is16 then 0x01 else 0x02)] else p) in
          if length p1 + 2 + (if is16 then 2 else 16) > mtu then (Some is16, p1)
          else find_info_loop mtu start stop rest (Some is16)
                 (p1 @ put16 (at_handle a) @ uuid_to_le (at_type a)))"

fun group_end :: "u16 \<Rightarrow> attribute list \<Rightarrow> u16" where
  "group_end g [] = g"
| "group_end g (a # rest) = (if is_service_decl (at_type a) then g else group_end (at_handle a) rest)"

fun find_by_type_loop ::
    "nat \<Rightarrow> u16 \<Rightarrow> u16 \<Rightarrow> uuid \<Rightarrow> bytes \<Rightarrow> attribute list \<Rightarrow> bytes \<Rightarrow> bytes" where
  "find_by_type_loop mtu start stop type want [] p = p"
| "find_by_type_loop mtu start stop type want (a # rest) p =
     (if \<not> in_range start stop a \<or> at_type a \<noteq> type \<or> at_value a \<noteq> want
      then find_by_type_loop mtu start stop type want rest p
      else if length p + 4 > mtu then p
      else find_by_type_loop mtu start stop type want rest
             (p @ put16 (at_handle a) @ put16 (group_end (at_handle a) rest)))"

fun group_type_loop ::
    "nat \<Rightarrow> u16 \<Rightarrow> u16 \<Rightarrow> uuid \<Rightarrow> attribute list \<Rightarrow> nat \<Rightarrow> bytes \<Rightarrow> nat \<times> bytes" where
  "group_type_loop mtu start stop type [] entry p = (entry, p)"
| "group_type_loop mtu start stop type (a # rest) entry p =
     (if \<not> in_range start stop a \<or> at_type a \<noteq> type then group_type_loop mtu start stop type rest entry p
      else let this = 4 + length (at_value a) in
        if entry \<noteq> 0 \<and> this \<noteq> entry then (entry, p)
        else let p1 = (if entry = 0 then p[1 := word_of_nat this] else p) in
          if length p1 + this > mtu then (this, p1)
          else group_type_loop mtu start stop type rest this
                 (p1 @ put16 (at_handle a) @ put16 (group_end (at_handle a) rest) @ at_value a))"

text \<open>The Read By Type loop may leave with an error naming the handle it stopped at.\<close>

fun read_type_loop ::
    "nat \<Rightarrow> nat \<Rightarrow> u16 \<Rightarrow> u16 \<Rightarrow> uuid \<Rightarrow> attribute list \<Rightarrow> nat \<Rightarrow> bytes \<Rightarrow> u16 + nat \<times> bytes" where
  "read_type_loop now mtu start stop type [] entry p = Inr (entry, p)"
| "read_type_loop now mtu start stop type (a # rest) entry p =
     (if \<not> in_range start stop a \<or> at_type a \<noteq> type
      then read_type_loop now mtu start stop type rest entry p
      else if \<not> at_readable a then Inl (at_handle a)
      else let value = current_value now a; this = 2 + length value in
        if entry \<noteq> 0 \<and> this \<noteq> entry then Inr (entry, p)
        else let p1 = (if entry = 0 then p[1 := word_of_nat this] else p) in
          if length p1 + this > mtu then Inr (this, p1)
          else read_type_loop now mtu start stop type rest this
                 (p1 @ put16 (at_handle a) @ value))"


section \<open>Requests\<close>

text \<open>
  One definition per case of the switch in \<open>handle_request\<close>; those that change nothing
  return the response alone.
\<close>

definition kServerMtu :: u16 where [const_defs]: "kServerMtu = 247"

definition handle_exchange_mtu :: "server \<Rightarrow> bytes \<Rightarrow> server \<times> bytes" where
  "handle_exchange_mtu s pdu =
     (if length pdu < 3 then (s, server_error kExchangeMtuRequest 0 kInvalidPdu)
      else let peer = get16_at pdu 1; mine = kServerMtu; agreed = min peer mine
        in (s\<lparr>sv_mtu := (if agreed < kDefaultMtu then kDefaultMtu else agreed)\<rparr>,
            kExchangeMtuResponse # put16 mine))"

definition handle_find_information :: "server \<Rightarrow> bytes \<Rightarrow> bytes" where
  "handle_find_information s pdu =
     (let op = kFindInformationRequest in
      if length pdu < 5 then server_error op 0 kInvalidPdu
      else let start = get16_at pdu 1; stop = get16_at pdu 3 in
        if start = 0 \<or> stop < start then server_error op start kInvalidHandle
        else case find_info_loop (unat (sv_mtu s)) start stop (sv_attrs s) None
                    [kFindInformationResponse, 0x00] of
            (None, _) \<Rightarrow> server_error op start kAttributeNotFound
          | (Some _, p) \<Rightarrow> p)"

definition handle_find_by_type_value :: "server \<Rightarrow> bytes \<Rightarrow> bytes" where
  "handle_find_by_type_value s pdu =
     (let op = kFindByTypeValueRequest in
      if length pdu < 7 then server_error op 0 kInvalidPdu
      else let start = get16_at pdu 1; stop = get16_at pdu 3; type = uuid_from_16 (get16_at pdu 5) in
        if start = 0 \<or> stop < start then server_error op start kInvalidHandle
        else let p = find_by_type_loop (unat (sv_mtu s)) start stop type (drop 7 pdu) (sv_attrs s)
                       [kFindByTypeValueResponse]
          in if length p = 1 then server_error op start kAttributeNotFound else p)"

definition handle_read_by_group_type :: "server \<Rightarrow> bytes \<Rightarrow> bytes" where
  "handle_read_by_group_type s pdu =
     (let op = kReadByGroupTypeRequest in
      if length pdu < 7 then server_error op 0 kInvalidPdu
      else let start = get16_at pdu 1; stop = get16_at pdu 3 in
        case uuid_from_le (drop 5 pdu) of None \<Rightarrow> server_error op start kInvalidPdu
        | Some type \<Rightarrow>
            if start = 0 \<or> stop < start then server_error op start kInvalidHandle
            else if \<not> is_service_decl type then server_error op start kUnsupportedGroupType
            else case group_type_loop (unat (sv_mtu s)) start stop type (sv_attrs s) 0
                        [kReadByGroupTypeResponse, 0x00] of
              (entry, p) \<Rightarrow> if entry = 0 then server_error op start kAttributeNotFound else p)"

definition handle_read_by_type :: "nat \<Rightarrow> server \<Rightarrow> bytes \<Rightarrow> bytes" where
  "handle_read_by_type now s pdu =
     (let op = kReadByTypeRequest in
      if length pdu < 7 then server_error op 0 kInvalidPdu
      else let start = get16_at pdu 1; stop = get16_at pdu 3 in
        case uuid_from_le (drop 5 pdu) of None \<Rightarrow> server_error op start kInvalidPdu
        | Some type \<Rightarrow>
            if start = 0 \<or> stop < start then server_error op start kInvalidHandle
            else case read_type_loop now (unat (sv_mtu s)) start stop type (sv_attrs s) 0
                        [kReadByTypeResponse, 0x00] of
              Inl h \<Rightarrow> server_error op h kReadNotPermitted
            | Inr (entry, p) \<Rightarrow> if entry = 0 then server_error op start kAttributeNotFound else p)"

definition read_room :: "server \<Rightarrow> nat" where
  "read_room s = (if 1 < unat (sv_mtu s) then unat (sv_mtu s) - 1 else 0)"

definition handle_read :: "nat \<Rightarrow> server \<Rightarrow> bytes \<Rightarrow> bytes" where
  "handle_read now s pdu =
     (let op = kReadRequest in
      if length pdu < 3 then server_error op 0 kInvalidPdu
      else let h = get16_at pdu 1 in
        case server_find s h of None \<Rightarrow> server_error op h kInvalidHandle
        | Some a \<Rightarrow>
            if \<not> at_readable a then server_error op h kReadNotPermitted
            else kReadResponse # take (read_room s) (current_value now a))"

definition handle_read_blob :: "nat \<Rightarrow> server \<Rightarrow> bytes \<Rightarrow> bytes" where
  "handle_read_blob now s pdu =
     (let op = kReadBlobRequest in
      if length pdu < 5 then server_error op 0 kInvalidPdu
      else let h = get16_at pdu 1; offset = unat (get16_at pdu 3) in
        case server_find s h of None \<Rightarrow> server_error op h kInvalidHandle
        | Some a \<Rightarrow>
            if \<not> at_readable a then server_error op h kReadNotPermitted
            else let value = current_value now a in
              if length value < offset then server_error op h kInvalidOffset
              else kReadBlobResponse # take (read_room s) (drop offset value))"

definition handle_write :: "server \<Rightarrow> byte \<Rightarrow> bytes \<Rightarrow> server \<times> bytes \<times> (u16 \<times> bytes) option" where
  "handle_write s op pdu =
     (let refuse = (\<lambda>h c. if op = kWriteCommand then [] else server_error op h c) in
      if length pdu < 3 then (s, refuse 0 kInvalidPdu, None)
      else let h = get16_at pdu 1; value = drop 3 pdu in
        case server_find s h of None \<Rightarrow> (s, refuse h kInvalidHandle, None)
        | Some a \<Rightarrow>
            if \<not> at_writable a then (s, refuse h kWriteNotPermitted, None)
            else (s\<lparr>sv_attrs := set_value_at h value (sv_attrs s)\<rparr>,
                  if op = kWriteCommand then [] else [kWriteResponse], Some (h, value)))"

definition handle_request ::
    "nat \<Rightarrow> server \<Rightarrow> bytes \<Rightarrow> server \<times> bytes \<times> (u16 \<times> bytes) option" where
  "handle_request now s pdu =
     (case pdu of [] \<Rightarrow> (s, [], None)
      | op # _ \<Rightarrow>
         if op = kExchangeMtuRequest then
           (let (s', p) = handle_exchange_mtu s pdu in (s', p, None))
         else if op = kFindInformationRequest then (s, handle_find_information s pdu, None)
         else if op = kFindByTypeValueRequest then (s, handle_find_by_type_value s pdu, None)
         else if op = kReadByGroupTypeRequest then (s, handle_read_by_group_type s pdu, None)
         else if op = kReadByTypeRequest then (s, handle_read_by_type now s pdu, None)
         else if op = kReadRequest then (s, handle_read now s pdu, None)
         else if op = kReadBlobRequest then (s, handle_read_blob now s pdu, None)
         else if op = kWriteRequest \<or> op = kWriteCommand then handle_write s op pdu
         else if op = kHandleValueConfirmation then (s, [], None)
         else (s, server_error op 0 kRequestNotSupported, None))"


section \<open>The table as a store\<close>

lemma find_set_value_other:
  "h \<noteq> h' \<Longrightarrow> find (\<lambda>a. at_handle a = h') (set_value_at h v as) = find (\<lambda>a. at_handle a = h') as"
  by (induction as) auto

lemma find_set_value:
  "find (\<lambda>a. at_handle a = h) (set_value_at h v as) =
     map_option (\<lambda>a. a\<lparr>at_value := v\<rparr>) (find (\<lambda>a. at_handle a = h) as)"
  by (induction as) auto

definition stored_value :: "attribute list \<Rightarrow> u16 \<Rightarrow> bytes option" where
  "stored_value as h = map_option at_value (find (\<lambda>a. at_handle a = h) as)"

definition has_handle :: "attribute list \<Rightarrow> u16 \<Rightarrow> bool" where
  "has_handle as h \<longleftrightarrow> find (\<lambda>a. at_handle a = h) as \<noteq> None"

interpretation table: keyed_store stored_value "\<lambda>as h v. set_value_at h v as" has_handle
proof unfold_locales
  fix s k k' v
  show "has_handle (set_value_at k v s) k' = has_handle s k'"
    by (cases "k = k'") (simp_all add: has_handle_def find_set_value find_set_value_other)
qed (auto simp: stored_value_def has_handle_def find_set_value find_set_value_other)

section \<open>Every answer fits\<close>

definition server_ok :: "server \<Rightarrow> bool" where
  "server_ok s \<longleftrightarrow> 23 \<le> unat (sv_mtu s) \<and> unat (sv_mtu s) \<le> 247"

lemma length_uuid_to_le: "length (uuid_to_le u) \<le> 16"
  by (simp add: uuid_to_le_def)

lemma length_uuid_16 [simp]: "is_16bit u \<Longrightarrow> length (uuid_to_le u) = 2"
  by (simp add: uuid_to_le_def)

lemma length_server_error [simp]: "length (server_error op h c) = 5"
  by (simp add: server_error_def)

lemma find_info_fits:
  "length p \<le> mtu \<Longrightarrow> length (snd (find_info_loop mtu start stop as chose p)) \<le> mtu"
proof (induction as arbitrary: chose p)
  case (Cons a as)
  let ?q = "(if chose = None then p[1 := (if is_16bit (at_type a) then 0x01 else 0x02)] else p) @
    put16 (at_handle a) @ uuid_to_le (at_type a)"
  have "length ?q \<le> length p + 2 + (if is_16bit (at_type a) then 2 else 16)"
    using length_uuid_to_le[of "at_type a"] by auto
  then show ?case
    using Cons.prems Cons.IH[of p chose] Cons.IH[of ?q "Some (is_16bit (at_type a))"]
    by (auto simp: Let_def not_less)
qed simp

lemma find_by_type_fits:
  "length p \<le> mtu \<Longrightarrow> length (find_by_type_loop mtu start stop type want as p) \<le> mtu"
  by (induction as arbitrary: p) auto

lemma group_type_fits:
  "length p \<le> mtu \<Longrightarrow> length (snd (group_type_loop mtu start stop type as entry p)) \<le> mtu"
  by (induction as arbitrary: entry p) (auto simp: Let_def)

lemma read_type_fits:
  "read_type_loop now mtu start stop type as entry p = Inr (e, q) \<Longrightarrow> length p \<le> mtu \<Longrightarrow> length q \<le> mtu"
  by (induction as arbitrary: entry p) (auto simp: Let_def split: if_splits)

lemma handle_exchange_mtu_ok:
  "server_ok s \<Longrightarrow> server_ok (fst (handle_exchange_mtu s pdu)) \<and> length (snd (handle_exchange_mtu s pdu)) \<le> 5"
  by (auto simp: handle_exchange_mtu_def server_ok_def const_defs Let_def min_def word_less_nat_alt
      word_le_nat_alt)

lemma handle_write_ok:
  "sv_mtu (fst (handle_write s op pdu)) = sv_mtu s \<and> length (fst (snd (handle_write s op pdu))) \<le> 5"
  by (auto simp: handle_write_def Let_def split: option.splits)

lemma answers_fit:
  assumes "23 \<le> unat (sv_mtu s)"
  shows "length (handle_find_information s pdu) \<le> unat (sv_mtu s)"
    "length (handle_find_by_type_value s pdu) \<le> unat (sv_mtu s)"
    "length (handle_read_by_group_type s pdu) \<le> unat (sv_mtu s)"
    "length (handle_read_by_type now s pdu) \<le> unat (sv_mtu s)"
    "length (handle_read now s pdu) \<le> unat (sv_mtu s)"
    "length (handle_read_blob now s pdu) \<le> unat (sv_mtu s)"
proof -
  let ?m = "unat (sv_mtu s)"
  have five: "length (server_error op h c) \<le> ?m" for op h c using assms by simp
  show "length (handle_find_information s pdu) \<le> ?m"
    using five find_info_fits[of "[kFindInformationResponse, 0]" ?m "get16_at pdu 1" "get16_at pdu 3" "sv_attrs s" None] assms
    by (auto simp: handle_find_information_def Let_def split: prod.splits option.splits)
  show "length (handle_find_by_type_value s pdu) \<le> ?m"
    using five find_by_type_fits[of "[kFindByTypeValueResponse]" ?m] assms
    by (auto simp: handle_find_by_type_value_def Let_def)
  show "length (handle_read_by_group_type s pdu) \<le> ?m"
    using five group_type_fits[of "[kReadByGroupTypeResponse, 0]" ?m "get16_at pdu 1" "get16_at pdu 3" _ "sv_attrs s" 0] assms
    by (auto simp: handle_read_by_group_type_def Let_def case_prod_beta split: option.splits)
  show "length (handle_read_by_type now s pdu) \<le> ?m"
    using five read_type_fits[of now ?m "get16_at pdu 1" "get16_at pdu 3" _ "sv_attrs s" 0 "[kReadByTypeResponse, 0]"] assms
    by (auto simp: handle_read_by_type_def Let_def split: prod.splits option.splits sum.splits)
  show "length (handle_read now s pdu) \<le> ?m"
    using five assms by (auto simp: handle_read_def Let_def read_room_def split: option.splits)
  show "length (handle_read_blob now s pdu) \<le> ?m"
    using five assms by (auto simp: handle_read_blob_def Let_def read_room_def split: option.splits)
qed

text \<open>
  C5. Whatever the peer sends, the server's answer is no longer than the MTU it has
  agreed to by then, and the agreed MTU stays between the LE minimum of 23 and 247.
\<close>

theorem server_answer_fits:
  assumes "server_ok s" and "handle_request now s pdu = (s', p, w)"
  shows "server_ok s' \<and> length p \<le> unat (sv_mtu s')"
proof (cases pdu)
  case Nil
  with assms show ?thesis by (simp add: handle_request_def)
next
  case (Cons op r)
  have big: "23 \<le> unat (sv_mtu s)" using assms(1) by (simp add: server_ok_def)
  have wr: "server_ok (fst (handle_write s op pdu))" "length (fst (snd (handle_write s op pdu))) \<le> unat (sv_mtu (fst (handle_write s op pdu)))"
    using handle_write_ok[of s op pdu] assms(1) big by (auto simp: server_ok_def)
  have mt: "server_ok (fst (handle_exchange_mtu s pdu))"
    "length (snd (handle_exchange_mtu s pdu)) \<le> unat (sv_mtu (fst (handle_exchange_mtu s pdu)))"
    using handle_exchange_mtu_ok[OF assms(1), of pdu] by (auto simp: server_ok_def)
  show ?thesis
    using assms answers_fit(1-3)[OF big, of pdu] answers_fit(4-6)[OF big, of now pdu] wr mt big
    unfolding handle_request_def Cons
    by (auto simp: case_prod_beta Let_def split: if_splits)
qed

theorem server_answer_fits_witness:
  "length (fst (snd (handle_request 0 (new_server []) [0x02, 0xff, 0x00]))) \<le> 247"
  using server_answer_fits[of "new_server []" 0 "[0x02, 0xff, 0x00]"
      "fst (handle_request 0 (new_server []) [0x02, 0xff, 0x00])"
      "fst (snd (handle_request 0 (new_server []) [0x02, 0xff, 0x00]))"
      "snd (snd (handle_request 0 (new_server []) [0x02, 0xff, 0x00]))"]
  by (simp add: server_ok_def new_server_def const_defs)

section \<open>Every request is answered\<close>

lemma take1_grow [simp]:
  "p \<noteq> [] \<Longrightarrow> take (Suc 0) (p @ r) = take (Suc 0) p"
  "p \<noteq> [] \<Longrightarrow> take (Suc 0) (p[Suc 0 := x] @ r) = take (Suc 0) p"
  "take (Suc 0) (p[Suc 0 := x]) = take (Suc 0) p"
  by (cases p; simp)+

lemma find_info_head:
  "p \<noteq> [] \<Longrightarrow> take (Suc 0) (snd (find_info_loop mtu start stop as chose p)) = take (Suc 0) p"
  by (induction as arbitrary: chose p) (auto simp: Let_def Suc_le_eq)

lemma find_by_type_head:
  "p \<noteq> [] \<Longrightarrow> take (Suc 0) (find_by_type_loop mtu start stop type want as p) = take (Suc 0) p"
  by (induction as arbitrary: p) (auto simp: Suc_le_eq)

lemma group_type_head:
  "p \<noteq> [] \<Longrightarrow> take (Suc 0) (snd (group_type_loop mtu start stop type as entry p)) = take (Suc 0) p"
  by (induction as arbitrary: entry p) (auto simp: Let_def Suc_le_eq)

lemma read_type_head:
  "read_type_loop now mtu start stop type as entry p = Inr (e, q) \<Longrightarrow> p \<noteq> [] \<Longrightarrow>
   take (Suc 0) q = take (Suc 0) p"
proof (induction as arbitrary: entry p)
  case (Cons a as)
  from Cons.prems(1) Cons.IH[OF _ Cons.prems(2), of entry]
    Cons.IH[of "2 + length (current_value now a)" "p @ put16 (at_handle a) @ current_value now a"]
    Cons.IH[of "2 + length (current_value now a)" "p[Suc 0 := x] @ put16 (at_handle a) @ current_value now a" for x]
    Cons.prems(2)
  show ?case by (auto simp: Let_def Suc_le_eq split: if_splits)
qed simp


text \<open>What a well-formed answer to a request looks like.\<close>

definition answers :: "byte \<Rightarrow> bytes \<Rightarrow> bool" where
  "answers op p \<longleftrightarrow>
     (p \<noteq> [] \<and> hd p = op + 1) \<or> (\<exists>h c. p = server_error op h c)"

lemma answers_error [simp, intro]: "answers op (server_error op h c)"
  by (auto simp: answers_def)

lemma answers_response: "take (Suc 0) p = [op + 1] \<Longrightarrow> answers op p"
  by (cases p) (auto simp: answers_def)

lemma find_information_answers: "answers kFindInformationRequest (handle_find_information s pdu)"
proof -
  have "take (Suc 0) (snd (find_info_loop m a b as None [kFindInformationResponse, 0])) =
      [kFindInformationRequest + 1]" for m a b as
    by (simp add: find_info_head) (simp add: const_defs)
  then show ?thesis
    by (auto simp: handle_find_information_def Let_def case_prod_beta split: option.splits
        intro: answers_response)
qed

lemma find_by_type_value_answers: "answers kFindByTypeValueRequest (handle_find_by_type_value s pdu)"
proof -
  have "take (Suc 0) (find_by_type_loop m a b t w as [kFindByTypeValueResponse]) =
      [kFindByTypeValueRequest + 1]" for m a b t w as
    by (simp add: find_by_type_head) (simp add: const_defs)
  then show ?thesis
    by (auto simp: handle_find_by_type_value_def Let_def intro: answers_response)
qed

lemma read_by_group_type_answers: "answers kReadByGroupTypeRequest (handle_read_by_group_type s pdu)"
proof -
  have "take (Suc 0) (snd (group_type_loop m a b t as 0 [kReadByGroupTypeResponse, 0])) =
      [kReadByGroupTypeRequest + 1]" for m a b t as
    by (simp add: group_type_head) (simp add: const_defs)
  then show ?thesis
    by (auto simp: handle_read_by_group_type_def Let_def case_prod_beta split: option.splits
        intro: answers_response)
qed

lemma read_by_type_answers: "answers kReadByTypeRequest (handle_read_by_type now s pdu)"
proof -
  have "read_type_loop now m a b t as 0 [kReadByTypeResponse, 0] = Inr (e, q) \<Longrightarrow>
      take (Suc 0) q = [kReadByTypeRequest + 1]" for m a b t as e q
    using read_type_head[of now m a b t as 0 "[kReadByTypeResponse, 0]" e q] by (simp add: const_defs)
  then show ?thesis
    by (auto simp: handle_read_by_type_def Let_def split: option.splits sum.splits
        intro: answers_response)
qed

lemma reads_answer:
  "answers kReadRequest (handle_read now s pdu)"
  "answers kReadBlobRequest (handle_read_blob now s pdu)"
  "answers kExchangeMtuRequest (snd (handle_exchange_mtu s pdu))"
  "op \<noteq> kWriteCommand \<Longrightarrow> answers kWriteRequest (fst (snd (handle_write s kWriteRequest pdu)))"
  by (auto simp: handle_read_def handle_read_blob_def handle_exchange_mtu_def handle_write_def Let_def
      split: option.splits) (auto simp: answers_def const_defs)

lemma write_command_silent: "fst (snd (handle_write s kWriteCommand pdu)) = []"
  by (auto simp: handle_write_def Let_def split: option.splits)

text \<open>
  C38. A peer is never left waiting: every request is answered, by the response of that
  very opcode or by an Error Response naming it, and only a Write Command and a
  confirmation, to which ATT allows no answer, get none.
\<close>

theorem server_answers_every_request:
  assumes "handle_request now s (op # rest) = (s', p, w)"
  shows "if op = kWriteCommand \<or> op = kHandleValueConfirmation then p = [] else answers op p"
  using assms find_information_answers[of s "op # rest"] find_by_type_value_answers[of s "op # rest"]
    read_by_group_type_answers[of s "op # rest"] read_by_type_answers[of now s "op # rest"]
    reads_answer(1,2)[of now s "op # rest"] reads_answer(3)[of s "op # rest"] reads_answer(4)[of op s "op # rest"]
    write_command_silent[of s "op # rest"]
  unfolding handle_request_def
  by (cases "op = kWriteCommand"; cases "op = kHandleValueConfirmation")
    (auto simp: case_prod_beta Let_def const_defs split: if_splits)

theorem server_answers_every_request_witness:
  "answers 0x0c (fst (snd (handle_request 0 (new_server []) [0x0c, 1, 0])))"
  using server_answers_every_request[of 0 "new_server []" "0x0c" "[1, 0]"
      "fst (handle_request 0 (new_server []) [0x0c, 1, 0])"
      "fst (snd (handle_request 0 (new_server []) [0x0c, 1, 0]))"
      "snd (snd (handle_request 0 (new_server []) [0x0c, 1, 0]))"]
  by (simp add: const_defs)


section \<open>Reading and writing\<close>

text \<open>Opcodes are distinct, so a request built by the client reaches its own case.\<close>

lemma dispatch:
  "handle_request now s (read_request h) = (s, handle_read now s (read_request h), None)"
  "handle_request now s (read_blob_request h off) = (s, handle_read_blob now s (read_blob_request h off), None)"
  "handle_request now s (write_request h v) = handle_write s kWriteRequest (write_request h v)"
  "handle_request now s (read_by_group_type_request a b t) =
     (s, handle_read_by_group_type s (read_by_group_type_request a b t), None)"
  by (simp_all add: handle_request_def read_request_def read_blob_request_def write_request_def
      read_by_group_type_request_def const_defs)

lemma handle_read_built:
  "server_find s h = Some a \<Longrightarrow> at_readable a \<Longrightarrow>
   handle_read now s (read_request h) = kReadResponse # take (read_room s) (current_value now a)"
  by (simp add: handle_read_def read_request_def)

lemma handle_read_blob_built:
  "server_find s h = Some a \<Longrightarrow> at_readable a \<Longrightarrow> unat off \<le> length (current_value now a) \<Longrightarrow>
   handle_read_blob now s (read_blob_request h off) =
     kReadBlobResponse # take (read_room s) (drop (unat off) (current_value now a))"
  by (simp add: handle_read_blob_def read_blob_request_def Let_def not_less)

lemma handle_write_built:
  "server_find s h = Some a \<Longrightarrow> at_writable a \<Longrightarrow>
   handle_write s kWriteRequest (write_request h v) =
     (s\<lparr>sv_attrs := set_value_at h v (sv_attrs s)\<rparr>, [kWriteResponse], Some (h, v))"
  by (simp add: handle_write_def write_request_def Let_def const_defs)

lemma parse_read_response_simps [simp]:
  "parse_read_response (kReadResponse # v) = Some v"
  "parse_read_response (kReadBlobResponse # v) = Some v"
  by (simp_all add: parse_read_response_def)

text \<open>The bytes a client has after a Read Request and Read Blob Requests at the offsets it has reached.\<close>

fun read_long :: "nat \<Rightarrow> nat \<Rightarrow> server \<Rightarrow> u16 \<Rightarrow> bytes \<Rightarrow> bytes option" where
  "read_long 0 now s h got = Some got"
| "read_long (Suc n) now s h got =
     (let req = (if got = [] then read_request h else read_blob_request h (word_of_nat (length got)))
      in case parse_read_response (fst (snd (handle_request now s req))) of
           None \<Rightarrow> None
         | Some piece \<Rightarrow> read_long n now s h (got @ piece))"

lemma read_long_prefix:
  assumes a: "server_find s h = Some a" "at_readable a" and v: "current_value now a = v"
    and len: "length v < 65536" and room: "read_room s = r"
  shows "read_long n now s h (take k v) = Some (take (k + n * r) v)"
proof (induction n arbitrary: k)
  case (Suc n)
  let ?o = "length (take k v)"
  have off: "unat (word_of_nat ?o :: u16) = ?o"
    using len by (intro unat_len16) simp
  have "parse_read_response (fst (snd (handle_request now s
      (if take k v = [] then read_request h else read_blob_request h (word_of_nat ?o))))) =
      Some (take r (drop ?o v))"
    using a v room off handle_read_built[OF a, of now]
      handle_read_blob_built[OF a, of "word_of_nat ?o" now]
    by (auto simp: dispatch)
  moreover have "take k v @ take r (drop ?o v) = take (k + r) v"
    by (cases "k \<le> length v") (simp_all add: take_add min_def)
  ultimately show ?case
    using Suc.IH[of "k + r"] by (simp add: Let_def add.assoc)
qed simp

text \<open>
  A value longer than one PDU is read whole: as soon as the requests made carry as
  many bytes as the value has, a Read Request followed by Read Blob Requests at the
  offsets reached returns exactly the attribute's value, however small the MTU.
\<close>

theorem long_read_recovers_value:
  assumes "server_find s h = Some a" and "at_readable a" and "length (current_value now a) < 65536"
    and "length (current_value now a) \<le> n * read_room s"
  shows "read_long n now s h [] = Some (current_value now a)"
  using read_long_prefix[OF assms(1,2) refl assms(3) refl, of n 0] assms(4) by simp

theorem long_read_recovers_value_witness:
  "read_long 2 0 (new_server [new_attribute\<lparr>at_handle := 1, at_value := replicate 40 7\<rparr>]) 1 [] =
     Some (replicate 40 7)"
  using long_read_recovers_value[of "new_server [new_attribute\<lparr>at_handle := 1, at_value := replicate 40 7\<rparr>]" 1
      "new_attribute\<lparr>at_handle := 1, at_value := replicate 40 7\<rparr>" 0 2]
  by (simp add: server_find_def new_server_def new_attribute_def current_value_def read_room_def const_defs)


text \<open>A peer making Write Requests one after another; the pairs are handles and values.\<close>

fun write_each :: "nat \<Rightarrow> server \<Rightarrow> (u16 \<times> bytes) list \<Rightarrow> server" where
  "write_each now s [] = s"
| "write_each now s ((h, v) # ws) =
     write_each now (fst (handle_request now s (write_request h v))) ws"

definition all_writable :: "server \<Rightarrow> u16 list \<Rightarrow> bool" where
  "all_writable s hs \<longleftrightarrow>
     list_all (\<lambda>h. case server_find s h of None \<Rightarrow> False | Some a \<Rightarrow> at_writable a) hs"

lemma server_find_write:
  "server_find (s\<lparr>sv_attrs := set_value_at h v (sv_attrs s)\<rparr>) h' =
     (if h = h' then map_option (\<lambda>a. a\<lparr>at_value := v\<rparr>) (server_find s h) else server_find s h')"
  by (simp add: server_find_def find_set_value find_set_value_other)

lemma write_each_table:
  "all_writable s (map fst ws) \<Longrightarrow> sv_attrs (write_each now s ws) = table.put_all (sv_attrs s) ws"
proof (induction now s ws rule: write_each.induct)
  case (2 now s h v ws)
  let ?s' = "s\<lparr>sv_attrs := set_value_at h v (sv_attrs s)\<rparr>"
  obtain a where a: "server_find s h = Some a" "at_writable a"
    using "2.prems" by (auto simp: all_writable_def split: option.splits)
  have "fst (handle_request now s (write_request h v)) = ?s'"
    using handle_write_built[OF a, of v] by (simp add: dispatch)
  moreover have "all_writable ?s' (map fst ws)"
    using "2.prems" a by (auto simp: all_writable_def list_all_iff server_find_write split: option.splits)
  ultimately show ?case using "2.IH" by simp
qed simp

lemma stored_value_find: "stored_value (sv_attrs s) h = map_option at_value (server_find s h)"
  by (simp add: stored_value_def server_find_def)

text \<open>
  After any sequence of Write Requests to writable attributes, an attribute holds
  the last value written to its handle, and one that was not written holds what it held.
\<close>

theorem last_write_wins:
  assumes "all_writable s (map fst ws)" and "server_find s h = Some a"
  shows "map_option at_value (server_find (write_each now s ws) h) =
    (case map_of (rev ws) h of Some v \<Rightarrow> Some v | None \<Rightarrow> Some (at_value a))"
proof -
  have "has_handle (sv_attrs s) h" using assms(2) by (simp add: has_handle_def server_find_def)
  from table.get_put_all[OF this, of ws] show ?thesis
    using assms by (simp add: stored_value_find[symmetric] write_each_table)
      (simp add: stored_value_find split: option.splits)
qed

definition two_writable :: server where
  "two_writable = new_server
     [new_attribute\<lparr>at_handle := 1, at_writable := True\<rparr>, new_attribute\<lparr>at_handle := 2, at_writable := True\<rparr>]"

theorem last_write_wins_witness:
  "map_option at_value (server_find (write_each 0 two_writable [(1, [5]), (2, [6]), (1, [7, 8])]) 1) = Some [7, 8]"
  using last_write_wins[of two_writable "[(1, [5]), (2, [6]), (1, [7, 8])]" 1
      "new_attribute\<lparr>at_handle := 1, at_writable := True\<rparr>" 0]
  by (simp add: two_writable_def all_writable_def server_find_def new_server_def new_attribute_def)


section \<open>The tables the builder makes\<close>

datatype build_step =
    AddService uuid
  | AddCharacteristic uuid byte bytes string
  | AddDynamic uuid byte "nat \<Rightarrow> bytes" string

fun build_one :: "server_builder \<Rightarrow> build_step \<Rightarrow> server_builder" where
  "build_one b (AddService u) = fst (add_primary_service b u)"
| "build_one b (AddCharacteristic u props v desc) = fst (add_characteristic b u props v desc)"
| "build_one b (AddDynamic u props f desc) = fst (add_dynamic_characteristic b u props (Some f) desc)"

definition build :: "build_step list \<Rightarrow> attribute list" where
  "build steps = sb_attrs (foldl build_one new_builder steps)"

definition builder_ok :: "server_builder \<Rightarrow> bool" where
  "builder_ok b \<longleftrightarrow>
     map at_handle (sb_attrs b) = map word_of_nat [1..<Suc (length (sb_attrs b))] \<and>
     sb_next b = word_of_nat (Suc (length (sb_attrs b)))"

lemma map_handle_set_value [simp]: "map at_handle (set_value_at h v as) = map at_handle as"
  by (induction as) auto

lemma length_set_value [simp]: "length (set_value_at h v as) = length as"
  by (induction as) auto

lemma builder_ok_service: "builder_ok b \<Longrightarrow> builder_ok (fst (add_primary_service b u))"
  by (simp add: builder_ok_def add_primary_service_def Let_def)

lemma attr_handles [simp]:
  "at_handle (characteristic_decl d vh u props) = d"
  "at_handle (characteristic_value vh u props f) = vh"
  "at_handle (description_attr h desc) = h"
  "at_handle (cccd_attr h) = h"
  by (simp_all add: characteristic_decl_def characteristic_value_def description_attr_def cccd_attr_def)

lemma builder_ok_dynamic: "builder_ok b \<Longrightarrow> builder_ok (fst (add_dynamic_characteristic b u props f desc))"
  by (auto simp: builder_ok_def add_dynamic_characteristic_def Let_def)

lemma builder_ok_step: "builder_ok b \<Longrightarrow> builder_ok (build_one b st)"
  using builder_ok_dynamic[of b] builder_ok_service[of b]
  by (cases st) (auto simp: add_characteristic_def case_prod_beta Let_def builder_ok_def)

lemma builder_ok_foldl: "builder_ok b \<Longrightarrow> builder_ok (foldl build_one b steps)"
  by (induction steps arbitrary: b) (simp_all add: builder_ok_step)

text \<open>
  Whatever services and characteristics a table is built from, its handles are
  1, 2, 3 and so on in order, and therefore distinct as long as they fit 16 bits.
\<close>

theorem builder_numbers_from_one:
  "map at_handle (build steps) = map word_of_nat [1..<Suc (length (build steps))]"
  using builder_ok_foldl[of new_builder steps] by (simp add: build_def builder_ok_def new_builder_def)

lemma distinct_handles:
  "n < 65536 \<Longrightarrow> distinct (map (word_of_nat :: nat \<Rightarrow> u16) [1..<Suc n])"
proof -
  assume n: "n < 65536"
  have "i = j" if "i \<le> n" "j \<le> n" "(word_of_nat i :: u16) = word_of_nat j" for i j
    using arg_cong[OF that(3), of unat] that(1,2) n by (simp add: unsigned_of_nat take_bit_nat_eq_self)
  then show ?thesis by (auto simp: distinct_map inj_on_def)
qed

section \<open>Subscribing\<close>

lemma subscribed_from_skip:
  "vh \<notin> at_handle ` set as \<Longrightarrow> subscribed_from vh False (as @ bs) = subscribed_from vh False bs"
  by (induction as) auto

lemma set_value_at_skip:
  "h \<notin> at_handle ` set as \<Longrightarrow> set_value_at h v (as @ bs) = as @ set_value_at h v bs"
  by (induction as) auto

lemma find_handle_skip:
  "h \<notin> at_handle ` set as \<Longrightarrow> find (\<lambda>a. at_handle a = h) (as @ bs) = find (\<lambda>a. at_handle a = h) bs"
  by (induction as) auto

lemma uuid_from_16_eq [simp]: "uuid_from_16 a = uuid_from_16 b \<longleftrightarrow> a = b"
  by (metis short16_uuid_from_16)

lemma description_not_decl:
  "uuid_from_16 kUuidCharUserDescription \<noteq> uuid_from_16 kUuidCharacteristic"
  "\<not> is_service_decl (uuid_from_16 kUuidCharUserDescription)"
  "\<not> is_service_decl (uuid_from_16 kUuidClientCharConfig)"
  "uuid_from_16 kUuidCharUserDescription \<noteq> uuid_from_16 kUuidClientCharConfig"
  "uuid_from_16 kUuidClientCharConfig \<noteq> uuid_from_16 kUuidCharacteristic"
  by (simp_all add: is_service_decl_def) (simp_all add: const_defs)


text \<open>The attributes a notifying characteristic adds: declaration, value, description if any, CCCD.\<close>

definition described :: "u16 \<Rightarrow> string \<Rightarrow> attribute list" where
  "described n desc = (if desc = [] then [] else [description_attr n desc])"

lemma notifying_layout:
  assumes ok: "builder_ok b" and room: "length (sb_attrs b) + 4 < 65536"
    and props: "props AND (kPropNotify OR kPropIndicate) \<noteq> 0"
    and add: "add_characteristic b u props v desc = (b', vh)"
  shows "vh = sb_next b + 1"
    and "sb_attrs b' = sb_attrs b @ [characteristic_decl (sb_next b) vh u props,
           (characteristic_value vh u props None)\<lparr>at_value := v\<rparr>] @ described (vh + 1) desc
           @ [cccd_attr (sb_next b' - 1)]"
    and "distinct (map at_handle (sb_attrs b'))"
proof -
  show vh: "vh = sb_next b + 1"
    using add by (simp add: add_characteristic_def add_dynamic_characteristic_def Let_def split: if_splits prod.splits)
  have ok': "builder_ok b'" using builder_ok_step[OF ok, of "AddCharacteristic u props v desc"] add by simp
  have len: "length (sb_attrs b') \<le> length (sb_attrs b) + 4"
    using add by (auto simp: add_characteristic_def add_dynamic_characteristic_def Let_def split: if_splits prod.splits)
  show d: "distinct (map at_handle (sb_attrs b'))"
    using ok' len room distinct_handles[of "length (sb_attrs b')"] unfolding builder_ok_def by simp
  have pre: "vh \<notin> at_handle ` set (sb_attrs b)" "sb_next b \<noteq> vh"
    using d add by (auto simp: add_characteristic_def add_dynamic_characteristic_def Let_def vh
        set_value_at_skip split: if_splits prod.splits)
  show "sb_attrs b' = sb_attrs b @ [characteristic_decl (sb_next b) vh u props,
           (characteristic_value vh u props None)\<lparr>at_value := v\<rparr>] @ described (vh + 1) desc
           @ [cccd_attr (sb_next b' - 1)]"
    using add props pre
    by (auto simp: add_characteristic_def add_dynamic_characteristic_def Let_def described_def
        set_value_at_skip vh add.commute split: if_splits)
qed


lemma subscribed_from_layout:
  assumes "vh \<notin> at_handle ` set as" and "d \<noteq> vh" and "vh + 1 \<noteq> vh" and "ch \<noteq> vh"
  shows "subscribed_from vh False (as @ [characteristic_decl d vh u props,
      (characteristic_value vh u props None)\<lparr>at_value := v\<rparr>] @ described (vh + 1) desc @
      (cccd_attr ch)\<lparr>at_value := cv\<rparr> # rest) \<longleftrightarrow> 2 \<le> length cv \<and> (cv ! 0) AND 0x03 \<noteq> 0"
  using assms description_not_decl
  by (simp add: subscribed_from_skip described_def) (simp add: description_attr_def cccd_attr_def)

text \<open>
  C27. Subscription, end to end.  In a table that starts with a characteristic laid out
  by the builder with notify or indicate, the peer is not subscribed and a notification
  is empty; after a Write Request of the notify or indicate bit to the CCCD it is
  acknowledged, subscribed, and gets the value under its handle, cut to the MTU.
\<close>

theorem subscription_starts_notifications:
  assumes "builder_ok b" and "length (sb_attrs b) + 4 < 65536"
    and "props AND (kPropNotify OR kPropIndicate) \<noteq> 0"
    and "add_characteristic b u props v desc = (b', vh)"
    and "sv_attrs s = sb_attrs b' @ others" and "server_ok s" and "flags AND 0x03 \<noteq> 0"
    and "handle_request now s (write_request (sb_next b' - 1) [flags, 0]) = (s', p, w)"
  shows "\<not> subscribed s vh \<and> notification s vh data = [] \<and> p = [kWriteResponse] \<and> subscribed s' vh \<and>
    notification s' vh data =
      kHandleValueNotification # put16 vh @ take (unat (sv_mtu s') - 3) data"
proof -
  note lay = notifying_layout[OF assms(1-4)]
  let ?ch = "sb_next b' - 1"
  let ?pre = "sb_attrs b @ [characteristic_decl (sb_next b) vh u props,
      (characteristic_value vh u props None)\<lparr>at_value := v\<rparr>] @ described (vh + 1) desc"
  have at: "sv_attrs s = ?pre @ cccd_attr ?ch # others" using lay(2) assms(5) by simp
  have d: "vh \<notin> at_handle ` set (sb_attrs b)" "sb_next b \<noteq> vh" "?ch \<noteq> vh"
    "?ch \<notin> at_handle ` set ?pre"
    using lay(3) unfolding lay(2) by (auto simp: image_iff)
  have cccd: "cccd_attr ?ch = (cccd_attr ?ch)\<lparr>at_value := [0, 0]\<rparr>" by (simp add: cccd_attr_def)
  have sub: "subscribed_from vh False (?pre @ (cccd_attr ?ch)\<lparr>at_value := cv\<rparr> # others) \<longleftrightarrow>
      2 \<le> length cv \<and> (cv ! 0) AND 0x03 \<noteq> 0" for cv
    using subscribed_from_layout[of vh "sb_attrs b" "sb_next b" ?ch u props v desc cv others] d by simp
  have not_before: "\<not> subscribed s vh" using sub[of "[0, 0]"] cccd at by (simp add: subscribed_def)
  have found: "server_find s ?ch = Some (cccd_attr ?ch)"
    unfolding server_find_def at using d(4) by (subst find_handle_skip) simp_all
  have w: "at_writable (cccd_attr ?ch)" by (simp add: cccd_attr_def)
  have written: "s' = s\<lparr>sv_attrs := ?pre @ (cccd_attr ?ch)\<lparr>at_value := [flags, 0]\<rparr> # others\<rparr>" "p = [kWriteResponse]"
    using assms(8) handle_write_built[OF found w, of "[flags, 0]"] d(4)
    unfolding at by (simp_all add: dispatch set_value_at_skip[where as = ?pre, simplified])
  have after: "subscribed s' vh" using sub[of "[flags, 0]"] assms(7) written(1) by (simp add: subscribed_def)
  show ?thesis
    using not_before after written assms(6) by (auto simp: notification_def Let_def server_ok_def)
qed


definition notify_table :: "server_builder \<times> u16" where
  "notify_table = add_characteristic (fst (add_primary_service new_builder (uuid_from_16 0x180f)))
     (uuid_from_16 0x2a19) 0x12 [99] ''level''"

theorem subscription_starts_notifications_witness:
  "let s = new_server (sb_attrs (fst notify_table));
       (s', p, w) = handle_request 0 s (write_request 5 [1, 0])
   in notification s 3 [1, 2] = [] \<and> notification s' 3 [1, 2] = [0x1b, 3, 0, 1, 2]"
proof -
  let ?b = "fst (add_primary_service new_builder (uuid_from_16 0x180f))"
  let ?s = "new_server (sb_attrs (fst notify_table))"
  let ?r = "handle_request 0 ?s (write_request 5 [1, 0])"
  have b: "builder_ok ?b" by (rule builder_ok_service) (simp add: builder_ok_def new_builder_def)
  have "snd notify_table = 3" and c: "sb_next (fst notify_table) - 1 = 5" by code_simp+
  then have n: "notify_table = (fst notify_table, 3)" by (metis surjective_pairing)
  have m: "server_ok ?s" "\<not> unat (sv_mtu (fst ?r)) - 3 < 20"
    by (simp add: server_ok_def new_server_def const_defs) code_simp
  show ?thesis
    using subscription_starts_notifications[OF b _ _ n[unfolded notify_table_def], of ?s "[]" 1 0
        "fst ?r" "fst (snd ?r)" "snd (snd ?r)" "[1, 2]"] c m
    by (simp add: case_prod_beta Let_def new_server_def add_primary_service_def new_builder_def
        const_defs notify_table_def put16_def)
qed


section \<open>Discovering services\<close>

text \<open>What a client should learn: the services of a type declared in a range of handles.\<close>

fun service_groups :: "u16 \<Rightarrow> u16 \<Rightarrow> uuid \<Rightarrow> attribute list \<Rightarrow> (u16 \<times> u16 \<times> bytes) list" where
  "service_groups start stop type [] = []"
| "service_groups start stop type (a # rest) =
     (if in_range start stop a \<and> at_type a = type
      then (at_handle a, group_end (at_handle a) rest, at_value a) # service_groups start stop type rest
      else service_groups start stop type rest)"

definition group_bytes :: "u16 \<times> u16 \<times> bytes \<Rightarrow> bytes" where
  "group_bytes g = (case g of (h, e, v) \<Rightarrow> put16 h @ put16 e @ v)"

definition group_range :: "u16 \<times> u16 \<times> bytes \<Rightarrow> service_range" where
  "group_range g = (case g of (h, e, v) \<Rightarrow>
     \<lparr>sr_start = h, sr_end = e, sr_uuid = (case uuid_from_le v of Some u \<Rightarrow> u | None \<Rightarrow> Uuid [])\<rparr>)"

definition services_ok :: "attribute list \<Rightarrow> bool" where
  "services_ok as \<longleftrightarrow>
     list_all (\<lambda>a. is_service_decl (at_type a) \<longrightarrow> length (at_value a) = 2 \<or> length (at_value a) = 16) as"

definition group_width :: "u16 \<times> u16 \<times> bytes \<Rightarrow> nat" where
  "group_width g = 4 + length (snd (snd g))"

lemma length_group_bytes [simp]: "length (group_bytes g) = group_width g"
  by (cases g) (simp add: group_bytes_def group_width_def)

lemma group_type_loop_more:
  "entry \<noteq> 0 \<Longrightarrow> \<exists>gs. prefix gs (service_groups start stop type as) \<and> (\<forall>g \<in> set gs. group_width g = entry) \<and>
     group_type_loop mtu start stop type as entry p = (entry, p @ concat (map group_bytes gs))"
proof (induction as arbitrary: p)
  case (Cons a as)
  let ?g = "(at_handle a, group_end (at_handle a) as, at_value a)"
  have none: "\<exists>gs. prefix gs (service_groups start stop type (a # as)) \<and> (\<forall>g \<in> set gs. group_width g = entry) \<and>
      (entry, p) = (entry, p @ concat (map group_bytes gs))"
    by (rule exI[of _ "[]"]) simp
  show ?case
  proof (cases "in_range start stop a \<and> at_type a = type")
    case False
    with Cons.IH[OF Cons.prems, of p] show ?thesis by auto
  next
    case True
    show ?thesis
    proof (cases "4 + length (at_value a) = entry \<and> \<not> length p + entry > mtu")
      case False
      then have "group_type_loop mtu start stop type (a # as) entry p = (entry, p)"
        using True Cons.prems by (auto simp: Let_def)
      with none show ?thesis by simp
    next
      case fits: True
      from Cons.IH[OF Cons.prems, of "p @ group_bytes ?g"] obtain gs where
        gs: "prefix gs (service_groups start stop type as)" "\<forall>g \<in> set gs. group_width g = entry"
          "group_type_loop mtu start stop type as entry (p @ group_bytes ?g) =
             (entry, (p @ group_bytes ?g) @ concat (map group_bytes gs))" by blast
      have "group_type_loop mtu start stop type (a # as) entry p =
          group_type_loop mtu start stop type as entry (p @ group_bytes ?g)"
        using True fits Cons.prems by (simp add: group_bytes_def)
      with gs True fits show ?thesis
        by (intro exI[of _ "?g # gs"]) (simp add: group_width_def)
    qed
  qed
qed (rule exI[of _ "[]"], simp)

lemma group_type_loop_start:
  assumes "services_ok as" and "is_service_decl type" and "23 \<le> mtu"
  shows "case service_groups start stop type as of
      [] \<Rightarrow> group_type_loop mtu start stop type as 0 [op, 0] = (0, [op, 0])
    | g # _ \<Rightarrow> \<exists>gs. gs \<noteq> [] \<and> prefix gs (service_groups start stop type as) \<and>
        (\<forall>h \<in> set gs. group_width h = group_width g) \<and> group_width g \<in> {6, 20} \<and>
        group_type_loop mtu start stop type as 0 [op, 0] =
          (group_width g, [op, word_of_nat (group_width g)] @ concat (map group_bytes gs))"
  using assms(1)
proof (induction as)
  case (Cons a as)
  let ?g = "(at_handle a, group_end (at_handle a) as, at_value a)"
  show ?case
  proof (cases "in_range start stop a \<and> at_type a = type")
    case False
    then have skip: "group_type_loop mtu start stop type (a # as) 0 [op, 0] = group_type_loop mtu start stop type as 0 [op, 0]"
      "service_groups start stop type (a # as) = service_groups start stop type as" by auto
    have "services_ok as" using Cons.prems by (simp add: services_ok_def)
    from Cons.IH[OF this] show ?thesis by (simp only: skip)
  next
    case True
    then have w: "group_width ?g \<in> {6, 20}"
      using Cons.prems assms(2) by (auto simp: services_ok_def group_width_def)
    have "group_type_loop mtu start stop type (a # as) 0 [op, 0] =
        group_type_loop mtu start stop type as (group_width ?g)
          ([op, word_of_nat (group_width ?g)] @ group_bytes ?g)"
      using True w assms(3) by (auto simp: group_width_def group_bytes_def Let_def)
    moreover obtain gs where "prefix gs (service_groups start stop type as)"
        "\<forall>g \<in> set gs. group_width g = group_width ?g"
        "group_type_loop mtu start stop type as (group_width ?g)
          ([op, word_of_nat (group_width ?g)] @ group_bytes ?g) =
          (group_width ?g, ([op, word_of_nat (group_width ?g)] @ group_bytes ?g) @ concat (map group_bytes gs))"
      using group_type_loop_more[of "group_width ?g"] w by (metis insertE less_not_refl zero_less_numeral singletonD)
    ultimately show ?thesis using True w
      by simp (intro exI[of _ "?g # gs"], simp)
  qed
qed simp


lemma blocks_groups:
  "\<forall>g \<in> set gs. group_width g = w \<Longrightarrow> 0 < w \<Longrightarrow> blocks w (concat (map group_bytes gs)) = map group_bytes gs"
  using blocks_concat[of w "map group_bytes gs" "[]"] by simp

lemma uuid_from_le_short: "length v = 2 \<or> length v = 16 \<Longrightarrow> uuid_from_le v \<noteq> None"
  by (auto simp: uuid_from_le_def)

lemma service_entry_group:
  "group_width g \<in> {6, 20} \<Longrightarrow> service_entry (group_bytes g) = Some (group_range g)"
  using uuid_from_le_short[of "snd (snd g)"]
  by (cases g) (auto simp: group_bytes_def group_width_def service_entry_def group_range_def)

lemma parse_group_response:
  assumes "\<forall>g \<in> set gs. group_width g = w" and "w \<in> {6, 20}"
  shows "parse_read_by_group_type_response
      ([kReadByGroupTypeResponse, word_of_nat w] @ concat (map group_bytes gs)) =
      (True, map group_range gs)"
proof -
  have w: "unat (word_of_nat w :: byte) = w" using assms(2) by auto
  have "collect service_entry (map group_bytes gs) [] = (True, map group_range gs)"
    using assms service_entry_group collect_all[of "map group_bytes gs" service_entry
        "\<lambda>b. case service_entry b of Some r \<Rightarrow> r" "[]"]
    by (simp cong: map_cong)
  then show ?thesis
    using assms w blocks_groups[of gs w] by (auto simp: parse_read_by_group_type_response_def Let_def)
qed


text \<open>
  C33. Service discovery tells the truth.  Asked by the client for the services in a
  range, the server answers Attribute Not Found exactly when the table declares none
  there; otherwise the client parses the answer into a non-empty run, in order, of the
  services the table declares, each with its last handle, so continuing after the last
  one misses nothing.
\<close>

theorem discovery_reports_services:
  assumes "server_ok s" and "services_ok (sv_attrs s)" and "is_service_decl type"
    and "start \<noteq> 0" and "start \<le> stop"
    and "handle_request now s (read_by_group_type_request start stop type) = (s', p, w)"
  shows "if service_groups start stop type (sv_attrs s) = []
    then p = server_error kReadByGroupTypeRequest start kAttributeNotFound
    else \<exists>gs. gs \<noteq> [] \<and> prefix gs (service_groups start stop type (sv_attrs s)) \<and>
      parse_read_by_group_type_response p = (True, map group_range gs)"
proof -
  have t: "uuid_from_le (uuid_to_le type) = Some type" "2 \<le> length (uuid_to_le type)"
    using assms(3) by (auto simp: is_service_decl_def uuid_le_trip is_16bit_uuid_from_16)
  have d: "drop 5 (read_by_group_type_request start stop type) = uuid_to_le type"
    "\<not> length (read_by_group_type_request start stop type) < 7"
    "get16_at (read_by_group_type_request start stop type) 1 = start"
    "get16_at (read_by_group_type_request start stop type) 3 = stop"
    using t(2) by (simp_all add: read_by_group_type_request_def)
  let ?loop = "group_type_loop (unat (sv_mtu s)) start stop type (sv_attrs s) 0 [kReadByGroupTypeResponse, 0]"
  have p: "p = (if fst ?loop = 0 then server_error kReadByGroupTypeRequest start kAttributeNotFound else snd ?loop)"
    using assms(3-6) t(1) d
    by (auto simp: dispatch handle_read_by_group_type_def Let_def case_prod_beta not_less[symmetric])
  have "23 \<le> unat (sv_mtu s)" using assms(1) by (simp add: server_ok_def)
  note start = group_type_loop_start[OF assms(2,3) this, of start stop kReadByGroupTypeResponse]
  show ?thesis
  proof (cases "service_groups start stop type (sv_attrs s)")
    case Nil
    with start p show ?thesis by simp
  next
    case (Cons g r)
    with start obtain gs where gs: "gs \<noteq> []" "prefix gs (service_groups start stop type (sv_attrs s))"
        "\<forall>h \<in> set gs. group_width h = group_width g" "group_width g \<in> {6, 20}"
        "?loop = (group_width g, [kReadByGroupTypeResponse, word_of_nat (group_width g)] @ concat (map group_bytes gs))"
      by auto
    with Cons p parse_group_response[OF gs(3,4)] show ?thesis by auto
  qed
qed

definition two_services :: server where
  "two_services = new_server (build
     [AddService (uuid_from_16 0x1800), AddCharacteristic (uuid_from_16 0x2a00) 0x02 [65] [],
      AddService (uuid_from_16 0x180a)])"

theorem discovery_reports_services_witness:
  "\<exists>gs. gs \<noteq> [] \<and> prefix gs [(1, 3, [0x00, 0x18]), (4, 4, [0x0a, 0x18])] \<and>
     parse_read_by_group_type_response (fst (snd (handle_request 0 two_services
       (read_by_group_type_request 1 0xffff (uuid_from_16 0x2800))))) = (True, map group_range gs)"
proof -
  let ?r = "handle_request 0 two_services (read_by_group_type_request 1 0xffff (uuid_from_16 0x2800))"
  have "server_ok two_services" "services_ok (sv_attrs two_services)"
    "is_service_decl (uuid_from_16 0x2800)"
    "service_groups 1 0xffff (uuid_from_16 0x2800) (sv_attrs two_services) =
       [(1, 3, [0x00, 0x18]), (4, 4, [0x0a, 0x18])]" by code_simp+
  then show ?thesis
    using discovery_reports_services[where s = two_services and type = "uuid_from_16 0x2800"
        and start = 1 and stop = "0xffff" and now = 0 and s' = "fst ?r" and p = "fst (snd ?r)"
        and w = "snd (snd ?r)"] by simp
qed

end
