(* ===== verification/Calendar.thy ===== *)
theory Calendar
  imports Complex_Main "HOL-Library.Signed_Division"
begin

text \<open>
  The calendar arithmetic of \<open>src/bmd.cc\<close>: the days-from-civil pair and \<open>add_days\<close>.
  \<open>int\<close> and \<open>int64_t\<close> are integers (no value here comes near their bounds), C division
  is \<open>sdiv\<close>, and every \<open>unsigned\<close> intermediate is reduced modulo \<open>2 ^ 32\<close>.
\<close>

record civil =
  year :: int
  month :: int
  day :: int
  hour :: int
  minute :: int
  second :: int

definition to_unsigned :: "int \<Rightarrow> int" where
  "to_unsigned x = x mod 4294967296"

definition days_from_civil :: "int \<Rightarrow> int \<Rightarrow> int \<Rightarrow> int" where
  "days_from_civil y0 m d =
     (let y = y0 - (if m \<le> 2 then 1 else 0);
          era = (if 0 \<le> y then y else y - 399) sdiv 400;
          yoe = to_unsigned (y - era * 400);
          doy = to_unsigned ((153 * (m + (if 2 < m then -3 else 9)) + 2) sdiv 5 + d - 1);
          doe = to_unsigned (yoe * 365 + yoe div 4 - yoe div 100 + doy)
      in era * 146097 + doe - 719468)"

definition civil_from_days :: "int \<Rightarrow> int \<times> int \<times> int" where
  "civil_from_days z0 =
     (let z = z0 + 719468;
          era = (if 0 \<le> z then z else z - 146096) sdiv 146097;
          doe = to_unsigned (z - era * 146097);
          yoe = to_unsigned (doe - doe div 1460 + doe div 36524 - doe div 146096) div 365;
          yr = yoe + era * 400;
          doy = to_unsigned (doe - (365 * yoe + yoe div 4 - yoe div 100));
          mp = to_unsigned (5 * doy + 2) div 153;
          d = to_unsigned (doy - (153 * mp + 2) div 5 + 1);
          m = to_unsigned (mp + (if mp < 10 then 3 else -9))
      in (yr + (if m \<le> 2 then 1 else 0), m, d))"

definition add_days :: "civil \<Rightarrow> int \<Rightarrow> civil" where
  "add_days c days =
     (if days = 0 then c
      else let (y, m, d) = civil_from_days (days_from_civil (year c) (month c) (day c) + days)
        in c\<lparr>year := y, month := m, day := d\<rparr>)"

section \<open>The Gregorian calendar, as a reference\<close>

definition leap :: "int \<Rightarrow> bool" where
  "leap y \<longleftrightarrow> y mod 4 = 0 \<and> (y mod 100 \<noteq> 0 \<or> y mod 400 = 0)"

definition month_length :: "int \<Rightarrow> int \<Rightarrow> int" where
  "month_length y m =
     (if m = 2 then (if leap y then 29 else 28)
      else if m = 4 \<or> m = 6 \<or> m = 9 \<or> m = 11 then 30 else 31)"

definition valid_date :: "int \<times> int \<times> int \<Rightarrow> bool" where
  "valid_date ymd = (case ymd of (y, m, d) \<Rightarrow> 1 \<le> m \<and> m \<le> 12 \<and> 1 \<le> d \<and> d \<le> month_length y m)"

definition next_day :: "int \<times> int \<times> int \<Rightarrow> int \<times> int \<times> int" where
  "next_day ymd = (case ymd of (y, m, d) \<Rightarrow>
     if d < month_length y m then (y, m, d + 1)
     else if m < 12 then (y, m + 1, 1)
     else (y + 1, 1, 1))"

section \<open>One era of 400 years\<close>

lemma sdiv_pos: "0 \<le> a \<Longrightarrow> 0 < b \<Longrightarrow> (a :: int) sdiv b = a div b"
  by (simp add: divide_int_eq_signed_divide_int sgn_if)

lemma floor_trick:
  assumes "0 < b" and "c = b - 1"
  shows "(if 0 \<le> a then a else a - c) sdiv b = (a :: int) div b"
proof (cases "0 \<le> a")
  case False
  have "c - a = b * (- (a div b)) + (b - 1 - a mod b)"
    using assms(2) minus_mod_eq_mult_div[of a b] by (simp add: algebra_simps)
  from int_div_pos_eq[OF this] have "(c - a) div b = - (a div b)"
    using pos_mod_bound[OF assms(1), of a] pos_mod_sign[OF assms(1), of a] by simp
  moreover have "sgn (a - c) = -1" "\<bar>a - c\<bar> = c - a" using False assms by auto
  ultimately show ?thesis using False assms(1) by (simp add: signed_divide_int_def)
qed (simp add: sdiv_pos assms)

lemma to_unsigned_id: "0 \<le> x \<Longrightarrow> x < 4294967296 \<Longrightarrow> to_unsigned x = x"
  by (simp add: to_unsigned_def)

text \<open>The first day and the last of a year that starts in March, counted within its era.\<close>

definition year_start :: "int \<Rightarrow> int" where
  "year_start y = y * 365 + y div 4 - y div 100"

definition year_last :: "int \<Rightarrow> int" where
  "year_last y = (if y = 399 then 146096 else year_start (y + 1) - 1)"

definition year_of_day :: "int \<Rightarrow> int" where
  "year_of_day doe = (doe - doe div 1460 + doe div 36524 - doe div 146096) div 365"

definition month_of_index :: "int \<Rightarrow> int" where
  "month_of_index mp = (if mp < 10 then mp + 3 else mp - 9)"

definition month_start :: "int \<Rightarrow> int" where
  "month_start mp = (153 * mp + 2) div 5"

lemma year_ends:
  "0 \<le> y \<Longrightarrow> y \<le> 399 \<Longrightarrow>
   year_of_day (year_start y) = y \<and> year_of_day (year_last y) = y \<and>
   year_start y \<le> year_last y \<and> year_last y \<le> 146096 \<and> 0 \<le> year_start y \<and>
   year_last y - year_start y = (if leap (y + 1) then 365 else 364)"
proof -
  have "\<forall>y \<in> set [0..399]. year_of_day (year_start y) = y \<and> year_of_day (year_last y) = y \<and>
     year_start y \<le> year_last y \<and> year_last y \<le> 146096 \<and> 0 \<le> year_start y \<and>
     year_last y - year_start y = (if leap (y + 1) then 365 else 364)"
    by code_simp
  then show "0 \<le> y \<Longrightarrow> y \<le> 399 \<Longrightarrow> ?thesis" by simp
qed

lemma month_index_facts:
  "0 \<le> mp \<Longrightarrow> mp \<le> 11 \<Longrightarrow> 1 \<le> d \<Longrightarrow> d \<le> (if mp = 11 then 29 else month_length 1 (month_of_index mp)) \<Longrightarrow>
   (5 * (month_start mp + d - 1) + 2) div 153 = mp \<and> 0 \<le> month_start mp \<and>
   month_start mp + d - 1 \<le> (if mp = 11 \<and> d = 29 then 365 else 364)"
proof -
  have all: "\<forall>mp \<in> set [0..11]. \<forall>d \<in> set [1..31]. d \<le> (if mp = 11 then 29 else month_length 1 (month_of_index mp)) \<longrightarrow>
     (5 * (month_start mp + d - 1) + 2) div 153 = mp \<and> 0 \<le> month_start mp \<and>
     month_start mp + d - 1 \<le> (if mp = 11 \<and> d = 29 then 365 else 364)"
    by code_simp
  have "(if mp = 11 then 29 else month_length 1 (month_of_index mp)) \<le> 31"
    by (simp add: month_length_def)
  then show "0 \<le> mp \<Longrightarrow> mp \<le> 11 \<Longrightarrow> 1 \<le> d \<Longrightarrow>
      d \<le> (if mp = 11 then 29 else month_length 1 (month_of_index mp)) \<Longrightarrow> ?thesis"
    using bspec[OF bspec[OF all, of mp], of d] by simp
qed

lemma year_of_day_mono:
  assumes "0 \<le> a" and "a \<le> b" and "b \<le> 146096"
  shows "year_of_day a \<le> year_of_day b"
proof -
  have mono: "year_of_day a \<le> year_of_day b" if "a \<le> b" "b < 146096" "0 \<le> a" for a b
  proof -
    have "a - a div 1460 \<le> b - b div 1460" using that by linarith
    moreover have "a div 36524 \<le> b div 36524" using that by (simp add: zdiv_mono1)
    ultimately show ?thesis using that unfolding year_of_day_def by (intro zdiv_mono1) simp_all
  qed
  show ?thesis
  proof (cases "b = 146096 \<and> a < b")
    case True
    then have "year_of_day a \<le> year_of_day 146095" using assms by (intro mono) simp_all
    moreover have "year_of_day 146095 = year_of_day 146096" by code_simp
    ultimately show ?thesis using True by simp
  next
    case False
    then show ?thesis using assms mono[of a b] by (cases "a = b") auto
  qed
qed

lemma year_of_day_between:
  "0 \<le> y \<Longrightarrow> y \<le> 399 \<Longrightarrow> year_start y \<le> doe \<Longrightarrow> doe \<le> year_last y \<Longrightarrow> year_of_day doe = y"
  using year_ends[of y] year_of_day_mono[of "year_start y" doe] year_of_day_mono[of doe "year_last y"]
  by force


section \<open>Both directions, through one description of a day\<close>

text \<open>
  A day number is an era, a year within it counted from March, a month index from March
  and a day of the month; both functions of the code go through that description.
\<close>

definition day_ok :: "int \<Rightarrow> int \<Rightarrow> int \<Rightarrow> bool" where
  "day_ok yoe mp d \<longleftrightarrow> 0 \<le> yoe \<and> yoe \<le> 399 \<and> 0 \<le> mp \<and> mp \<le> 11 \<and> 1 \<le> d \<and>
     d \<le> (if mp = 11 then (if leap (yoe + 1) then 29 else 28) else month_length 1 (month_of_index mp))"

definition day_number :: "int \<Rightarrow> int \<Rightarrow> int \<Rightarrow> int \<Rightarrow> int" where
  "day_number era yoe mp d = era * 146097 + (year_start yoe + (month_start mp + d - 1)) - 719468"

definition day_date :: "int \<Rightarrow> int \<Rightarrow> int \<Rightarrow> int \<Rightarrow> int \<times> int \<times> int" where
  "day_date era yoe mp d =
     (yoe + era * 400 + (if mp < 10 then 0 else 1), month_of_index mp, d)"

lemma day_bounds:
  assumes "day_ok yoe mp d"
  shows "year_start yoe \<le> year_start yoe + (month_start mp + d - 1)"
    "year_start yoe + (month_start mp + d - 1) \<le> year_last yoe"
    "(5 * (month_start mp + d - 1) + 2) div 153 = mp"
proof -
  from assms have "d \<le> (if mp = 11 then 29 else month_length 1 (month_of_index mp))"
    by (auto simp: day_ok_def split: if_splits)
  with assms have m: "(5 * (month_start mp + d - 1) + 2) div 153 = mp" "0 \<le> month_start mp"
    "month_start mp + d - 1 \<le> (if mp = 11 \<and> d = 29 then 365 else 364)"
    using month_index_facts[of mp d] by (auto simp: day_ok_def)
  show "(5 * (month_start mp + d - 1) + 2) div 153 = mp" by (rule m(1))
  show "year_start yoe \<le> year_start yoe + (month_start mp + d - 1)"
    using m(2) assms by (simp add: day_ok_def)
  show "year_start yoe + (month_start mp + d - 1) \<le> year_last yoe"
    using m(3) year_ends[of yoe] assms by (auto simp: day_ok_def split: if_splits)
qed

lemma to_unsigned_year:
  assumes "0 \<le> x" and "x \<le> 146096"
  shows "to_unsigned (x - x div 1460 + x div 36524 - x div 146096) = x - x div 1460 + x div 36524 - x div 146096"
proof (rule to_unsigned_id)
  show "0 \<le> x - x div 1460 + x div 36524 - x div 146096" using assms by linarith
  show "x - x div 1460 + x div 36524 - x div 146096 < 4294967296" using assms by linarith
qed

lemma civil_from_parts:
  assumes doe: "0 \<le> doe" "doe \<le> 146096" and yoe: "year_of_day doe = yoe"
    and doy: "doe - year_start yoe = doy" "0 \<le> doy" "doy \<le> 400"
    and mp: "(5 * doy + 2) div 153 = mp" "0 \<le> mp" "mp \<le> 11"
    and d: "doy - month_start mp + 1 = d" "1 \<le> d" "d \<le> 31"
  shows "civil_from_days (era * 146097 + doe - 719468) =
    (yoe + era * 400 + (if mp < 10 then 0 else 1), month_of_index mp, d)"
proof -
  have z: "era * 146097 + doe - 719468 + 719468 = era * 146097 + doe" by simp
  have era: "(if 0 \<le> era * 146097 + doe then era * 146097 + doe else era * 146097 + doe - 146096) sdiv 146097 = era"
    using doe by (subst floor_trick) simp_all
  have rest: "era * 146097 + doe - era * 146097 = doe" by simp
  have u: "to_unsigned doe = doe" using doe by (simp add: to_unsigned_id)
  have u1: "to_unsigned (doe - doe div 1460 + doe div 36524 - doe div 146096) div 365 = yoe"
    using yoe doe by (simp only: to_unsigned_year year_of_day_def)
  have u2: "to_unsigned (doe - (365 * yoe + yoe div 4 - yoe div 100)) = doy"
    using doy by (simp add: year_start_def to_unsigned_id mult.commute)
  have u3: "to_unsigned (5 * doy + 2) div 153 = mp"
    using doy(2,3) mp(1) by (subst to_unsigned_id) simp_all
  have u4: "to_unsigned (doy - (153 * mp + 2) div 5 + 1) = d"
    using d by (simp add: month_start_def to_unsigned_id)
  have u5: "to_unsigned (mp + (if mp < 10 then 3 else -9)) = month_of_index mp"
    using mp(2,3) by (simp add: month_of_index_def to_unsigned_id)
  have m: "(if month_of_index mp \<le> 2 then 1 else 0) = (if mp < 10 then 0 else 1 :: int)"
    using mp(2,3) by (auto simp: month_of_index_def)
  show ?thesis
    by (simp only: civil_from_days_def Let_def z era rest u u1 u2 u3 u4 u5 m)
qed

lemma civil_from_day_number:
  assumes "day_ok yoe mp d"
  shows "civil_from_days (day_number era yoe mp d) = day_date era yoe mp d"
proof -
  let ?doy = "month_start mp + d - 1"
  have y: "0 \<le> yoe" "yoe \<le> 399" "0 \<le> mp" "mp \<le> 11" "1 \<le> d" "d \<le> 31"
    using assms by (auto simp: day_ok_def month_length_def split: if_splits)
  note b = day_bounds[OF assms] and e = year_ends[OF y(1,2)]
  have r: "0 \<le> year_start yoe + ?doy" "year_start yoe + ?doy \<le> 146096" "0 \<le> ?doy" "?doy \<le> 400"
    using b e by (auto split: if_splits)
  from year_of_day_between[OF y(1,2) b(1,2)] have yd: "year_of_day (year_start yoe + ?doy) = yoe" .
  have dd: "?doy - month_start mp + 1 = d" "year_start yoe + ?doy - year_start yoe = ?doy" by simp_all
  show ?thesis
    unfolding day_number_def day_date_def
    by (rule civil_from_parts[OF r(1,2) yd dd(2) r(3,4) b(3) y(3,4) dd(1) y(5,6)])
qed

lemma days_from_day_date:
  assumes "day_ok yoe mp d" and "day_date era yoe mp d = (y, m, d')"
  shows "days_from_civil y m d' = day_number era yoe mp d"
proof -
  let ?doy = "month_start mp + d - 1"
  have r: "0 \<le> yoe" "yoe \<le> 399" "0 \<le> mp" "mp \<le> 11"
    using assms by (auto simp: day_ok_def)
  note b = day_bounds[OF assms(1)] and e = year_ends[OF r(1,2)]
  have s: "0 \<le> year_start yoe + ?doy" "year_start yoe + ?doy \<le> 146096" "0 \<le> ?doy" "?doy \<le> 400"
    using b e by (auto split: if_splits)
  have ymd: "y = yoe + era * 400 + (if mp < 10 then 0 else 1)" "m = month_of_index mp" "d' = d"
    using assms(2) by (auto simp: day_date_def)
  have m: "(if m \<le> 2 then 1 else 0) = (if mp < 10 then 0 else 1 :: int)" "m + (if 2 < m then -3 else 9) = mp"
    using r(3,4) by (auto simp: ymd month_of_index_def)
  have sy: "y - (if m \<le> 2 then 1 else 0) = era * 400 + yoe" unfolding m(1) by (simp add: ymd)
  have era: "(if 0 \<le> era * 400 + yoe then era * 400 + yoe else era * 400 + yoe - 399) sdiv 400 = era"
    using r by (subst floor_trick) simp_all
  have yo: "to_unsigned (era * 400 + yoe - era * 400) = yoe" using r by (simp add: to_unsigned_id)
  have dy: "to_unsigned ((153 * mp + 2) sdiv 5 + d - 1) = ?doy"
    using r s(3,4) by (simp add: sdiv_pos month_start_def to_unsigned_id)
  have de: "to_unsigned (yoe * 365 + yoe div 4 - yoe div 100 + ?doy) = year_start yoe + ?doy"
    using s by (simp add: year_start_def[symmetric] to_unsigned_id)
  show ?thesis
    by (simp only: days_from_civil_def Let_def m(2) sy era yo ymd(3) dy de day_number_def)
qed


lemma leap_era: "leap (x + era * 400) = leap x"
proof -
  have "(x + era * 400) mod 4 = x mod 4" "(x + era * 400) mod 100 = x mod 100"
    "(x + era * 400) mod 400 = x mod 400"
    using mod_mult_self1[of x "era * 100" 4] mod_mult_self1[of x "era * 4" 100]
    by (simp_all add: mult.assoc)
  then show ?thesis by (simp add: leap_def)
qed

lemma valid_date_parts:
  assumes "valid_date (y, m, d)"
  obtains era yoe mp where "day_ok yoe mp d" and "day_date era yoe mp d = (y, m, d)"
proof -
  define y' where "y' = y - (if m \<le> 2 then 1 else 0)"
  define mp where "mp = (if 2 < m then m - 3 else m + 9)"
  have m: "1 \<le> m" "m \<le> 12" "1 \<le> d" "d \<le> month_length y m" using assms by (auto simp: valid_date_def)
  have i: "0 \<le> mp" "mp \<le> 11" "mp = 11 \<longleftrightarrow> m = 2" "month_of_index mp = m" "mp < 10 \<longleftrightarrow> 2 < m"
    using m by (auto simp: mp_def month_of_index_def)
  have lp: "leap (y' mod 400 + 1) = leap (y' + 1)"
    using leap_era[of "y' mod 400 + 1" "y' div 400"] by (simp add: algebra_simps)
  have "d \<le> (if mp = 11 then (if leap (y' mod 400 + 1) then 29 else 28) else month_length 1 (month_of_index mp))"
    using m(4) i(3) unfolding i(4) lp by (simp add: month_length_def y'_def split: if_splits)
  then have "day_ok (y' mod 400) mp d" using i m(3) by (simp add: day_ok_def)
  moreover have "day_date (y' div 400) (y' mod 400) mp d = (y, m, d)"
    using i(5) by (simp add: day_date_def i(4)) (simp add: y'_def)
  ultimately show thesis by (rule that)
qed

lemma month_tiles:
  assumes "0 \<le> doy" and "doy \<le> 365"
  obtains mp where "0 \<le> mp" "mp \<le> 11" "1 \<le> doy - month_start mp + 1"
    "doy - month_start mp + 1 \<le>
       (if mp = 11 then (if doy = 365 then 29 else 28) else month_length 1 (month_of_index mp))"
proof -
  have "\<forall>doy \<in> set [0..365]. let mp = (5 * doy + 2) div 153 in 0 \<le> mp \<and> mp \<le> 11 \<and>
      1 \<le> doy - month_start mp + 1 \<and> doy - month_start mp + 1 \<le>
       (if mp = 11 then (if doy = 365 then 29 else 28) else month_length 1 (month_of_index mp))"
    by code_simp
  with assms show thesis using that[of "(5 * doy + 2) div 153"] by (simp add: Let_def)
qed

lemma year_tiles:
  "0 \<le> doe \<Longrightarrow> doe \<le> year_last (int n) \<Longrightarrow> n \<le> 399 \<Longrightarrow>
   \<exists>y. 0 \<le> y \<and> y \<le> int n \<and> year_start y \<le> doe \<and> doe \<le> year_last y"
proof (induction n)
  case 0
  then show ?case by (intro exI[of _ 0]) (simp add: year_start_def)
next
  case (Suc n)
  show ?case
  proof (cases "year_start (int (Suc n)) \<le> doe")
    case True
    with Suc.prems show ?thesis by (intro exI[of _ "int (Suc n)"]) simp
  next
    case False
    then have "doe \<le> year_last (int n)" using Suc.prems(3) by (simp add: year_last_def add.commute)
    with Suc show ?thesis by fastforce
  qed
qed

lemma every_day:
  obtains era yoe mp d where "day_ok yoe mp d" and "day_number era yoe mp d = z"
proof -
  let ?doe = "(z + 719468) mod 146097"
  have "?doe \<le> year_last (int 399)"
    using pos_mod_bound[of 146097 "z + 719468"] by (simp add: year_last_def)
  from year_tiles[OF _ this] obtain yoe
    where y: "0 \<le> yoe" "yoe \<le> 399" "year_start yoe \<le> ?doe" "?doe \<le> year_last yoe" by auto
  let ?doy = "?doe - year_start yoe"
  have doy: "0 \<le> ?doy" "?doy \<le> 365" "?doy = 365 \<longrightarrow> leap (yoe + 1)"
    using y year_ends[OF y(1,2)] by (auto split: if_splits)
  obtain mp where "0 \<le> mp" "mp \<le> 11" "1 \<le> ?doy - month_start mp + 1"
    "?doy - month_start mp + 1 \<le>
       (if mp = 11 then (if ?doy = 365 then 29 else 28) else month_length 1 (month_of_index mp))"
    using month_tiles[OF doy(1,2)] by blast
  then have "day_ok yoe mp (?doy - month_start mp + 1)"
    using y doy(3) by (auto simp: day_ok_def split: if_splits)
  moreover have "day_number ((z + 719468) div 146097) yoe mp (?doy - month_start mp + 1) = z"
    by (simp add: day_number_def)
  ultimately show thesis by (rule that)
qed

lemma valid_day_date: "day_ok yoe mp d \<Longrightarrow> valid_date (day_date era yoe mp d)"
  using leap_era[of "yoe + 1" era]
  by (auto simp: day_ok_def valid_date_def day_date_def month_length_def month_of_index_def
      algebra_simps split: if_splits)

lemma civil_days_civil: "valid_date (y, m, d) \<Longrightarrow> civil_from_days (days_from_civil y m d) = (y, m, d)"
  by (elim valid_date_parts) (simp add: days_from_day_date civil_from_day_number)

lemma days_civil_days: "civil_from_days z = (y, m, d) \<Longrightarrow> days_from_civil y m d = z \<and> valid_date (y, m, d)"
  by (rule every_day[of z]) (metis civil_from_day_number days_from_day_date valid_day_date)


section \<open>Properties\<close>

text \<open>
  Day numbers and calendar dates are in bijection: converting any day number to a
  date gives a date of the Gregorian calendar which converts back to that number, and
  every date of the calendar is converted to a number that gives it back.
\<close>

theorem civil_days_bijection:
  "(case civil_from_days z of (y, m, d) \<Rightarrow> valid_date (y, m, d) \<and> days_from_civil y m d = z) \<and>
   (valid_date (y', m', d') \<longrightarrow> civil_from_days (days_from_civil y' m' d') = (y', m', d'))"
  using days_civil_days[of z] civil_days_civil by (auto split: prod.split)

theorem civil_days_bijection_witness:
  "civil_from_days (days_from_civil 2024 2 29) = (2024, 2, 29)"
proof -
  have "valid_date (2024, 2, 29)" by code_simp
  then show ?thesis using civil_days_bijection[of 0 2024 2 29] by blast
qed

definition date_of :: "civil \<Rightarrow> int \<times> int \<times> int" where
  "date_of c = (year c, month c, day c)"

lemma date_eq: "valid_date a \<Longrightarrow> valid_date b \<Longrightarrow>
  (case a of (y, m, d) \<Rightarrow> days_from_civil y m d) = (case b of (y, m, d) \<Rightarrow> days_from_civil y m d) \<Longrightarrow> a = b"
  using civil_days_civil by (auto split: prod.splits) (metis prod.inject)+

lemma add_days_days:
  assumes "valid_date (date_of c)"
  shows "valid_date (date_of (add_days c n))"
    and "days_from_civil (year (add_days c n)) (month (add_days c n)) (day (add_days c n)) =
         days_from_civil (year c) (month c) (day c) + n"
  using assms days_civil_days[of "days_from_civil (year c) (month c) (day c) + n"]
  by (auto simp: add_days_def date_of_def split: prod.splits)

lemma add_days_add: "valid_date (date_of c) \<Longrightarrow> add_days (add_days c m) n = add_days c (m + n)"
proof -
  assume v: "valid_date (date_of c)"
  have "date_of (add_days (add_days c m) n) = date_of (add_days c (m + n))"
    using add_days_days(1)[OF add_days_days(1)[OF v, of m], of n] add_days_days(1)[OF v, of "m + n"]
      add_days_days(2)[OF add_days_days(1)[OF v, of m], of n] add_days_days(2)[OF v, of "m + n"]
      add_days_days(2)[OF v, of m]
    by (intro date_eq) (simp_all add: date_of_def)
  then show ?thesis
    by (cases c) (auto simp: add_days_def date_of_def split: prod.splits if_splits)
qed


lemma month_start_next:
  "0 \<le> mp \<Longrightarrow> mp < 11 \<Longrightarrow> month_start (mp + 1) = month_start mp + month_length 1 (month_of_index mp)"
proof -
  have "\<forall>mp \<in> set [0..10]. month_start (mp + 1) = month_start mp + month_length 1 (month_of_index mp)"
    by code_simp
  then show "0 \<le> mp \<Longrightarrow> mp < 11 \<Longrightarrow> ?thesis" by simp
qed

lemma month_length_index:
  "0 \<le> mp \<Longrightarrow> mp \<le> 11 \<Longrightarrow> month_length (yoe + era * 400 + (if mp < 10 then 0 else 1)) (month_of_index mp) =
     (if mp = 11 then (if leap (yoe + 1) then 29 else 28) else month_length 1 (month_of_index mp))"
  using leap_era[of "yoe + 1" era] by (auto simp: month_length_def month_of_index_def algebra_simps)

lemma next_day_parts:
  assumes "day_ok yoe mp d"
  obtains era' yoe' mp' d' where "day_ok yoe' mp' d'"
    "day_date era' yoe' mp' d' = next_day (day_date era yoe mp d)"
    "day_number era' yoe' mp' d' = day_number era yoe mp d + 1"
proof -
  note ok = assms[unfolded day_ok_def]
  let ?len = "month_length (yoe + era * 400 + (if mp < 10 then 0 else 1)) (month_of_index mp)"
  have len: "?len = (if mp = 11 then (if leap (yoe + 1) then 29 else 28) else month_length 1 (month_of_index mp))"
    using ok by (intro month_length_index) simp_all
  then have d: "d \<le> ?len" using ok by simp
  consider "d < ?len" | "d = ?len" "mp < 11" | "d = ?len" "mp = 11" "yoe < 399"
    | "d = ?len" "mp = 11" "yoe = 399" using d ok by linarith
  then show thesis
  proof cases
    case 1
    then show thesis using ok len
      by (intro that[of yoe mp "d + 1" era]) (auto simp: day_ok_def day_date_def next_day_def day_number_def)
  next
    case 2
    have "1 \<le> month_length 1 (month_of_index (mp + 1))" by (simp add: month_length_def)
    moreover have "month_of_index (mp + 1) = (if mp = 9 then 1 else month_of_index mp + 1)"
      "month_of_index mp = 12 \<longleftrightarrow> mp = 9" "month_of_index mp < 12 \<longleftrightarrow> mp \<noteq> 9"
      using 2 ok by (auto simp: month_of_index_def)
    ultimately show thesis using 2 ok len month_start_next[of mp]
      by (intro that[of yoe "mp + 1" 1 era]) (auto simp: day_ok_def day_date_def next_day_def day_number_def)
  next
    case 3
    have "year_start (yoe + 1) = year_last yoe + 1" using 3 by (simp add: year_last_def)
    then have "year_start (yoe + 1) + month_start 0 = year_start yoe + (month_start mp + d - 1) + 1"
      using 3 len year_ends[of yoe] ok by (auto simp: month_start_def split: if_splits)
    then show thesis using 3 ok
      by (intro that[of "yoe + 1" 0 1 era])
        (auto simp: day_ok_def day_date_def next_day_def day_number_def month_of_index_def month_length_def)
  next
    case 4
    have "year_start 399 + (month_start 11 + d - 1) = 146096" using 4 len
      by (simp add: year_start_def month_start_def leap_def)
    then show thesis using 4 ok
      by (intro that[of 0 0 1 "era + 1"])
        (auto simp: day_ok_def day_date_def next_day_def day_number_def month_of_index_def month_length_def
          year_start_def month_start_def)
  qed
qed

text \<open>
  Moving a date by a number of days is that many steps of the calendar: one day
  forward is the next date by the month lengths and the leap-year rule, moves add up,
  and the time of day is untouched.
\<close>

theorem add_days_steps:
  assumes "valid_date (date_of c)"
  shows "date_of (add_days c 1) = next_day (date_of c) \<and>
    add_days (add_days c m) n = add_days c (m + n) \<and>
    hour (add_days c n) = hour c \<and> minute (add_days c n) = minute c \<and> second (add_days c n) = second c"
proof (intro conjI)
  obtain era yoe mp where p: "day_ok yoe mp (day c)" "day_date era yoe mp (day c) = date_of c"
    by (rule valid_date_parts[OF assms[unfolded date_of_def]]) (simp only: date_of_def)
  obtain era' yoe' mp' d' where n: "day_ok yoe' mp' d'"
      "day_date era' yoe' mp' d' = next_day (day_date era yoe mp (day c))"
      "day_number era' yoe' mp' d' = day_number era yoe mp (day c) + 1"
    by (rule next_day_parts[OF p(1), of era])
  have "civil_from_days (days_from_civil (year c) (month c) (day c) + 1) = next_day (date_of c)"
    by (simp only: days_from_day_date[OF p(1) p(2)[unfolded date_of_def]] n(3)[symmetric]
        civil_from_day_number[OF n(1)] n(2) p(2))
  then show "date_of (add_days c 1) = next_day (date_of c)"
    by (simp add: add_days_def date_of_def split: prod.split)
  show "add_days (add_days c m) n = add_days c (m + n)" by (rule add_days_add[OF assms])
qed (simp_all add: add_days_def split: prod.split)

theorem add_days_steps_witness:
  "date_of (add_days \<lparr>year = 2023, month = 12, day = 31, hour = 1, minute = 2, second = 3\<rparr> 1) = (2024, 1, 1)"
proof -
  let ?c = "\<lparr>year = 2023, month = 12, day = 31, hour = 1, minute = 2, second = 3\<rparr>"
  have "valid_date (date_of ?c)" "next_day (date_of ?c) = (2024, 1, 1)" by code_simp+
  then show ?thesis using add_days_steps[of ?c 0 0] by simp
qed

end
