(* ===== verification/Bmd.thy ===== *)
theory Bmd
  imports Calendar BoxMsg
begin

text \<open>
  The Blackmagic camera-control protocol (\<open>src/bmd.h\<close>, \<open>src/bmd.cc\<close>): building packets,
  the BCD time and date words, the real-time-clock packet, and the decoders of what a
  camera sends.  \<open>double\<close> is modelled as \<open>real\<close>; an output parameter guarded by a
  boolean result is an option.
\<close>

section \<open>Constants\<close>

definition kServiceCamera :: string where
  "kServiceCamera = ''291d567a-6d75-11e6-8b77-86f30ca893d3''"
definition kCharOutgoingControl :: string where
  "kCharOutgoingControl = ''5dd3465f-1aee-4299-8493-d2eca2f8e1bb''"
definition kCharIncomingControl :: string where
  "kCharIncomingControl = ''b864e140-76a0-416a-bf30-5876504537d9''"
definition kCharTimecode :: string where
  "kCharTimecode = ''6d8f2110-86f1-41bf-9afb-451d87e976c8''"

definition kCmdChangeConfig :: byte where [const_defs]: "kCmdChangeConfig = 0"
definition kTypeVoid :: byte where [const_defs]: "kTypeVoid = 0"
definition kTypeInt8 :: byte where [const_defs]: "kTypeInt8 = 1"
definition kTypeInt16 :: byte where [const_defs]: "kTypeInt16 = 2"
definition kTypeInt32 :: byte where [const_defs]: "kTypeInt32 = 3"
definition kTypeInt64 :: byte where [const_defs]: "kTypeInt64 = 4"
definition kTypeUtf8 :: byte where [const_defs]: "kTypeUtf8 = 5"
definition kTypeFixed16 :: byte where [const_defs]: "kTypeFixed16 = 128"
definition kOpAssign :: byte where [const_defs]: "kOpAssign = 0"
definition kBroadcast :: byte where [const_defs]: "kBroadcast = 255"
definition kGroupConfig :: byte where [const_defs]: "kGroupConfig = 7"
definition kParamRtc :: byte where [const_defs]: "kParamRtc = 0"

section \<open>Encoding\<close>

definition build_packet :: "byte \<Rightarrow> byte \<Rightarrow> byte \<Rightarrow> byte \<Rightarrow> bytes \<Rightarrow> byte \<Rightarrow> bytes" where
  "build_packet category parameter data_type operation payload dest =
     (let body = [category, parameter, data_type, operation] @ payload;
          pkt = [dest, word_of_nat (length body), kCmdChangeConfig, 0] @ body
      in pkt @ replicate ((4 - length pkt mod 4) mod 4) 0)"

definition bcd2 :: "int \<Rightarrow> byte" where
  "bcd2 n0 = (let n = (if n0 < 0 then 0 else n0) mod 100
     in word_of_int (push_bit 4 (n div 10) OR (n mod 10)))"

definition bcd_word :: "byte \<Rightarrow> byte \<Rightarrow> byte \<Rightarrow> byte \<Rightarrow> u32" where
  "bcd_word a b c d =
     push_bit 24 (ucast a) OR push_bit 16 (ucast b) OR push_bit 8 (ucast c) OR ucast d"

definition encode_time :: "int \<Rightarrow> int \<Rightarrow> int \<Rightarrow> int \<Rightarrow> u32" where
  "encode_time h m s f = bcd_word (bcd2 h) (bcd2 m) (bcd2 s) (bcd2 f)"

definition encode_date :: "int \<Rightarrow> int \<Rightarrow> int \<Rightarrow> u32" where
  "encode_date y mo d = bcd_word (bcd2 (y sdiv 100)) (bcd2 (y smod 100)) (bcd2 mo) (bcd2 d)"

text \<open>\<open>gmtime_r\<close> of the C library: the proleptic Gregorian calendar in UTC.\<close>

definition utc_civil :: "real \<Rightarrow> civil" where
  "utc_civil unix_seconds =
     (let secs = \<lfloor>unix_seconds\<rfloor>; (y, m, d) = civil_from_days (secs div 86400); sod = secs mod 86400
      in \<lparr>year = y, month = m, day = d, hour = sod div 3600, minute = sod mod 3600 div 60,
          second = sod mod 60\<rparr>)"

definition rtc_packet :: "civil \<Rightarrow> int \<Rightarrow> byte \<Rightarrow> bytes" where
  "rtc_packet c frames dest =
     build_packet kGroupConfig kParamRtc kTypeInt32 kOpAssign
       (put_u32 (encode_time (hour c) (minute c) (second c) frames) @
        put_u32 (encode_date (year c) (month c) (day c))) dest"

section \<open>Decoding\<close>

fun bcd_byte :: "byte \<Rightarrow> int option" where
  "bcd_byte b =
     (let hi = uint (drop_bit 4 b); lo = uint (b AND 0x0f)
      in if hi > 9 \<or> lo > 9 then None else Some (hi * 10 + lo))"

definition byte_of :: "u32 \<Rightarrow> nat \<Rightarrow> byte" where
  "byte_of w shift = ucast (drop_bit shift w AND 0xff)"

definition decode_bcd_timecode :: "u32 \<Rightarrow> (int \<times> int \<times> int \<times> int) option" where
  "decode_bcd_timecode w =
     (case bcd_byte (byte_of w 24) of None \<Rightarrow> None | Some h \<Rightarrow>
      case bcd_byte (byte_of w 16) of None \<Rightarrow> None | Some m \<Rightarrow>
      case bcd_byte (byte_of w 8) of None \<Rightarrow> None | Some s \<Rightarrow>
      case bcd_byte (byte_of w 0) of None \<Rightarrow> None | Some f \<Rightarrow> Some (h, m, s, f))"

definition decode_bcd_date :: "u32 \<Rightarrow> (int \<times> int \<times> int) option" where
  "decode_bcd_date w =
     (case decode_bcd_timecode w of None \<Rightarrow> None
      | Some (p0, p1, mo, d) \<Rightarrow>
          let y = p0 * 100 + p1 in
          if y < 2000 \<or> 2099 < y then None
          else if mo < 1 \<or> 12 < mo then None
          else if d < 1 \<or> 31 < d then None
          else Some (y, mo, d))"

text \<open>\<open>read_le\<close>: the width is the length of the list; the sign bit is extended into 64 bits.\<close>

definition read_le :: "bytes \<Rightarrow> bool \<Rightarrow> int" where
  "read_le bs sign =
     (let v = foldr (\<lambda>b v. push_bit 8 v OR ucast b) bs (0 :: u64); bits = length bs * 8
      in if \<not> sign then sint v
         else if bits < 64 \<and> v AND push_bit (bits - 1) 1 \<noteq> 0
           then sint (v OR NOT (push_bit bits 1 - 1))
         else sint v)"

record bmd_message =
  bm_dest :: byte
  bm_cmd :: byte
  bm_body :: bytes

function bmd_parse_stream :: "bytes \<Rightarrow> bmd_message list" where
  "bmd_parse_stream data =
     (if length data < 4 then []
      else let len = unat (data ! 1) in
        if length data < 4 + len then []
        else let n = 4 + len; n' = n + (4 - n mod 4) mod 4
          in \<lparr>bm_dest = data ! 0, bm_cmd = data ! 2, bm_body = take len (drop 4 data)\<rparr>
             # bmd_parse_stream (drop n' data))"
  by pat_completeness auto
termination
  by (relation "measure length") auto

declare bmd_parse_stream.simps [simp del]

record bmd_value =
  bv_group :: byte
  bv_param :: byte
  bv_type :: byte
  bv_op :: byte
  bv_ints :: "int list"
  bv_reals :: "real list"
  bv_text :: string

definition decode_value :: "bmd_message \<Rightarrow> bmd_value option" where
  "decode_value msg =
     (if bm_cmd msg \<noteq> kCmdChangeConfig \<or> length (bm_body msg) < 4 then None
      else let b = bm_body msg; t = b ! 2; p = drop 4 b;
             ints = (\<lambda>w. map (\<lambda>x. read_le x True) (blocks w p));
             v = \<lparr>bv_group = b ! 0, bv_param = b ! 1, bv_type = t, bv_op = b ! 3,
                  bv_ints = [], bv_reals = [], bv_text = []\<rparr>
        in Some (if t = kTypeVoid then v\<lparr>bv_ints := map uint p\<rparr>
                 else if t = kTypeInt8 then v\<lparr>bv_ints := ints 1\<rparr>
                 else if t = kTypeInt16 then v\<lparr>bv_ints := ints 2\<rparr>
                 else if t = kTypeInt32 then v\<lparr>bv_ints := ints 4\<rparr>
                 else if t = kTypeInt64 then v\<lparr>bv_ints := ints 8\<rparr>
                 else if t = kTypeUtf8 then v\<lparr>bv_text := map (\<lambda>x. char_of (unat x)) p\<rparr>
                 else if t = kTypeFixed16
                   then v\<lparr>bv_reals := map (\<lambda>x. of_int (read_le x True) / 2048) (blocks 2 p)\<rparr>
                 else v\<lparr>bv_ints := map uint p\<rparr>))"

definition decode_rtc :: "bmd_value \<Rightarrow> (civil \<times> real) option" where
  "decode_rtc v =
     (case bv_ints v of
        i0 # i1 # _ \<Rightarrow>
          (let time_word = word_of_int (i0 AND 0xFFFFFFFF); date_word = word_of_int (i1 AND 0xFFFFFFFF)
           in case decode_bcd_date date_word of None \<Rightarrow> None
              | Some (y, mo, d) \<Rightarrow>
                (case decode_bcd_timecode time_word of None \<Rightarrow> None
                 | Some (h, m, s, f) \<Rightarrow>
                     if 23 < h \<or> 59 < m \<or> 59 < s then None
                     else Some (\<lparr>year = y, month = mo, day = d, hour = h, minute = m, second = s\<rparr>,
                                of_int h * 3600 + of_int m * 60 + of_int s)))
      | _ \<Rightarrow> None)"

record timecode =
  tc_hours :: int
  tc_minutes :: int
  tc_seconds :: int
  tc_frames :: int

fun first_timecode :: "bmd_message list \<Rightarrow> timecode option" where
  "first_timecode [] = None"
| "first_timecode (msg # rest) =
     (if bm_cmd msg \<noteq> kCmdChangeConfig \<or> length (bm_body msg) < 8 \<or> bm_body msg ! 2 \<noteq> kTypeInt32
      then first_timecode rest
      else case decode_bcd_timecode (word_of_int (read_le (take 4 (drop 4 (bm_body msg))) False)) of
          None \<Rightarrow> first_timecode rest
        | Some (h, m, s, f) \<Rightarrow>
            Some \<lparr>tc_hours = h, tc_minutes = m, tc_seconds = s, tc_frames = f\<rparr>)"

definition parse_timecode :: "bytes \<Rightarrow> timecode option" where
  "parse_timecode data = first_timecode (bmd_parse_stream data)"

definition timecode_sod :: "timecode \<Rightarrow> int \<Rightarrow> real" where
  "timecode_sod tc fps =
     (let sod = of_int (tc_hours tc) * 3600 + of_int (tc_minutes tc) * 60 + of_int (tc_seconds tc)
      in if 0 < fps then sod + of_int (tc_frames tc) / of_int fps else sod)"

text \<open>\<open>%02d\<close>\<close>

definition pad2 :: "int \<Rightarrow> string" where
  "pad2 i = (if 0 \<le> i \<and> i < 10 then CHR ''0'' # show_int i else show_int i)"

definition format_timecode :: "timecode \<Rightarrow> string" where
  "format_timecode tc =
     pad2 (tc_hours tc) @ '':'' @ pad2 (tc_minutes tc) @ '':'' @ pad2 (tc_seconds tc) @ '':'' @
     pad2 (tc_frames tc)"


section \<open>Packed decimal\<close>

declare bcd_byte.simps [simp del]

lemma bcd_byte_bcd2: "0 \<le> n \<Longrightarrow> n \<le> 99 \<Longrightarrow> bcd_byte (bcd2 n) = Some n"
proof -
  have "\<forall>n \<in> set [0..99]. bcd_byte (bcd2 n) = Some n" by code_simp
  then show "0 \<le> n \<Longrightarrow> n \<le> 99 \<Longrightarrow> ?thesis" by simp
qed

lemma bcd2_bcd_byte: "bcd_byte b = Some n \<Longrightarrow> bcd2 n = b \<and> 0 \<le> n \<and> n \<le> 99"
proof -
  have "case bcd_byte b of None \<Rightarrow> True | Some n \<Rightarrow> bcd2 n = b \<and> 0 \<le> n \<and> n \<le> 99"
    by (rule byte_cases) code_simp
  then show "bcd_byte b = Some n \<Longrightarrow> ?thesis" by simp
qed

lemma byte_of_bcd_word:
  "byte_of (bcd_word a b c d) 24 = a" "byte_of (bcd_word a b c d) 16 = b"
  "byte_of (bcd_word a b c d) 8 = c" "byte_of (bcd_word a b c d) 0 = d"
  unfolding byte_of_def bcd_word_def word_and_255
  by (rule bit_word_eqI; auto simp: bit_simps dest: bit_imp_le_length)+

lemma bcd_word_byte_of: "bcd_word (byte_of w 24) (byte_of w 16) (byte_of w 8) (byte_of w 0) = w"
proof (rule bit_word_eqI)
  fix n
  assume n: "n < LENGTH(32)"
  consider "n < 8" | "8 \<le> n \<and> n < 16" | "16 \<le> n \<and> n < 24" | "24 \<le> n" by linarith
  then show "bit (bcd_word (byte_of w 24) (byte_of w 16) (byte_of w 8) (byte_of w 0)) n = bit w n"
    using n unfolding bcd_word_def byte_of_def word_and_255 by cases (auto simp: bit_simps)
qed

lemma bcd_time_exact_aux:
  "{h, m, s, f} \<subseteq> {0..99} \<Longrightarrow> decode_bcd_timecode (encode_time h m s f) = Some (h, m, s, f)"
  by (simp add: decode_bcd_timecode_def encode_time_def byte_of_bcd_word bcd_byte_bcd2)

text \<open>
  Packed decimal is read back exactly and nothing else is accepted: a time of
  two-digit fields is decoded to those fields, and a word that decodes at all is the
  encoding of what it decodes to, so a word that is not decimal is refused.
\<close>

theorem bcd_time_exact:
  "(decode_bcd_timecode w = Some (h, m, s, f) \<longrightarrow>
      w = encode_time h m s f \<and> {h, m, s, f} \<subseteq> {0..99}) \<and>
   ({h, m, s, f} \<subseteq> {0..99} \<longrightarrow> decode_bcd_timecode (encode_time h m s f) = Some (h, m, s, f))"
proof (intro conjI impI)
  assume "decode_bcd_timecode w = Some (h, m, s, f)"
  then have b: "bcd_byte (byte_of w 24) = Some h" "bcd_byte (byte_of w 16) = Some m"
    "bcd_byte (byte_of w 8) = Some s" "bcd_byte (byte_of w 0) = Some f"
    by (auto simp: decode_bcd_timecode_def split: option.splits)
  note c = b[THEN bcd2_bcd_byte]
  show "w = encode_time h m s f" using c bcd_word_byte_of[of w] by (simp add: encode_time_def)
  show "{h, m, s, f} \<subseteq> {0..99}" using c by simp
next
  assume "{h, m, s, f} \<subseteq> {0..99}"
  then show "decode_bcd_timecode (encode_time h m s f) = Some (h, m, s, f)"
    by (rule bcd_time_exact_aux)
qed

theorem bcd_time_exact_witness: "decode_bcd_timecode (encode_time 23 59 8 24) = Some (23, 59, 8, 24)"
  using bcd_time_exact[of 0 23 59 8 24] by simp

section \<open>Streams of packets\<close>

definition packet_message :: "byte \<Rightarrow> byte \<Rightarrow> byte \<Rightarrow> byte \<Rightarrow> bytes \<Rightarrow> byte \<Rightarrow> bmd_message" where
  "packet_message category parameter data_type operation payload dest =
     \<lparr>bm_dest = dest, bm_cmd = kCmdChangeConfig,
      bm_body = [category, parameter, data_type, operation] @ payload\<rparr>"

lemma parse_one_packet:
  assumes "length payload \<le> 251"
  shows "bmd_parse_stream (build_packet g p t op payload dest @ rest) =
    packet_message g p t op payload dest # bmd_parse_stream rest"
proof -
  have u: "unat (4 + word_of_nat (length payload) :: byte) = 4 + length payload"
  proof -
    have "(4 + word_of_nat (length payload) :: byte) = word_of_nat (4 + length payload)" by simp
    then show ?thesis using assms by (simp only: unsigned_of_nat) (simp add: take_bit_nat_eq_self)
  qed
  have m: "(8 + length payload) mod 4 = length payload mod 4" by presburger
  have tk: "take (4 + length payload) (g # p # t # op # payload @ z) = g # p # t # op # payload" for z
    by (simp add: numeral_eq_Suc)
  define pad where "pad = (4 - length payload mod 4) mod 4"
  have p: "build_packet g p t op payload dest = [dest, 4 + word_of_nat (length payload), kCmdChangeConfig, 0, g, p, t, op]
      @ payload @ replicate pad 0"
    by (simp add: build_packet_def pad_def)
  have n: "8 + length payload + (4 - (8 + length payload) mod 4) mod 4 = 8 + length payload + pad"
    unfolding m pad_def by simp
  have dr: "drop (8 + length payload + pad) (a # b # c # d # g # p # t # op # payload @ replicate pad 0 @ rest) = rest"
    for a b c d by (simp add: numeral_eq_Suc)
  show ?thesis
    by (subst bmd_parse_stream.simps) (simp add: dr p packet_message_def Let_def u n tk)
qed


record camera_command =
  cmd_group :: byte
  cmd_param :: byte
  cmd_type :: byte
  cmd_op :: byte
  cmd_payload :: bytes
  cmd_dest :: byte

definition command_packet :: "camera_command \<Rightarrow> bytes" where
  "command_packet c =
     build_packet (cmd_group c) (cmd_param c) (cmd_type c) (cmd_op c) (cmd_payload c) (cmd_dest c)"

definition command_message :: "camera_command \<Rightarrow> bmd_message" where
  "command_message c =
     packet_message (cmd_group c) (cmd_param c) (cmd_type c) (cmd_op c) (cmd_payload c) (cmd_dest c)"

lemma parse_packets:
  "list_all (\<lambda>c. length (cmd_payload c) \<le> 251) cs \<Longrightarrow>
   bmd_parse_stream (concat (map command_packet cs)) = map command_message cs"
proof (induction cs)
  case Nil
  then show ?case by (simp add: bmd_parse_stream.simps)
next
  case (Cons c cs)
  then show ?case by (simp add: command_packet_def command_message_def parse_one_packet)
qed

text \<open>
  Commands packed one after another are taken apart again into exactly the same
  commands, alignment padding and all, and every packet is a multiple of four bytes.
\<close>

theorem packets_parse_back:
  assumes "list_all (\<lambda>c. length (cmd_payload c) \<le> 251) cs"
  shows "bmd_parse_stream (concat (map command_packet cs)) = map command_message cs \<and>
    list_all (\<lambda>c. length (command_packet c) mod 4 = 0) cs"
proof -
  have "(x + (4 - x mod 4) mod 4) mod 4 = 0" for x :: nat
  proof -
    obtain q r where "x = 4 * q + r" "r < 4" by (metis mult_div_mod_eq mod_less_divisor zero_less_numeral)
    moreover from this have "r = 0 \<or> r = 1 \<or> r = 2 \<or> r = 3" by auto
    ultimately show ?thesis by auto
  qed
  moreover have "length (command_packet c) = (8 + length (cmd_payload c)) + (4 - (8 + length (cmd_payload c)) mod 4) mod 4" for c
  proof -
    have "(8 + length (cmd_payload c)) mod 4 = length (cmd_payload c) mod 4" by presburger
    then show ?thesis unfolding command_packet_def build_packet_def Let_def by (simp only:) simp
  qed
  ultimately have "length (command_packet c) mod 4 = 0" for c by (simp only:)
  then show ?thesis using parse_packets[OF assms] by (simp add: list_all_iff)
qed

definition two_commands :: "camera_command list" where
  "two_commands =
    [\<lparr>cmd_group = 10, cmd_param = 1, cmd_type = 1, cmd_op = 0, cmd_payload = [2], cmd_dest = 255\<rparr>,
     \<lparr>cmd_group = 7, cmd_param = 2, cmd_type = 3, cmd_op = 0, cmd_payload = [1, 2, 3, 4], cmd_dest = 255\<rparr>]"

theorem packets_parse_back_witness:
  "bmd_parse_stream (concat (map command_packet two_commands)) = map command_message two_commands"
  using packets_parse_back[of two_commands] by (simp add: two_commands_def)

section \<open>The clock of a camera\<close>

lemma word_of_bytes_32:
  "foldr (\<lambda>b v. push_bit 8 v OR ucast b) (put_u32 w) (0 :: u64) = ucast w"
  unfolding put_u32_def word_and_255
proof (rule bit_word_eqI)
  fix n
  assume n: "n < LENGTH(64)"
  consider "n < 8" | "8 \<le> n \<and> n < 16" | "16 \<le> n \<and> n < 24" | "24 \<le> n" by linarith
  then show "bit (foldr (\<lambda>b v. push_bit 8 v OR ucast b)
      [ucast (take_bit 8 w) :: byte, ucast (take_bit 8 (drop_bit 8 w)), ucast (take_bit 8 (drop_bit 16 w)),
       ucast (take_bit 8 (drop_bit 24 w))] (0 :: u64)) n = bit (ucast w :: u64) n"
    using n by cases (auto simp: bit_simps dest: bit_imp_le_length)
qed

lemma read_le_put_u32: "word_of_int (read_le (put_u32 w) sign AND 0xFFFFFFFF) = w"
proof -
  have m: "(0xFFFFFFFF :: int) = mask 32" "push_bit (length (put_u32 w) * 8) 1 - 1 = (mask 32 :: u64)"
    by (simp_all add: mask_eq_exp_minus_1 push_bit_eq_mult)
  have "word_of_int (sint (ucast w :: u64) AND mask 32) = w"
    by (rule bit_word_eqI) (auto simp: bit_simps)
  moreover have "word_of_int (sint ((ucast w :: u64) OR NOT (mask 32)) AND mask 32) = w"
    by (rule bit_word_eqI) (auto simp: bit_simps)
  ultimately show ?thesis by (simp only: read_le_def word_of_bytes_32 Let_def m split: if_split) simp
qed


lemma blocks_of_two: "blocks 4 (put_u32 a @ put_u32 b) = [put_u32 a, put_u32 b]"
  using blocks_concat[of 4 "[put_u32 a, put_u32 b]" "[]"] by simp

lemma decode_date_encode:
  assumes "2000 \<le> y" "y \<le> 2099" "1 \<le> mo" "mo \<le> 12" "1 \<le> d" "d \<le> 31"
  shows "decode_bcd_date (encode_date y mo d) = Some (y, mo, d)"
proof -
  have q: "y sdiv 100 = 20" "y smod 100 = y - 2000"
  proof -
    have dv: "y div 100 = 20" using assms by linarith
    then have md: "y mod 100 = y - 2000" using minus_div_mult_eq_mod[of y 100] by simp
    from dv md show "y sdiv 100 = 20" "y smod 100 = y - 2000"
      using assms by (simp_all add: sdiv_pos smod_int_alt_def sgn_if)
  qed
  show ?thesis
    using assms by (simp add: decode_bcd_date_def decode_bcd_timecode_def encode_date_def q
        byte_of_bcd_word bcd_byte_bcd2 Let_def)
qed

definition clock_ok :: "civil \<Rightarrow> bool" where
  "clock_ok c \<longleftrightarrow> 2000 \<le> year c \<and> year c \<le> 2099 \<and> 1 \<le> month c \<and> month c \<le> 12 \<and>
     1 \<le> day c \<and> day c \<le> 31 \<and> 0 \<le> hour c \<and> hour c \<le> 23 \<and> 0 \<le> minute c \<and> minute c \<le> 59 \<and>
     0 \<le> second c \<and> second c \<le> 59"

definition read_clock :: "bytes \<Rightarrow> (civil \<times> real) option" where
  "read_clock data =
     (case bmd_parse_stream data of [] \<Rightarrow> None
      | msg # _ \<Rightarrow> (case decode_value msg of None \<Rightarrow> None | Some v \<Rightarrow> decode_rtc v))"

text \<open>
  C34. A clock written is the clock read: the packet that sets a camera's real-time clock,
  parsed as camera traffic and decoded as the clock a camera reports, gives the date and
  time it was built from and the second of the day they denote.
\<close>

theorem rtc_round_trip:
  assumes "clock_ok c" and "0 \<le> frames" and "frames \<le> 99"
  shows "read_clock (rtc_packet c frames dest) =
    Some (c, of_int (hour c) * 3600 + of_int (minute c) * 60 + of_int (second c))"
proof -
  let ?t = "encode_time (hour c) (minute c) (second c) frames"
  let ?d = "encode_date (year c) (month c) (day c)"
  let ?msg = "packet_message kGroupConfig kParamRtc kTypeInt32 kOpAssign (put_u32 ?t @ put_u32 ?d) dest"
  have "bmd_parse_stream (rtc_packet c frames dest) = [?msg]"
    using parse_one_packet[of "put_u32 ?t @ put_u32 ?d" kGroupConfig kParamRtc kTypeInt32 kOpAssign dest "[]"]
    by (simp add: rtc_packet_def bmd_parse_stream.simps[of "[]"])
  moreover have "decode_value ?msg = Some
      \<lparr>bv_group = kGroupConfig, bv_param = kParamRtc, bv_type = kTypeInt32, bv_op = kOpAssign,
       bv_ints = [read_le (put_u32 ?t) True, read_le (put_u32 ?d) True], bv_reals = [], bv_text = []\<rparr>"
    by (simp add: decode_value_def packet_message_def Let_def blocks_of_two) (simp add: const_defs)
  moreover have "decode_bcd_timecode ?t = Some (hour c, minute c, second c, frames)"
    using assms bcd_time_exact_aux[of "hour c" "minute c" "second c" frames] by (simp add: clock_ok_def)
  moreover have "decode_bcd_date ?d = Some (year c, month c, day c)"
    using assms(1) by (simp add: decode_date_encode clock_ok_def)
  ultimately show ?thesis
    using assms(1) by (simp add: read_clock_def decode_rtc_def read_le_put_u32 clock_ok_def)
qed

theorem rtc_round_trip_witness:
  "map_option fst (read_clock (rtc_packet
      \<lparr>year = 2026, month = 8, day = 31, hour = 9, minute = 12, second = 53\<rparr> 10 255)) =
   Some \<lparr>year = 2026, month = 8, day = 31, hour = 9, minute = 12, second = 53\<rparr>"
  using rtc_round_trip[of "\<lparr>year = 2026, month = 8, day = 31, hour = 9, minute = 12, second = 53\<rparr>" 10 255]
  by (simp add: clock_ok_def)

end
