(* ===== verification/TimeUtil.thy ===== *)
theory TimeUtil
  imports Complex_Main
begin

text \<open>
  Arithmetic on seconds of the day (\<open>src/timeutil.h\<close>, \<open>src/timeutil.cc\<close>), and the
  functions of the C mathematical library the program uses.  \<open>double\<close> is \<open>real\<close>
  throughout the development: the theorems are about the arithmetic the code describes,
  and rounding errors of the machine are not part of the model.
\<close>

text \<open>Conversion of a \<open>double\<close> to an integer type truncates towards zero.\<close>

definition to_int :: "real \<Rightarrow> int" where
  "to_int x = (if 0 \<le> x then \<lfloor>x\<rfloor> else - \<lfloor>- x\<rfloor>)"

definition fmod :: "real \<Rightarrow> real \<Rightarrow> real" where
  "fmod x y = x - of_int (to_int (x / y)) * y"

text \<open>\<open>std::lround\<close>: half away from zero.\<close>

definition lround :: "real \<Rightarrow> int" where
  "lround x = (if 0 \<le> x then \<lfloor>x + 1 / 2\<rfloor> else - \<lfloor>1 / 2 - x\<rfloor>)"

definition seconds_of_day_at_offset :: "real \<Rightarrow> int \<Rightarrow> real" where
  "seconds_of_day_at_offset unix_seconds zone_offset_seconds =
     (let sod = fmod (unix_seconds + of_int zone_offset_seconds) 86400
      in if sod < 0 then sod + 86400 else sod)"

definition wrap_delta :: "real \<Rightarrow> real" where
  "wrap_delta seconds =
     (let wrapped = fmod (seconds + 43200) 86400
      in (if wrapped < 0 then wrapped + 86400 else wrapped) - 43200)"

lemma fmod_floor:
  assumes "0 < y"
  shows "(if fmod x y < 0 then fmod x y + y else fmod x y) = x - of_int \<lfloor>x / y\<rfloor> * y"
proof (cases "0 \<le> x / y")
  case True
  then have "of_int \<lfloor>x / y\<rfloor> * y \<le> x" using assms
    by (metis of_int_floor_le pos_le_divide_eq)
  with True show ?thesis by (simp add: fmod_def to_int_def)
next
  case False
  have e: "fmod x y = x - of_int \<lceil>x / y\<rceil> * y"
    using False by (simp add: fmod_def to_int_def ceiling_def)
  show ?thesis
  proof (cases "of_int \<lfloor>x / y\<rfloor> = x / y")
    case True
    then have "\<lceil>x / y\<rceil> = \<lfloor>x / y\<rfloor>" by (metis ceiling_of_int)
    moreover have "of_int \<lfloor>x / y\<rfloor> * y = x" by (subst True) (use assms in simp)
    ultimately show ?thesis using e by simp
  next
    case False
    then have c: "\<lceil>x / y\<rceil> = \<lfloor>x / y\<rfloor> + 1" by (simp add: ceiling_altdef)
    have "x / y < of_int \<lceil>x / y\<rceil>" using False c by (simp add: floor_less_iff)
    then have "fmod x y < 0" using assms e by (simp add: field_simps)
    then show ?thesis using e c by (simp add: algebra_simps)
  qed
qed

lemma wrap_delta_floor: "wrap_delta s = s - of_int \<lfloor>(s + 43200) / 86400\<rfloor> * 86400"
  using fmod_floor[of 86400 "s + 43200"] by (simp add: wrap_delta_def Let_def split: if_splits)

lemma wrap_delta_range: "- 43200 \<le> wrap_delta s \<and> wrap_delta s < 43200"
proof -
  have "of_int \<lfloor>(s + 43200) / 86400\<rfloor> \<le> (s + 43200) / 86400"
    "(s + 43200) / 86400 < of_int \<lfloor>(s + 43200) / 86400\<rfloor> + 1" by linarith+
  then show ?thesis by (simp add: wrap_delta_floor field_simps)
qed

text \<open>
  A difference of two times of day is the short way round: it lies in half a day on
  either side of zero, differs from the plain difference by whole days, and no other
  whole number of days brings it closer to zero.
\<close>

theorem wrap_delta_short_way:
  "- 43200 \<le> wrap_delta s \<and> wrap_delta s < 43200 \<and>
   (\<exists>k :: int. wrap_delta s = s + of_int k * 86400) \<and>
   \<bar>wrap_delta s\<bar> \<le> \<bar>s + of_int j * 86400\<bar>"
proof -
  let ?k = "- \<lfloor>(s + 43200) / 86400\<rfloor>"
  have k: "wrap_delta s = s + of_int ?k * 86400" by (simp add: wrap_delta_floor)
  have "\<bar>wrap_delta s\<bar> \<le> \<bar>s + of_int j * 86400\<bar>"
  proof (cases "j = ?k")
    case True
    then show ?thesis using k by simp
  next
    case False
    define d where "d = real_of_int (j - ?k)"
    have "1 \<le> d \<or> d \<le> - 1" using False unfolding d_def by linarith
    moreover have "s + of_int j * 86400 = wrap_delta s + d * 86400"
      using k unfolding d_def by (simp add: algebra_simps)
    ultimately show ?thesis using wrap_delta_range[of s] by (auto simp: abs_if)
  qed
  with k wrap_delta_range show ?thesis by blast
qed

lemma seconds_of_day_range:
  "0 \<le> seconds_of_day_at_offset u z \<and> seconds_of_day_at_offset u z < 86400"
proof -
  let ?x = "(u + of_int z) / 86400"
  have "seconds_of_day_at_offset u z = u + of_int z - of_int \<lfloor>?x\<rfloor> * 86400"
    using fmod_floor[of 86400 "u + of_int z"] by (simp add: seconds_of_day_at_offset_def Let_def split: if_splits)
  moreover have "of_int \<lfloor>?x\<rfloor> \<le> ?x" "?x < of_int \<lfloor>?x\<rfloor> + 1" by linarith+
  ultimately show ?thesis by (simp add: field_simps)
qed

end
