(* ===== verification/CamSync.thy ===== *)
theory CamSync
  imports TimeUtil Bmd
begin

text \<open>
  When to set a camera's clock and what to make of the result (\<open>src/camsync.h\<close>,
  \<open>src/camsync.cc\<close>): the gates, drift observation, the learned lead and bias, the poll
  schedule, and the alignment of a write with a second boundary.  The console lines the
  functions compose are left out; everything a later decision depends on is here.
\<close>

section \<open>Options and state\<close>

record sync_options =
  so_poll :: real
  so_listen :: real
  so_has_tolerance :: bool
  so_tolerance :: real
  so_tolerance_frames :: real
  so_write_tolerance :: real
  so_min_write_interval :: real
  so_rtc_bias :: int
  so_adapt_bias :: bool
  so_max_bias_step :: int
  so_max_adapts :: int
  so_adaptive_poll :: bool
  so_max_poll :: real
  so_poll_slices :: int
  so_min_assumed_ppm :: real
  so_restart_step :: real
  so_min_drift_interval :: real
  so_lead :: real
  so_adapt_lead :: bool
  so_lead_window :: int
  so_min_lead_samples :: int
  so_max_lead :: real
  so_centre_frames :: bool
  so_verify_wait :: real
  so_camera_wait :: real
  so_scan_timeout :: real
  so_connect_timeout :: real
  so_max_failures :: int
  so_bench_spread :: real
  so_fps :: int
  so_dry_run :: bool

definition default_options :: sync_options where
  "default_options =
     \<lparr>so_poll = 60, so_listen = 8, so_has_tolerance = False, so_tolerance = 0,
      so_tolerance_frames = 1 / 2, so_write_tolerance = 1, so_min_write_interval = 3600,
      so_rtc_bias = 0, so_adapt_bias = True, so_max_bias_step = 120, so_max_adapts = 4,
      so_adaptive_poll = True, so_max_poll = 900, so_poll_slices = 4, so_min_assumed_ppm = 5,
      so_restart_step = 1, so_min_drift_interval = 1800, so_lead = 5 / 100, so_adapt_lead = True,
      so_lead_window = 9, so_min_lead_samples = 3, so_max_lead = 1 / 2, so_centre_frames = True,
      so_verify_wait = 3, so_camera_wait = 6, so_scan_timeout = 20, so_connect_timeout = 15,
      so_max_failures = 3, so_bench_spread = 1 / 2, so_fps = 24, so_dry_run = False\<rparr>"

record drift_estimate =
  de_has :: bool
  de_ppm :: real
  de_span :: real
  de_samples :: int

definition no_drift :: drift_estimate where
  "no_drift = \<lparr>de_has = False, de_ppm = 0, de_span = 0, de_samples = 0\<rparr>"

record lead_estimate =
  le_has :: bool
  le_lead_s :: real
  le_samples :: int

definition no_lead :: lead_estimate where
  "no_lead = \<lparr>le_has = False, le_lead_s = 0, le_samples = 0\<rparr>"

record sync_state =
  ss_failures :: int
  ss_adapts :: int
  ss_rtc_bias :: int
  ss_has_last_write :: bool
  ss_last_write_mono :: real
  ss_has_last_obs :: bool
  ss_last_obs_mono :: real
  ss_last_obs_error :: real
  ss_wrote_since_obs :: bool
  ss_has_anchor :: bool
  ss_anchor_mono :: real
  ss_anchor_error :: real
  ss_drift :: drift_estimate
  ss_lead :: lead_estimate
  ss_camera_id :: string

definition new_state :: sync_state where
  "new_state =
     \<lparr>ss_failures = 0, ss_adapts = 0, ss_rtc_bias = 0, ss_has_last_write = False,
      ss_last_write_mono = 0, ss_has_last_obs = False, ss_last_obs_mono = 0,
      ss_last_obs_error = 0, ss_wrote_since_obs = False, ss_has_anchor = False,
      ss_anchor_mono = 0, ss_anchor_error = 0, ss_drift = no_drift, ss_lead = no_lead,
      ss_camera_id = ''''\<rparr>"

datatype sync_action = Write | SkipWritesDisabled | SkipRecording | SkipTimecodeSource
  | SkipExternal | SkipInTolerance | SkipRateLimited | SkipDryRun

fun action_name :: "sync_action \<Rightarrow> string" where
  "action_name Write = ''write''"
| "action_name SkipWritesDisabled = ''skip:writes-disabled''"
| "action_name SkipRecording = ''skip:recording''"
| "action_name SkipTimecodeSource = ''skip:timecode-source''"
| "action_name SkipExternal = ''skip:external-suspected''"
| "action_name SkipInTolerance = ''skip:in-tolerance''"
| "action_name SkipRateLimited = ''skip:rate-limited''"
| "action_name SkipDryRun = ''skip:dry-run''"

fun gate_is_advisory :: "sync_action \<Rightarrow> bool" where
  "gate_is_advisory SkipInTolerance = True"
| "gate_is_advisory SkipRateLimited = True"
| "gate_is_advisory SkipExternal = True"
| "gate_is_advisory Write = False"
| "gate_is_advisory SkipWritesDisabled = False"
| "gate_is_advisory SkipRecording = False"
| "gate_is_advisory SkipTimecodeSource = False"
| "gate_is_advisory SkipDryRun = False"

record conditions =
  cn_recording :: bool
  cn_writes_enabled :: bool
  cn_has_timecode_source :: bool
  cn_timecode_source :: int

definition kTimecodeSourceTimeOfDay :: int where [const_defs]: "kTimecodeSourceTimeOfDay = 0"

section \<open>The gates\<close>

definition trigger_tolerance :: "sync_options \<Rightarrow> int \<Rightarrow> real" where
  "trigger_tolerance opt fps =
     (if so_has_tolerance opt then so_tolerance opt
      else let rate = (if 0 < fps then fps else so_fps opt); rate = (if rate \<le> 0 then 24 else rate)
        in so_tolerance_frames opt / of_int rate)"

definition timecode_follows_rtc :: "conditions \<Rightarrow> bool" where
  "timecode_follows_rtc cond =
     (if \<not> cn_has_timecode_source cond then True
      else cn_timecode_source cond = kTimecodeSourceTimeOfDay)"

record decision =
  dc_action :: sync_action
  dc_tolerance :: real
  dc_since_write :: real

definition decide :: "sync_options \<Rightarrow> sync_state \<Rightarrow> real \<Rightarrow> int \<Rightarrow> conditions \<Rightarrow> real \<Rightarrow> decision" where
  "decide opt state error fps cond now_mono =
     (let d = \<lparr>dc_action = Write, dc_tolerance = trigger_tolerance opt fps, dc_since_write = 0\<rparr>;
          since = now_mono - ss_last_write_mono state
      in if \<not> cn_writes_enabled cond then d\<lparr>dc_action := SkipWritesDisabled\<rparr>
         else if cn_recording cond then d\<lparr>dc_action := SkipRecording\<rparr>
         else if \<not> timecode_follows_rtc cond then d\<lparr>dc_action := SkipTimecodeSource\<rparr>
         else if so_max_failures opt \<le> ss_failures state then d\<lparr>dc_action := SkipExternal\<rparr>
         else if \<bar>error\<bar> \<le> dc_tolerance d then d\<lparr>dc_action := SkipInTolerance\<rparr>
         else if ss_has_last_write state \<and> ss_adapts state = 0 \<and> since < so_min_write_interval opt
           then d\<lparr>dc_action := SkipRateLimited, dc_since_write := since\<rparr>
         else if so_dry_run opt then d\<lparr>dc_action := SkipDryRun\<rparr>
         else d)"

text \<open>What a cycle does with the verdict (\<open>SyncDaemon::evaluate\<close>): a sync asked for by hand
  overrules an advisory gate.\<close>

definition forced_action :: "bool \<Rightarrow> sync_action \<Rightarrow> sync_action" where
  "forced_action forced a = (if forced \<and> a \<noteq> Write \<and> gate_is_advisory a then Write else a)"

section \<open>Observing drift\<close>

definition forget_drift :: "sync_state \<Rightarrow> sync_state" where
  "forget_drift state =
     state\<lparr>ss_drift := no_drift, ss_has_last_obs := False, ss_has_anchor := False,
           ss_wrote_since_obs := False, ss_failures := 0, ss_adapts := 0\<rparr>"

record drift =
  dr_has_step :: bool
  dr_step_ppm :: real
  dr_step_dt :: real
  dr_step_shown :: bool
  dr_has_anchor :: bool
  dr_anchor_ppm :: real
  dr_anchor_span :: real
  dr_anchor_shown :: bool
  dr_restarted :: bool
  dr_restart_step :: real

definition empty_drift :: drift where
  "empty_drift =
     \<lparr>dr_has_step = False, dr_step_ppm = 0, dr_step_dt = 0, dr_step_shown = False,
      dr_has_anchor = False, dr_anchor_ppm = 0, dr_anchor_span = 0, dr_anchor_shown = False,
      dr_restarted = False, dr_restart_step = 0\<rparr>"

text \<open>The first part of \<open>observe\<close>: a jump too large for drift discards what was learned.\<close>

definition detect_restart :: "sync_options \<Rightarrow> sync_state \<Rightarrow> real \<Rightarrow> sync_state \<times> drift" where
  "detect_restart opt state error =
     (if ss_has_last_obs state \<and> \<not> ss_wrote_since_obs state \<and>
         so_restart_step opt < \<bar>error - ss_last_obs_error state\<bar>
      then (forget_drift state,
            empty_drift\<lparr>dr_restarted := True, dr_restart_step := error - ss_last_obs_error state\<rparr>)
      else (state, empty_drift))"

definition observe_step :: "sync_options \<Rightarrow> sync_state \<Rightarrow> real \<Rightarrow> real \<Rightarrow> drift \<Rightarrow> drift" where
  "observe_step opt state error now_mono d =
     (let dt = now_mono - ss_last_obs_mono state
      in if ss_has_last_obs state \<and> \<not> ss_wrote_since_obs state \<and> 5 < dt
         then d\<lparr>dr_has_step := True, dr_step_dt := dt,
                dr_step_ppm := (error - ss_last_obs_error state) / dt * 1000000,
                dr_step_shown := (so_min_drift_interval opt \<le> dt)\<rparr>
         else d)"

definition observe_anchor :: "sync_options \<Rightarrow> sync_state \<Rightarrow> real \<Rightarrow> real \<Rightarrow> drift \<Rightarrow> sync_state \<times> drift" where
  "observe_anchor opt state error now_mono d =
     (let state = (if ss_has_anchor state then state
                   else state\<lparr>ss_has_anchor := True, ss_anchor_mono := now_mono, ss_anchor_error := error\<rparr>);
          span = now_mono - ss_anchor_mono state;
          ppm = (error - ss_anchor_error state) / span * 1000000
      in if span \<le> 5 then (state, d)
         else (if so_min_drift_interval opt \<le> span
               then state\<lparr>ss_drift := \<lparr>de_has = True, de_ppm = ppm, de_span = span,
                                       de_samples = de_samples (ss_drift state) + 1\<rparr>\<rparr>
               else state,
               d\<lparr>dr_has_anchor := True, dr_anchor_span := span, dr_anchor_ppm := ppm,
                 dr_anchor_shown := (so_min_drift_interval opt \<le> span)\<rparr>))"

definition observe :: "sync_options \<Rightarrow> sync_state \<Rightarrow> real \<Rightarrow> real \<Rightarrow> sync_state \<times> drift" where
  "observe opt state error now_mono =
     (let (state, d) = detect_restart opt state error;
          d = observe_step opt state error now_mono d;
          state = state\<lparr>ss_has_last_obs := True, ss_last_obs_mono := now_mono,
                        ss_last_obs_error := error, ss_wrote_since_obs := False\<rparr>
      in observe_anchor opt state error now_mono d)"


section \<open>How early to send\<close>

definition observed_apply_delay :: "real \<Rightarrow> real \<Rightarrow> real" where
  "observed_apply_delay lead_used error_after = lead_used - error_after"

definition median :: "real list \<Rightarrow> real" where
  "median recent =
     (let n = length recent
      in if n mod 2 = 1 then recent ! (n div 2)
         else 1 / 2 * (recent ! (n div 2 - 1) + recent ! (n div 2)))"

definition recent_delays :: "real list \<Rightarrow> int \<Rightarrow> real list" where
  "recent_delays delays want =
     drop (if nat want < length delays then length delays - nat want else 0) delays"

definition estimate_lead :: "real list \<Rightarrow> sync_options \<Rightarrow> lead_estimate" where
  "estimate_lead delays opt =
     (if \<not> so_adapt_lead opt then no_lead
      else let want = (if 0 < so_lead_window opt then so_lead_window opt else 1);
               need = (if 0 < so_min_lead_samples opt then so_min_lead_samples opt else 1)
        in if int (length delays) < need then no_lead
           else let recent = sort (recent_delays delays want);
                    m = median recent;
                    m = (if m < 0 then 0 else m);
                    m = (if so_max_lead opt < m then so_max_lead opt else m)
             in \<lparr>le_has = True, le_lead_s = m, le_samples = int (length recent)\<rparr>)"

definition effective_lead :: "sync_options \<Rightarrow> sync_state \<Rightarrow> real" where
  "effective_lead opt state =
     (if so_adapt_lead opt \<and> le_has (ss_lead state) then le_lead_s (ss_lead state) else so_lead opt)"

definition reading_age_s :: "real \<Rightarrow> real \<Rightarrow> real \<Rightarrow> real" where
  "reading_age_s now_mono stamp_mono max_age =
     (if stamp_mono \<le> 0 then 0
      else let age = now_mono - stamp_mono
        in if age \<le> 0 then 0 else if age < max_age then age else max_age)"

definition frame_centre_s :: "int \<Rightarrow> real" where
  "frame_centre_s fps = (if fps \<le> 0 then 0 else 1 / 2 / of_int fps)"

section \<open>When to look again\<close>

definition drift_bound_ppm :: "sync_options \<Rightarrow> drift_estimate \<Rightarrow> int \<Rightarrow> real" where
  "drift_bound_ppm opt est fps =
     (if \<not> de_has est then 0
      else let rate = (if 0 < fps then fps else so_fps opt); rate = (if rate \<le> 0 then 24 else rate);
               quantisation = (if 0 < de_span est then 1 / of_int rate / de_span est * 1000000 else 0);
               bound = \<bar>de_ppm est\<bar> + quantisation
        in if bound < so_min_assumed_ppm opt then so_min_assumed_ppm opt else bound)"

datatype poll_reason = Floor | Fixed | RateLimit | DriftReason

record poll_plan =
  pl_seconds :: real
  pl_until_actionable :: real
  pl_reason :: poll_reason

definition until_wrong :: "sync_options \<Rightarrow> sync_state \<Rightarrow> real \<Rightarrow> int \<Rightarrow> real" where
  "until_wrong opt state error fps =
     (if de_has (ss_drift state)
      then let bound = drift_bound_ppm opt (ss_drift state) fps;
               headroom = trigger_tolerance opt fps - \<bar>error\<bar>
        in if 0 < headroom \<and> 0 < bound then headroom / (bound / 1000000) else 0
      else 0)"

definition until_allowed :: "sync_options \<Rightarrow> sync_state \<Rightarrow> real \<Rightarrow> real" where
  "until_allowed opt state now_mono =
     (if ss_has_last_write state \<and> ss_adapts state = 0
      then let u = so_min_write_interval opt - (now_mono - ss_last_write_mono state)
        in if u < 0 then 0 else u
      else 0)"

definition next_poll :: "sync_options \<Rightarrow> sync_state \<Rightarrow> real \<Rightarrow> int \<Rightarrow> real \<Rightarrow> poll_plan" where
  "next_poll opt state error fps now_mono =
     (if \<not> so_adaptive_poll opt
      then \<lparr>pl_seconds = so_poll opt, pl_until_actionable = 0, pl_reason = Fixed\<rparr>
      else let wrong = until_wrong opt state error fps; allowed = until_allowed opt state now_mono;
               gated = (wrong \<le> allowed); actionable = (if gated then allowed else wrong);
               slices = (if 0 < so_poll_slices opt then so_poll_slices opt else 1);
               want = actionable / of_int slices;
               want = (if so_max_poll opt < want then so_max_poll opt else want);
               want = (if want < so_poll opt then so_poll opt else want)
        in \<lparr>pl_seconds = want, pl_until_actionable = actionable,
            pl_reason = (if want \<le> so_poll opt then Floor else if gated then RateLimit else DriftReason)\<rparr>)"

fun double_up :: "nat \<Rightarrow> real \<Rightarrow> real \<Rightarrow> real" where
  "double_up 0 cap wait = wait"
| "double_up (Suc n) cap wait =
     (if wait < cap then double_up n cap (wait * 2) else wait)"

definition reacquire_interval :: "sync_options \<Rightarrow> int \<Rightarrow> real" where
  "reacquire_interval opt misses =
     (let first = (if 0 < so_poll opt then so_poll opt else 1);
          cap = (if first < so_max_poll opt then so_max_poll opt else first)
      in if misses \<le> 0 then first
         else let wait = double_up (nat misses) cap first
           in if cap < wait then cap else wait)"

section \<open>Judging a write\<close>

datatype verdict = VOk | VAdapting | VNoEffect

record write_outcome =
  wo_verdict :: verdict
  wo_verified :: bool
  wo_timing_usable :: bool
  wo_bias_before :: int
  wo_bias_after :: int
  wo_bias_changed :: bool

definition judge_write ::
    "sync_options \<Rightarrow> sync_state \<Rightarrow> real \<Rightarrow> real \<Rightarrow> real \<Rightarrow> sync_state \<times> write_outcome" where
  "judge_write opt state0 error_before error_after now_mono =
     (let ok = \<bar>error_after\<bar> \<le> so_write_tolerance opt;
          improved = \<bar>error_after\<bar> < \<bar>error_before\<bar> - 1 / 4;
          bias = ss_rtc_bias state0; adapts = ss_adapts state0;
          out = \<lparr>wo_verdict = VOk, wo_verified = (ok \<or> improved), wo_timing_usable = False,
                 wo_bias_before = bias, wo_bias_after = bias, wo_bias_changed = False\<rparr>;
          state = state0\<lparr>ss_wrote_since_obs := True, ss_has_last_obs := True,
                         ss_last_obs_mono := now_mono, ss_last_obs_error := error_after,
                         ss_has_anchor := True, ss_anchor_mono := now_mono,
                         ss_anchor_error := error_after\<rparr>
      in if ok \<or> improved
         then let residual = lround (- error_after);
                  state = state\<lparr>ss_failures := 0, ss_adapts := 0\<rparr>;
                  out = out\<lparr>wo_timing_usable := (\<bar>error_after\<bar> < 1 / 2)\<rparr>
           in if residual \<noteq> 0 \<and> so_adapt_bias opt
              then (state\<lparr>ss_rtc_bias := bias + residual\<rparr>,
                    out\<lparr>wo_bias_after := bias + residual, wo_bias_changed := True\<rparr>)
              else (state, out)
         else if so_adapt_bias opt \<and> adapts < so_max_adapts opt
         then let step = lround (- error_after);
                  step = (if so_max_bias_step opt < \<bar>step\<bar>
                          then (if 0 < step then so_max_bias_step opt else - so_max_bias_step opt)
                          else step)
           in (state\<lparr>ss_rtc_bias := bias + step, ss_adapts := adapts + 1\<rparr>,
               out\<lparr>wo_verdict := VAdapting, wo_bias_after := bias + step, wo_bias_changed := True\<rparr>)
         else (state\<lparr>ss_failures := ss_failures state0 + 1, ss_adapts := 0\<rparr>,
               out\<lparr>wo_verdict := VNoEffect\<rparr>))"

section \<open>Timing a write\<close>

function align_up :: "real \<Rightarrow> real \<Rightarrow> real \<Rightarrow> real" where
  "align_up whole target lead =
     (if whole - target < lead then align_up (whole + 1) target lead else whole)"
  by pat_completeness auto
termination
proof (relation "measure (\<lambda>(whole, target, lead). nat \<lceil>lead - (whole - target)\<rceil>)")
  fix whole target lead :: real
  assume "whole - target < lead"
  then show "((whole + 1, target, lead), whole, target, lead)
      \<in> measure (\<lambda>(whole, target, lead). nat \<lceil>lead - (whole - target)\<rceil>)"
    by (simp add: nat_less_eq_zless) linarith
qed simp

declare align_up.simps [simp del]

definition aligned_wait :: "real \<Rightarrow> real \<Rightarrow> real \<Rightarrow> real \<Rightarrow> real" where
  "aligned_wait now_unix offset bias lead =
     (let target = now_unix + offset + bias;
          whole = align_up (of_int \<lfloor>target\<rfloor> + 1) target lead;
          wait = (whole - target) - lead
      in if 0 < wait then wait else 0)"

definition aligned_value :: "real \<Rightarrow> real \<Rightarrow> real \<Rightarrow> civil" where
  "aligned_value send_unix offset bias = utc_civil (of_int \<lfloor>send_unix + offset + bias + 1 / 2\<rfloor>)"

definition aligned_value_on_date :: "real \<Rightarrow> real \<Rightarrow> real \<Rightarrow> civil \<Rightarrow> real \<Rightarrow> civil" where
  "aligned_value_on_date send_unix offset bias camera_date camera_sod =
     (let loose = utc_civil (of_int \<lfloor>send_unix + offset + bias + 1 / 2\<rfloor>);
          out = camera_date\<lparr>hour := hour loose, minute := minute loose, second := second loose\<rparr>
      in if camera_sod < 0 then out
         else let target_sod = of_int (hour out) * 3600 + of_int (minute out) * 60 + of_int (second out);
                  gap = target_sod - camera_sod
           in if gap < - 43200 then add_days out 1
              else if 43200 < gap then add_days out (- 1)
              else out)"

end
