(* ===== verification/CamSyncLaws.thy ===== *)
theory CamSyncLaws
  imports CamSync
begin

text \<open>
  What the synchronisation of a camera's clock guarantees: when a write may happen, how
  far ahead the schedule may look, how the bias, the lead and the drift are learned, when
  the daemon gives up, and that a timed write lands on the second it carries.
\<close>

section \<open>The gates hold\<close>

lemma decide_write:
  "dc_action (decide opt state error fps cond now_mono) = Write \<longleftrightarrow>
     cn_writes_enabled cond \<and> \<not> cn_recording cond \<and> timecode_follows_rtc cond \<and>
     ss_failures state < so_max_failures opt \<and> trigger_tolerance opt fps < \<bar>error\<bar> \<and>
     \<not> (ss_has_last_write state \<and> ss_adapts state = 0 \<and>
        now_mono - ss_last_write_mono state < so_min_write_interval opt) \<and> \<not> so_dry_run opt"
  by (auto simp: decide_def Let_def)

lemma decide_refused:
  "\<not> (cn_writes_enabled cond \<and> \<not> cn_recording cond \<and> timecode_follows_rtc cond) \<Longrightarrow>
     \<not> gate_is_advisory (dc_action (decide opt state error fps cond now_mono)) \<and>
     dc_action (decide opt state error fps cond now_mono) \<noteq> Write"
  by (auto simp: decide_def Let_def)

text \<open>
  C1. A camera's clock is set only when its writes are enabled, it is not recording and
  its timecode follows its clock, whether the daemon decided to write or somebody asked
  for it by hand.  Unasked, a write also needs an error past the tolerance, fewer
  failures in a row than the limit, no write within the interval unless one is still
  converging, and no dry run.
\<close>

theorem writes_only_when_permitted:
  assumes "forced_action forced (dc_action (decide opt state error fps cond now_mono)) = Write"
  shows "cn_writes_enabled cond \<and> \<not> cn_recording cond \<and>
    (cn_has_timecode_source cond \<longrightarrow> cn_timecode_source cond = kTimecodeSourceTimeOfDay) \<and>
    (forced \<or> (ss_failures state < so_max_failures opt \<and> trigger_tolerance opt fps < \<bar>error\<bar> \<and>
       (ss_has_last_write state \<longrightarrow> ss_adapts state \<noteq> 0 \<or>
          so_min_write_interval opt \<le> now_mono - ss_last_write_mono state) \<and>
       \<not> so_dry_run opt))"
proof -
  have "cn_writes_enabled cond \<and> \<not> cn_recording cond \<and> timecode_follows_rtc cond"
    using assms decide_refused[of cond opt state error fps now_mono]
    by (auto simp: forced_action_def split: if_splits)
  moreover have "\<not> forced \<Longrightarrow> dc_action (decide opt state error fps cond now_mono) = Write"
    using assms by (simp add: forced_action_def)
  ultimately show ?thesis unfolding decide_write timecode_follows_rtc_def by (auto split: if_splits)
qed

definition open_conditions :: conditions where
  "open_conditions = \<lparr>cn_recording = False, cn_writes_enabled = True,
     cn_has_timecode_source = True, cn_timecode_source = 0\<rparr>"

theorem writes_only_when_permitted_witness:
  "trigger_tolerance default_options 24 < \<bar>3 / 100\<bar>"
proof -
  have "forced_action False (dc_action (decide default_options new_state (3 / 100) 24 open_conditions 5)) = Write"
    by (simp add: forced_action_def decide_def default_options_def new_state_def open_conditions_def
        trigger_tolerance_def timecode_follows_rtc_def const_defs)
  from writes_only_when_permitted[OF this] show ?thesis by blast
qed

text \<open>
  A sync asked for by hand writes to the camera of a daemon told never to write: the
  dry-run gate is the last one, so whenever an advisory gate fires before it the verdict
  is one that asking overrules, and the write goes out although \<open>--dry-run\<close> was given.
\<close>

theorem forced_sync_ignores_dry_run:
  assumes "cn_writes_enabled cond" "\<not> cn_recording cond" "timecode_follows_rtc cond"
    and "\<bar>error\<bar> \<le> trigger_tolerance opt fps"
  shows "forced_action True (dc_action (decide (opt\<lparr>so_dry_run := True\<rparr>) state error fps cond now_mono)) = Write"
  using assms by (auto simp: forced_action_def decide_def Let_def trigger_tolerance_def)

theorem forced_sync_ignores_dry_run_witness:
  "forced_action True (dc_action (decide (default_options\<lparr>so_dry_run := True\<rparr>) new_state (1 / 100) 24
     open_conditions 5)) = Write"
  by (rule forced_sync_ignores_dry_run)
    (simp_all add: open_conditions_def default_options_def trigger_tolerance_def timecode_follows_rtc_def const_defs)

section \<open>When to look again\<close>

text \<open>
  C19. With the adaptive schedule the time to the next look lies between the base and the
  longest interval, and up to the moment it calls actionable nothing can be due: however
  the clock moves within the drift bound it was measured to have, the daemon would not
  write before then.
\<close>

theorem nothing_due_before_actionable:
  assumes "so_adaptive_poll opt" and "so_poll opt \<le> so_max_poll opt"
    and "0 \<le> t" and "t < pl_until_actionable (next_poll opt state error fps now_mono)"
    and "\<bar>error'\<bar> \<le> \<bar>error\<bar> + drift_bound_ppm opt (ss_drift state) fps / 1000000 * t"
  shows "dc_action (decide opt state error' fps cond (now_mono + t)) \<noteq> Write \<and>
    so_poll opt \<le> pl_seconds (next_poll opt state error fps now_mono) \<and>
    pl_seconds (next_poll opt state error fps now_mono) \<le> so_max_poll opt"
proof (intro conjI)
  let ?b = "drift_bound_ppm opt (ss_drift state) fps" and ?tol = "trigger_tolerance opt fps"
  have "t < until_allowed opt state now_mono \<or> t < until_wrong opt state error fps"
    using assms(1,4) by (auto simp: next_poll_def Let_def split: if_splits)
  then show "dc_action (decide opt state error' fps cond (now_mono + t)) \<noteq> Write"
  proof
    assume "t < until_allowed opt state now_mono"
    then show ?thesis using assms(3) unfolding decide_write
      by (auto simp: until_allowed_def Let_def split: if_splits)
  next
    assume w: "t < until_wrong opt state error fps"
    then have p: "0 < ?b" "0 < ?tol - \<bar>error\<bar>"
      and "t < (?tol - \<bar>error\<bar>) / (?b / 1000000)" using assms(3)
      by (auto simp: until_wrong_def Let_def split: if_splits)
    then have "?b / 1000000 * t < ?tol - \<bar>error\<bar>" by (simp add: field_simps)
    then have "\<bar>error'\<bar> \<le> ?tol" using assms(5) by linarith
    then show ?thesis unfolding decide_write by simp
  qed
qed (use assms(1,2) in \<open>auto simp: next_poll_def Let_def\<close>)

definition drifting :: sync_state where
  "drifting = new_state\<lparr>ss_drift := \<lparr>de_has = True, de_ppm = 10, de_span = 3600, de_samples = 4\<rparr>\<rparr>"

theorem nothing_due_before_actionable_witness:
  "dc_action (decide default_options drifting (1 / 100) 24 open_conditions (100 + 60)) \<noteq> Write"
proof -
  show ?thesis
    using nothing_due_before_actionable[of default_options 60 drifting "1 / 100" 24 100 "1 / 100" open_conditions]
    by (simp add: drift_bound_ppm_def default_options_def drifting_def new_state_def next_poll_def
        until_wrong_def until_allowed_def trigger_tolerance_def)
qed

lemma double_up_closed:
  "0 < w \<Longrightarrow> w \<le> cap \<Longrightarrow> min cap (double_up n cap w) = min cap (w * 2 ^ n)"
proof (induction n arbitrary: w)
  case (Suc n)
  show ?case
  proof (cases "w * 2 \<le> cap")
    case True
    then show ?thesis using Suc by (simp add: algebra_simps)
  next
    case False
    have "w * 2 * 1 \<le> w * 2 * 2 ^ n" using Suc.prems by (intro mult_left_mono) simp_all
    then have "cap \<le> w * 2 ^ Suc n" using False by (simp add: algebra_simps)
    moreover have "double_up m cap x = x" if "cap \<le> x" for m x using that by (cases m) simp_all
    ultimately show ?thesis using False Suc.prems by simp
  qed
qed simp

definition first_interval :: "sync_options \<Rightarrow> real" where
  "first_interval opt = (if 0 < so_poll opt then so_poll opt else 1)"

text \<open>
  The interval after n scans without the camera is the first interval doubled n
  times, capped at the longest one: the loop that doubles it step by step computes that
  closed form, for any number of misses, and never returns a time that is not positive.
\<close>

theorem reacquire_closed_form:
  "reacquire_interval opt misses =
     min (max (so_max_poll opt) (first_interval opt)) (first_interval opt * 2 ^ nat misses) \<and>
   0 < reacquire_interval opt misses"
proof -
  have f: "0 < first_interval opt" by (simp add: first_interval_def)
  have "reacquire_interval opt misses =
      min (max (so_max_poll opt) (first_interval opt)) (first_interval opt * 2 ^ nat misses)"
  proof (cases "misses \<le> 0")
    case True
    then show ?thesis by (simp add: reacquire_interval_def Let_def first_interval_def)
  next
    case False
    let ?c = "max (so_max_poll opt) (first_interval opt)"
    have c: "(if first_interval opt < so_max_poll opt then so_max_poll opt else first_interval opt) = ?c"
      by (simp add: max_def)
    have "reacquire_interval opt misses = min ?c (double_up (nat misses) ?c (first_interval opt))"
      using False unfolding reacquire_interval_def Let_def first_interval_def[symmetric] c
      by (simp add: min_def del: max.bounded_iff max_less_iff_conj)
    then show ?thesis using double_up_closed[OF f, of ?c "nat misses"] by simp
  qed
  then show ?thesis using f by simp
qed

section \<open>Learning the bias\<close>

lemma lround_near:
  assumes "\<bar>e\<bar> < 1 / 2"
  shows "lround (of_int n + e) = n"
proof (cases "0 \<le> of_int n + e")
  case True
  have "\<lfloor>of_int n + e + 1 / 2\<rfloor> = n" by (rule floor_unique) (use assms in linarith)+
  then show ?thesis using True by (simp add: lround_def)
next
  case False
  have "- 1 / 2 < e" "e < 1 / 2" using assms by linarith+
  then have "\<lfloor>1 / 2 - (of_int n + e)\<rfloor> = - n" by (intro floor_unique) simp_all
  then show ?thesis using False by (simp add: lround_def)
qed

text \<open>
  One write teaches the whole-second bias.  When a write under the current bias
  lands off by the whole seconds the bias is wrong by and less than half a second more,
  and that many seconds are within the largest step, the bias held afterwards is the
  right one, whether the write counted as verified or as one to retry.
\<close>

theorem one_write_learns_bias:
  assumes "so_adapt_bias opt" and "\<bar>r\<bar> < 1 / 2"
    and "error_after = of_int (ss_rtc_bias state - correct) + r"
    and "\<bar>ss_rtc_bias state - correct\<bar> \<le> so_max_bias_step opt"
    and "judge_write opt state error_before error_after now_mono = (state', out)"
    and "wo_verdict out \<noteq> VNoEffect"
  shows "ss_rtc_bias state' = correct \<and> wo_bias_after out = correct \<and>
    (wo_bias_changed out \<longleftrightarrow> ss_rtc_bias state \<noteq> correct \<or> wo_verdict out = VAdapting)"
proof -
  have "- error_after = of_int (correct - ss_rtc_bias state) + (- r)" using assms(3) by simp
  then have l: "lround (- error_after) = correct - ss_rtc_bias state"
    using lround_near[of "- r" "correct - ss_rtc_bias state"] assms(2) by simp
  have "\<not> so_max_bias_step opt < \<bar>correct - ss_rtc_bias state\<bar>" using assms(4) by linarith
  then show ?thesis using assms(1,5,6) l
    by (auto simp: judge_write_def Let_def split: if_splits)
qed

theorem one_write_learns_bias_witness:
  "ss_rtc_bias (fst (judge_write default_options new_state (- 76) (- 75 - 1 / 10) 5)) = 75"
proof -
  have n: "lround (- (- 75 - 1 / 10)) = 75" using lround_near[of "1 / 10" 75] by simp
  show ?thesis
    using one_write_learns_bias[of default_options "- 1 / 10" "- 75 - 1 / 10" new_state 75 "- 76" 5
        "fst (judge_write default_options new_state (- 76) (- 75 - 1 / 10) 5)"
        "snd (judge_write default_options new_state (- 76) (- 75 - 1 / 10) 5)"]
    by (simp add: default_options_def new_state_def judge_write_def Let_def n)
qed

text \<open>The writes of a stretch in which none lands, judged one after another.\<close>

fun judge_all :: "sync_options \<Rightarrow> sync_state \<Rightarrow> (real \<times> real \<times> real) list \<Rightarrow> sync_state" where
  "judge_all opt state [] = state"
| "judge_all opt state ((error_before, error_after, now_mono) # ws) =
     judge_all opt (fst (judge_write opt state error_before error_after now_mono)) ws"

definition missed :: "sync_options \<Rightarrow> real \<times> real \<times> real \<Rightarrow> bool" where
  "missed opt w = (so_write_tolerance opt < \<bar>fst (snd w)\<bar> \<and> \<bar>fst w\<bar> - 1 / 4 \<le> \<bar>fst (snd w)\<bar>)"

definition retries :: "sync_options \<Rightarrow> int" where
  "retries opt = (if so_adapt_bias opt then max 0 (so_max_adapts opt) else 0)"

lemma judge_missed:
  assumes "missed opt (error_before, error_after, now_mono)" and "0 \<le> ss_adapts state" and "ss_adapts state \<le> retries opt"
  defines "s \<equiv> fst (judge_write opt state error_before error_after now_mono)"
  shows "ss_failures s * (retries opt + 1) + ss_adapts s =
      ss_failures state * (retries opt + 1) + ss_adapts state + 1 \<and>
    0 \<le> ss_adapts s \<and> ss_adapts s \<le> retries opt"
proof (cases "so_adapt_bias opt \<and> ss_adapts state < so_max_adapts opt")
  case True
  then have "ss_failures s = ss_failures state" "ss_adapts s = ss_adapts state + 1"
    using assms(1) unfolding s_def by (simp_all add: judge_write_def Let_def missed_def not_less not_le)
  then show ?thesis using True assms(2) by (simp add: retries_def)
next
  case False
  then have "ss_failures s = ss_failures state + 1" "ss_adapts s = 0"
    using assms(1) unfolding s_def by (auto simp: judge_write_def Let_def missed_def not_less not_le)
  moreover have "ss_adapts state = retries opt" using False assms(2,3) by (auto simp: retries_def)
  ultimately show ?thesis by (simp add: algebra_simps retries_def)
qed

lemma judge_all_missed:
  "(\<forall>w \<in> set ws. missed opt w) \<Longrightarrow> 0 \<le> ss_adapts state \<Longrightarrow> ss_adapts state \<le> retries opt \<Longrightarrow>
   ss_failures (judge_all opt state ws) * (retries opt + 1) + ss_adapts (judge_all opt state ws) =
     ss_failures state * (retries opt + 1) + ss_adapts state + int (length ws) \<and>
   0 \<le> ss_adapts (judge_all opt state ws) \<and> ss_adapts (judge_all opt state ws) \<le> retries opt"
proof (induction opt state ws rule: judge_all.induct)
  case (2 opt state error_before error_after now_mono ws)
  note j = judge_missed[of opt error_before error_after now_mono state]
  show ?case using "2.IH" j "2.prems" by simp
qed simp

text \<open>
  C24. The daemon gives up on a camera that ignores it: after the failure limit times one
  more than the retries allowed, every further look at an error leaves the clock alone,
  and with fewer writes than that the limit has not been reached.
\<close>

theorem gives_up_on_external_source:
  assumes "\<forall>w \<in> set ws. missed opt w" and "ss_adapts state = 0" and "ss_failures state = 0"
  shows "(int (length ws) < so_max_failures opt * (retries opt + 1) \<longleftrightarrow>
      ss_failures (judge_all opt state ws) < so_max_failures opt) \<and>
    (so_max_failures opt * (retries opt + 1) \<le> int (length ws) \<longrightarrow>
      dc_action (decide opt (judge_all opt state ws) error fps cond now_mono) \<noteq> Write)"
proof -
  let ?s = "judge_all opt state ws" and ?r = "retries opt + 1"
  have "0 \<le> retries opt" by (simp add: retries_def)
  then have n: "ss_failures ?s * ?r + ss_adapts ?s = int (length ws)" "0 \<le> ss_adapts ?s" "ss_adapts ?s < ?r"
    using judge_all_missed[OF assms(1), of state] assms(2,3) by auto
  have e: "int (length ws) < so_max_failures opt * ?r \<longleftrightarrow> ss_failures ?s < so_max_failures opt"
  proof
    assume "int (length ws) < so_max_failures opt * ?r"
    then have "ss_failures ?s * ?r < so_max_failures opt * ?r" using n by linarith
    then show "ss_failures ?s < so_max_failures opt" using n(2,3) by (simp add: mult_less_cancel_right)
  next
    assume "ss_failures ?s < so_max_failures opt"
    then have "(ss_failures ?s + 1) * ?r \<le> so_max_failures opt * ?r" using n(2,3) by (intro mult_right_mono) simp_all
    then show "int (length ws) < so_max_failures opt * ?r" using n by (simp add: algebra_simps)
  qed
  have "ss_failures ?s < so_max_failures opt"
    if "dc_action (decide opt ?s error fps cond now_mono) = Write"
    using that by (auto simp: decide_def Let_def split: if_splits)
  with e show ?thesis by fastforce
qed

theorem gives_up_on_external_source_witness:
  "dc_action (decide default_options (judge_all default_options new_state (replicate 15 (300, 300, 9))) 300 24
     \<lparr>cn_recording = False, cn_writes_enabled = True, cn_has_timecode_source = False, cn_timecode_source = 0\<rparr> 99999)
   \<noteq> Write"
proof -
  have "\<forall>w \<in> set (replicate 15 (300, 300, 9)). missed default_options w"
    by (simp add: missed_def default_options_def)
  moreover have "so_max_failures default_options * (retries default_options + 1) \<le> int (length (replicate 15 (300, 300, 9)))"
    by (simp add: default_options_def retries_def)
  ultimately show ?thesis
    using gives_up_on_external_source[of "replicate 15 (300, 300, 9)" default_options new_state]
    by (simp add: new_state_def)
qed

section \<open>The lead\<close>

lemma sorted_index_counts:
  assumes "sorted xs" and "i < length xs"
  shows "xs ! i < a \<Longrightarrow> Suc i \<le> length (filter (\<lambda>x. x < a) xs)"
    and "b < xs ! i \<Longrightarrow> length xs - i \<le> length (filter (\<lambda>x. b < x) xs)"
proof -
  assume l: "xs ! i < a"
  have "\<forall>x \<in> set (take (Suc i) xs). x < a"
  proof
    fix x assume "x \<in> set (take (Suc i) xs)"
    then obtain j where "j < Suc i" "x = xs ! j" using assms(2) by (auto simp: in_set_conv_nth)
    then show "x < a" using l sorted_nth_mono[OF assms(1), of j i] assms(2) by auto
  qed
  then have "filter (\<lambda>x. x < a) (take (Suc i) xs) = take (Suc i) xs" by (rule filter_True)
  then have "length (filter (\<lambda>x. x < a) (take (Suc i) xs @ drop (Suc i) xs)) \<ge> Suc i"
    using assms(2) by (simp only: filter_append length_append) simp
  then show "Suc i \<le> length (filter (\<lambda>x. x < a) xs)" by simp
next
  assume l: "b < xs ! i"
  have "\<forall>x \<in> set (drop i xs). b < x"
  proof
    fix x assume "x \<in> set (drop i xs)"
    then obtain j where "j < length xs - i" "x = xs ! (i + j)" by (auto simp: in_set_conv_nth)
    moreover from this have "i + j < length xs" by linarith
    ultimately show "b < x" using l sorted_nth_mono[OF assms(1), of i "i + j"] by auto
  qed
  then have "filter (\<lambda>x. b < x) (drop i xs) = drop i xs" by (rule filter_True)
  then have "length (filter (\<lambda>x. b < x) (take i xs @ drop i xs)) \<ge> length xs - i"
    by (simp only: filter_append length_append) simp
  then show "length xs - i \<le> length (filter (\<lambda>x. b < x) xs)" by simp
qed

lemma filter_disjoint_length:
  "(\<And>x. P x \<Longrightarrow> \<not> Q x) \<Longrightarrow> length (filter P xs) + length (filter Q xs) \<le> length xs"
  by (induction xs) auto

lemma median_within:
  assumes "sorted xs" and "length xs < 2 * length (filter (\<lambda>x. a \<le> x \<and> x \<le> b) xs)"
  shows "a \<le> median xs \<and> median xs \<le> b"
proof -
  let ?n = "length xs" and ?g = "length (filter (\<lambda>x. a \<le> x \<and> x \<le> b) xs)"
  have g: "?g \<le> ?n" by (rule length_filter_le)
  have few: "length (filter (\<lambda>x. x < a) xs) + ?g \<le> ?n" "length (filter (\<lambda>x. b < x) xs) + ?g \<le> ?n"
    by (intro filter_disjoint_length; simp)+
  have lo: "a \<le> xs ! i" if "i < ?n" "?n \<le> 2 * Suc i" for i
    using sorted_index_counts(1)[OF assms(1) that(1), of a] few assms(2) that(2) by (cases "xs ! i < a") auto
  have hi: "xs ! i \<le> b" if "i < ?n" "?n \<le> 2 * (?n - i)" for i
    using sorted_index_counts(2)[OF assms(1) that(1), of b] few assms(2) that(2) by (cases "b < xs ! i") auto
  have n: "0 < ?n" using assms(2) g by linarith
  show ?thesis
  proof (cases "?n mod 2 = 1")
    case True
    have "a \<le> xs ! (?n div 2)" "xs ! (?n div 2) \<le> b" using n True by (intro lo hi; presburger)+
    then show ?thesis using True by (simp add: median_def Let_def)
  next
    case False
    have "a \<le> xs ! (?n div 2 - 1)" "xs ! (?n div 2) \<le> b" using n False by (intro lo hi; presburger)+
    moreover have "xs ! (?n div 2 - 1) \<le> xs ! (?n div 2)"
      using n by (intro sorted_nth_mono[OF assms(1)]) auto
    ultimately show ?thesis using False by (simp add: median_def Let_def field_simps)
  qed
qed

text \<open>
  The lead learned from the recent writes lies between zero and the largest lead, and
  a minority of wrong measurements cannot move it out of the range of the others: if more
  than half of the delays in the window lie between two bounds within those limits, so
  does the lead.
\<close>

theorem lead_is_robust:
  assumes "so_adapt_lead opt" and "0 \<le> so_max_lead opt" and "0 < so_lead_window opt"
    and "max 1 (so_min_lead_samples opt) \<le> int (length delays)"
    and "length (recent_delays delays (so_lead_window opt)) <
      2 * length (filter (\<lambda>x. a \<le> x \<and> x \<le> b) (recent_delays delays (so_lead_window opt)))"
    and "0 \<le> a" and "b \<le> so_max_lead opt"
  shows "le_has (estimate_lead delays opt) \<and>
    a \<le> le_lead_s (estimate_lead delays opt) \<and> le_lead_s (estimate_lead delays opt) \<le> b \<and>
    le_samples (estimate_lead delays opt) = min (so_lead_window opt) (int (length delays))"
proof -
  let ?r = "recent_delays delays (so_lead_window opt)"
  have f: "length (filter P (sort xs)) = length (filter P xs)" for P and xs :: "real list"
    by (simp add: filter_sort)
  have "length (sort ?r) < 2 * length (filter (\<lambda>x. a \<le> x \<and> x \<le> b) (sort ?r))"
    using assms(5) by (simp add: f)
  then have m: "a \<le> median (sort ?r)" "median (sort ?r) \<le> b" by (simp_all add: median_within)
  have "\<not> int (length delays) < (if 0 < so_min_lead_samples opt then so_min_lead_samples opt else 1)"
    using assms(4) by (auto simp: max_def split: if_splits)
  then show ?thesis using assms(1,3,6,7) m
    by (simp add: estimate_lead_def Let_def recent_delays_def)
qed

theorem lead_is_robust_witness:
  "le_lead_s (estimate_lead [9, 1 / 10, 2 / 10, - 7, 1 / 10] default_options) \<le> 2 / 10"
  using lead_is_robust[of default_options "[9, 1 / 10, 2 / 10, - 7, 1 / 10]" "1 / 10" "2 / 10"]
  by (simp add: default_options_def recent_delays_def)

section \<open>Landing on a second\<close>

lemma align_up_closed: "align_up whole target lead = whole + of_int (max 0 \<lceil>lead - (whole - target)\<rceil>)"
proof (induction whole target lead rule: align_up.induct)
  case (1 whole target lead)
  show ?case
  proof (cases "whole - target < lead")
    case True
    have "\<lceil>lead - (whole + 1 - target)\<rceil> = \<lceil>lead - (whole - target)\<rceil> - 1"
      by (metis (no_types, opaque_lifting) add_diff_eq ceiling_diff_one diff_add_eq diff_diff_eq2 diff_diff_add)
    moreover have "0 < \<lceil>lead - (whole - target)\<rceil>" using True by simp
    ultimately show ?thesis using True 1 align_up.simps[of whole target lead] by (simp add: max_def)
  next
    case False
    then have "max 0 \<lceil>lead - (whole - target)\<rceil> = 0" by (simp add: max_absorb1)
    moreover have "align_up whole target lead = whole" using False align_up.simps[of whole target lead] by simp
    ultimately show ?thesis by simp
  qed
qed

lemma align_up_bounds:
  "lead \<le> align_up whole target lead - target"
  "align_up whole target lead = whole \<or> align_up whole target lead - 1 - target < lead"
proof -
  define c where "c = \<lceil>lead - (whole - target)\<rceil>"
  have c: "lead - (whole - target) \<le> of_int c" "of_int c - 1 < lead - (whole - target)"
    unfolding c_def by linarith+
  have e: "align_up whole target lead = whole + of_int (max 0 c)" by (simp add: align_up_closed c_def)
  have "0 \<le> c \<or> c < 0" by linarith
  then show "lead \<le> align_up whole target lead - target"
    "align_up whole target lead = whole \<or> align_up whole target lead - 1 - target < lead"
    unfolding e using c by (auto simp: max_def)
qed

text \<open>
  The loop that looks for a second far enough ahead ends for every lead and stops at
  the first one: the result is whole seconds on from the start, leaves at least the
  lead, and unless it did not move at all, the second before leaves less.
\<close>

theorem align_up_first_reachable:
  "align_up whole target lead - target \<ge> lead \<and>
   (\<exists>n :: nat. align_up whole target lead = whole + of_nat n \<and>
      (n = 0 \<or> align_up whole target lead - 1 - target < lead))"
proof -
  define n where "n = nat (max 0 \<lceil>lead - (whole - target)\<rceil>)"
  have "align_up whole target lead = whole + of_nat n"
    by (simp add: align_up_closed n_def)
  moreover from this have "n = 0 \<or> align_up whole target lead - 1 - target < lead"
    using align_up_bounds(2)[of whole target lead] by auto
  ultimately show ?thesis using align_up_bounds(1)[of lead whole target] by blast
qed

lemma aligned_send:
  assumes "0 \<le> lead"
  obtains n :: int where "now_unix + aligned_wait now_unix offset bias lead + offset + bias + lead = of_int n"
    and "0 \<le> aligned_wait now_unix offset bias lead" and "aligned_wait now_unix offset bias lead \<le> 1"
proof -
  let ?t = "now_unix + offset + bias"
  let ?c = "\<lceil>lead - (of_int \<lfloor>?t\<rfloor> + 1 - ?t)\<rceil>"
  define w where "w = align_up (of_int \<lfloor>?t\<rfloor> + 1) ?t lead"
  have w: "w = of_int (\<lfloor>?t\<rfloor> + 1 + max 0 ?c)" unfolding w_def by (simp add: align_up_closed)
  have up: "lead \<le> w - ?t" using align_up_bounds(1)[of lead "of_int \<lfloor>?t\<rfloor> + 1" ?t] unfolding w_def by simp
  have le: "w - ?t \<le> lead + 1"
    using align_up_bounds(2)[of "of_int \<lfloor>?t\<rfloor> + 1" ?t lead] assms of_int_floor_le[of ?t]
    unfolding w_def by linarith
  have wait: "aligned_wait now_unix offset bias lead = w - ?t - lead"
    using up by (simp add: aligned_wait_def Let_def w_def[symmetric])
  show thesis using that[of "\<lfloor>?t\<rfloor> + 1 + max 0 ?c"] up le unfolding wait by (simp add: w)
qed



section \<open>The date of a write\<close>

lemma clock_parts: "(s :: int) div 3600 * 3600 + s mod 3600 div 60 * 60 + s mod 60 = s"
proof -
  have "s mod 60 = s mod 3600 mod 60" by (simp add: mod_mod_cancel)
  then have "s mod 3600 div 60 * 60 + s mod 60 = s mod 3600" by simp
  then show ?thesis using div_mult_mod_eq[of s 3600] by linarith
qed

lemma utc_civil_parts:
  "date_of (utc_civil u) = civil_from_days (\<lfloor>u\<rfloor> div 86400)"
  "hour (utc_civil u) * 3600 + minute (utc_civil u) * 60 + second (utc_civil u) = \<lfloor>u\<rfloor> mod 86400"
proof -
  show "date_of (utc_civil u) = civil_from_days (\<lfloor>u\<rfloor> div 86400)"
    by (simp add: utc_civil_def date_of_def Let_def split: prod.split)
  show "hour (utc_civil u) * 3600 + minute (utc_civil u) * 60 + second (utc_civil u) = \<lfloor>u\<rfloor> mod 86400"
    unfolding utc_civil_def Let_def by (simp only: split_beta civil.simps clock_parts)
qed

lemma add_days_as:
  "valid_date (date_of c) \<Longrightarrow>
   add_days c k = (let (y, m, d) = civil_from_days (days_from_civil (year c) (month c) (day c) + k)
     in c\<lparr>year := y, month := m, day := d\<rparr>)"
  by (cases c) (simp add: add_days_def date_of_def civil_days_civil Let_def)

text \<open>
  C13. A write dated from the camera carries the right date across midnight: when the
  camera shows a valid date and a time of day within twelve hours of the moment to be
  written, the value is exactly the date and time of that moment, whichever of the two
  has passed midnight first.
\<close>

theorem dated_write_right_across_midnight:
  assumes "valid_date (date_of camera_date)" and "0 \<le> camera_sod"
    and "n = \<lfloor>send_unix + offset + bias + 1 / 2\<rfloor>"
    and "\<bar>of_int n - (of_int (days_from_civil (year camera_date) (month camera_date) (day camera_date)) * 86400
           + camera_sod)\<bar> < 43200" and "camera_sod < 86400"
  shows "aligned_value_on_date send_unix offset bias camera_date camera_sod = utc_civil (of_int n)"
proof -
  define d where "d = days_from_civil (year camera_date) (month camera_date) (day camera_date)"
  let ?u = "utc_civil (of_int n)"
  let ?out = "camera_date\<lparr>hour := hour ?u, minute := minute ?u, second := second ?u\<rparr>"
  have v: "valid_date (date_of ?out)" using assms(1) by (simp add: date_of_def)
  have sod: "real_of_int (hour ?u) * 3600 + real_of_int (minute ?u) * 60 + real_of_int (second ?u) = of_int (n mod 86400)"
    using arg_cong[OF utc_civil_parts(2)[of "of_int n"], of real_of_int]
    by (simp only: of_int_add of_int_mult of_int_numeral floor_of_int)
  have at: "add_days ?out k = ?u" if "d + k = n div 86400" for k
  proof -
    have "days_from_civil (year ?out) (month ?out) (day ?out) = d" by (simp add: d_def)
    then have "add_days ?out k = (let (y, m, d) = civil_from_days (n div 86400) in ?out\<lparr>year := y, month := m, day := d\<rparr>)"
      by (simp only: add_days_as[OF v] that)
    also have "\<dots> = ?u" by (cases camera_date) (simp add: utc_civil_def Let_def split: prod.split)
    finally show ?thesis .
  qed
  have split: "n = n div 86400 * 86400 + n mod 86400" "0 \<le> n mod 86400" "n mod 86400 < 86400" by simp_all
  define q r where "q = n div 86400" and "r = n mod 86400"
  have q: "real_of_int n = of_int q * 86400 + of_int r" "0 \<le> real_of_int r" "real_of_int r < 86400"
    using arg_cong[OF split(1), of real_of_int] split(2,3) unfolding q_def r_def
    by (simp_all only: of_int_add of_int_mult of_int_numeral of_int_0_le_iff of_int_less_numeral_iff)
  have near: "\<bar>of_int (q - d) * 86400 + of_int r - camera_sod\<bar> < 43200"
    using assms(4) q unfolding d_def[symmetric] by (simp add: algebra_simps)
  have out: "aligned_value_on_date send_unix offset bias camera_date camera_sod =
      (if of_int r - camera_sod < - 43200 then add_days ?out 1
       else if 43200 < of_int r - camera_sod then add_days ?out (- 1) else ?out)"
    using assms(2) sod unfolding r_def aligned_value_on_date_def Let_def assms(3)[symmetric] by simp
  have "q - d < 2" "- 2 < q - d"
  proof -
    have "real_of_int (q - d) * 86400 < 2 * 86400" "- 2 * 86400 < real_of_int (q - d) * 86400"
      using near q assms(2,5) by linarith+
    then have "real_of_int (q - d) < 2" and "- 2 < real_of_int (q - d)" by simp_all
    then show "q - d < 2" and "- 2 < q - d" by linarith+
  qed
  then consider "q = d + 1" | "q = d" | "q = d - 1" by linarith
  then show ?thesis
  proof cases
    case 1
    then have "\<bar>86400 + of_int r - camera_sod\<bar> < 43200" using near by simp
    then have "of_int r - camera_sod < - 43200" by linarith
    then show ?thesis using out at[of 1] 1 by (simp add: q_def)
  next
    case 2
    then have "\<bar>of_int r - camera_sod\<bar> < 43200" using near by simp
    then have "\<not> of_int r - camera_sod < - 43200" "\<not> 43200 < of_int r - camera_sod" by linarith+
    then show ?thesis using out at[of 0] 2 by (simp add: q_def add_days_def)
  next
    case 3
    then have "\<bar>- 86400 + of_int r - camera_sod\<bar> < 43200" using near by simp
    then have "\<not> of_int r - camera_sod < - 43200" "43200 < of_int r - camera_sod" by linarith+
    then show ?thesis using out at[of "- 1"] 3 by (simp add: q_def)
  qed
qed

theorem dated_write_right_across_midnight_witness:
  "aligned_value_on_date 2 0 0 \<lparr>year = 1969, month = 12, day = 31, hour = 23, minute = 59, second = 59\<rparr> (86399 + 1 / 2) =
   \<lparr>year = 1970, month = 1, day = 1, hour = 0, minute = 0, second = 2\<rparr>"
proof -
  let ?c = "\<lparr>year = 1969, month = 12, day = 31, hour = 23, minute = 59, second = 59\<rparr>"
  have "valid_date (date_of ?c)" "days_from_civil 1969 12 31 = - 1" "civil_from_days 0 = (1970, 1, 1)" by code_simp+
  moreover have "\<lfloor>2 + 1 / 2 :: real\<rfloor> = 2" by (rule floor_unique) simp_all
  ultimately show ?thesis
    using dated_write_right_across_midnight[of ?c "86399 + 1 / 2" 2 2 0 0]
    by (simp add: utc_civil_def)
qed

section \<open>Drift of a steady clock\<close>

fun observe_all :: "sync_options \<Rightarrow> (real \<Rightarrow> real) \<Rightarrow> real list \<Rightarrow> sync_state \<Rightarrow> sync_state" where
  "observe_all opt err [] state = state"
| "observe_all opt err (t # ts) state = observe_all opt err ts (fst (observe opt state (err t) t))"

fun paced :: "real \<Rightarrow> real \<Rightarrow> real list \<Rightarrow> bool" where
  "paced limit t [] = True"
| "paced limit t (u # us) = (t \<le> u \<and> u - t \<le> limit \<and> paced limit u us)"

definition follows :: "(real \<Rightarrow> real) \<Rightarrow> real \<Rightarrow> real \<Rightarrow> sync_state \<Rightarrow> bool" where
  "follows err t0 t state \<longleftrightarrow>
     ss_has_last_obs state \<and> \<not> ss_wrote_since_obs state \<and> ss_last_obs_mono state = t \<and>
     ss_last_obs_error state = err t \<and> ss_has_anchor state \<and> ss_anchor_mono state = t0 \<and>
     ss_anchor_error state = err t0"

lemma observe_first:
  assumes "\<not> ss_has_last_obs state" and "\<not> ss_has_anchor state"
  shows "follows err t t (fst (observe opt state (err t) t)) \<and>
    ss_drift (fst (observe opt state (err t) t)) = ss_drift state"
  using assms
  by (simp add: observe_def detect_restart_def observe_step_def observe_anchor_def follows_def Let_def)

lemma observe_next:
  assumes "follows err t0 t state" and "\<bar>err u - err t\<bar> \<le> so_restart_step opt"
  shows "follows err t0 u (fst (observe opt state (err u) u)) \<and>
    ss_drift (fst (observe opt state (err u) u)) =
      (if 5 < u - t0 \<and> so_min_drift_interval opt \<le> u - t0
       then \<lparr>de_has = True, de_ppm = (err u - err t0) / (u - t0) * 1000000, de_span = u - t0,
             de_samples = de_samples (ss_drift state) + 1\<rparr>
       else ss_drift state)"
  using assms
  by (auto simp: observe_def detect_restart_def observe_step_def observe_anchor_def follows_def Let_def)

lemma observe_all_steady:
  assumes "\<And>t. err t = e0 + rate * t" and "\<bar>rate\<bar> * limit \<le> so_restart_step opt"
  shows "follows err t0 t state \<Longrightarrow> paced limit t us \<Longrightarrow> us \<noteq> [] \<Longrightarrow>
    5 < List.last us - t0 \<Longrightarrow> so_min_drift_interval opt \<le> List.last us - t0 \<Longrightarrow>
    de_has (ss_drift (observe_all opt err us state)) \<and>
    de_ppm (ss_drift (observe_all opt err us state)) = rate * 1000000 \<and>
    de_span (ss_drift (observe_all opt err us state)) = List.last us - t0"
proof (induction us arbitrary: t state)
  case (Cons u us)
  have "\<bar>rate\<bar> * \<bar>u - t\<bar> \<le> \<bar>rate\<bar> * limit" using Cons.prems by (intro mult_left_mono) auto
  then have "\<bar>err u - err t\<bar> \<le> so_restart_step opt"
    using assms by (simp add: abs_mult[symmetric] algebra_simps)
  note step = observe_next[OF Cons.prems(1) this]
  show ?case
  proof (cases us)
    case Nil
    have "u - t0 \<noteq> 0" using Cons.prems(4) Nil by simp
    then have "(err u - err t0) / (u - t0) = rate" using assms(1)
      by (simp add: field_simps)
    then show ?thesis using step Cons.prems Nil by simp
  next
    case (Cons v vs)
    then show ?thesis using Cons.IH[of u "fst (observe opt state (err u) u)"] step Cons.prems by simp
  qed
qed simp

text \<open>
  Watching a clock that walks at a steady rate measures that rate: whatever the times
  of the looks, if none is so far from the last that the walk passes for a power cycle,
  then once the stretch since the first look is long enough the drift held is the rate
  in parts per million over exactly that stretch.
\<close>

theorem steady_clock_measured:
  assumes "\<not> ss_has_last_obs state" and "\<not> ss_has_anchor state"
    and "\<And>t. err t = e0 + rate * t" and "\<bar>rate\<bar> * limit \<le> so_restart_step opt"
    and "paced limit t us" and "us \<noteq> []" and "5 < List.last us - t"
    and "so_min_drift_interval opt \<le> List.last us - t"
  shows "de_has (ss_drift (observe_all opt err (t # us) state)) \<and>
    de_ppm (ss_drift (observe_all opt err (t # us) state)) = rate * 1000000 \<and>
    de_span (ss_drift (observe_all opt err (t # us) state)) = List.last us - t"
  using observe_all_steady[OF assms(3,4), of t t "fst (observe opt state (err t) t)" us]
    observe_first[OF assms(1,2), of err t opt] assms(5-8) by simp

theorem steady_clock_measured_witness:
  "de_ppm (ss_drift (observe_all default_options (\<lambda>t. 3 + 1 / 100000 * t) [0, 1000, 2000] new_state)) = 10"
  using steady_clock_measured[of new_state "\<lambda>t. 3 + 1 / 100000 * t" 3 "1 / 100000" 1000 default_options 0 "[1000, 2000]"]
  by (simp add: new_state_def default_options_def)

text \<open>
  A jump of the error larger than a restart, with no write of the daemon's in between,
  is taken as the camera having been switched off and on: every figure learned from the
  old clock's value goes, the failures are forgotten, and the learned lead and bias stay.
\<close>

theorem restart_forgets_value_only:
  assumes "ss_has_last_obs state" and "\<not> ss_wrote_since_obs state"
    and "so_restart_step opt < \<bar>error - ss_last_obs_error state\<bar>"
  shows "dr_restarted (snd (observe opt state error now_mono)) \<and>
    fst (observe opt state error now_mono) =
      new_state\<lparr>ss_rtc_bias := ss_rtc_bias state, ss_lead := ss_lead state, ss_camera_id := ss_camera_id state,
        ss_has_last_write := ss_has_last_write state, ss_last_write_mono := ss_last_write_mono state,
        ss_has_last_obs := True, ss_last_obs_mono := now_mono, ss_last_obs_error := error,
        ss_has_anchor := True, ss_anchor_mono := now_mono, ss_anchor_error := error\<rparr>"
  using assms
  by (simp add: observe_def detect_restart_def observe_step_def observe_anchor_def forget_drift_def
      empty_drift_def new_state_def Let_def)

theorem restart_forgets_value_only_witness:
  "dr_restarted (snd (observe default_options
     (new_state\<lparr>ss_has_last_obs := True, ss_last_obs_error := - 23 / 1000\<rparr>) (- 3897 / 1000) 900))"
  using restart_forgets_value_only[of "new_state\<lparr>ss_has_last_obs := True, ss_last_obs_error := - 23 / 1000\<rparr>"
      default_options "- 3897 / 1000" 900]
  by (simp add: new_state_def default_options_def)

end
