(* ===== verification/Tentacle.thy ===== *)
theory Tentacle
  imports TimeUtil BoxMsg Hci
begin

text \<open>
  The payloads Tentacle boxes broadcast (\<open>src/tentacle.h\<close>, \<open>src/tentacle.cc\<close>): decoding a
  time from one and the encoders the fake radio uses.  The printed form
  \<open>Decoded::display\<close>, which nothing computes with, is left out.
\<close>

section \<open>Data\<close>

definition kTypeTimecode :: byte where [const_defs]: "kTypeTimecode = 0x22"
definition kTypeMicros :: byte where [const_defs]: "kTypeMicros = 0x32"
definition kTypeStatic :: byte where [const_defs]: "kTypeStatic = 0x42"

definition kFdacUuid :: string where "kFdacUuid = ''0000fdac-0000-1000-8000-00805f9b34fb''"

datatype resolution = NoResolution | FrameResolution | FrameMicros | MicrosecondResolution

fun resolution_name :: "resolution \<Rightarrow> string" where
  "resolution_name FrameResolution = ''frame''"
| "resolution_name FrameMicros = ''frame+us''"
| "resolution_name MicrosecondResolution = ''microsecond''"
| "resolution_name NoResolution = ''none''"

record decoded =
  td_ok :: bool
  td_has_type :: bool
  td_type :: byte
  td_sod :: real
  td_note :: string
  td_fps :: int
  td_frames :: int
  td_flags :: byte
  td_has_micros :: bool
  td_micros :: int
  td_resolution :: resolution

definition no_decoded :: decoded where
  "no_decoded = \<lparr>td_ok = False, td_has_type = False, td_type = 0, td_sod = 0, td_note = [],
     td_fps = 0, td_frames = - 1, td_flags = 0, td_has_micros = False, td_micros = 0,
     td_resolution = NoResolution\<rparr>"

section \<open>Decoding\<close>

definition byte_int :: "byte \<Rightarrow> int" where
  "byte_int b = int (unat b)"

definition decode_timecode :: "bytes \<Rightarrow> decoded \<Rightarrow> decoded" where
  "decode_timecode data out =
     (let h = byte_int (data ! 3); m = byte_int (data ! 4); s = byte_int (data ! 5); f = byte_int (data ! 6);
          fps = byte_int (data ! 2 AND 0x3f)
      in if 23 < h \<or> 59 < m \<or> 59 < s
         then out\<lparr>td_note := ''out of range: '' @ show_int h @ '':'' @ show_int m @ '':'' @ show_int s\<rparr>
         else if fps < 1 \<or> 60 < fps
         then out\<lparr>td_note := ''implausible frame rate '' @ show_int fps\<rparr>
         else let sod = of_int h * 3600 + of_int m * 60 + of_int s + of_int f / of_int fps;
                  out = out\<lparr>td_fps := fps, td_flags := data ! 1, td_frames := f,
                            td_resolution := FrameResolution\<rparr>
           in if 9 \<le> length data
              then let micros = byte_int (data ! 7) * 256 + byte_int (data ! 8)
                in out\<lparr>td_has_micros := True, td_micros := micros, td_resolution := FrameMicros,
                       td_sod := sod + of_int micros / 1000000, td_ok := True\<rparr>
              else out\<lparr>td_sod := sod, td_ok := True\<rparr>)"

definition micros_of :: "bytes \<Rightarrow> int" where
  "micros_of bs = foldl (\<lambda>m b. m * 256 + byte_int b) 0 bs"

definition decode_micros :: "bytes \<Rightarrow> decoded \<Rightarrow> decoded" where
  "decode_micros data out =
     (let micros = micros_of (take 5 (drop 3 data)); sod = of_int micros / 1000000
      in if 86400 \<le> sod
         then out\<lparr>td_note := ''counter out of day range ('' @ show_int micros @ '')''\<rparr>
         else out\<lparr>td_flags := data ! 1, td_sod := sod, td_resolution := MicrosecondResolution, td_ok := True\<rparr>)"

definition decode_tentacle :: "bytes \<Rightarrow> decoded" where
  "decode_tentacle data =
     (if data = [] then no_decoded\<lparr>td_note := ''empty''\<rparr>
      else let out = no_decoded\<lparr>td_has_type := True, td_type := data ! 0\<rparr>
        in if data ! 0 = kTypeTimecode \<and> 7 \<le> length data then decode_timecode data out
           else if data ! 0 = kTypeMicros \<and> 8 \<le> length data then decode_micros data out
           else if data ! 0 = kTypeStatic then out\<lparr>td_note := ''static/info packet''\<rparr>
           else out\<lparr>td_note := ''unknown type 0x'' @ hex2 (data ! 0) @ '' ('' @ show_nat (length data) @ ''B)''\<rparr>)"

section \<open>Encoding\<close>

definition wrap_day :: "real \<Rightarrow> real" where
  "wrap_day sod = (let s = fmod sod 86400 in if s < 0 then s + 86400 else s)"

definition encode_timecode :: "real \<Rightarrow> int \<Rightarrow> bool \<Rightarrow> byte \<Rightarrow> bytes" where
  "encode_timecode sod fps sub_frame flags =
     (let fps = (if fps < 1 then 1 else fps);
          fps = (if 60 < fps then 60 else fps);
          sod = wrap_day sod;
          whole = \<lfloor>sod\<rfloor>;
          part = sod - of_int whole;
          frames = to_int (part * of_int fps + 1 / 1000000000);
          frames = (if fps \<le> frames then fps - 1 else frames);
          out = [kTypeTimecode, flags, word_of_int fps AND 0x3f, word_of_int (whole div 3600),
                 word_of_int (whole div 60 mod 60), word_of_int (whole mod 60), word_of_int frames]
      in if \<not> sub_frame then out
         else let remainder = part - of_int frames / of_int fps;
                  remainder = (if remainder < 0 then 0 else remainder);
                  us = to_int (remainder * 1000000 + 1 / 2);
                  us = (if 0xffff < us then 0xffff else us)
           in out @ [word_of_int (us div 256), word_of_int (us mod 256)])"

definition encode_micros :: "real \<Rightarrow> byte \<Rightarrow> bytes" where
  "encode_micros sod flags =
     (let us = to_int (wrap_day sod * 1000000 + 1 / 2);
          us = (if 86400 * 1000000 \<le> us then 86400 * 1000000 - 1 else us)
      in [kTypeMicros, flags, 0x00] @
         map (\<lambda>shift. word_of_int (us div 2 ^ shift mod 256)) [32, 24, 16, 8, 0])"

definition encode_static :: bytes where
  "encode_static = [kTypeStatic, 0x3d, 0x00, 0x00, 0x00, 0x00, 0x00, 0x00, 0x00]"

section \<open>What comes back\<close>

lemma byte_int_of: "0 \<le> n \<Longrightarrow> n < 256 \<Longrightarrow> byte_int (word_of_int n) = n"
  by (simp add: byte_int_def unsigned_of_int take_bit_int_eq_self)

lemma byte_int_mask: "0 \<le> n \<Longrightarrow> n < 64 \<Longrightarrow> byte_int (word_of_int n AND 0x3f) = n"
proof -
  assume n: "0 \<le> n" "n < 64"
  have "(word_of_int n :: byte) AND 0x3f = word_of_int n"
  proof -
    have "(0x3f :: byte) = mask 6" by (simp add: mask_eq_exp_minus_1)
    then have "(word_of_int n :: byte) AND 0x3f = take_bit 6 (word_of_int n)" by (simp add: take_bit_eq_mask)
    also have "\<dots> = word_of_int (take_bit 6 n)" by (simp add: take_bit_of_int)
    also have "take_bit 6 n = n" using n by (simp add: take_bit_int_eq_self)
    finally show ?thesis .
  qed
  then show ?thesis using n by (simp add: byte_int_of)
qed

lemma byte_int_range: "0 \<le> byte_int b \<and> byte_int b < 256"
  using unsigned_less[of b, where ?'a = int] by (simp add: byte_int_def)

lemma wrap_day_range: "0 \<le> wrap_day s \<and> wrap_day s < 86400"
proof -
  have "wrap_day s = s - of_int \<lfloor>s / 86400\<rfloor> * 86400"
    using fmod_floor[of 86400 s] by (simp add: wrap_day_def Let_def)
  moreover have "of_int \<lfloor>s / 86400\<rfloor> \<le> s / 86400" "s / 86400 < of_int \<lfloor>s / 86400\<rfloor> + 1" by linarith+
  ultimately show ?thesis by (simp add: field_simps)
qed

lemma clock_fields:
  fixes w :: int
  assumes "0 \<le> w" and "w < 86400"
  shows "w div 3600 < 24" and "w div 60 mod 60 < 60" and "w mod 60 < 60"
    and "w div 3600 * 3600 + w div 60 mod 60 * 60 + w mod 60 = w"
proof -
  show "w div 3600 < 24" "w div 60 mod 60 < 60" "w mod 60 < 60" using assms by simp_all
  have "w div 3600 = w div 60 div 60" by (simp add: zdiv_zmult2_eq[of 60 w 60, simplified])
  then show "w div 3600 * 3600 + w div 60 mod 60 * 60 + w mod 60 = w"
    using div_mult_mod_eq[of "w div 60" 60] div_mult_mod_eq[of w 60] by linarith
qed


lemma to_int_floor: "0 \<le> x \<Longrightarrow> to_int x = \<lfloor>x\<rfloor>"
  by (simp add: to_int_def)

definition clean_rate :: "int \<Rightarrow> int" where
  "clean_rate fps = (if fps < 1 then 1 else if 60 < fps then 60 else fps)"

definition frame_of :: "real \<Rightarrow> int \<Rightarrow> int" where
  "frame_of part fps = min (fps - 1) \<lfloor>part * of_int fps + 1 / 1000000000\<rfloor>"

definition micros_left :: "real \<Rightarrow> int \<Rightarrow> int" where
  "micros_left part fps =
     min 0xffff \<lfloor>max 0 (part - of_int (frame_of part fps) / of_int fps) * 1000000 + 1 / 2\<rfloor>"

lemma encode_timecode_parts:
  assumes "fps = clean_rate rate" and "whole = \<lfloor>wrap_day sod\<rfloor>" and "part = wrap_day sod - of_int whole"
  shows "encode_timecode sod rate sub_frame flags =
     [kTypeTimecode, flags, word_of_int fps AND 0x3f, word_of_int (whole div 3600),
      word_of_int (whole div 60 mod 60), word_of_int (whole mod 60), word_of_int (frame_of part fps)] @
     (if sub_frame then [word_of_int (micros_left part fps div 256), word_of_int (micros_left part fps mod 256)] else [])"
proof -
  have r: "(let f = if rate < 1 then 1 else rate in if 60 < f then 60 else f) = fps"
    using assms(1) by (simp add: clean_rate_def Let_def)
  have fps: "1 \<le> fps" using assms(1) by (simp add: clean_rate_def)
  have part: "0 \<le> part" using assms(2,3) by simp
  have f: "(if fps \<le> to_int (part * of_int fps + 1 / 1000000000) then fps - 1
      else to_int (part * of_int fps + 1 / 1000000000)) = frame_of part fps"
    using part fps by (simp add: to_int_floor frame_of_def min_def)
  have u: "to_int ((if x < 0 then 0 else x) * 1000000 + 1 / 2) = \<lfloor>max 0 x * 1000000 + 1 / 2\<rfloor>" for x
    by (simp add: to_int_floor max_def)
  have c: "(if (0xffff :: int) < z then 0xffff else z) = min 0xffff z" for z by (simp add: min_def)
  show ?thesis
    unfolding encode_timecode_def Let_def
    by (simp only: r[unfolded Let_def] assms(2,3)[symmetric] f u c micros_left_def[symmetric]) simp
qed

lemma frame_of_bounds:
  assumes "0 \<le> part" and "part < 1" and "1 \<le> fps"
  shows "0 \<le> frame_of part fps" and "frame_of part fps < fps"
    and "of_int (frame_of part fps) / of_int fps \<le> part + 1 / 1000000000"
    and "part < (of_int (frame_of part fps) + 1) / of_int fps"
proof -
  let ?x = "part * of_int fps + 1 / 1000000000"
  have f: "of_int \<lfloor>?x\<rfloor> \<le> ?x" "?x < of_int \<lfloor>?x\<rfloor> + 1" by linarith+
  have m: "real_of_int fps * part < real_of_int fps" using assms by simp
  show "0 \<le> frame_of part fps" using assms by (simp add: frame_of_def)
  show "frame_of part fps < fps" by (simp add: frame_of_def min_def)
  have "frame_of part fps \<le> \<lfloor>?x\<rfloor>" by (simp add: frame_of_def)
  then have "of_int (frame_of part fps) \<le> ?x" using f by linarith
  then have "of_int (frame_of part fps) / of_int fps \<le> ?x / of_int fps"
    using assms by (intro divide_right_mono) simp_all
  also have "\<dots> \<le> part + 1 / 1000000000" using assms by (simp add: field_simps)
  finally show "of_int (frame_of part fps) / of_int fps \<le> part + 1 / 1000000000" .
  have "part * of_int fps < of_int (frame_of part fps) + 1"
    using f m by (simp add: frame_of_def min_def mult.commute) linarith
  then show "part < (of_int (frame_of part fps) + 1) / of_int fps" using assms by (simp add: field_simps)
qed

lemma round_micros: "\<bar>of_int \<lfloor>y * 1000000 + 1 / 2\<rfloor> / 1000000 - y\<bar> \<le> 1 / (2000000 :: real)"
proof -
  define k where "k = real_of_int \<lfloor>y * 1000000 + 1 / 2\<rfloor>"
  have "k \<le> y * 1000000 + 1 / 2" "y * 1000000 + 1 / 2 < k + 1" unfolding k_def by linarith+
  then have "k / 1000000 - y \<le> 1 / 2000000" "- (k / 1000000 - y) \<le> 1 / 2000000" by simp_all
  then show ?thesis unfolding k_def[symmetric] by (simp only: abs_le_iff)
qed

lemma micros_left_error:
  assumes "0 \<le> part" and "part < 1" and "16 \<le> fps"
  shows "0 \<le> micros_left part fps" and "micros_left part fps < 65536"
    and "\<bar>of_int (frame_of part fps) / of_int fps + of_int (micros_left part fps) / 1000000 - part\<bar> \<le> 1 / 2000000"
proof -
  let ?r = "part - of_int (frame_of part fps) / of_int fps"
  let ?x = "max 0 ?r * 1000000 + 1 / 2"
  note b = frame_of_bounds[OF assms(1,2), of fps]
  have "?r < 1 / of_int fps" using b(4) assms(3) by (simp add: add_divide_distrib)
  also have "1 / real_of_int fps \<le> 1 / 16" using assms(3) by (intro divide_left_mono) simp_all
  finally have r: "?r < 1 / 16" .
  have "- (1 / 1000000000) \<le> ?r" using b(3) assms(3) by linarith
  moreover have f: "of_int \<lfloor>?x\<rfloor> \<le> ?x" "?x < of_int \<lfloor>?x\<rfloor> + 1" by linarith+
  moreover have "?x < 65536" using r by (simp add: max_def)
  then have "\<lfloor>?x\<rfloor> \<le> 0xffff" by linarith
  then have m: "micros_left part fps = \<lfloor>?x\<rfloor>" unfolding micros_left_def by (rule min_absorb2)
  moreover have "0 \<le> \<lfloor>?x\<rfloor>" by simp
  ultimately show "0 \<le> micros_left part fps" "micros_left part fps < 65536" using \<open>\<lfloor>?x\<rfloor> \<le> 0xffff\<close> by simp_all
  define K F where "K = real_of_int \<lfloor>?x\<rfloor> / 1000000" and "F = real_of_int (frame_of part fps) / of_int fps"
  have e: "\<bar>K - max 0 (part - F)\<bar> \<le> 1 / 2000000" unfolding K_def F_def by (rule round_micros)
  have z: "K = 0" if "part - F < 0" using that unfolding K_def F_def by (simp add: max_def)
  have l: "- (1 / 1000000000) \<le> part - F" unfolding F_def by (rule \<open>- (1 / 1000000000) \<le> ?r\<close>)
  have "\<bar>F + K - part\<bar> \<le> 1 / 2000000"
  proof (cases "part - F < 0")
    case True
    then show ?thesis using z[OF True] l by (simp add: abs_le_iff)
  next
    case False
    then have "max 0 (part - F) = part - F" by simp
    moreover have "F + K - part = K - (part - F)" by simp
    ultimately show ?thesis using e by (simp only:)
  qed
  then show "\<bar>of_int (frame_of part fps) / of_int fps + of_int (micros_left part fps) / 1000000 - part\<bar> \<le> 1 / 2000000"
    unfolding m F_def K_def .
qed


lemma decode_fields:
  assumes "0 \<le> h" "h < 24" "0 \<le> m" "m < 60" "0 \<le> s" "s < 60" "0 \<le> f" "f < 256" "1 \<le> fps" "fps \<le> 60"
    and "0 \<le> hi" "hi < 256" "0 \<le> lo" "lo < 256"
    and "d = decode_tentacle ([kTypeTimecode, flags, word_of_int fps AND 0x3f, word_of_int h, word_of_int m,
      word_of_int s, word_of_int f] @ (if x then [word_of_int hi, word_of_int lo] else []))"
  shows "td_ok d" and "td_fps d = fps"
    and "td_sod d = of_int h * 3600 + of_int m * 60 + of_int s + of_int f / of_int fps +
      (if x then of_int (hi * 256 + lo) / 1000000 else 0)"
proof -
  have b: "byte_int (word_of_int h) = h" "byte_int (word_of_int m) = m" "byte_int (word_of_int s) = s"
    "byte_int (word_of_int f) = f" "byte_int (word_of_int fps AND 0x3f) = fps"
    "byte_int (word_of_int hi) = hi" "byte_int (word_of_int lo) = lo"
    using assms(1-14) by (simp_all add: byte_int_of byte_int_mask)
  have g: "\<not> 23 < h" "\<not> 59 < m" "\<not> 59 < s" "\<not> fps < 1" "\<not> 60 < fps" using assms(2-10) by linarith+
  show "td_ok d" "td_fps d = fps" "td_sod d = of_int h * 3600 + of_int m * 60 + of_int s + of_int f / of_int fps +
      (if x then of_int (hi * 256 + lo) / 1000000 else 0)"
    unfolding assms(15) by (simp_all add: decode_tentacle_def decode_timecode_def Let_def const_defs b g)
qed



definition half_past :: real where "half_past = 45000 + 1 / 3"


lemma micros_of_append: "micros_of (bs @ [b]) = micros_of bs * 256 + byte_int b"
  by (simp add: micros_of_def)

lemma micros_of_digits:
  "(\<And>k. 0 \<le> f k \<and> f k < 256) \<Longrightarrow>
   micros_of (map (\<lambda>k. word_of_int (f k)) [a, b, c, d, e]) =
     (((f a * 256 + f b) * 256 + f c) * 256 + f d) * 256 + f e"
  by (simp add: micros_of_def byte_int_of)

lemma next_digit: "(us :: int) div 2 ^ (8 + k) * 256 + us div 2 ^ k mod 256 = us div 2 ^ k"
proof -
  have "us div 2 ^ (8 + k) = us div (2 ^ k * 256)" by (simp add: power_add mult.commute)
  also have "\<dots> = us div 2 ^ k div 256" by (rule zdiv_zmult2_eq) simp
  finally show ?thesis by simp
qed

lemma micros_of_wire:
  assumes "0 \<le> us" and "us < 2 ^ 40"
  shows "micros_of (map (\<lambda>shift. word_of_int (us div 2 ^ shift mod 256)) [32, 24, 16, 8, 0]) = us"
proof -
  define f where "f = (\<lambda>k :: nat. us div 2 ^ k mod 256)"
  have d: "us div 2 ^ (8 + k) * 256 + f k = us div 2 ^ k" for k unfolding f_def by (rule next_digit)
  have "us div 2 ^ (8 + 32) = 0" using assms by simp
  then have "f 32 = us div 2 ^ (8 + 24)" using d[of 32] by (simp only: numeral_plus_numeral add_num_simps)
  moreover have "f 32 * 256 + f 24 = us div 2 ^ (8 + 16)" if "f 32 = us div 2 ^ (8 + 24)"
    using d[of 24] that by (simp only: numeral_plus_numeral add_num_simps)
  moreover have "us div 2 ^ (8 + 16) * 256 + f 16 = us div 2 ^ (8 + 8)"
    using d[of 16] by (simp only: numeral_plus_numeral add_num_simps)
  moreover have "us div 2 ^ (8 + 8) * 256 + f 8 = us div 2 ^ (8 + 0)"
    using d[of 8] by (simp only: numeral_plus_numeral add_num_simps add_0_right)
  moreover have "us div 2 ^ (8 + 0) * 256 + f 0 = us"
    using d[of 0] by (simp only: power_0 div_by_1)
  ultimately have "(((f 32 * 256 + f 24) * 256 + f 16) * 256 + f 8) * 256 + f 0 = us" by metis
  moreover have "0 \<le> f k \<and> f k < 256" for k by (simp add: f_def)
  ultimately show ?thesis using micros_of_digits[of f 32 24 16 8 0] unfolding f_def by (simp only:)
qed

text \<open>
  The microsecond counter of a Track E is read back to a microsecond, whatever the
  time, midnight included: the counter never reaches a day, so the decoder never
  refuses what the encoder wrote.
\<close>

theorem micros_round_trip:
  "td_ok (decode_tentacle (encode_micros sod flags)) \<and>
   \<bar>td_sod (decode_tentacle (encode_micros sod flags)) - wrap_day sod\<bar> \<le> 1 / 1000000 \<and>
   td_sod (decode_tentacle (encode_micros sod flags)) < 86400"
proof -
  define n where "n = \<lfloor>wrap_day sod * 1000000 + 1 / 2\<rfloor>"
  define us where "us = (if 86400 * 1000000 \<le> n then 86400 * 1000000 - 1 else n)"
  have r: "0 \<le> wrap_day sod" "wrap_day sod < 86400" using wrap_day_range[of sod] by simp_all
  have n: "of_int n \<le> wrap_day sod * 1000000 + 1 / 2" "wrap_day sod * 1000000 + 1 / 2 < of_int n + 1"
    unfolding n_def by linarith+
  have n0: "0 \<le> n" unfolding n_def using r by simp
  then have us: "0 \<le> us" "us < 86400000000" unfolding us_def by auto
  have t: "to_int (wrap_day sod * 1000000 + 1 / 2) = n" unfolding n_def using r by (simp add: to_int_floor)
  define X :: bytes where "X = map (\<lambda>shift. word_of_int (us div 2 ^ shift mod 256)) [32, 24, 16, 8, 0]"
  have X: "length X = 5" "micros_of X = us"
  proof -
    show "length X = 5" unfolding X_def by (simp only: length_map) simp
    have "us < 2 ^ 40" using us(2) by simp
    then show "micros_of X = us" unfolding X_def using us(1) by (intro micros_of_wire)
  qed
  have enc: "encode_micros sod flags = [kTypeMicros, flags, 0x00] @ X"
    unfolding encode_micros_def Let_def t us_def X_def ..
  have m: "micros_of (take 5 (drop 3 (encode_micros sod flags))) = us"
    using X unfolding enc by simp
  have "real_of_int us < 86400000000" using us(2) by linarith
  then have lt: "real_of_int us / 1000000 < 86400" by simp
  have near: "\<bar>of_int us / 1000000 - wrap_day sod\<bar> \<le> 1 / 1000000"
  proof (cases "86400 * 1000000 \<le> n")
    case True
    then have "86400000000 \<le> wrap_day sod * 1000000 + 1 / 2" using n by linarith
    then show ?thesis using True r by (simp add: us_def abs_le_iff)
  next
    case False
    then have "us = n" by (simp add: us_def)
    moreover have "\<bar>of_int n / 1000000 - wrap_day sod\<bar> \<le> 1 / 2000000" unfolding n_def by (rule round_micros)
    ultimately show ?thesis by linarith
  qed
  have hd: "encode_micros sod flags \<noteq> []" "encode_micros sod flags ! 0 = kTypeMicros"
    "length (encode_micros sod flags) = 8" unfolding enc using X by simp_all
  show ?thesis using lt near hd m
    by (simp add: decode_tentacle_def decode_micros_def Let_def const_defs)
qed

text \<open>
  A payload the decoder accepts states a plausible time: hours, minutes and seconds in
  range and a frame rate of one to sixty for the frame layout, less than a day for the
  counter; everything else, the empty and the static payload included, is refused with
  a note that says why.
\<close>

theorem decoded_or_explained:
  "if td_ok (decode_tentacle data)
   then 0 \<le> td_sod (decode_tentacle data) \<and>
     (if data ! 0 = kTypeMicros then td_sod (decode_tentacle data) < 86400
      else data ! 0 = kTypeTimecode \<and> 1 \<le> td_fps (decode_tentacle data) \<and> td_fps (decode_tentacle data) \<le> 60 \<and>
        td_sod (decode_tentacle data) <
          86400 + of_int (td_frames (decode_tentacle data)) / of_int (td_fps (decode_tentacle data)))
   else td_note (decode_tentacle data) \<noteq> []"
proof -
  consider "data = []" | "data \<noteq> []" "data ! 0 = kTypeTimecode" "7 \<le> length data"
    | "data \<noteq> []" "data ! 0 = kTypeMicros" "8 \<le> length data"
    | "data \<noteq> []" "\<not> (data ! 0 = kTypeTimecode \<and> 7 \<le> length data)" "\<not> (data ! 0 = kTypeMicros \<and> 8 \<le> length data)"
    by blast
  then show ?thesis
  proof cases
    case 2
    define h m s f fps where "h = byte_int (data ! 3)" and "m = byte_int (data ! 4)" and "s = byte_int (data ! 5)"
      and "f = byte_int (data ! 6)" and "fps = byte_int (data ! 2 AND 0x3f)"
    define us where "us = byte_int (data ! 7) * 256 + byte_int (data ! 8)"
    have nn: "0 \<le> h" "0 \<le> m" "0 \<le> s" "0 \<le> f" "0 \<le> us" "us < 65536"
      using byte_int_range unfolding h_def m_def s_def f_def us_def by (simp_all add: byte_int_range)
        (use byte_int_range[of "data ! 7"] byte_int_range[of "data ! 8"] in linarith)+
    have us: "real_of_int us / 1000000 < 1" using nn(6) by simp
    show ?thesis
    proof (cases "23 < h \<or> 59 < m \<or> 59 < s \<or> fps < 1 \<or> 60 < fps")
      case True
      then show ?thesis using 2
        by (auto simp: decode_tentacle_def decode_timecode_def Let_def h_def m_def s_def fps_def no_decoded_def const_defs)
    next
      case False
      then have r: "h \<le> 23" "m \<le> 59" "s \<le> 59" "1 \<le> fps" "fps \<le> 60" by simp_all
      have hms: "real_of_int h * 3600 + real_of_int m * 60 + real_of_int s \<le> 86399" using r by simp
      have d: "decode_tentacle data = decode_timecode data (no_decoded\<lparr>td_has_type := True, td_type := data ! 0\<rparr>)"
        using 2 by (simp add: decode_tentacle_def)
      show ?thesis using 2 False r nn hms us unfolding d decode_timecode_def Let_def
        unfolding h_def[symmetric] m_def[symmetric] s_def[symmetric] f_def[symmetric] fps_def[symmetric] us_def[symmetric]
        by (simp add: const_defs)
    qed
  next
    case 3
    have "0 \<le> foldl (\<lambda>m b. m * 256 + byte_int b) a bs" if "0 \<le> a" for a bs
      using that by (induction bs arbitrary: a) (simp_all add: byte_int_range)
    then have "0 \<le> micros_of (take 5 (drop 3 data))" by (simp add: micros_of_def)
    then show ?thesis using 3 by (auto simp: decode_tentacle_def decode_micros_def Let_def const_defs no_decoded_def)
  qed (auto simp: decode_tentacle_def no_decoded_def Let_def)
qed

end
