(* ===== verification/Registry.thy ===== *)
theory Registry
  imports Tentacle CamSync Ordmap "HOL-Library.Product_Lexorder"
begin

text \<open>
  What has been heard on the air (\<open>src/registry.h\<close>, \<open>src/registry.cc\<close>): the device table
  with its sample windows, the alert state of each box, the one camera slot, the roster
  remembered across restarts, and the snapshot everything else reads.  The monotonic and
  the wall clock are arguments, and the local time of day of a wall clock reading, which
  the C library's time zone decides, is the parameter \<open>local_sod\<close>.
\<close>

section \<open>State\<close>

record policy =
  po_alert_enter :: real
  po_alert_exit :: real
  po_alert_confirm :: int
  po_renotify_after :: real
  po_stale_after :: real
  po_forget_after :: real
  po_window :: real
  po_max_samples :: nat
  po_min_drift_span :: real
  po_min_drift_samples :: int
  po_camera_gone_after :: real

definition default_policy :: policy where
  "default_policy =
     \<lparr>po_alert_enter = 60, po_alert_exit = 45, po_alert_confirm = 3, po_renotify_after = 1800,
      po_stale_after = 30, po_forget_after = 86400, po_window = 3600, po_max_samples = 8192,
      po_min_drift_span = 900, po_min_drift_samples = 30, po_camera_gone_after = 90\<rparr>"

record sample =
  sm_mono :: real
  sm_offset :: real

record alert_event =
  ae_id :: string
  ae_name :: string
  ae_offset :: real
  ae_wall :: real
  ae_entering :: bool
  ae_repeat :: bool

record remembered_device =
  rd_id :: string
  rd_name :: string
  rd_user_name :: string
  rd_probed_name :: string
  rd_probed :: bool
  rd_first_seen_wall :: real
  rd_last_seen_wall :: real
  rd_has_time :: bool
  rd_offset :: real
  rd_median_offset :: real
  rd_resolution :: string
  rd_fps :: int
  rd_rssi :: int

record device =
  dv_id :: string
  dv_name :: string
  dv_rssi :: int
  dv_adverts :: u64
  dv_decoded :: u64
  dv_first_seen_wall :: real
  dv_last_seen_mono :: real
  dv_last_seen_wall :: real
  dv_heard_this_run :: bool
  dv_restored_has_time :: bool
  dv_restored_offset :: real
  dv_restored_median :: real
  dv_restored_resolution :: string
  dv_samples :: "sample list"
  dv_last :: decoded
  dv_has_last :: bool
  dv_alerting :: bool
  dv_over :: int
  dv_under :: int
  dv_alert_since_wall :: real
  dv_last_notified_mono :: real

definition new_device :: device where
  "new_device =
     \<lparr>dv_id = [], dv_name = [], dv_rssi = 0, dv_adverts = 0, dv_decoded = 0, dv_first_seen_wall = 0,
      dv_last_seen_mono = 0, dv_last_seen_wall = 0, dv_heard_this_run = True,
      dv_restored_has_time = False, dv_restored_offset = 0, dv_restored_median = 0,
      dv_restored_resolution = [], dv_samples = [], dv_last = no_decoded, dv_has_last = False,
      dv_alerting = False, dv_over = 0, dv_under = 0, dv_alert_since_wall = 0,
      dv_last_notified_mono = 0\<rparr>"

record camera_slot =
  cm_id :: string
  cm_name :: string
  cm_rssi :: int
  cm_adverts :: u64
  cm_sessions :: u64
  cm_seen :: bool
  cm_present :: bool
  cm_last_seen_mono :: real
  cm_state_since_mono :: real
  cm_up_wall :: real

definition no_camera :: camera_slot where
  "no_camera = \<lparr>cm_id = [], cm_name = [], cm_rssi = 0, cm_adverts = 0, cm_sessions = 0, cm_seen = False,
     cm_present = False, cm_last_seen_mono = 0, cm_state_since_mono = 0, cm_up_wall = 0\<rparr>"

record registry =
  rg_policy :: policy
  rg_devices :: "(string, device) omap"
  rg_camera :: camera_slot
  rg_radio :: string
  rg_started_mono :: real
  rg_adverts_total :: u64
  rg_undecodable_total :: u64
  rg_free_running_total :: u64
  rg_wall_is_real :: bool
  rg_clock_steps :: u64
  rg_last_mono :: real
  rg_last_wall :: real
  rg_events :: "alert_event list"

definition new_registry :: "policy \<Rightarrow> real \<Rightarrow> registry" where
  "new_registry p start =
     \<lparr>rg_policy = p, rg_devices = [], rg_camera = no_camera, rg_radio = ''unknown'',
      rg_started_mono = start, rg_adverts_total = 0, rg_undecodable_total = 0,
      rg_free_running_total = 0, rg_wall_is_real = True, rg_clock_steps = 0, rg_last_mono = 0,
      rg_last_wall = 0, rg_events = []\<rparr>"

definition set_radio :: "registry \<Rightarrow> string \<Rightarrow> registry" where
  "set_radio r s = r\<lparr>rg_radio := s\<rparr>"

section \<open>Medians and drift\<close>

text \<open>\<open>std::nth_element\<close> leaves at the middle what sorting would leave there, and nothing
  larger before it.\<close>

definition median_offset :: "real list \<Rightarrow> real" where
  "median_offset values =
     (if values = [] then 0
      else let mid = length values div 2; ordered = sort values; hi = ordered ! mid
        in if length values mod 2 = 1 then hi
           else let lo = Max (set (take mid ordered)) in (lo + hi) / 2)"

definition drift_sums :: "real \<Rightarrow> sample list \<Rightarrow> real \<times> real \<times> real \<times> real \<times> real" where
  "drift_sums t0 samples =
     foldl (\<lambda>(n, sx, sy, sxx, sxy) s.
       let x = sm_mono s - t0; y = sm_offset s
       in (n + 1, sx + x, sy + y, sxx + x * x, sxy + x * y)) (0, 0, 0, 0, 0) samples"

definition drift_span :: "sample list \<Rightarrow> real" where
  "drift_span samples = (if samples = [] then 0 else sm_mono (List.last samples) - sm_mono (hd samples))"

definition fit_drift_ppm :: "sample list \<Rightarrow> real \<Rightarrow> int \<Rightarrow> real option" where
  "fit_drift_ppm samples min_span min_samples =
     (if min_samples < 0 \<or> int (length samples) < min_samples then None
      else let t0 = sm_mono (hd samples); arm = sm_mono (List.last samples) - t0
        in if arm < min_span then None
           else let (n, sx, sy, sxx, sxy) = drift_sums t0 samples; denom = n * sxx - sx * sx
             in if \<bar>denom\<bar> < 1 / 1000000000 then None
                else Some ((n * sxy - sx * sy) / denom * 1000000))"

section \<open>One box\<close>

definition trim_samples :: "policy \<Rightarrow> real \<Rightarrow> sample list \<Rightarrow> sample list" where
  "trim_samples p now_mono samples =
     (let kept = dropWhile (\<lambda>s. sm_mono s < now_mono - po_window p) samples
      in drop (length kept - po_max_samples p) kept)"

definition judge_offset :: "policy \<Rightarrow> real \<Rightarrow> device \<Rightarrow> device" where
  "judge_offset p mag dev =
     (if po_alert_enter p < mag then dev\<lparr>dv_over := dv_over dev + 1, dv_under := 0\<rparr>
      else if mag < po_alert_exit p then dev\<lparr>dv_under := dv_under dev + 1, dv_over := 0\<rparr>
      else dev\<lparr>dv_over := 0, dv_under := 0\<rparr>)"

definition update_alert :: "policy \<Rightarrow> device \<Rightarrow> real \<Rightarrow> real \<Rightarrow> device \<times> alert_event list" where
  "update_alert p dev now_mono wall =
     (if dv_samples dev = [] then (dev, [])
      else let median = median_offset (map sm_offset (dv_samples dev));
               dev = judge_offset p \<bar>median\<bar> dev;
               event = (\<lambda>entering rep. \<lparr>ae_id = dv_id dev, ae_name = dv_name dev, ae_offset = median,
                          ae_wall = wall, ae_entering = entering, ae_repeat = rep\<rparr>)
        in if \<not> dv_alerting dev \<and> po_alert_confirm p \<le> dv_over dev
           then (dev\<lparr>dv_alerting := True, dv_alert_since_wall := wall, dv_last_notified_mono := now_mono\<rparr>,
                 [event True False])
           else if dv_alerting dev \<and> po_alert_confirm p \<le> dv_under dev
           then (dev\<lparr>dv_alerting := False, dv_alert_since_wall := 0\<rparr>, [event False False])
           else if dv_alerting dev \<and> po_renotify_after p \<le> now_mono - dv_last_notified_mono dev
           then (dev\<lparr>dv_last_notified_mono := now_mono\<rparr>, [event True True])
           else (dev, []))"

section \<open>Hearing a box\<close>

definition wall_known :: "real \<Rightarrow> bool" where
  "wall_known unix_seconds = (1000000 < unix_seconds)"

definition clock_stepped :: "registry \<Rightarrow> real \<Rightarrow> real \<Rightarrow> bool" where
  "clock_stepped r now_mono wall =
     (0 < rg_last_mono r \<and> 1 < \<bar>(wall - rg_last_wall r) - (now_mono - rg_last_mono r)\<bar>)"

definition clear_samples :: "device \<Rightarrow> device" where
  "clear_samples dev = dev\<lparr>dv_samples := [], dv_over := 0, dv_under := 0\<rparr>"

definition note_clock :: "registry \<Rightarrow> real \<Rightarrow> real \<Rightarrow> registry" where
  "note_clock r now_mono wall =
     (let r = (if clock_stepped r now_mono wall
               then r\<lparr>rg_clock_steps := rg_clock_steps r + 1, rg_devices := om_map clear_samples (rg_devices r)\<rparr>
               else r)
      in r\<lparr>rg_last_mono := now_mono, rg_last_wall := wall\<rparr>)"

definition device_at :: "registry \<Rightarrow> string \<Rightarrow> device" where
  "device_at r k = (case om_get (rg_devices r) k of None \<Rightarrow> new_device | Some d \<Rightarrow> d)"

definition sighted :: "device \<Rightarrow> string \<Rightarrow> string \<Rightarrow> int \<Rightarrow> real \<Rightarrow> real \<Rightarrow> decoded \<Rightarrow> device" where
  "sighted dev k name rssi now_mono wall d =
     (let dev = (if dv_id dev = [] then dev\<lparr>dv_id := k, dv_first_seen_wall := wall\<rparr> else dev);
          dev = (if name \<noteq> [] then dev\<lparr>dv_name := name\<rparr> else dev)
      in dev\<lparr>dv_rssi := rssi, dv_adverts := dv_adverts dev + 1, dv_last_seen_mono := now_mono,
             dv_last_seen_wall := wall, dv_heard_this_run := True, dv_last := d, dv_has_last := True\<rparr>)"

definition offset_of :: "(real \<Rightarrow> real) \<Rightarrow> real \<Rightarrow> real \<Rightarrow> real" where
  "offset_of local_sod sod wall =
     wrap_delta (sod - (if wall_known wall then local_sod wall else seconds_of_day_at_offset wall 0))"

definition forget_quiet :: "policy \<Rightarrow> string \<Rightarrow> real \<Rightarrow> (string, device) omap \<Rightarrow> (string, device) omap" where
  "forget_quiet p k now_mono devices =
     (if 0 < po_forget_after p
      then filter (\<lambda>(k', d). \<not> (k' \<noteq> k \<and> dv_heard_this_run d \<and> po_forget_after p < now_mono - dv_last_seen_mono d)) devices
      else devices)"

definition observe_box ::
    "(real \<Rightarrow> real) \<Rightarrow> registry \<Rightarrow> string \<Rightarrow> string \<Rightarrow> int \<Rightarrow> bytes \<Rightarrow> real \<Rightarrow> real \<Rightarrow> registry" where
  "observe_box local_sod r k name rssi data now_mono wall =
     (let r = note_clock r now_mono wall;
          r = r\<lparr>rg_adverts_total := rg_adverts_total r + 1\<rparr>;
          d = decode_tentacle data;
          dev = sighted (device_at r k) k name rssi now_mono wall d
      in if \<not> td_ok d
         then r\<lparr>rg_devices := om_put (rg_devices r) k dev, rg_undecodable_total := rg_undecodable_total r + 1\<rparr>
         else let real = wall_known wall;
                  offset = offset_of local_sod (td_sod d) wall;
                  dev = dev\<lparr>dv_decoded := dv_decoded dev + 1,
                            dv_samples := trim_samples (rg_policy r) now_mono
                              (dv_samples dev @ [\<lparr>sm_mono = now_mono, sm_offset = offset\<rparr>])\<rparr>;
                  (dev, events) = update_alert (rg_policy r) dev now_mono wall
           in r\<lparr>rg_wall_is_real := real,
                rg_free_running_total := (if real then rg_free_running_total r else rg_free_running_total r + 1),
                rg_devices := forget_quiet (rg_policy r) k now_mono (om_put (rg_devices r) k dev),
                rg_events := rg_events r @ events\<rparr>)"

definition observe_name :: "registry \<Rightarrow> string \<Rightarrow> string \<Rightarrow> registry \<times> bool" where
  "observe_name r k name =
     (if k = [] \<or> name = [] then (r, False)
      else case om_get (rg_devices r) k of None \<Rightarrow> (r, False)
        | Some d \<Rightarrow> if dv_name d = name then (r, False)
            else (r\<lparr>rg_devices := om_put (rg_devices r) k (d\<lparr>dv_name := name\<rparr>)\<rparr>, True))"

section \<open>The camera\<close>

definition age_camera :: "registry \<Rightarrow> real \<Rightarrow> registry" where
  "age_camera r now_mono =
     (let c = rg_camera r in
      if \<not> cm_present c then r
      else if now_mono - cm_last_seen_mono c \<le> po_camera_gone_after (rg_policy r) then r
      else r\<lparr>rg_camera := c\<lparr>cm_present := False, cm_state_since_mono := cm_last_seen_mono c\<rparr>\<rparr>)"

definition observe_camera :: "registry \<Rightarrow> string \<Rightarrow> string \<Rightarrow> int \<Rightarrow> real \<Rightarrow> real \<Rightarrow> registry" where
  "observe_camera r k name rssi now_mono wall =
     (if cm_seen (rg_camera r) \<and> cm_id (rg_camera r) \<noteq> [] \<and> cm_id (rg_camera r) \<noteq> k then r
      else let r = age_camera r now_mono; c = rg_camera r;
               c = c\<lparr>cm_id := k\<rparr>;
               c = (if name \<noteq> [] then c\<lparr>cm_name := name\<rparr> else c);
               c = c\<lparr>cm_rssi := rssi, cm_adverts := cm_adverts c + 1, cm_last_seen_mono := now_mono, cm_seen := True\<rparr>;
               c = (if \<not> cm_present c
                    then c\<lparr>cm_present := True, cm_sessions := cm_sessions c + 1, cm_state_since_mono := now_mono,
                           cm_up_wall := wall\<rparr>
                    else c)
        in r\<lparr>rg_camera := c\<rparr>)"

section \<open>Across restarts\<close>

definition remember :: "registry \<Rightarrow> remembered_device \<Rightarrow> registry" where
  "remember r d =
     (if rd_id d = [] \<or> om_get (rg_devices r) (rd_id d) \<noteq> None then r
      else r\<lparr>rg_devices := om_put (rg_devices r) (rd_id d)
        (new_device\<lparr>dv_id := rd_id d, dv_name := rd_name d, dv_rssi := rd_rssi d,
           dv_first_seen_wall := rd_first_seen_wall d, dv_last_seen_wall := rd_last_seen_wall d,
           dv_heard_this_run := False, dv_last_seen_mono := 0, dv_restored_has_time := rd_has_time d,
           dv_restored_offset := rd_offset d, dv_restored_median := rd_median_offset d,
           dv_restored_resolution := rd_resolution d, dv_last := no_decoded\<lparr>td_fps := rd_fps d\<rparr>\<rparr>)\<rparr>)"

definition remembered_one :: "device \<Rightarrow> remembered_device" where
  "remembered_one dev =
     (let live = (dv_samples dev \<noteq> [])
      in \<lparr>rd_id = dv_id dev, rd_name = dv_name dev, rd_user_name = [], rd_probed_name = [], rd_probed = False,
          rd_first_seen_wall = dv_first_seen_wall dev, rd_last_seen_wall = dv_last_seen_wall dev,
          rd_has_time = (if live then True else dv_restored_has_time dev),
          rd_offset = (if live then sm_offset (List.last (dv_samples dev)) else dv_restored_offset dev),
          rd_median_offset = (if live then median_offset (map sm_offset (dv_samples dev)) else dv_restored_median dev),
          rd_resolution = (if live then resolution_name (td_resolution (dv_last dev)) else dv_restored_resolution dev),
          rd_fps = td_fps (dv_last dev), rd_rssi = dv_rssi dev\<rparr>)"

definition remembered :: "registry \<Rightarrow> remembered_device list" where
  "remembered r = map (\<lambda>e. remembered_one (snd e)) (rg_devices r)"

definition registry_forget :: "registry \<Rightarrow> string \<Rightarrow> registry \<times> bool" where
  "registry_forget r k =
     (let gone = (om_get (rg_devices r) k \<noteq> None);
          r = r\<lparr>rg_devices := om_del (rg_devices r) k\<rparr>
      in if cm_seen (rg_camera r) \<and> cm_id (rg_camera r) = k
         then (r\<lparr>rg_camera := no_camera\<rparr>, True) else (r, gone))"

definition take_events :: "registry \<Rightarrow> registry \<times> alert_event list" where
  "take_events r = (r\<lparr>rg_events := []\<rparr>, rg_events r)"

section \<open>The snapshot\<close>

record device_snapshot =
  sn_id :: string
  sn_name :: string
  sn_radio :: string
  sn_rssi :: int
  sn_adverts :: u64
  sn_decoded :: u64
  sn_last_wall :: real
  sn_age :: real
  sn_first_seen_wall :: real
  sn_live :: bool
  sn_heard_this_run :: bool
  sn_has_time :: bool
  sn_sod :: real
  sn_offset :: real
  sn_median_offset :: real
  sn_samples :: int
  sn_resolution :: string
  sn_note :: string
  sn_fps :: int
  sn_has_drift :: bool
  sn_drift_ppm :: real
  sn_drift_span :: real
  sn_alerting :: bool
  sn_alert_since_wall :: real

record camera_snapshot =
  sc_reported :: bool
  sc_seen :: bool
  sc_present :: bool
  sc_id :: string
  sc_name :: string
  sc_rssi :: int
  sc_age :: real
  sc_since :: real
  sc_sessions :: u64
  sc_adverts :: u64
  sc_up_wall :: real

record radio_link =
  rl_name :: string
  rl_label :: string
  rl_last_wall :: real
  rl_way :: string
  rl_age :: real
  rl_answering :: bool
  rl_clock_is_real :: bool

record snapshot =
  sp_wall :: real
  sp_uptime :: real
  sp_host :: string
  sp_radio :: string
  sp_adverts_total :: u64
  sp_undecodable_total :: u64
  sp_clock_steps :: u64
  sp_free_running_total :: u64
  sp_wall_is_real :: bool
  sp_devices :: int
  sp_live :: int
  sp_remote_devices :: int
  sp_remote_live :: int
  sp_radio_link :: "radio_link list"
  sp_alerting :: int
  sp_has_bench :: bool
  sp_bench_offset :: real
  sp_bench_spread :: real
  sp_alert_threshold :: real
  sp_camera :: camera_snapshot
  sp_device :: "device_snapshot list"

definition snapshot_age :: "device \<Rightarrow> real \<Rightarrow> real \<Rightarrow> real" where
  "snapshot_age dev now_mono wall =
     (let age = (if dv_heard_this_run dev then now_mono - dv_last_seen_mono dev else wall - dv_last_seen_wall dev)
      in if age < 0 then 0 else age)"

definition snapshot_one :: "policy \<Rightarrow> device \<Rightarrow> real \<Rightarrow> real \<Rightarrow> device_snapshot" where
  "snapshot_one p dev now_mono wall =
     (let age = snapshot_age dev now_mono wall; timed = (dv_samples dev \<noteq> []);
          last = dv_last dev; fit = fit_drift_ppm (dv_samples dev) (po_min_drift_span p) (po_min_drift_samples p)
      in \<lparr>sn_id = dv_id dev, sn_name = (if dv_name dev = [] then ''(unnamed)'' else dv_name dev), sn_radio = [],
          sn_rssi = dv_rssi dev, sn_adverts = dv_adverts dev, sn_decoded = dv_decoded dev,
          sn_last_wall = dv_last_seen_wall dev, sn_age = age, sn_first_seen_wall = dv_first_seen_wall dev,
          sn_live = (dv_heard_this_run dev \<and> age \<le> po_stale_after p), sn_heard_this_run = dv_heard_this_run dev,
          sn_has_time = timed, sn_sod = (if timed \<and> td_ok last then td_sod last else 0),
          sn_offset = (if timed then sm_offset (List.last (dv_samples dev)) else 0),
          sn_median_offset = (if timed then median_offset (map sm_offset (dv_samples dev)) else 0),
          sn_samples = (if timed then int (length (dv_samples dev)) else 0),
          sn_resolution = (if dv_has_last dev then resolution_name (td_resolution last) else []),
          sn_note = (if dv_has_last dev then td_note last else []),
          sn_fps = (if dv_has_last dev then td_fps last else 0),
          sn_has_drift = (timed \<and> fit \<noteq> None),
          sn_drift_ppm = (if timed then case fit of Some ppm \<Rightarrow> ppm | None \<Rightarrow> 0 else 0),
          sn_drift_span = (if timed then drift_span (dv_samples dev) else 0),
          sn_alerting = dv_alerting dev, sn_alert_since_wall = dv_alert_since_wall dev\<rparr>)"

definition snapshot_order :: "device_snapshot \<Rightarrow> bool \<times> string \<times> string" where
  "snapshot_order d = (\<not> sn_live d, sn_name d, sn_id d)"

definition camera_snapshot_of :: "camera_slot \<Rightarrow> real \<Rightarrow> camera_snapshot" where
  "camera_snapshot_of c now_mono =
     \<lparr>sc_reported = True, sc_seen = cm_seen c, sc_present = cm_present c, sc_id = cm_id c, sc_name = cm_name c,
      sc_rssi = cm_rssi c, sc_age = (if cm_seen c then now_mono - cm_last_seen_mono c else 0),
      sc_since = (if cm_seen c then now_mono - cm_state_since_mono c else 0), sc_sessions = cm_sessions c,
      sc_adverts = cm_adverts c, sc_up_wall = cm_up_wall c\<rparr>"

definition registry_snapshot :: "registry \<Rightarrow> real \<Rightarrow> real \<Rightarrow> registry \<times> snapshot" where
  "registry_snapshot r now_mono wall =
     (let ds = map (\<lambda>e. snapshot_one (rg_policy r) (snd e) now_mono wall) (rg_devices r);
          medians = map sn_median_offset (filter (\<lambda>d. sn_has_time d \<and> sn_live d) ds);
          r' = age_camera r now_mono
      in (r', \<lparr>sp_wall = wall, sp_uptime = now_mono - rg_started_mono r, sp_host = [], sp_radio = rg_radio r,
               sp_adverts_total = rg_adverts_total r, sp_undecodable_total = rg_undecodable_total r,
               sp_clock_steps = rg_clock_steps r, sp_free_running_total = rg_free_running_total r,
               sp_wall_is_real = rg_wall_is_real r, sp_devices = int (length ds),
               sp_live = int (length (filter sn_live ds)), sp_remote_devices = 0, sp_remote_live = 0,
               sp_radio_link = [], sp_alerting = int (length (filter sn_alerting ds)),
               sp_has_bench = (medians \<noteq> []), sp_bench_offset = median_offset medians,
               sp_bench_spread = (if medians = [] then 0 else Max (set medians) - Min (set medians)),
               sp_alert_threshold = po_alert_enter (rg_policy r), sp_camera = camera_snapshot_of (rg_camera r') now_mono,
               sp_device = sort_key snapshot_order ds\<rparr>))"

end
