(* ===== verification/RegistryLaws.thy ===== *)
theory RegistryLaws
  imports Registry CamSyncLaws
begin

text \<open>
  What the registry guarantees: bounded windows, alerts that alternate, medians a minority
  of boxes cannot move, drift fits exact on a steady clock and empty across a clock step,
  and a roster that survives a restart.
\<close>

section \<open>Medians\<close>

lemma median_offset_sorted:
  assumes "values \<noteq> []"
  shows "median_offset values = median (sort values)"
proof (cases "length values mod 2 = 1")
  case True
  then show ?thesis using assms by (simp add: median_offset_def median_def Let_def)
next
  case False
  let ?s = "sort values" and ?m = "length values div 2"
  have "0 < length values" using assms by simp
  moreover have "length values \<noteq> 1" using False by auto
  ultimately have "2 \<le> length values" by linarith
  then have m: "0 < ?m" "?m < length ?s" by (simp_all add: div_greater_zero_iff)
  have "Max (set (take ?m ?s)) = ?s ! (?m - 1)"
  proof (rule Max_eqI)
    fix y assume "y \<in> set (take ?m ?s)"
    then obtain j where "j < ?m" "y = ?s ! j" using m by (auto simp: in_set_conv_nth)
    then show "y \<le> ?s ! (?m - 1)" using m by (auto intro: sorted_nth_mono)
  next
    show "?s ! (?m - 1) \<in> set (take ?m ?s)" using m by (auto simp: in_set_conv_nth intro!: exI[of _ "?m - 1"])
  qed simp
  then show ?thesis using False assms by (simp add: median_offset_def median_def Let_def)
qed

lemma median_offset_within:
  assumes "length values < 2 * length (filter (\<lambda>x. a \<le> x \<and> x \<le> b) values)"
  shows "a \<le> median_offset values \<and> median_offset values \<le> b"
proof -
  have "values \<noteq> []" using assms by auto
  moreover have "length (filter P (sort values)) = length (filter P values)" for P by (simp add: filter_sort)
  then have "length (sort values) < 2 * length (filter (\<lambda>x. a \<le> x \<and> x \<le> b) (sort values))"
    using assms by simp
  ultimately show ?thesis using median_within[of "sort values" a b] by (simp add: median_offset_sorted)
qed

section \<open>Drift\<close>

lemma drift_sums_sum:
  "drift_sums t0 xs =
     (real (length xs), \<Sum>s \<leftarrow> xs. sm_mono s - t0, \<Sum>s \<leftarrow> xs. sm_offset s,
      \<Sum>s \<leftarrow> xs. (sm_mono s - t0) * (sm_mono s - t0), \<Sum>s \<leftarrow> xs. (sm_mono s - t0) * sm_offset s)"
proof (induction xs rule: rev_induct)
  case (snoc x xs)
  have "drift_sums t0 (xs @ [x]) =
      (case drift_sums t0 xs of (n, sx, sy, sxx, sxy) \<Rightarrow>
        (n + 1, sx + (sm_mono x - t0), sy + sm_offset x, sxx + (sm_mono x - t0) * (sm_mono x - t0),
         sxy + (sm_mono x - t0) * sm_offset x))"
    by (simp add: drift_sums_def Let_def split: prod.split)
  with snoc show ?case by simp
qed (simp add: drift_sums_def)

lemma affine_sums:
  "(\<Sum>s \<leftarrow> xs. a + b * x s) = real (length xs) * a + b * (\<Sum>s \<leftarrow> xs. x s)"
  "(\<Sum>s \<leftarrow> xs. x s * (a + b * x s)) = a * (\<Sum>s \<leftarrow> xs. x s) + b * (\<Sum>s \<leftarrow> xs. x s * x s)"
  by (induction xs) (simp_all add: algebra_simps)

lemma line_sums:
  assumes "\<forall>s \<in> set xs. sm_offset s = a + b * (sm_mono s - t0)"
  shows "(\<Sum>s \<leftarrow> xs. sm_offset s) = real (length xs) * a + b * (\<Sum>s \<leftarrow> xs. sm_mono s - t0)"
    and "(\<Sum>s \<leftarrow> xs. (sm_mono s - t0) * sm_offset s) =
      a * (\<Sum>s \<leftarrow> xs. sm_mono s - t0) + b * (\<Sum>s \<leftarrow> xs. (sm_mono s - t0) * (sm_mono s - t0))"
proof -
  have "map sm_offset xs = map (\<lambda>s. a + b * (sm_mono s - t0)) xs"
    "map (\<lambda>s. (sm_mono s - t0) * sm_offset s) xs = map (\<lambda>s. (sm_mono s - t0) * (a + b * (sm_mono s - t0))) xs"
    using assms by simp_all
  then show "(\<Sum>s \<leftarrow> xs. sm_offset s) = real (length xs) * a + b * (\<Sum>s \<leftarrow> xs. sm_mono s - t0)"
    "(\<Sum>s \<leftarrow> xs. (sm_mono s - t0) * sm_offset s) =
      a * (\<Sum>s \<leftarrow> xs. sm_mono s - t0) + b * (\<Sum>s \<leftarrow> xs. (sm_mono s - t0) * (sm_mono s - t0))"
    by (simp_all only: affine_sums)
qed

lemma two_of_sum:
  fixes f :: "real \<Rightarrow> real"
  assumes "\<And>x. 0 \<le> f x" and "x \<in> set xs" and "y \<in> set xs" and "x \<noteq> y"
  shows "f x + f y \<le> (\<Sum>x \<leftarrow> xs. f x)"
  using assms(2-4)
proof (induction xs)
  case (Cons z zs)
  have one: "w \<in> set zs \<Longrightarrow> f w \<le> (\<Sum>x \<leftarrow> zs. f x)" for w
    by (rule member_le_sum_list) (auto simp: assms(1))
  show ?case using Cons one[of x] one[of y] assms(1)[of z] by auto
qed simp

lemma squares_about: "(\<Sum>x \<leftarrow> xs. (x - m) * (x - m)) = (\<Sum>x \<leftarrow> xs. x * x) - 2 * m * (\<Sum>x \<leftarrow> xs. x) + real (length xs) * (m * m)"
  by (induction xs) (simp_all add: algebra_simps)

text \<open>The denominator of the fit is the number of samples times their squared distances
  from the mean, so it is at least half the square of the span.\<close>

lemma spread_of_sums:
  fixes xs :: "real list"
  assumes "0 \<in> set xs" and "c \<in> set xs" and "c \<noteq> 0"
  shows "c * c / 2 \<le> real (length xs) * (\<Sum>x \<leftarrow> xs. x * x) - (\<Sum>x \<leftarrow> xs. x) * (\<Sum>x \<leftarrow> xs. x)"
proof -
  define n S m where "n = real (length xs)" and "S = (\<Sum>x \<leftarrow> xs. x)" and "m = S / n"
  have n: "1 \<le> n" using assms(1) unfolding n_def by (cases xs) simp_all
  have "n * m = S" unfolding m_def using n by simp
  have "n * (\<Sum>x \<leftarrow> xs. (x - m) * (x - m)) = n * (\<Sum>x \<leftarrow> xs. x * x) - 2 * (n * m) * S + (n * m) * (n * m)"
    unfolding squares_about n_def[symmetric] S_def[symmetric] by (simp add: algebra_simps)
  then have e: "n * (\<Sum>x \<leftarrow> xs. (x - m) * (x - m)) = n * (\<Sum>x \<leftarrow> xs. x * x) - S * S"
    unfolding \<open>n * m = S\<close> by simp
  have "(0 - m) * (0 - m) + (c - m) * (c - m) \<le> (\<Sum>x \<leftarrow> xs. (x - m) * (x - m))"
    using assms by (intro two_of_sum[of "\<lambda>x. (x - m) * (x - m)"]) simp_all
  moreover have "(0 - m) * (0 - m) + (c - m) * (c - m) = c * c / 2 + (c - 2 * m) * (c - 2 * m) / 2"
    by (simp add: field_simps)
  moreover have "0 \<le> (c - 2 * m) * (c - 2 * m) / 2" by simp
  ultimately have low: "c * c / 2 \<le> (\<Sum>x \<leftarrow> xs. (x - m) * (x - m))" by linarith
  have "0 \<le> c * c / 2" by simp
  then have "1 * (c * c / 2) \<le> n * (\<Sum>x \<leftarrow> xs. (x - m) * (x - m))"
    using n low by (intro mult_mono) simp_all
  then show ?thesis unfolding e S_def[symmetric] n_def[symmetric] by simp
qed

text \<open>
  The drift fit is exact: on samples of a clock that walks at a steady rate, at
  whatever times they were taken, as soon as there are enough of them over a long enough
  stretch the fit gives that rate in parts per million, and it gives nothing before.
\<close>

theorem drift_fit_exact:
  assumes "samples \<noteq> []" and "\<forall>s \<in> set samples. sm_offset s = a + b * (sm_mono s - t)" and "1 \<le> min_span"
  shows "fit_drift_ppm samples min_span min_samples =
    (if 0 \<le> min_samples \<and> min_samples \<le> int (length samples) \<and> min_span \<le> drift_span samples
     then Some (b * 1000000) else None)"
proof (cases "0 \<le> min_samples \<and> min_samples \<le> int (length samples) \<and> min_span \<le> drift_span samples")
  case True
  define t0 xs where "t0 = sm_mono (hd samples)" and "xs = map (\<lambda>s. sm_mono s - t0) samples"
  define n sx sxx where "n = real (length samples)" and "sx = (\<Sum>s \<leftarrow> samples. sm_mono s - t0)"
    and "sxx = (\<Sum>s \<leftarrow> samples. (sm_mono s - t0) * (sm_mono s - t0))"
  have l: "\<forall>s \<in> set samples. sm_offset s = (a + b * (t0 - t)) + b * (sm_mono s - t0)"
    using assms(2) by (simp add: algebra_simps)
  have arm: "1 \<le> drift_span samples" "drift_span samples = sm_mono (List.last samples) - t0"
    using True assms(1,3) by (simp_all add: drift_span_def t0_def)
  have "0 \<in> set xs" "drift_span samples \<in> set xs"
    using assms(1) by (auto simp: xs_def t0_def arm(2) intro!: rev_image_eqI[of "hd samples"] rev_image_eqI[of "List.last samples"])
  then have "drift_span samples * drift_span samples / 2 \<le> n * sxx - sx * sx"
    using spread_of_sums[of xs "drift_span samples"] arm(1) by (simp add: xs_def n_def sx_def sxx_def o_def)
  moreover have "1 * 1 \<le> drift_span samples * drift_span samples" using arm(1) by (intro mult_mono) simp_all
  ultimately have d: "1 / 2 \<le> n * sxx - sx * sx" by simp
  have "drift_sums t0 samples = (n, sx, n * (a + b * (t0 - t)) + b * sx, sxx, (a + b * (t0 - t)) * sx + b * sxx)"
    unfolding drift_sums_sum n_def sx_def sxx_def using line_sums[OF l] by simp
  moreover have "n * ((a + b * (t0 - t)) * sx + b * sxx) - sx * (n * (a + b * (t0 - t)) + b * sx) = b * (n * sxx - sx * sx)"
    by (simp add: algebra_simps)
  ultimately have s: "drift_sums t0 samples = (n, sx, n * (a + b * (t0 - t)) + b * sx, sxx, (a + b * (t0 - t)) * sx + b * sxx)"
    and q: "(n * ((a + b * (t0 - t)) * sx + b * sxx) - sx * (n * (a + b * (t0 - t)) + b * sx)) / (n * sxx - sx * sx) = b"
    using d by simp_all
  have "fit_drift_ppm samples min_span min_samples =
      (case drift_sums t0 samples of (n, sx, sy, sxx, sxy) \<Rightarrow>
         if \<bar>n * sxx - sx * sx\<bar> < 1 / 1000000000 then None
         else Some ((n * sxy - sx * sy) / (n * sxx - sx * sx) * 1000000))"
    using True arm(2) by (simp add: fit_drift_ppm_def Let_def t0_def[symmetric] cong: prod.case_cong)
  also have "\<dots> = Some (b * 1000000)" unfolding s prod.case q using d by simp
  finally show ?thesis using True by simp
next
  case False
  then show ?thesis using assms(1) by (auto simp: fit_drift_ppm_def drift_span_def Let_def)
qed

theorem drift_fit_exact_witness:
  "fit_drift_ppm (map (\<lambda>k. \<lparr>sm_mono = 10 * real k, sm_offset = 3 + 1 / 50000 * (10 * real k - 0)\<rparr>) [0, 1, 5, 100]) 900 4 =
   Some 20"
  using drift_fit_exact[of "map (\<lambda>k. \<lparr>sm_mono = 10 * real k, sm_offset = 3 + 1 / 50000 * (10 * real k - 0)\<rparr>) [0, 1, 5, 100]"
      3 "1 / 50000" 0 900 4]
  by (simp add: drift_span_def)

section \<open>Every device, in every reachable registry\<close>

definition device_ok :: "policy \<Rightarrow> string \<Rightarrow> device \<Rightarrow> bool" where
  "device_ok p k d \<longleftrightarrow>
     dv_id d = k \<and> length (dv_samples d) \<le> po_max_samples p \<and> 0 \<le> dv_over d \<and> 0 \<le> dv_under d \<and>
     (dv_over d = 0 \<or> dv_under d = 0) \<and>
     (\<not> dv_heard_this_run d \<longrightarrow> dv_samples d = [] \<and> \<not> dv_alerting d)"

definition registry_ok :: "policy \<Rightarrow> registry \<Rightarrow> bool" where
  "registry_ok p r \<longleftrightarrow>
     rg_policy r = p \<and> om_ok (rg_devices r) \<and> (\<forall>(k, d) \<in> set (rg_devices r). device_ok p k d)"

lemma set_om_put: "e \<in> set (om_put m k v) \<Longrightarrow> e = (k, v) \<or> e \<in> set m"
  by (induction m k v rule: om_put.induct) (auto split: if_splits)

lemma registry_ok_put:
  "registry_ok p r \<Longrightarrow> device_ok p k d \<Longrightarrow> rg_policy r' = p \<Longrightarrow> rg_devices r' = om_put (rg_devices r) k d \<Longrightarrow>
   registry_ok p r'"
  unfolding registry_ok_def by (auto simp: om_ok_put dest!: set_om_put)

lemma registry_ok_filter:
  "registry_ok p r \<Longrightarrow> rg_policy r' = p \<Longrightarrow> rg_devices r' = filter P (rg_devices r) \<Longrightarrow> registry_ok p r'"
  unfolding registry_ok_def by (auto simp: om_ok_filter)

lemma registry_ok_same:
  "registry_ok p r \<Longrightarrow> rg_policy r' = rg_policy r \<Longrightarrow> rg_devices r' = rg_devices r \<Longrightarrow> registry_ok p r'"
  by (simp add: registry_ok_def)

lemma registry_ok_get: "registry_ok p r \<Longrightarrow> om_get (rg_devices r) k = Some d \<Longrightarrow> device_ok p k d"
  unfolding registry_ok_def by (auto dest: map_of_SomeD)

lemma set_om_map: "set (om_map f m) = (\<lambda>(k, v). (k, f v)) ` set m"
  by (simp add: om_map_def)

lemma registry_ok_policy: "registry_ok p r \<Longrightarrow> rg_policy r = p" by (simp add: registry_ok_def)

lemma registry_ok_note_clock: "registry_ok p r \<Longrightarrow> registry_ok p (note_clock r now_mono wall)"
  by (auto simp: note_clock_def registry_ok_def om_ok_map Let_def set_om_map device_ok_def clear_samples_def)

lemma sighted_ok:
  assumes "registry_ok p r" and "rg_devices r' = rg_devices r"
  shows "device_ok p k (sighted (device_at r' k) k name rssi now_mono wall d)"
proof (cases "om_get (rg_devices r) k")
  case None
  then show ?thesis using assms
    by (simp add: device_at_def new_device_def sighted_def device_ok_def Let_def)
next
  case (Some dv)
  then show ?thesis using assms registry_ok_get[OF assms(1) Some]
    by (auto simp: device_at_def sighted_def device_ok_def Let_def)
qed

lemma trim_samples_bound: "length (trim_samples p now_mono ss) \<le> po_max_samples p"
  by (simp add: trim_samples_def Let_def)

lemma update_alert_ok:
  "device_ok p k d \<Longrightarrow> dv_heard_this_run d \<Longrightarrow>
   device_ok p k (fst (update_alert q d now_mono wall)) \<and> dv_heard_this_run (fst (update_alert q d now_mono wall))"
  by (auto simp: update_alert_def judge_offset_def device_ok_def Let_def)

lemma registry_ok_observe_box:
  assumes "registry_ok p r"
  shows "registry_ok p (observe_box local_sod r k name rssi data now_mono wall)"
proof -
  let ?r1 = "(note_clock r now_mono wall)\<lparr>rg_adverts_total := rg_adverts_total (note_clock r now_mono wall) + 1\<rparr>"
  let ?d = "decode_tentacle data"
  let ?dev = "sighted (device_at ?r1 k) k name rssi now_mono wall ?d"
  have r1: "registry_ok p ?r1" using registry_ok_note_clock[OF assms] by (rule registry_ok_same) simp_all
  have dev: "device_ok p k ?dev" by (rule sighted_ok[OF r1]) simp
  have heard: "dv_heard_this_run ?dev" by (simp add: sighted_def Let_def)
  show ?thesis
  proof (cases "td_ok ?d")
    case False
    then show ?thesis
      by (intro registry_ok_put[OF r1 dev]) (use r1 in \<open>simp_all add: observe_box_def Let_def registry_ok_def\<close>)
  next
    case True
    define dv where "dv = ?dev\<lparr>dv_decoded := dv_decoded ?dev + 1,
      dv_samples := trim_samples p now_mono (dv_samples ?dev @ [\<lparr>sm_mono = now_mono, sm_offset = offset_of local_sod (td_sod ?d) wall\<rparr>])\<rparr>"
    have "device_ok p k dv" "dv_heard_this_run dv"
      using dev heard trim_samples_bound unfolding dv_def by (auto simp: device_ok_def)
    then have u: "device_ok p k (fst (update_alert p dv now_mono wall))" by (simp add: update_alert_ok)
    let ?r2 = "?r1\<lparr>rg_devices := om_put (rg_devices ?r1) k (fst (update_alert p dv now_mono wall))\<rparr>"
    have pol: "rg_policy ?r1 = p" using r1 by (simp add: registry_ok_def)
    have r2: "registry_ok p ?r2" by (rule registry_ok_put[OF r1 u]) (use pol in simp_all)
    have "rg_policy (observe_box local_sod r k name rssi data now_mono wall) = p"
      "rg_devices (observe_box local_sod r k name rssi data now_mono wall) = forget_quiet p k now_mono (rg_devices ?r2)"
      using True pol by (simp_all add: observe_box_def Let_def dv_def[symmetric] split: prod.split)
    moreover have "\<exists>P. forget_quiet p k now_mono m = filter P m" for m
      by (cases "0 < po_forget_after p") (auto simp: forget_quiet_def intro: exI[of _ "\<lambda>_. True"])
    ultimately show ?thesis using registry_ok_filter[OF r2] by metis
  qed
qed

lemma registry_ok_observe_name: "registry_ok p r \<Longrightarrow> registry_ok p (fst (observe_name r k name))"
proof (cases "om_get (rg_devices r) k")
  case (Some d)
  assume r: "registry_ok p r"
  have "device_ok p k (d\<lparr>dv_name := name\<rparr>)" using registry_ok_get[OF r Some] by (simp add: device_ok_def)
  then have "registry_ok p (r\<lparr>rg_devices := om_put (rg_devices r) k (d\<lparr>dv_name := name\<rparr>)\<rparr>)"
    by (rule registry_ok_put[OF r]) (simp_all add: registry_ok_policy[OF r])
  with Some r show ?thesis by (simp add: observe_name_def)
qed (simp add: observe_name_def)

definition restored :: "remembered_device \<Rightarrow> device" where
  "restored d = new_device\<lparr>dv_id := rd_id d, dv_name := rd_name d, dv_rssi := rd_rssi d,
     dv_first_seen_wall := rd_first_seen_wall d, dv_last_seen_wall := rd_last_seen_wall d,
     dv_heard_this_run := False, dv_last_seen_mono := 0, dv_restored_has_time := rd_has_time d,
     dv_restored_offset := rd_offset d, dv_restored_median := rd_median_offset d,
     dv_restored_resolution := rd_resolution d, dv_last := no_decoded\<lparr>td_fps := rd_fps d\<rparr>\<rparr>"

lemma remember_restored:
  "remember r d = (if rd_id d = [] \<or> om_get (rg_devices r) (rd_id d) \<noteq> None then r
     else r\<lparr>rg_devices := om_put (rg_devices r) (rd_id d) (restored d)\<rparr>)"
  by (simp add: remember_def restored_def)

lemma registry_ok_remember: "registry_ok p r \<Longrightarrow> registry_ok p (remember r d)"
proof -
  assume r: "registry_ok p r"
  have "device_ok p (rd_id d) (restored d)" by (simp add: device_ok_def restored_def new_device_def)
  then have "registry_ok p (r\<lparr>rg_devices := om_put (rg_devices r) (rd_id d) (restored d)\<rparr>)"
    by (rule registry_ok_put[OF r]) (simp_all add: registry_ok_policy[OF r])
  with r show ?thesis by (simp add: remember_restored)
qed

lemma registry_ok_forget: "registry_ok p r \<Longrightarrow> registry_ok p (fst (registry_forget r k))"
proof -
  assume r: "registry_ok p r"
  have "registry_ok p (r\<lparr>rg_devices := om_del (rg_devices r) k, rg_camera := c\<rparr>)" for c
    by (rule registry_ok_filter[OF r]) (simp_all add: registry_ok_policy[OF r] om_del_def)
  moreover have "registry_ok p (r\<lparr>rg_devices := om_del (rg_devices r) k\<rparr>)"
    by (rule registry_ok_filter[OF r]) (simp_all add: registry_ok_policy[OF r] om_del_def)
  ultimately show ?thesis by (simp add: registry_forget_def Let_def)
qed

text \<open>The registry's operations as steps.\<close>

inductive rg_step :: "(real \<Rightarrow> real) \<Rightarrow> registry \<Rightarrow> registry \<Rightarrow> bool" for local_sod where
  "rg_step local_sod r (observe_box local_sod r k name rssi data now_mono wall)"
| "rg_step local_sod r (fst (observe_name r k name))"
| "rg_step local_sod r (observe_camera r k name rssi now_mono wall)"
| "rg_step local_sod r (set_radio r s)"
| "rg_step local_sod r (fst (registry_snapshot r now_mono wall))"
| "rg_step local_sod r (remember r d)"
| "rg_step local_sod r (fst (registry_forget r k))"
| "rg_step local_sod r (fst (take_events r))"

inductive rg_reach :: "(real \<Rightarrow> real) \<Rightarrow> policy \<Rightarrow> registry \<Rightarrow> bool" for local_sod p where
  start: "rg_reach local_sod p (new_registry p t)"
| step: "rg_reach local_sod p r \<Longrightarrow> rg_step local_sod r r' \<Longrightarrow> rg_reach local_sod p r'"

lemma age_camera_same [simp]:
  "rg_devices (age_camera r t) = rg_devices r" "rg_policy (age_camera r t) = rg_policy r"
  by (simp_all add: age_camera_def Let_def)

lemma registry_ok_step: "rg_step local_sod r r' \<Longrightarrow> registry_ok p r \<Longrightarrow> registry_ok p r'"
proof (induction rule: rg_step.induct)
  case (3 r k name rssi now_mono wall)
  then show ?case
    by (auto simp: observe_camera_def Let_def intro: registry_ok_same)
qed (auto simp: registry_ok_observe_box registry_ok_observe_name registry_ok_remember registry_ok_forget set_radio_def
    registry_snapshot_def take_events_def Let_def intro: registry_ok_same)

lemma registry_ok_reach: "rg_reach local_sod p r \<Longrightarrow> registry_ok p r"
proof (induction rule: rg_reach.induct)
  case (start t)
  show ?case by (simp add: registry_ok_def new_registry_def)
qed (rule registry_ok_step)


definition a_box :: remembered_device where
  "a_box = \<lparr>rd_id = ''box'', rd_name = ''A'', rd_user_name = [], rd_probed_name = [], rd_probed = False,
     rd_first_seen_wall = 1000, rd_last_seen_wall = 2000, rd_has_time = True, rd_offset = 1,
     rd_median_offset = 2, rd_resolution = ''frame'', rd_fps = 24, rd_rssi = - 60\<rparr>"



lemma remembered_restored:
  "rd_user_name d = [] \<Longrightarrow> rd_probed_name d = [] \<Longrightarrow> \<not> rd_probed d \<Longrightarrow> remembered_one (restored d) = d"
  by (cases d) (simp add: remembered_one_def restored_def new_device_def Let_def)

lemma remember_all:
  "sorted_wrt (\<lambda>a b. rd_id a < rd_id b) ds \<Longrightarrow> \<forall>d \<in> set ds. rd_id d \<noteq> [] \<Longrightarrow>
   rg_devices (foldl remember (new_registry p t) ds) = map (\<lambda>d. (rd_id d, restored d)) ds"
proof (induction ds rule: rev_induct)
  case (snoc d ds)
  let ?r = "foldl remember (new_registry p t) ds"
  have ds: "rg_devices ?r = map (\<lambda>d. (rd_id d, restored d)) ds" and lt: "\<forall>e \<in> set ds. rd_id e < rd_id d"
    using snoc by (simp_all add: sorted_wrt_append)
  have "om_get (rg_devices ?r) (rd_id d) = None" using lt unfolding ds by (auto simp: map_of_eq_None_iff)
  moreover have "om_put (rg_devices ?r) (rd_id d) (restored d) = rg_devices ?r @ [(rd_id d, restored d)]"
    using lt unfolding ds by (intro om_put_snoc) auto
  ultimately show ?case using snoc.prems ds by (simp add: remember_restored[of ?r d])
qed (simp add: new_registry_def)

text \<open>
  The roster survives a restart: loading remembered devices, in the order of their
  identifiers, into a fresh registry and saving it gives back every field it keeps of
  every one of them.
\<close>
theorem roster_round_trip:
  assumes "sorted_wrt (\<lambda>a b. rd_id a < rd_id b) ds"
    and "\<forall>d \<in> set ds. rd_id d \<noteq> [] \<and> rd_user_name d = [] \<and> rd_probed_name d = [] \<and> \<not> rd_probed d"
  shows "remembered (foldl remember (new_registry p t) ds) = ds"
proof -
  have "map (\<lambda>d. remembered_one (restored d)) ds = ds"
    using assms(2) by (induction ds) (auto simp: remembered_restored)
  with assms show ?thesis by (simp add: remembered_def remember_all o_def)
qed

theorem roster_round_trip_witness:
  "remembered (foldl remember (new_registry default_policy 0) [a_box]) = [a_box]"
  by (rule roster_round_trip) (simp_all add: a_box_def)

lemma update_alert_keeps:
  "dv_first_seen_wall (fst (update_alert p d now_mono wall)) = dv_first_seen_wall d"
  "dv_name (fst (update_alert p d now_mono wall)) = dv_name d"
  "dv_id (fst (update_alert p d now_mono wall)) = dv_id d"
  "dv_samples (fst (update_alert p d now_mono wall)) = dv_samples d"
  by (simp_all add: update_alert_def judge_offset_def Let_def)

text \<open>What \<open>observe\<close> leaves at the identifier it heard, and at the others.\<close>

definition heard_device ::
    "(real \<Rightarrow> real) \<Rightarrow> registry \<Rightarrow> string \<Rightarrow> string \<Rightarrow> int \<Rightarrow> bytes \<Rightarrow> real \<Rightarrow> real \<Rightarrow> device \<times> alert_event list" where
  "heard_device local_sod r k name rssi data now_mono wall =
     (let d = decode_tentacle data; dev = sighted (device_at (note_clock r now_mono wall) k) k name rssi now_mono wall d
      in if \<not> td_ok d then (dev, [])
         else update_alert (rg_policy r) (dev\<lparr>dv_decoded := dv_decoded dev + 1,
                dv_samples := trim_samples (rg_policy r) now_mono
                  (dv_samples dev @ [\<lparr>sm_mono = now_mono, sm_offset = offset_of local_sod (td_sod d) wall\<rparr>])\<rparr>) now_mono wall)"

lemma note_clock_same [simp]:
  "rg_policy (note_clock r now_mono wall) = rg_policy r" "rg_events (note_clock r now_mono wall) = rg_events r"
  by (simp_all add: note_clock_def Let_def)

lemma device_at_adverts [simp]: "device_at (r\<lparr>rg_adverts_total := n\<rparr>) k = device_at r k"
  by (simp add: device_at_def)

lemma observe_box_devices:
  "rg_devices (observe_box local_sod r k name rssi data now_mono wall) =
     (if td_ok (decode_tentacle data) then forget_quiet (rg_policy r) k now_mono else (\<lambda>m. m))
       (om_put (rg_devices (note_clock r now_mono wall)) k (fst (heard_device local_sod r k name rssi data now_mono wall)))"
  "rg_events (observe_box local_sod r k name rssi data now_mono wall) =
     rg_events r @ snd (heard_device local_sod r k name rssi data now_mono wall)"
  by (simp_all add: observe_box_def heard_device_def Let_def split: prod.split)

lemma om_get_forget_quiet:
  "om_ok m \<Longrightarrow> om_get (forget_quiet p k now_mono m) k' =
     (case om_get m k' of None \<Rightarrow> None
      | Some d \<Rightarrow> if 0 < po_forget_after p \<and> k' \<noteq> k \<and> dv_heard_this_run d \<and>
                    po_forget_after p < now_mono - dv_last_seen_mono d then None else Some d)"
  using om_get_filter[of m "\<lambda>k' d. \<not> (k' \<noteq> k \<and> dv_heard_this_run d \<and> po_forget_after p < now_mono - dv_last_seen_mono d)" k']
  by (auto simp: forget_quiet_def case_prod_beta' split: option.splits)

lemma observe_box_at:
  assumes "registry_ok p r"
  shows "om_get (rg_devices (observe_box local_sod r k name rssi data now_mono wall)) k =
    Some (fst (heard_device local_sod r k name rssi data now_mono wall))"
proof -
  have "om_ok (om_put (rg_devices (note_clock r now_mono wall)) k d)" for d
    using registry_ok_note_clock[OF assms] by (simp add: registry_ok_def om_ok_put)
  then show ?thesis by (simp add: observe_box_devices om_get_forget_quiet om_get_put)
qed

lemma heard_first_seen:
  "dv_first_seen_wall (fst (heard_device local_sod r k name rssi data now_mono wall)) =
     (if dv_id (device_at (note_clock r now_mono wall) k) = [] then wall
      else dv_first_seen_wall (device_at (note_clock r now_mono wall) k))"
  by (simp add: heard_device_def Let_def sighted_def update_alert_keeps)

text \<open>
  Loading the roster and hearing a box do not commute: a box remembered and then heard
  keeps the day it was first seen, and one heard and then remembered is first seen now,
  with nothing of the roster's entry kept.
\<close>

theorem load_and_observe_differ:
  assumes "rd_id d \<noteq> []" and "rd_first_seen_wall d \<noteq> wall"
  shows "dv_first_seen_wall (device_at (observe_box local_sod (remember (new_registry p t) d) (rd_id d) name rssi data now_mono wall) (rd_id d)) =
      rd_first_seen_wall d \<and>
    dv_first_seen_wall (device_at (remember (observe_box local_sod (new_registry p t) (rd_id d) name rssi data now_mono wall) d) (rd_id d)) =
      wall"
proof -
  have n: "registry_ok p (new_registry p t)" by (simp add: registry_ok_def new_registry_def)
  have a: "device_at (note_clock (remember (new_registry p t) d) now_mono wall) (rd_id d) = restored d"
    "device_at (note_clock (new_registry p t) now_mono wall) (rd_id d) = new_device"
    using assms(1) by (simp_all add: device_at_def note_clock_def remember_restored new_registry_def clock_stepped_def Let_def)
  have "dv_id (restored d) = rd_id d" "dv_first_seen_wall (restored d) = rd_first_seen_wall d" "dv_id new_device = []"
    by (simp_all add: restored_def new_device_def)
  note dev = this
  let ?o = "\<lambda>r. observe_box local_sod r (rd_id d) name rssi data now_mono wall"
  have o: "om_get (rg_devices (?o r)) (rd_id d) = Some (fst (heard_device local_sod r (rd_id d) name rssi data now_mono wall))"
    if "registry_ok p r" for r by (rule observe_box_at[OF that])
  have "dv_first_seen_wall (device_at (?o (remember (new_registry p t) d)) (rd_id d)) = rd_first_seen_wall d"
    unfolding device_at_def o[OF registry_ok_remember[OF n]] by (simp add: heard_first_seen a dev assms(1))
  moreover have "remember (?o (new_registry p t)) d = ?o (new_registry p t)"
    by (simp only: remember_restored o[OF n]) simp
  then have "dv_first_seen_wall (device_at (remember (?o (new_registry p t)) d) (rd_id d)) = wall"
    unfolding device_at_def by (simp add: o[OF n] heard_first_seen a dev)
  ultimately show ?thesis ..
qed

theorem load_and_observe_differ_witness:
  "dv_first_seen_wall (device_at (observe_box (\<lambda>_. 0) (remember (new_registry default_policy 0) a_box) ''box'' [] 0 [] 5 5000) ''box'') = 1000"
  using load_and_observe_differ[of a_box 5000 "\<lambda>_. 0" default_policy 0 "[]" 0 "[]" 5] by (simp add: a_box_def)


section \<open>Alerts alternate\<close>

text \<open>Reading the events of one box from a state: \<open>None\<close> when an event does not fit.\<close>

fun alert_run :: "bool \<Rightarrow> alert_event list \<Rightarrow> bool option" where
  "alert_run s [] = Some s"
| "alert_run s (e # es) =
     (if ae_repeat e then if s \<and> ae_entering e then alert_run s es else None
      else if ae_entering e = s then None else alert_run (ae_entering e) es)"

lemma alert_run_append:
  "alert_run s (xs @ ys) = (case alert_run s xs of None \<Rightarrow> None | Some s' \<Rightarrow> alert_run s' ys)"
  by (induction xs arbitrary: s) auto

lemma update_alert_run:
  "dv_alerting d = s \<Longrightarrow> alert_run s (snd (update_alert p d now_mono wall)) =
     Some (dv_alerting (fst (update_alert p d now_mono wall)))"
  "dv_id d = k \<Longrightarrow> e \<in> set (snd (update_alert p d now_mono wall)) \<Longrightarrow> ae_id e = k"
  by (auto simp: update_alert_def judge_offset_def Let_def split: if_splits)

definition alerting_at :: "registry \<Rightarrow> string \<Rightarrow> bool" where
  "alerting_at r k = dv_alerting (device_at r k)"

definition events_of :: "string \<Rightarrow> registry \<Rightarrow> alert_event list" where
  "events_of k r = filter (\<lambda>e. ae_id e = k) (rg_events r)"

fun hear_all ::
    "(real \<Rightarrow> real) \<Rightarrow> registry \<Rightarrow> (string \<times> string \<times> int \<times> bytes \<times> real \<times> real) list \<Rightarrow> registry" where
  "hear_all local_sod r [] = r"
| "hear_all local_sod r ((k, name, rssi, data, now_mono, wall) # hs) =
     hear_all local_sod (observe_box local_sod r k name rssi data now_mono wall) hs"

lemma heard_device_run:
  assumes "registry_ok p r"
  shows "alert_run (alerting_at r k) (snd (heard_device local_sod r k name rssi data now_mono wall)) =
      Some (dv_alerting (fst (heard_device local_sod r k name rssi data now_mono wall)))"
    and "\<forall>e \<in> set (snd (heard_device local_sod r k name rssi data now_mono wall)). ae_id e = k"
proof -
  let ?dev = "sighted (device_at (note_clock r now_mono wall) k) k name rssi now_mono wall (decode_tentacle data)"
  have "dv_alerting (device_at (note_clock r now_mono wall) k) = alerting_at r k"
    by (auto simp: alerting_at_def device_at_def note_clock_def Let_def om_get_map clear_samples_def split: option.split)
  then have a: "dv_alerting ?dev = alerting_at r k" by (simp add: sighted_def Let_def)
  have i: "dv_id ?dev = k"
    using sighted_ok[OF registry_ok_note_clock[OF assms], of "note_clock r now_mono wall"] by (simp add: device_ok_def)
  show "alert_run (alerting_at r k) (snd (heard_device local_sod r k name rssi data now_mono wall)) =
      Some (dv_alerting (fst (heard_device local_sod r k name rssi data now_mono wall)))"
    using a unfolding heard_device_def Let_def by (simp add: update_alert_run(1))
  show "\<forall>e \<in> set (snd (heard_device local_sod r k name rssi data now_mono wall)). ae_id e = k"
    using i unfolding heard_device_def Let_def by (auto dest: update_alert_run(2)[rotated])
qed

lemma observe_box_alerting:
  assumes "registry_ok p r" and "po_forget_after p \<le> 0"
  shows "alerting_at (observe_box local_sod r k name rssi data now_mono wall) k' =
    (if k' = k then dv_alerting (fst (heard_device local_sod r k name rssi data now_mono wall)) else alerting_at r k')"
proof -
  have "rg_devices (observe_box local_sod r k name rssi data now_mono wall) =
      om_put (rg_devices (note_clock r now_mono wall)) k (fst (heard_device local_sod r k name rssi data now_mono wall))"
    using assms registry_ok_policy[OF assms(1)] by (simp add: observe_box_devices forget_quiet_def)
  then show ?thesis
    by (auto simp: alerting_at_def device_at_def om_get_put note_clock_def Let_def om_get_map clear_samples_def split: option.split)
qed

lemma observe_box_events:
  assumes "registry_ok p r" and "po_forget_after p \<le> 0"
    and "alert_run False (events_of k' r) = Some (alerting_at r k')"
  shows "alert_run False (events_of k' (observe_box local_sod r k name rssi data now_mono wall)) =
    Some (alerting_at (observe_box local_sod r k name rssi data now_mono wall) k')"
proof -
  let ?h = "heard_device local_sod r k name rssi data now_mono wall"
  note h = heard_device_run[OF assms(1), where k = k and local_sod = local_sod and name = name and rssi = rssi and data = data
      and now_mono = now_mono and wall = wall]
  have "events_of k' (observe_box local_sod r k name rssi data now_mono wall) =
      events_of k' r @ (if k' = k then snd ?h else [])"
    using h(2) by (auto simp: events_of_def observe_box_devices filter_empty_conv intro: filter_True)
  then show ?thesis using assms(3) h(1)
    by (auto simp: alert_run_append observe_box_alerting[OF assms(1,2)])
qed



section \<open>Alerts need confirmation\<close>

text \<open>
  No single reading raises or clears an alert: a box starts alerting only when its
  median has been past the entry threshold for as many readings in a row as the policy
  confirms with, this one included, and stops only when it has been below the exit
  threshold for as many; a reading between the two thresholds restarts both counts.
\<close>

theorem alert_needs_confirmation:
  assumes "dv_alerting (fst (update_alert p d now_mono wall)) \<noteq> dv_alerting d" and "1 \<le> po_alert_confirm p"
  shows "let m = \<bar>median_offset (map sm_offset (dv_samples d))\<bar>
    in if dv_alerting d then m < po_alert_exit p \<and> po_alert_confirm p \<le> dv_under d + 1
       else po_alert_enter p < m \<and> po_alert_confirm p \<le> dv_over d + 1"
  using assms by (auto simp: update_alert_def judge_offset_def Let_def split: if_splits)


definition drifted :: device where
  "drifted = new_device\<lparr>dv_over := 2, dv_samples := [\<lparr>sm_mono = 1, sm_offset = 100\<rparr>]\<rparr>"

theorem alert_needs_confirmation_witness:
  "po_alert_confirm default_policy \<le> dv_over drifted + 1"
  using alert_needs_confirmation[of default_policy drifted 1 1]
  by (simp add: update_alert_def judge_offset_def drifted_def new_device_def default_policy_def median_offset_def)

section \<open>A step of the host's clock\<close>

text \<open>
  A step of the host's clock never becomes drift: when the wall clock has moved by more
  than a second against the monotonic one since the last advertisement, the window of
  every box is emptied before the new reading goes in, so no fit spans the step.
\<close>

theorem clock_step_empties_windows:
  assumes "registry_ok p r" and "clock_stepped r now_mono wall"
    and "om_get (rg_devices (observe_box local_sod r k name rssi data now_mono wall)) k' = Some d"
  shows "length (dv_samples d) \<le> (if k' = k then 1 else 0) \<and>
    (2 \<le> min_samples \<longrightarrow> fit_drift_ppm (dv_samples d) min_span min_samples = None)"
proof -
  let ?r = "note_clock r now_mono wall" and ?h = "fst (heard_device local_sod r k name rssi data now_mono wall)"
  have empty: "om_get (rg_devices ?r) k'' = Some d' \<Longrightarrow> dv_samples d' = []" for k'' d'
    using assms(2) by (auto simp: note_clock_def om_get_map clear_samples_def Let_def)
  have at: "dv_samples (device_at ?r k) = []"
    using empty[of k] by (auto simp: device_at_def new_device_def split: option.split)
  have "length (trim_samples q m [s]) \<le> 1" for q m s
    by (simp add: trim_samples_def Let_def)
  then have h: "length (dv_samples ?h) \<le> 1"
    by (simp add: heard_device_def Let_def sighted_def at update_alert_keeps)
  have ok: "om_ok (om_put (rg_devices ?r) k ?h)"
    using registry_ok_note_clock[OF assms(1)] by (simp add: registry_ok_def om_ok_put)
  have "om_get (om_put (rg_devices ?r) k ?h) k' = Some d"
    using assms(3) ok by (auto simp: observe_box_devices om_get_forget_quiet split: option.splits if_splits)
  then have l: "length (dv_samples d) \<le> (if k' = k then 1 else 0)"
    using h empty[of k' d] by (auto simp: om_get_put split: if_splits)
  then have "2 \<le> min_samples \<Longrightarrow> int (length (dv_samples d)) < min_samples" by (auto split: if_splits)
  with l show ?thesis by (simp add: fit_drift_ppm_def)
qed

theorem clock_step_empties_windows_witness:
  "let r = (new_registry default_policy 0)\<lparr>rg_last_mono := 5, rg_last_wall := 1000\<rparr>
   in fit_drift_ppm (dv_samples (fst (heard_device (\<lambda>_. 0) r ''box'' ''A'' 0 [] 6 9000))) 1 2 = None"
proof -
  let ?r = "(new_registry default_policy 0)\<lparr>rg_last_mono := 5, rg_last_wall := 1000\<rparr>"
  have "registry_ok default_policy ?r" by (simp add: registry_ok_def new_registry_def)
  moreover have "clock_stepped ?r 6 9000" by (simp add: clock_stepped_def)
  ultimately show ?thesis
    using clock_step_empties_windows[OF _ _ observe_box_at, where min_samples = 2] by (simp add: Let_def)
qed

end
