(* ===== verification/Lines.thy ===== *)
theory Lines
  imports BoxMsg
begin

text \<open>
  Text files by line: what \<open>std::getline\<close> splits a text into and what appending every line
  with its newline gives back.
\<close>

text \<open>\<open>std::getline\<close>: the pieces between newlines, without an empty one at the end.\<close>

fun lines_from :: "string \<Rightarrow> string \<Rightarrow> string list" where
  "lines_from cur [] = (if cur = [] then [] else [cur])"
| "lines_from cur (c # cs) = (if c = CHR 0x0A then cur # lines_from [] cs else lines_from (cur @ [c]) cs)"

definition text_lines :: "string \<Rightarrow> string list" where
  "text_lines text = lines_from [] text"

definition unlines :: "string list \<Rightarrow> string" where
  "unlines ls = concat (map (\<lambda>l. l @ [CHR 0x0A]) ls)"

definition no_newline :: "string \<Rightarrow> bool" where
  "no_newline l = (CHR 0x0A \<notin> set l)"

lemma no_newline_simps [simp]:
  "no_newline []" "no_newline (c # s) = (c \<noteq> CHR 0x0A \<and> no_newline s)"
  by (auto simp: no_newline_def)

lemma lines_from_line: "no_newline l \<Longrightarrow> lines_from cur (l @ CHR 0x0A # rest) = (cur @ l) # lines_from [] rest"
  by (induction l arbitrary: cur) (auto simp: no_newline_def)

lemma text_lines_unlines: "\<forall>l \<in> set ls. no_newline l \<Longrightarrow> text_lines (unlines ls) = ls"
  by (induction ls) (simp_all add: text_lines_def unlines_def lines_from_line)

lemma lines_from_no_newline: "no_newline cur \<Longrightarrow> l \<in> set (lines_from cur cs) \<Longrightarrow> no_newline l"
  by (induction cur cs rule: lines_from.induct) (auto simp: no_newline_def split: if_splits)

end
