(* ===== verification/CamConf.thy ===== *)
theory CamConf
  imports Lines
begin

text \<open>
  The configuration file of cameras and boxes (\<open>src/camconf.h\<close>, \<open>src/camconf.cc\<close>): reading
  it, the permissions it grants, and the edits that change one line and keep the others.
  The file itself is a value: \<open>None\<close> when it cannot be opened, its text otherwise; an edit
  gives the text to write, and whether the system took it is an argument.
\<close>

section \<open>Text\<close>

definition blank :: "char \<Rightarrow> bool" where
  "blank c = (c = CHR '' '' \<or> c = CHR 0x09)"

definition space :: "char \<Rightarrow> bool" where
  "space c = (c = CHR '' '' \<or> c = CHR 0x09 \<or> c = CHR 0x0A \<or> c = CHR 0x0B \<or> c = CHR 0x0C \<or> c = CHR 0x0D)"

definition blank_end :: "char \<Rightarrow> bool" where
  "blank_end c = (blank c \<or> c = CHR 0x0D)"

definition trim_line :: "string \<Rightarrow> string" where
  "trim_line s = rev (dropWhile blank_end (rev (dropWhile blank s)))"

fun lower :: "char \<Rightarrow> char" where
  "lower c = (let n = of_char c :: nat in if 65 \<le> n \<and> n \<le> 90 then char_of (n + 32) else c)"

definition parse_bool :: "string \<Rightarrow> bool option" where
  "parse_bool raw =
     (let v = map lower raw
      in if v \<in> set [''on'', ''true'', ''yes'', ''1'', ''enabled''] then Some True
         else if v \<in> set [''off'', ''false'', ''no'', ''0'', ''disabled''] then Some False
         else None)"

function tokens :: "string \<Rightarrow> string list" where
  "tokens s =
     (let t = dropWhile space s
      in if t = [] then [] else takeWhile (\<lambda>c. \<not> space c) t # tokens (dropWhile (\<lambda>c. \<not> space c) t))"
  by pat_completeness auto
termination
proof (relation "measure length")
  fix s t :: string
  assume t: "t = dropWhile space s" "t \<noteq> []"
  then obtain c cs where c: "t = c # cs" "\<not> space c" by (metis hd_dropWhile list.collapse)
  have "length (dropWhile (\<lambda>c. \<not> space c) t) \<le> length cs" using c by (simp add: length_dropWhile_le)
  also have "\<dots> < length t" using c by simp
  also have "\<dots> \<le> length s" using t by (simp add: length_dropWhile_le)
  finally show "(dropWhile (\<lambda>c. \<not> space c) t, s) \<in> measure length" by simp
qed simp

declare tokens.simps [simp del]

type_synonym field = "string \<times> string"

definition field_of :: "string \<Rightarrow> field" where
  "field_of tok =
     (if CHR ''='' \<in> set tok
      then (takeWhile (\<lambda>c. c \<noteq> CHR ''='') tok, drop 1 (dropWhile (\<lambda>c. c \<noteq> CHR ''='') tok))
      else (tok, []))"

definition fields_of :: "string \<Rightarrow> field list" where
  "fields_of rest = map field_of (tokens rest)"

definition first_id :: "field list \<Rightarrow> string" where
  "first_id fs = (if snd (hd fs) = [] then fst (hd fs) else snd (hd fs))"

definition split_verb :: "string \<Rightarrow> string \<times> string" where
  "split_verb t = (takeWhile (\<lambda>c. \<not> blank c) t, drop 1 (dropWhile (\<lambda>c. \<not> blank c) t))"

definition safe_label :: "string \<Rightarrow> string" where
  "safe_label name =
     map (\<lambda>c. let u = of_char c :: nat in if 0x20 < u \<and> u < 0x7f \<and> c \<noteq> CHR ''='' then c else CHR ''_'') name"

section \<open>State\<close>

record camera_config =
  cc_id :: string
  cc_name :: string
  cc_writes_enabled :: bool
  cc_warn :: bool

record box_config =
  bc_id :: string
  bc_name :: string
  bc_enabled :: bool
  bc_warn :: bool

record camconf =
  kc_path :: string
  kc_loaded :: bool
  kc_exists :: bool
  kc_default_writes :: bool
  kc_default_box_enabled :: bool
  kc_default_warn :: bool
  kc_cameras :: "camera_config list"
  kc_boxes :: "box_config list"

definition fresh_conf :: "string \<Rightarrow> camconf" where
  "fresh_conf path = \<lparr>kc_path = path, kc_loaded = False, kc_exists = False, kc_default_writes = False,
     kc_default_box_enabled = True, kc_default_warn = False, kc_cameras = [], kc_boxes = []\<rparr>"

section \<open>Reading\<close>

definition at_line :: "string \<Rightarrow> nat \<Rightarrow> string" where
  "at_line path n = path @ '':'' @ show_nat n @ '': ''"

definition must_be_bool :: "string \<Rightarrow> nat \<Rightarrow> field \<Rightarrow> string" where
  "must_be_bool path n f = at_line path n @ fst f @ '' must be on or off, not '' @ [CHR 0x27] @ snd f @ [CHR 0x27]"

fun parse_defaults :: "nat \<Rightarrow> field list \<Rightarrow> camconf \<Rightarrow> camconf \<times> string option" where
  "parse_defaults n [] conf = (conf, None)"
| "parse_defaults n (f # fs) conf =
     (if fst f = ''writes'' then
        (case parse_bool (snd f) of None \<Rightarrow> (conf, Some (must_be_bool (kc_path conf) n f))
         | Some b \<Rightarrow> parse_defaults n fs (conf\<lparr>kc_default_writes := b\<rparr>))
      else if fst f = ''enabled'' then
        (case parse_bool (snd f) of None \<Rightarrow> (conf, Some (must_be_bool (kc_path conf) n f))
         | Some b \<Rightarrow> parse_defaults n fs (conf\<lparr>kc_default_box_enabled := b\<rparr>))
      else if fst f = ''warn'' then
        (case parse_bool (snd f) of None \<Rightarrow> (conf, Some (must_be_bool (kc_path conf) n f))
         | Some b \<Rightarrow> parse_defaults n fs (conf\<lparr>kc_default_warn := b\<rparr>))
      else parse_defaults n fs conf)"

text \<open>The fields of a camera or a box line after the identifier: the flag of its kind, the
  warning and the name; anything else is left alone.\<close>

fun parse_device ::
    "string \<Rightarrow> string \<Rightarrow> nat \<Rightarrow> field list \<Rightarrow> bool \<times> bool \<times> string \<Rightarrow> string + (bool \<times> bool \<times> string)" where
  "parse_device key path n [] d = Inr d"
| "parse_device key path n (f # fs) (flag, warn, name) =
     (if fst f = key then
        (case parse_bool (snd f) of None \<Rightarrow> Inl (must_be_bool path n f)
         | Some b \<Rightarrow> parse_device key path n fs (b, warn, name))
      else if fst f = ''warn'' then
        (case parse_bool (snd f) of None \<Rightarrow> Inl (must_be_bool path n f)
         | Some b \<Rightarrow> parse_device key path n fs (flag, b, name))
      else if fst f = ''name'' then parse_device key path n fs (flag, warn, snd f)
      else parse_device key path n fs (flag, warn, name))"

definition parse_camera :: "nat \<Rightarrow> field list \<Rightarrow> camconf \<Rightarrow> camconf \<times> string option" where
  "parse_camera n fs conf =
     (if fs = [] then (conf, Some (at_line (kc_path conf) n @ ''camera needs an identifier''))
      else case parse_device ''writes'' (kc_path conf) n (tl fs) (kc_default_writes conf, kc_default_warn conf, []) of
        Inl e \<Rightarrow> (conf, Some e)
      | Inr (flag, warn, name) \<Rightarrow>
          (conf\<lparr>kc_cameras := kc_cameras conf @
             [\<lparr>cc_id = first_id fs, cc_name = name, cc_writes_enabled = flag, cc_warn = warn\<rparr>]\<rparr>, None))"

definition parse_box :: "nat \<Rightarrow> field list \<Rightarrow> camconf \<Rightarrow> camconf \<times> string option" where
  "parse_box n fs conf =
     (if fs = [] then (conf, Some (at_line (kc_path conf) n @ ''box needs an identifier''))
      else case parse_device ''enabled'' (kc_path conf) n (tl fs) (kc_default_box_enabled conf, kc_default_warn conf, []) of
        Inl e \<Rightarrow> (conf, Some e)
      | Inr (flag, warn, name) \<Rightarrow>
          (conf\<lparr>kc_boxes := kc_boxes conf @
             [\<lparr>bc_id = first_id fs, bc_name = name, bc_enabled = flag, bc_warn = warn\<rparr>]\<rparr>, None))"

definition ignored_line :: "string \<Rightarrow> bool" where
  "ignored_line t = (t = [] \<or> hd t = CHR ''#'')"

definition parse_line :: "nat \<Rightarrow> string \<Rightarrow> camconf \<Rightarrow> camconf \<times> string option" where
  "parse_line n line conf =
     (let t = trim_line line; verb = fst (split_verb t); fs = fields_of (snd (split_verb t))
      in if ignored_line t then (conf, None)
         else if verb = ''default'' then parse_defaults n fs conf
         else if verb = ''camera'' then parse_camera n fs conf
         else if verb = ''box'' then parse_box n fs conf
         else (conf, None))"

fun parse_lines :: "nat \<Rightarrow> string list \<Rightarrow> camconf \<Rightarrow> camconf \<times> string option" where
  "parse_lines n [] conf = (conf, None)"
| "parse_lines n (l # ls) conf =
     (case parse_line n l conf of (conf, Some e) \<Rightarrow> (conf, Some e)
      | (conf, None) \<Rightarrow> parse_lines (Suc n) ls conf)"

definition parse_conf :: "string \<Rightarrow> camconf \<Rightarrow> camconf \<times> string option" where
  "parse_conf text conf = parse_lines 1 (text_lines text) conf"

definition load_conf :: "string \<Rightarrow> string option \<Rightarrow> camconf \<times> string option" where
  "load_conf path file =
     (let conf = fresh_conf path
      in if path = [] then (conf\<lparr>kc_loaded := True\<rparr>, None)
         else case file of None \<Rightarrow> (conf\<lparr>kc_loaded := True\<rparr>, None)
         | Some text \<Rightarrow>
             (case parse_conf text (conf\<lparr>kc_exists := True\<rparr>) of
                (conf, Some e) \<Rightarrow> (conf, Some e)
              | (conf, None) \<Rightarrow> (conf\<lparr>kc_loaded := True\<rparr>, None)))"

section \<open>Asking\<close>

definition find_camera :: "camconf \<Rightarrow> string \<Rightarrow> camera_config option" where
  "find_camera conf k = List.find (\<lambda>c. cc_id c = k) (kc_cameras conf)"

definition writes_enabled :: "camconf \<Rightarrow> string \<Rightarrow> bool" where
  "writes_enabled conf k =
     (case find_camera conf k of Some c \<Rightarrow> cc_writes_enabled c | None \<Rightarrow> kc_default_writes conf)"

definition find_box :: "camconf \<Rightarrow> string \<Rightarrow> box_config option" where
  "find_box conf k = List.find (\<lambda>b. bc_id b = k) (kc_boxes conf)"

definition box_enabled :: "camconf \<Rightarrow> string \<Rightarrow> bool" where
  "box_enabled conf k =
     (case find_box conf k of Some b \<Rightarrow> bc_enabled b | None \<Rightarrow> kc_default_box_enabled conf)"

definition warn_enabled :: "camconf \<Rightarrow> string \<Rightarrow> bool" where
  "warn_enabled conf k =
     (case find_camera conf k of Some c \<Rightarrow> cc_warn c
      | None \<Rightarrow> (case find_box conf k of Some b \<Rightarrow> bc_warn b | None \<Rightarrow> kc_default_warn conf))"

definition any_writes_enabled :: "camconf \<Rightarrow> bool" where
  "any_writes_enabled conf = (kc_default_writes conf \<or> (\<exists>c \<in> set (kc_cameras conf). cc_writes_enabled c))"

section \<open>Editing\<close>

definition device_fields :: "string \<Rightarrow> string \<Rightarrow> string \<Rightarrow> field list option" where
  "device_fields verb k line =
     (let t = trim_line line; fs = fields_of (snd (split_verb t))
      in if ignored_line t \<or> \<not> (\<exists>c \<in> set t. blank c) \<or> fst (split_verb t) \<noteq> verb \<or> fs = [] \<or> first_id fs \<noteq> k
         then None else Some fs)"

definition bool_word :: "bool \<Rightarrow> string" where
  "bool_word b = (if b then ''on'' else ''off'')"

definition rebuild_field :: "string \<Rightarrow> string \<Rightarrow> bool \<Rightarrow> field \<Rightarrow> string" where
  "rebuild_field key name enabled f =
     (if fst f = key then '' '' @ key @ ''='' @ bool_word enabled
      else if fst f = ''name'' then '' name='' @ (if name = [] then snd f else safe_label name)
      else '' '' @ fst f @ (if snd f = [] then [] else ''='' @ snd f))"

definition rebuild_line :: "string \<Rightarrow> string \<Rightarrow> string \<Rightarrow> string \<Rightarrow> bool \<Rightarrow> field list \<Rightarrow> string" where
  "rebuild_line verb key k name enabled fs =
     verb @ '' '' @ k @ concat (map (rebuild_field key name enabled) (tl fs)) @
     (if \<exists>f \<in> set (tl fs). fst f = key then [] else '' '' @ key @ ''='' @ bool_word enabled) @
     (if (\<exists>f \<in> set (tl fs). fst f \<noteq> key \<and> fst f = ''name'') \<or> name = [] then [] else '' name='' @ safe_label name)"

definition added_line :: "string \<Rightarrow> string \<Rightarrow> string \<Rightarrow> string \<Rightarrow> bool \<Rightarrow> string" where
  "added_line verb key k name enabled =
     verb @ '' '' @ k @ '' '' @ key @ ''='' @ bool_word enabled @ (if name = [] then [] else '' name='' @ safe_label name)"

fun set_flag_lines :: "string \<Rightarrow> string \<Rightarrow> string \<Rightarrow> string \<Rightarrow> bool \<Rightarrow> string list \<Rightarrow> string list" where
  "set_flag_lines verb key k name enabled [] = [added_line verb key k name enabled]"
| "set_flag_lines verb key k name enabled (l # ls) =
     (case device_fields verb k l of
        Some fs \<Rightarrow> rebuild_line verb key k name enabled fs # ls
      | None \<Rightarrow> l # set_flag_lines verb key k name enabled ls)"

definition forget_lines :: "string \<Rightarrow> string \<Rightarrow> string list \<Rightarrow> string list" where
  "forget_lines verb k ls = filter (\<lambda>l. device_fields verb k l = None) ls"

text \<open>The header written at the top of a new file.\<close>

definition kHeader :: string where
  "kHeader = unlines
     [''# octomancer camera configuration.'',
      ''#'',
      ''# Written by `octomancer writes ...` and by Octomancer.app. The daemon'',
      ''# only ever reads this file, so anything set here stays set.'',
      ''#'',
      ''# Edit it by hand if you like -- comments and ordering are preserved --'',
      ''# and then run `octomancer reload` so the running daemon picks it up.'',
      ''#'',
      ''#   default writes=off'',
      ''#   default enabled=on'',
      ''#   default warn=off'',
      ''#   camera <ble-id> writes=on warn=on name=<label>'',
      ''#   box    <ble-id> enabled=off warn=on name=<label>'',
      ''#'',
      ''# `writes` is permission to change anything on that camera: its clock,'',
      ''# and its timecode source. Off means octomancer will read it and report'',
      ''# on it, and never touch it. New cameras are off until named here.'',
      ''#'',
      ''# `enabled` says whether a timecode box is used at all. New ones are'',
      ''# on: listening to one is passive and costs nothing, so unlike writing'',
      ''# to a camera it needs nobody's permission first. Turn one off here to'',
      ''# stop seeing a timecode box that is not part of this shoot.'',
      ''#'',
      ''# `warn` asks to be told when that device's clock has wandered off the'',
      ''# bench, and to be told separately when it has been quiet long enough'',
      ''# that nobody can say. It goes on either kind of line. New devices are'',
      ''# off: a warning about kit that is not on this shoot is a warning'',
      ''# people learn to ignore, so name the ones that matter and only those'',
      ''# ever light up.'',
      '''']"

text \<open>\<open>write_lines\<close>: the text put in place of the file, with the explanatory header on a new one.\<close>

definition write_lines :: "string list \<Rightarrow> bool \<Rightarrow> string" where
  "write_lines ls had_file = (if had_file then [] else kHeader) @ unlines ls"

record edit_result =
  er_ok :: bool
  er_file :: "string option"
  er_conf :: camconf

definition replace_file :: "bool \<Rightarrow> camconf \<Rightarrow> string option \<Rightarrow> string list \<Rightarrow> edit_result" where
  "replace_file took conf file ls =
     (if \<not> took then \<lparr>er_ok = False, er_file = file, er_conf = conf\<rparr>
      else let text = write_lines ls (file \<noteq> None); (conf', e) = load_conf (kc_path conf) (Some text)
        in \<lparr>er_ok = (e = None), er_file = Some text, er_conf = conf'\<rparr>)"

definition set_flag ::
    "bool \<Rightarrow> string \<Rightarrow> string \<Rightarrow> string \<Rightarrow> string \<Rightarrow> bool \<Rightarrow> string option \<Rightarrow> camconf \<Rightarrow> edit_result" where
  "set_flag took verb key k name enabled file conf =
     (if kc_path conf = [] then \<lparr>er_ok = False, er_file = file, er_conf = conf\<rparr>
      else replace_file took conf file
        (set_flag_lines verb key k name enabled (case file of None \<Rightarrow> [] | Some text \<Rightarrow> text_lines text)))"

definition set_writes where "set_writes took = set_flag took ''camera'' ''writes''"
definition set_box_enabled where "set_box_enabled took = set_flag took ''box'' ''enabled''"
definition set_camera_warn where "set_camera_warn took = set_flag took ''camera'' ''warn''"
definition set_box_warn where "set_box_warn took = set_flag took ''box'' ''warn''"

definition forget_device :: "bool \<Rightarrow> string \<Rightarrow> string \<Rightarrow> string option \<Rightarrow> camconf \<Rightarrow> edit_result" where
  "forget_device took verb k file conf =
     (if kc_path conf = [] then \<lparr>er_ok = False, er_file = file, er_conf = conf\<rparr>
      else case file of None \<Rightarrow> \<lparr>er_ok = True, er_file = None, er_conf = conf\<rparr>
      | Some text \<Rightarrow>
          (let kept = forget_lines verb k (text_lines text)
           in if length kept = length (text_lines text) then \<lparr>er_ok = True, er_file = file, er_conf = conf\<rparr>
              else replace_file took conf file kept))"

definition forget_camera where "forget_camera took = forget_device took ''camera''"
definition forget_box where "forget_box took = forget_device took ''box''"

end
