(* ===== verification/CamConfLaws.thy ===== *)
theory CamConfLaws
  imports CamConf
begin

text \<open>
  Editing the configuration: the line rebuilt for one device reads back with the one flag
  changed, every other line of the file is kept, and so is every answer about every other
  device.
\<close>

section \<open>Tokens\<close>

definition word_ok :: "string \<Rightarrow> bool" where
  "word_ok w = (\<forall>c \<in> set w. \<not> space c)"

lemma tokens_nil [simp]: "tokens [] = []" by (simp add: tokens.simps)

lemma tokens_space: "space c \<Longrightarrow> tokens (c # s) = tokens s"
  by (subst (1 2) tokens.simps) simp

lemma takeWhile_word: "word_ok w \<Longrightarrow> takeWhile (\<lambda>c. \<not> space c) (w @ s) = w @ takeWhile (\<lambda>c. \<not> space c) s"
  "word_ok w \<Longrightarrow> dropWhile (\<lambda>c. \<not> space c) (w @ s) = dropWhile (\<lambda>c. \<not> space c) s"
  by (induction w) (auto simp: word_ok_def)

lemma tokens_word:
  assumes "word_ok w" "w \<noteq> []" and "s = [] \<or> space (hd s)"
  shows "tokens (w @ s) = w # tokens s"
proof -
  have d: "dropWhile space (w @ s) = w @ s" using assms(1,2) by (cases w) (simp_all add: word_ok_def)
  have "takeWhile (\<lambda>c. \<not> space c) s = []" "dropWhile (\<lambda>c. \<not> space c) s = s" using assms(3) by (cases s; auto)+
  then show ?thesis using assms(1,2) by (subst tokens.simps) (simp add: d takeWhile_word Let_def)
qed

lemma tokens_all_space: "\<forall>c \<in> set s. space c \<Longrightarrow> tokens s = []"
  by (induction s) (simp_all add: tokens_space)

lemma tokens_trailing: "\<forall>c \<in> set ws. space c \<Longrightarrow> tokens (s @ ws) = tokens s"
proof (induction s rule: tokens.induct)
  case (1 s)
  define t where "t = dropWhile space s"
  show ?case
  proof (cases "t = []")
    case True
    then have "\<forall>c \<in> set s. space c" by (simp add: t_def dropWhile_eq_Nil_conv)
    then have "\<forall>c \<in> set (s @ ws). space c" "tokens s = []" using 1(2) tokens_all_space by auto
    then show ?thesis by (simp only: tokens_all_space)
  next
    case False
    then have d: "dropWhile space (s @ ws) = t @ ws" unfolding t_def by (induction s) auto
    let ?n = "\<lambda>c. \<not> space c"
    have e: "takeWhile ?n (t @ ws) = takeWhile ?n t \<and> tokens (dropWhile ?n (t @ ws)) = tokens (dropWhile ?n t @ ws)"
    proof (cases "\<exists>c \<in> set t. space c")
      case True
      then have "takeWhile ?n (t @ ws) = takeWhile ?n t" "dropWhile ?n (t @ ws) = dropWhile ?n t @ ws"
        by (induction t) auto
      then show ?thesis by simp
    next
      case False
      then have a: "takeWhile ?n (t @ ws) = t @ takeWhile ?n ws" "dropWhile ?n (t @ ws) = dropWhile ?n ws"
        by (induction t) auto
      have b: "takeWhile ?n t = t" "dropWhile ?n t = []" using False by (induction t) auto
      have "takeWhile ?n ws = []" "dropWhile ?n ws = ws" using 1(2) by (cases ws; simp)+
      then show ?thesis unfolding a b by simp
    qed
    have "tokens (s @ ws) = takeWhile ?n t # tokens (dropWhile ?n t @ ws)"
      using False e by (subst tokens.simps) (simp add: d Let_def)
    also have "\<dots> = takeWhile ?n t # tokens (dropWhile ?n t)" using 1(1)[OF t_def False] 1(2) by simp
    also have "\<dots> = tokens s" using False by (subst (2) tokens.simps) (simp add: t_def[symmetric] Let_def)
    finally show ?thesis .
  qed
qed

lemma tokens_words: "tokens s = ts \<Longrightarrow> t \<in> set ts \<Longrightarrow> word_ok t \<and> t \<noteq> []"
proof (induction s arbitrary: ts rule: tokens.induct)
  case (1 s)
  define u where "u = dropWhile space s"
  show ?case
  proof (cases "u = []")
    case True
    then show ?thesis using 1(2,3) by (subst (asm) tokens.simps) (simp add: u_def[symmetric] Let_def)
  next
    case False
    then have ts: "ts = takeWhile (\<lambda>c. \<not> space c) u # tokens (dropWhile (\<lambda>c. \<not> space c) u)"
      using 1(2) by (subst (asm) tokens.simps) (simp add: u_def[symmetric] Let_def)
    have "\<not> space (hd u)" using False unfolding u_def by (rule hd_dropWhile)
    then have "takeWhile (\<lambda>c. \<not> space c) u \<noteq> []" using False by (cases u) auto
    moreover have "word_ok (takeWhile (\<lambda>c. \<not> space c) u)" unfolding word_ok_def by (auto dest: set_takeWhileD)
    ultimately show ?thesis using 1(1)[OF u_def False] 1(3) ts by auto
  qed
qed

definition spaced :: "string list \<Rightarrow> string" where
  "spaced ts = concat (map (\<lambda>t. CHR '' '' # t) ts)"

lemma space_blank [simp]: "space (CHR '' '')" "blank (CHR '' '')" "blank_end (CHR '' '')"
  by (simp_all add: space_def blank_def blank_end_def)

lemma tokens_spaced: "\<forall>t \<in> set ts. word_ok t \<Longrightarrow> tokens (spaced ts) = filter (\<lambda>t. t \<noteq> []) ts"
proof (induction ts)
  case (Cons t ts)
  have h: "spaced ts = [] \<or> space (hd (spaced ts))" by (cases ts) (simp_all add: spaced_def)
  have "tokens (spaced (t # ts)) = tokens (t @ spaced ts)" by (simp add: spaced_def tokens_space)
  then show ?case using Cons tokens_word[OF _ _ h, of t] by (cases "t = []") simp_all
qed (simp add: spaced_def)

section \<open>A rebuilt line\<close>

lemma word_not_blank: "word_ok w \<Longrightarrow> c \<in> set w \<Longrightarrow> \<not> blank c \<and> \<not> blank_end c"
  by (auto simp: word_ok_def space_def blank_def blank_end_def)

definition rstrip :: "string \<Rightarrow> string" where
  "rstrip s = rev (dropWhile blank_end (rev s))"

lemma rstrip_append: "\<exists>c \<in> set ys. \<not> blank_end c \<Longrightarrow> rstrip (xs @ ys) = xs @ rstrip ys"
proof -
  assume "\<exists>c \<in> set ys. \<not> blank_end c"
  then have "\<exists>c \<in> set (rev ys). \<not> blank_end c" by simp
  then have "dropWhile blank_end (rev ys @ rev xs) = dropWhile blank_end (rev ys) @ rev xs"
    by (induction "rev ys" arbitrary: ys) (auto simp: dropWhile_append1)
  then show ?thesis by (simp add: rstrip_def)
qed

lemma rstrip_split: "\<exists>ws. s = rstrip s @ ws \<and> (\<forall>c \<in> set ws. space c)"
proof -
  let ?ws = "rev (takeWhile blank_end (rev s))"
  have "s = rstrip s @ ?ws" unfolding rstrip_def by (metis rev_append rev_rev_ident takeWhile_dropWhile_id)
  moreover have "\<forall>c \<in> set ?ws. space c" by (auto dest!: set_takeWhileD simp: blank_end_def blank_def space_def)
  ultimately show ?thesis by blast
qed

lemma tokens_rstrip: "tokens (rstrip s) = tokens s"
proof -
  obtain ws where "s = rstrip s @ ws" "\<forall>c \<in> set ws. space c" using rstrip_split by blast
  then show ?thesis using tokens_trailing by metis
qed

text \<open>A line of a verb, an identifier and further tokens is read as just those.\<close>

lemma read_words:
  assumes v: "word_ok verb" "verb \<noteq> []" "hd verb \<noteq> CHR ''#''" and k: "word_ok k" "k \<noteq> []"
    and ts: "\<forall>t \<in> set ts. word_ok t"
  defines "t \<equiv> trim_line (verb @ CHR '' '' # k @ spaced ts)"
  shows "\<not> ignored_line t" and "\<exists>c \<in> set t. blank c" and "fst (split_verb t) = verb"
    and "fields_of (snd (split_verb t)) = field_of k # map field_of (filter (\<lambda>t. t \<noteq> []) ts)"
proof -
  have b: "\<exists>c \<in> set (k @ spaced ts). \<not> blank_end c" using word_not_blank[OF k(1)] k(2) by (cases k) auto
  have d: "dropWhile blank (verb @ CHR '' '' # k @ spaced ts) = verb @ CHR '' '' # k @ spaced ts"
    using word_not_blank[OF v(1)] v(2) by (cases verb) auto
  have t: "t = verb @ CHR '' '' # rstrip (k @ spaced ts)"
    using rstrip_append[OF b, of "verb @ '' ''"] unfolding t_def trim_line_def d rstrip_def[symmetric] by simp
  have tw: "takeWhile (\<lambda>c. \<not> blank c) (verb @ CHR '' '' # s) = verb"
    "dropWhile (\<lambda>c. \<not> blank c) (verb @ CHR '' '' # s) = CHR '' '' # s" for s
    using word_not_blank[OF v(1)] by (simp_all add: takeWhile_append2 dropWhile_append2)
  show "\<not> ignored_line t" using v unfolding t ignored_line_def by (cases verb) auto
  show "\<exists>c \<in> set t. blank c" unfolding t by simp
  show "fst (split_verb t) = verb" unfolding t by (simp add: split_verb_def tw)
  have h: "spaced ts = [] \<or> space (hd (spaced ts))" by (cases ts) (simp_all add: spaced_def)
  have "snd (split_verb t) = rstrip (k @ spaced ts)" unfolding t by (simp add: split_verb_def tw)
  then show "fields_of (snd (split_verb t)) = field_of k # map field_of (filter (\<lambda>t. t \<noteq> []) ts)"
    using tokens_word[OF k h] tokens_spaced[OF ts] by (simp add: fields_of_def tokens_rstrip)
qed

lemma field_of_no_eq: "CHR ''='' \<notin> set k \<Longrightarrow> field_of k = (k, [])"
  by (simp add: field_of_def)

lemma field_of_eq: "CHR ''='' \<notin> set k \<Longrightarrow> field_of (k @ CHR ''='' # v) = (k, v)"
proof -
  assume k: "CHR ''='' \<notin> set k"
  have "takeWhile (\<lambda>c. c \<noteq> CHR ''='') (k @ CHR ''='' # v) = k"
    "dropWhile (\<lambda>c. c \<noteq> CHR ''='') (k @ CHR ''='' # v) = CHR ''='' # v" using k by (induction k) auto
  then show ?thesis by (simp add: field_of_def)
qed

lemma field_key_no_eq: "CHR ''='' \<notin> set (fst (field_of tok))"
  by (auto simp: field_of_def dest: set_takeWhileD)

lemma field_words: "word_ok tok \<Longrightarrow> word_ok (fst (field_of tok)) \<and> word_ok (snd (field_of tok))"
  by (auto simp: field_of_def word_ok_def dest!: set_takeWhileD set_dropWhileD in_set_dropD)

lemma fields_of_ok:
  "f \<in> set (fields_of s) \<Longrightarrow> CHR ''='' \<notin> set (fst f) \<and> word_ok (fst f) \<and> word_ok (snd f)"
  using field_key_no_eq field_words tokens_words[OF refl, of _ s] by (auto simp: fields_of_def)

lemma safe_label_word: "word_ok (safe_label name)"
proof -
  have "\<not> space c" if "0x20 < (of_char c :: nat)" for c :: char
    using that by (auto simp: space_def)
  then show ?thesis by (auto simp: word_ok_def safe_label_def Let_def space_def)
qed

lemma bool_word_read: "parse_bool (bool_word b) = Some b" "word_ok (bool_word b)" "bool_word b \<noteq> []"
  by (cases b; simp add: bool_word_def parse_bool_def word_ok_def space_def)+

text \<open>What the fields of a rebuilt line are.\<close>

definition new_field :: "string \<Rightarrow> string \<Rightarrow> bool \<Rightarrow> field \<Rightarrow> field" where
  "new_field key name enabled f =
     (if fst f = key then (key, bool_word enabled)
      else if fst f = ''name'' then (''name'', if name = [] then snd f else safe_label name) else f)"

definition extra_fields :: "string \<Rightarrow> string \<Rightarrow> bool \<Rightarrow> field list \<Rightarrow> field list" where
  "extra_fields key name enabled fs =
     (if \<exists>f \<in> set fs. fst f = key then [] else [(key, bool_word enabled)]) @
     (if (\<exists>f \<in> set fs. fst f \<noteq> key \<and> fst f = ''name'') \<or> name = [] then [] else [(''name'', safe_label name)])"

definition field_token :: "field \<Rightarrow> string" where
  "field_token f = fst f @ (if snd f = [] then if fst f = ''name'' then ''='' else [] else ''='' @ snd f)"

lemma field_of_token:
  "CHR ''='' \<notin> set (fst f) \<Longrightarrow> field_of (field_token f) = f"
  using field_of_eq[of "fst f" "snd f"] field_of_eq[of "fst f" "[]"] field_of_no_eq[of "fst f"]
  by (cases f) (auto simp: field_token_def)

lemma field_token_empty: "field_token f = [] \<longleftrightarrow> f = ([], [])"
  by (cases f) (auto simp: field_token_def)

lemma word_field_token: "word_ok (fst f) \<Longrightarrow> word_ok (snd f) \<Longrightarrow> word_ok (field_token f)"
  by (auto simp: field_token_def word_ok_def space_def)

definition plain_key :: "string \<Rightarrow> bool" where
  "plain_key key \<longleftrightarrow> key \<in> {''writes'', ''enabled'', ''warn''}"

lemma rebuild_field_token:
  "plain_key key \<Longrightarrow> rebuild_field key name enabled f = CHR '' '' # field_token (new_field key name enabled f)"
  using bool_word_read(3)[of enabled]
  by (auto simp: rebuild_field_def new_field_def field_token_def plain_key_def)

lemma rebuild_line_spaced:
  assumes "plain_key key"
  shows "rebuild_line verb key k name enabled fs =
    verb @ CHR '' '' # k @ spaced (map field_token
      (map (new_field key name enabled) (tl fs) @ extra_fields key name enabled (tl fs)))"
proof -
  have "concat (map (rebuild_field key name enabled) gs) = spaced (map field_token (map (new_field key name enabled) gs))" for gs
    by (induction gs) (simp_all add: spaced_def rebuild_field_token[OF assms])
  moreover have "spaced (xs @ ys) = spaced xs @ spaced ys" for xs ys by (simp add: spaced_def)
  moreover have "(if \<exists>f \<in> set (tl fs). fst f = key then [] else '' '' @ key @ ''='' @ bool_word enabled) @
     (if (\<exists>f \<in> set (tl fs). fst f \<noteq> key \<and> fst f = ''name'') \<or> name = [] then [] else '' name='' @ safe_label name) =
     spaced (map field_token (extra_fields key name enabled (tl fs)))"
    using bool_word_read(3)[of enabled] assms
    by (auto simp: extra_fields_def spaced_def field_token_def plain_key_def safe_label_def)
  ultimately show ?thesis by (simp add: rebuild_line_def)
qed

definition field_ok :: "field \<Rightarrow> bool" where
  "field_ok f \<longleftrightarrow> CHR ''='' \<notin> set (fst f) \<and> word_ok (fst f) \<and> word_ok (snd f)"

lemma plain_key_ok: "plain_key key \<Longrightarrow> CHR ''='' \<notin> set key \<and> word_ok key"
  unfolding plain_key_def by (elim insertE emptyE; simp add: word_ok_def space_def)

lemma name_key_ok: "CHR ''='' \<notin> set ''name''" "word_ok ''name''"
  by (simp_all add: word_ok_def space_def)

lemma new_field_ok: "plain_key key \<Longrightarrow> field_ok f \<Longrightarrow> field_ok (new_field key name enabled f)"
  using plain_key_ok[of key] name_key_ok bool_word_read(2)[of enabled] safe_label_word[of name]
  unfolding new_field_def field_ok_def by (simp only: split: if_split) (simp only: fst_conv snd_conv simp_thms if_True if_False split: if_split)

lemma extra_fields_ok: "plain_key key \<Longrightarrow> \<forall>g \<in> set (extra_fields key name enabled fs). field_ok g"
  using plain_key_ok[of key] name_key_ok bool_word_read(2)[of enabled] safe_label_word[of name]
  unfolding extra_fields_def field_ok_def by simp

lemma rebuilt_fields:
  assumes "plain_key key" and "\<forall>f \<in> set fs. field_ok f"
    and "g \<in> set (map (new_field key name enabled) (tl fs) @ extra_fields key name enabled (tl fs))"
  shows "CHR ''='' \<notin> set (fst g) \<and> word_ok (field_token g)"
proof -
  have t: "\<forall>f \<in> set (tl fs). field_ok f" using assms(2) by (cases fs) auto
  have "field_ok g" using assms(3) t new_field_ok[OF assms(1)] extra_fields_ok[OF assms(1), of name enabled "tl fs"] by auto
  then show ?thesis by (simp add: field_ok_def word_field_token)
qed

text \<open>Reading the fields of a device.\<close>

lemma parse_device_skip_empty:
  "plain_key key \<Longrightarrow> parse_device key path n (filter (\<lambda>f. f \<noteq> ([], [])) fs) d = parse_device key path n fs d"
  by (induction key path n fs d rule: parse_device.induct)
    (auto simp: plain_key_def split: option.split)

lemma parse_device_new:
  assumes "parse_device key path n fs (a, w, nm) = Inr (a', w', nm')" and "plain_key key" and "key \<noteq> ''warn''"
  shows "\<exists>nm2. parse_device key path n (map (new_field key name enabled) fs) (a2, w, nm1) =
    Inr (if \<exists>f \<in> set fs. fst f = key then enabled else a2, w', nm2)"
  using assms(1)
proof (induction fs arbitrary: a w nm a2 nm1)
  case (Cons f fs)
  consider "fst f = key" | "fst f \<noteq> key" "fst f = ''warn''" | "fst f \<noteq> key" "fst f \<noteq> ''warn''" "fst f = ''name''"
    | "fst f \<noteq> key" "fst f \<noteq> ''warn''" "fst f \<noteq> ''name''" by blast
  then show ?case
  proof cases
    case 1
    then obtain b where "parse_device key path n fs (b, w, nm) = Inr (a', w', nm')"
      using Cons.prems by (auto split: option.splits)
    from Cons.IH[OF this, of enabled nm1] show ?thesis using 1 by (auto simp: new_field_def bool_word_read)
  next
    case 2
    then obtain b where "parse_bool (snd f) = Some b" "parse_device key path n fs (a, b, nm) = Inr (a', w', nm')"
      using Cons.prems by (auto split: option.splits)
    then show ?thesis using 2 Cons.IH[of a b nm a2 nm1] by (auto simp: new_field_def)
  next
    case 3
    then have "parse_device key path n fs (a, w, snd f) = Inr (a', w', nm')" using Cons.prems by auto
    from Cons.IH[OF this] show ?thesis using 3 by (auto simp: new_field_def)
  next
    case 4
    then have "parse_device key path n fs (a, w, nm) = Inr (a', w', nm')" using Cons.prems by auto
    from Cons.IH[OF this] show ?thesis using 4 by (auto simp: new_field_def)
  qed
qed auto

lemma parse_device_append:
  "parse_device key path n (xs @ ys) d =
     (case parse_device key path n xs d of Inl e \<Rightarrow> Inl e | Inr d' \<Rightarrow> parse_device key path n ys d')"
  by (induction key path n xs d rule: parse_device.induct) (auto split: option.split)

lemma parse_device_rebuilt:
  assumes "parse_device key path n fs (a, w, nm) = Inr (a', w', nm')" and "plain_key key" and "key \<noteq> ''warn''"
  shows "\<exists>nm2. parse_device key path n
      (filter (\<lambda>f. f \<noteq> ([], [])) (map (new_field key name enabled) fs @ extra_fields key name enabled fs)) (a, w, nm) =
    Inr (enabled, w', nm2)"
proof -
  obtain nm2 where "parse_device key path n (map (new_field key name enabled) fs) (a, w, nm) =
      Inr (if \<exists>f \<in> set fs. fst f = key then enabled else a, w', nm2)"
    using parse_device_new[OF assms] by blast
  then show ?thesis using assms(2)
    by (auto simp: parse_device_skip_empty[OF assms(2)] parse_device_append extra_fields_def bool_word_read plain_key_def)
qed

section \<open>The whole file\<close>

lemma device_fields_ok:
  "device_fields verb k l = Some fs \<Longrightarrow>
   fs \<noteq> [] \<and> first_id fs = k \<and> (\<forall>f \<in> set fs. field_ok f)"
  using fields_of_ok unfolding field_ok_def by (auto simp: device_fields_def Let_def split: if_splits)

definition id_ok :: "string \<Rightarrow> bool" where
  "id_ok k \<longleftrightarrow> k \<noteq> [] \<and> word_ok k \<and> CHR ''='' \<notin> set k"

lemma rebuilt_line_fields:
  assumes "device_fields verb k l = Some fs" and "id_ok k" and "plain_key key"
    and "word_ok verb" "verb \<noteq> []" "hd verb \<noteq> CHR ''#''"
  shows "device_fields verb k (rebuild_line verb key k name enabled fs) =
    Some ((k, []) # filter (\<lambda>f. f \<noteq> ([], []))
      (map (new_field key name enabled) (tl fs) @ extra_fields key name enabled (tl fs)))"
proof -
  define gs where "gs = map (new_field key name enabled) (tl fs) @ extra_fields key name enabled (tl fs)"
  have g: "\<forall>g \<in> set gs. CHR ''='' \<notin> set (fst g) \<and> word_ok (field_token g)"
    using device_fields_ok[OF assms(1)] rebuilt_fields[OF assms(3)] unfolding gs_def by blast
  then have w: "\<forall>t \<in> set (map field_token gs). word_ok t" by simp
  have k: "word_ok k" "k \<noteq> []" "CHR ''='' \<notin> set k" using assms(2) by (simp_all add: id_ok_def)
  have "map field_of (filter (\<lambda>t. t \<noteq> []) (map field_token gs)) = filter (\<lambda>f. f \<noteq> ([], [])) gs"
    using g by (induction gs) (simp_all add: field_of_token field_token_empty)
  then show ?thesis
    using read_words[OF assms(4-6) k(1,2) w] k
    by (simp add: rebuild_line_spaced[OF assms(3)] gs_def[symmetric] device_fields_def Let_def field_of_no_eq first_id_def)
qed

lemma added_line_fields:
  assumes "id_ok k" and "plain_key key" and "word_ok verb" "verb \<noteq> []" "hd verb \<noteq> CHR ''#''"
  shows "device_fields verb k (added_line verb key k name enabled) =
    Some ((k, []) # extra_fields key name enabled [])"
proof -
  have "added_line verb key k name enabled = rebuild_line verb key k name enabled [(k, [])]"
    by (simp add: added_line_def rebuild_line_def)
  moreover have "device_fields verb k (verb @ CHR '' '' # k) = Some [(k, [])]"
    using read_words[OF assms(3-5), of k "[]"] assms(1)
    by (simp add: spaced_def id_ok_def device_fields_def Let_def field_of_no_eq first_id_def)
  ultimately show ?thesis using rebuilt_line_fields[OF _ assms(1-5), of _ "[(k, [])]" name enabled] assms(2)
    by (auto simp: extra_fields_def plain_key_def)
qed


lemma device_line_parse:
  "device_fields ''camera'' k l = Some fs \<Longrightarrow> parse_line n l conf = parse_camera n fs conf"
  by (auto simp: device_fields_def parse_line_def Let_def split: if_splits)

lemma conf_swaps:
  "c\<lparr>kc_cameras := C, kc_default_writes := b\<rparr> = c\<lparr>kc_default_writes := b, kc_cameras := C\<rparr>"
  "c\<lparr>kc_cameras := C, kc_default_box_enabled := b\<rparr> = c\<lparr>kc_default_box_enabled := b, kc_cameras := C\<rparr>"
  "c\<lparr>kc_cameras := C, kc_default_warn := b\<rparr> = c\<lparr>kc_default_warn := b, kc_cameras := C\<rparr>"
  by simp_all

lemma parse_defaults_frame:
  "parse_defaults n fs (c\<lparr>kc_cameras := C\<rparr>) =
     (case parse_defaults n fs c of (d, e) \<Rightarrow> (d\<lparr>kc_cameras := C\<rparr>, e))"
  "kc_cameras (fst (parse_defaults n fs c)) = kc_cameras c"
proof (induction n fs c rule: parse_defaults.induct)
  case (2 n f fs conf)
  {
    case 1
    show ?case using 2 by (auto simp: conf_swaps split: option.split prod.split)
  next
    case 2
    show ?case using "2.IH" by (auto split: option.split)
  }
qed simp_all

text \<open>The cameras a line adds do not depend on those before it.\<close>

lemma parse_line_frame:
  assumes "parse_line n l c = (d, e)"
  obtains D where "kc_cameras d = kc_cameras c @ D"
    and "\<And>C. parse_line n l (c\<lparr>kc_cameras := C\<rparr>) = (d\<lparr>kc_cameras := C @ D\<rparr>, e)"
    and "\<And>k. device_fields ''camera'' k l = None \<Longrightarrow> \<forall>x \<in> set D. cc_id x \<noteq> k"
proof -
  let ?t = "trim_line l"
  let ?verb = "fst (split_verb ?t)" and ?fs = "fields_of (snd (split_verb ?t))"
  consider "ignored_line ?t" | "\<not> ignored_line ?t" "?verb = ''default''"
    | "\<not> ignored_line ?t" "?verb = ''camera''" | "\<not> ignored_line ?t" "?verb = ''box''"
    | "\<not> ignored_line ?t" "?verb \<noteq> ''default''" "?verb \<noteq> ''camera''" "?verb \<noteq> ''box''" by blast
  then show thesis
  proof cases
    case 2
    have "kc_cameras d = kc_cameras c" using parse_defaults_frame(2)[of n ?fs c] assms 2 by (simp add: parse_line_def Let_def)
    then show ?thesis using assms 2
      by (intro that[of "[]"]) (simp_all add: parse_line_def Let_def parse_defaults_frame(1))
  next
    case 3
    have no: "\<forall>k. device_fields ''camera'' k l = None \<longrightarrow> ?fs = [] \<or> first_id ?fs \<noteq> k"
    proof (intro allI impI)
      fix k assume n: "device_fields ''camera'' k l = None"
      have "\<not> (\<exists>c \<in> set ?t. blank c) \<Longrightarrow> ?fs = []"
        by (simp add: split_verb_def fields_of_def dropWhile_eq_Nil_conv[THEN iffD2])
      then show "?fs = [] \<or> first_id ?fs \<noteq> k" using n 3 by (auto simp: device_fields_def Let_def split: if_splits)
    qed
    let ?p = "parse_device ''writes'' (kc_path c) n (tl ?fs) (kc_default_writes c, kc_default_warn c, [])"
    show ?thesis
    proof (cases "?fs = [] \<or> (\<exists>x. ?p = Inl x)")
      case True
      then show ?thesis using assms 3
        by (intro that[of "[]"]) (auto simp: parse_line_def parse_camera_def Let_def split: if_splits)
    next
      case False
      then obtain a w nm where p: "?p = Inr (a, w, nm)" "?fs \<noteq> []"
        by (cases ?p) auto
      let ?x = "\<lparr>cc_id = first_id ?fs, cc_name = nm, cc_writes_enabled = a, cc_warn = w\<rparr>"
      have "parse_line n l (c\<lparr>kc_cameras := C\<rparr>) = (c\<lparr>kc_cameras := C @ [?x]\<rparr>, None)"
        "parse_line n l c = (c\<lparr>kc_cameras := kc_cameras c @ [?x]\<rparr>, None)" for C
        using p 3 by (simp_all add: parse_line_def parse_camera_def Let_def)
      then show ?thesis using no p(2) assms by (intro that[of "[?x]"]) auto
    qed
  qed (use assms in \<open>auto simp: parse_line_def parse_box_def Let_def split: sum.splits if_splits intro!: that[of "[]"]\<close>)
qed

lemma parse_lines_frame:
  "parse_lines n ls c = (d, e) \<Longrightarrow> \<exists>D. kc_cameras d = kc_cameras c @ D \<and>
    (\<forall>C. parse_lines n ls (c\<lparr>kc_cameras := C\<rparr>) = (d\<lparr>kc_cameras := C @ D\<rparr>, e))"
proof (induction n ls c arbitrary: d e rule: parse_lines.induct)
  case (1 n conf)
  then show ?case by simp
next
  case (2 n l ls conf)
  obtain c1 e1 where p: "parse_line n l conf = (c1, e1)" by (cases "parse_line n l conf")
  obtain D1 where D1: "kc_cameras c1 = kc_cameras conf @ D1"
      "\<And>C. parse_line n l (conf\<lparr>kc_cameras := C\<rparr>) = (c1\<lparr>kc_cameras := C @ D1\<rparr>, e1)"
    by (rule parse_line_frame[OF p]) blast
  show ?case
  proof (cases e1)
    case (Some x)
    then show ?thesis using 2 p D1 by auto
  next
    case None
    then have "parse_lines (Suc n) ls c1 = (d, e)" using 2 p by simp
    from "2.IH"[OF p[symmetric] None this]
    obtain D2 where D2: "kc_cameras d = kc_cameras c1 @ D2"
        "\<forall>C. parse_lines (Suc n) ls (c1\<lparr>kc_cameras := C\<rparr>) = (d\<lparr>kc_cameras := C @ D2\<rparr>, e)" by blast
    then show ?thesis using D1 None by (intro exI[of _ "D1 @ D2"]) simp
  qed
qed

definition only_writes_changed :: "string \<Rightarrow> bool \<Rightarrow> camconf \<Rightarrow> camconf \<Rightarrow> bool" where
  "only_writes_changed k enabled d d' \<longleftrightarrow>
     d' = d\<lparr>kc_cameras := kc_cameras d'\<rparr> \<and>
     (\<forall>k'. writes_enabled d' k' = (if k' = k then enabled else writes_enabled d k')) \<and>
     (\<forall>k'. k' \<noteq> k \<longrightarrow> find_camera d' k' = find_camera d k')"

lemma find_append: "List.find P (xs @ ys) = (case List.find P xs of None \<Rightarrow> List.find P ys | Some x \<Rightarrow> Some x)"
  by (induction xs) auto

lemma find_none: "\<forall>x \<in> set xs. \<not> P x \<Longrightarrow> List.find P xs = None"
  by (induction xs) auto

lemma parse_rebuilt_camera:
  assumes "device_fields ''camera'' k l = Some fs" and "id_ok k" and "parse_line n l c = (c1, None)"
  shows "\<exists>e e'. c1 = c\<lparr>kc_cameras := kc_cameras c @ [e]\<rparr> \<and> cc_id e = k \<and> cc_id e' = k \<and> cc_writes_enabled e' = enabled \<and>
    parse_line n (rebuild_line ''camera'' ''writes'' k name enabled fs) c = (c\<lparr>kc_cameras := kc_cameras c @ [e']\<rparr>, None)"
proof -
  let ?d = "(kc_default_writes c, kc_default_warn c, [] :: string)"
  obtain a w nm where p: "parse_device ''writes'' (kc_path c) n (tl fs) ?d = Inr (a, w, nm)"
    and c1: "c1 = c\<lparr>kc_cameras := kc_cameras c @ [\<lparr>cc_id = first_id fs, cc_name = nm, cc_writes_enabled = a, cc_warn = w\<rparr>]\<rparr>"
    using assms(3) unfolding device_line_parse[OF assms(1)]
    by (auto simp: parse_camera_def split: sum.splits if_splits)
  have id: "first_id fs = k" using device_fields_ok[OF assms(1)] by simp
  have key: "plain_key ''writes''" "''writes'' \<noteq> ''warn''" by (simp_all add: plain_key_def)
  obtain nm2 where q: "parse_device ''writes'' (kc_path c) n (filter (\<lambda>f. f \<noteq> ([], []))
      (map (new_field ''writes'' name enabled) (tl fs) @ extra_fields ''writes'' name enabled (tl fs))) ?d = Inr (enabled, w, nm2)"
    using parse_device_rebuilt[OF p key] by blast
  have cam: "word_ok ''camera''" "''camera'' \<noteq> []" "hd ''camera'' \<noteq> CHR ''#''" by (simp_all add: word_ok_def space_def)
  have "parse_line n (rebuild_line ''camera'' ''writes'' k name enabled fs) c =
      (c\<lparr>kc_cameras := kc_cameras c @ [\<lparr>cc_id = k, cc_name = nm2, cc_writes_enabled = enabled, cc_warn = w\<rparr>]\<rparr>, None)"
    unfolding device_line_parse[OF rebuilt_line_fields[OF assms(1,2) key(1) cam]]
    using q by (simp add: parse_camera_def first_id_def)
  with c1 id show ?thesis by (intro exI[of _ "\<lparr>cc_id = k, cc_name = nm, cc_writes_enabled = a, cc_warn = w\<rparr>"]
      exI[of _ "\<lparr>cc_id = k, cc_name = nm2, cc_writes_enabled = enabled, cc_warn = w\<rparr>"]) simp
qed

lemma parse_added_camera:
  assumes "id_ok k"
  shows "\<exists>e'. cc_id e' = k \<and> cc_writes_enabled e' = enabled \<and>
    parse_line n (added_line ''camera'' ''writes'' k name enabled) c = (c\<lparr>kc_cameras := kc_cameras c @ [e']\<rparr>, None)"
proof -
  have cam: "word_ok ''camera''" "''camera'' \<noteq> []" "hd ''camera'' \<noteq> CHR ''#''" by (simp_all add: word_ok_def space_def)
  have key: "plain_key ''writes''" by (simp add: plain_key_def)
  show ?thesis
    unfolding device_line_parse[OF added_line_fields[OF assms key cam]]
    by (rule exI[of _ "\<lparr>cc_id = k, cc_name = (if name = [] then [] else safe_label name),
         cc_writes_enabled = enabled, cc_warn = kc_default_warn c\<rparr>"])
      (simp add: parse_camera_def extra_fields_def bool_word_read first_id_def)
qed

lemma set_writes_lines:
  assumes "id_ok k"
  shows "parse_lines n ls c = (d, None) \<Longrightarrow> \<forall>x \<in> set (kc_cameras c). cc_id x \<noteq> k \<Longrightarrow>
    \<exists>d'. parse_lines n (set_flag_lines ''camera'' ''writes'' k name enabled ls) c = (d', None) \<and> only_writes_changed k enabled d d'"
proof (induction ls arbitrary: n c)
  case Nil
  obtain e' where e': "cc_id e' = k" "cc_writes_enabled e' = enabled"
      "parse_line n (added_line ''camera'' ''writes'' k name enabled) c = (c\<lparr>kc_cameras := kc_cameras c @ [e']\<rparr>, None)"
    using parse_added_camera[OF assms] by blast
  have "List.find (\<lambda>x. cc_id x = k) (kc_cameras c) = None" using Nil.prems(2) by (rule find_none)
  then show ?case using Nil.prems e'
    by (auto simp: only_writes_changed_def writes_enabled_def find_camera_def find_append split: option.split)
next
  case (Cons l ls)
  obtain c1 where p: "parse_line n l c = (c1, None)" and r: "parse_lines (Suc n) ls c1 = (d, None)"
    using Cons.prems(1) by (auto split: prod.splits option.splits)
  show ?case
  proof (cases "device_fields ''camera'' k l")
    case None
    obtain D where D: "kc_cameras c1 = kc_cameras c @ D" "\<And>k. device_fields ''camera'' k l = None \<Longrightarrow> \<forall>x \<in> set D. cc_id x \<noteq> k"
      by (rule parse_line_frame[OF p]) blast
    have "\<forall>x \<in> set (kc_cameras c1). cc_id x \<noteq> k" using D(1) D(2)[OF None] Cons.prems(2) by auto
    from Cons.IH[OF r this] show ?thesis using None p by simp
  next
    case (Some fs)
    obtain e e' where e: "c1 = c\<lparr>kc_cameras := kc_cameras c @ [e]\<rparr>" "cc_id e = k" "cc_id e' = k" "cc_writes_enabled e' = enabled"
        "parse_line n (rebuild_line ''camera'' ''writes'' k name enabled fs) c = (c\<lparr>kc_cameras := kc_cameras c @ [e']\<rparr>, None)"
      using parse_rebuilt_camera[OF Some assms p] by blast
    obtain D where D: "kc_cameras d = kc_cameras c1 @ D"
        "\<forall>C. parse_lines (Suc n) ls (c1\<lparr>kc_cameras := C\<rparr>) = (d\<lparr>kc_cameras := C @ D\<rparr>, None)"
      using parse_lines_frame[OF r] by blast
    let ?d' = "d\<lparr>kc_cameras := (kc_cameras c @ [e']) @ D\<rparr>"
    have "parse_lines (Suc n) ls (c\<lparr>kc_cameras := kc_cameras c @ [e']\<rparr>) = (?d', None)"
      using D(2)[rule_format, of "kc_cameras c @ [e']"] e(1) by simp
    moreover have "List.find (\<lambda>x. cc_id x = k) (kc_cameras c) = None" using Cons.prems(2) by (rule find_none)
    then have "only_writes_changed k enabled d ?d'" using D(1) e
      by (auto simp: only_writes_changed_def writes_enabled_def find_camera_def find_append split: option.split)
    ultimately show ?thesis using Some e(5) by auto
  qed
qed


section \<open>Through the file\<close>

lemma no_newline_nil: "no_newline []" by (simp add: no_newline_def)

lemma word_no_newline: "word_ok w \<Longrightarrow> no_newline w"
  by (auto simp: word_ok_def no_newline_def space_def)

lemma no_newline_append [simp]:
  "no_newline (xs @ ys) \<longleftrightarrow> no_newline xs \<and> no_newline ys"
  "no_newline (CHR '' '' # xs) \<longleftrightarrow> no_newline xs"
  by (auto simp: no_newline_def)

lemma spaced_no_newline: "\<forall>t \<in> set ts. word_ok t \<Longrightarrow> no_newline (spaced ts)"
  by (induction ts) (simp_all add: spaced_def word_no_newline no_newline_nil)

lemma rebuild_no_newline:
  assumes "word_ok verb" "word_ok k" "plain_key key" "\<forall>f \<in> set fs. field_ok f"
  shows "no_newline (rebuild_line verb key k name enabled fs)"
proof -
  have "\<forall>t \<in> set (map field_token (map (new_field key name enabled) (tl fs) @ extra_fields key name enabled (tl fs))). word_ok t"
    unfolding set_map using rebuilt_fields[OF assms(3,4)] by blast
  from spaced_no_newline[OF this] show ?thesis
    using assms(1,2) by (simp add: rebuild_line_spaced[OF assms(3)] word_no_newline)
qed

lemma set_flag_no_newline:
  assumes "word_ok verb" "id_ok k" "plain_key key"
  shows "\<forall>l \<in> set ls. no_newline l \<Longrightarrow> \<forall>l \<in> set (set_flag_lines verb key k name enabled ls). no_newline l"
proof (induction ls)
  case Nil
  have "added_line verb key k name enabled = rebuild_line verb key k name enabled [(k, [])]"
    by (simp add: added_line_def rebuild_line_def)
  moreover have "no_newline (rebuild_line verb key k name enabled [(k, [])])"
    using assms by (intro rebuild_no_newline) (simp_all add: id_ok_def field_ok_def word_ok_def)
  ultimately show ?case by simp
next
  case (Cons l ls)
  then show ?case
    using rebuild_no_newline[OF assms(1) _ assms(3)] device_fields_ok[of verb k l] assms(2)
    by (auto simp: id_ok_def split: option.splits)
qed

text \<open>
  C12. Switching the writes of one camera changes that camera and nothing else: on a file
  that reads without an error the edit reads back without one, the camera answers what it
  was set to, every other camera keeps its entry, boxes and defaults are untouched, and
  every line of the file but at most one is kept byte for byte, in its place.
\<close>

theorem set_writes_touches_one_camera:
  assumes "path \<noteq> []" and "id_ok k" and "load_conf path (Some text) = (conf, None)"
  shows "let r = set_writes True k name enabled (Some text) conf
    in er_ok r \<and> only_writes_changed k enabled conf (er_conf r) \<and>
      (\<exists>ls. er_file r = Some (unlines ls) \<and> (ls = text_lines text @ [List.last ls] \<or>
         (\<exists>i l. i < length (text_lines text) \<and> ls = (text_lines text)[i := l])))"
proof -
  define ls where "ls = set_flag_lines ''camera'' ''writes'' k name enabled (text_lines text)"
  let ?c = "(fresh_conf path)\<lparr>kc_exists := True\<rparr>"
  obtain d where d: "parse_lines 1 (text_lines text) ?c = (d, None)" "conf = d\<lparr>kc_loaded := True\<rparr>"
    using assms(1,3) by (auto simp: load_conf_def parse_conf_def Let_def split: prod.splits option.splits)
  obtain d' where d': "parse_lines 1 ls ?c = (d', None)" "only_writes_changed k enabled d d'"
    using set_writes_lines[OF assms(2) d(1), of name enabled] unfolding ls_def by (auto simp: fresh_conf_def)
  have cam: "word_ok ''camera''" "plain_key ''writes''" by (simp_all add: word_ok_def space_def plain_key_def)
  have "\<forall>l \<in> set (text_lines text). no_newline l"
    unfolding text_lines_def using lines_from_no_newline[of "[]"] by (auto simp: no_newline_def)
  then have "text_lines (unlines ls) = ls"
    unfolding ls_def by (intro text_lines_unlines set_flag_no_newline[OF cam(1) assms(2) cam(2)])
  then have load: "load_conf path (Some (unlines ls)) = (d'\<lparr>kc_loaded := True\<rparr>, None)"
    using d' assms(1) by (simp add: load_conf_def parse_conf_def)
  have path: "kc_path conf = path"
  proof -
    have "kc_path (fst (parse_defaults n fs c)) = kc_path c" for n fs c
      by (induction n fs c rule: parse_defaults.induct) (auto split: option.split)
    then have l: "kc_path (fst (parse_line n l c)) = kc_path c" for n l c
      by (auto simp: parse_line_def parse_camera_def parse_box_def Let_def split: sum.split)
    have "kc_path (fst (parse_lines n ls c)) = kc_path c" for n ls c
    proof (induction n ls c rule: parse_lines.induct)
      case (2 n x xs conf)
      then show ?case using l[of n x conf] by (auto split: prod.split option.split)
    qed simp
    from this[of 1 "text_lines text" ?c] d show ?thesis by (simp add: fresh_conf_def)
  qed
  have r: "set_writes True k name enabled (Some text) conf =
      \<lparr>er_ok = True, er_file = Some (unlines ls), er_conf = d'\<lparr>kc_loaded := True\<rparr>\<rparr>"
    using assms(1) load by (simp add: set_writes_def set_flag_def replace_file_def path write_lines_def ls_def[symmetric] Let_def)
  have "set_flag_lines verb key k name enabled xs = xs @ [List.last (set_flag_lines verb key k name enabled xs)] \<or>
      (\<exists>i l. i < length xs \<and> set_flag_lines verb key k name enabled xs = xs[i := l])" for verb key xs
  proof (induction xs)
    case (Cons x xs)
    show ?case
    proof (cases "device_fields verb k x")
      case (Some fs)
      then show ?thesis by (intro disjI2 exI[of _ 0]) auto
    next
      case None
      from Cons show ?thesis
      proof
        assume "set_flag_lines verb key k name enabled xs = xs @ [List.last (set_flag_lines verb key k name enabled xs)]"
        then show ?thesis using None by (metis append_Cons last_snoc option.simps(4) set_flag_lines.simps(2))
      next
        assume "\<exists>i l. i < length xs \<and> set_flag_lines verb key k name enabled xs = xs[i := l]"
        then obtain i l where "i < length xs" "set_flag_lines verb key k name enabled xs = xs[i := l]" by blast
        then show ?thesis using None by (intro disjI2 exI[of _ "Suc i"] exI[of _ l]) simp
      qed
    qed
  qed simp
  then have "ls = text_lines text @ [List.last ls] \<or> (\<exists>i l. i < length (text_lines text) \<and> ls = (text_lines text)[i := l])"
    unfolding ls_def by blast
  moreover have "only_writes_changed k enabled conf (d'\<lparr>kc_loaded := True\<rparr>)"
  proof -
    have s: "find_camera (x\<lparr>kc_loaded := b\<rparr>) = find_camera x" "writes_enabled (x\<lparr>kc_loaded := b\<rparr>) = writes_enabled x" for x b
      by (simp_all add: fun_eq_iff writes_enabled_def find_camera_def split: option.split)
    have "d' = d\<lparr>kc_cameras := kc_cameras d'\<rparr>" using d'(2) by (simp only: only_writes_changed_def)
    then have "d'\<lparr>kc_loaded := True\<rparr> = (d\<lparr>kc_cameras := kc_cameras d'\<rparr>)\<lparr>kc_loaded := True\<rparr>"
      by (rule arg_cong)
    also have "\<dots> = d\<lparr>kc_loaded := True, kc_cameras := kc_cameras d'\<rparr>" by simp
    finally show ?thesis using d'(2) unfolding d(2) only_writes_changed_def s by simp
  qed
  ultimately show ?thesis unfolding r by (auto simp: Let_def)
qed


definition sample_file :: string where
  "sample_file = unlines [''# the bench'', ''camera A1 writes=off name=Left warn=on'', ''box T1 enabled=off'']"

theorem set_writes_touches_one_camera_witness:
  "\<exists>conf. writes_enabled (er_conf (set_writes True ''A1'' [] True (Some sample_file) conf)) ''A1'' \<and>
     \<not> writes_enabled conf ''A1''"
proof -
  let ?l = "load_conf ''f'' (Some sample_file)"
  have l: "snd ?l = None" "\<not> writes_enabled (fst ?l) ''A1''" by code_simp+
  moreover have "id_ok ''A1''" by code_simp
  ultimately show ?thesis
    using set_writes_touches_one_camera[of "''f''" "''A1''" sample_file "fst ?l" "[]" True]
    by (intro exI[of _ "fst ?l"]) (simp add: Let_def only_writes_changed_def prod_eq_iff)
qed

end
