(* ===== verification/Naming.thy ===== *)
theory Naming
  imports Ordmap Complex_Main
begin

text \<open>
  \<open>src/naming.cc\<close>: what to call a device and who decides.  The book keeps, per
  identifier, the name a person typed, the one a probe read and the one an advertisement
  carried.  A book is reachable from the empty one by the operations of \<open>NameBook\<close>.
  Real numbers stand for \<open>double\<close>.
\<close>

datatype name_source = NoSource | HeardName | ProbedName | UserName

fun name_source_name :: "name_source \<Rightarrow> string" where
  "name_source_name UserName = ''user''"
| "name_source_name ProbedName = ''probed''"
| "name_source_name HeardName = ''heard''"
| "name_source_name NoSource = ''none''"

record device_name =
  dn_user :: string
  dn_probed :: string
  dn_heard :: string
  dn_probed_done :: bool

definition no_name :: device_name where
  "no_name = \<lparr>dn_user = [], dn_probed = [], dn_heard = [], dn_probed_done = False\<rparr>"

definition name_empty :: "device_name \<Rightarrow> bool" where
  "name_empty n = (dn_user n = [] \<and> dn_probed n = [] \<and> dn_heard n = [] \<and> \<not> dn_probed_done n)"

type_synonym name_book = "(string, device_name) omap"

section \<open>Scanning actively\<close>

definition kScanSettleSeconds :: real where "kScanSettleSeconds = 20"

definition want_active_scan :: "bool \<Rightarrow> int \<Rightarrow> real \<Rightarrow> bool" where
  "want_active_scan active_now unnamed_recent since_change =
     (let want = (0 < unnamed_recent) in
      if want = active_now then active_now
      else if since_change < kScanSettleSeconds then active_now else want)"

section \<open>The book\<close>

definition is_placeholder_name :: "string \<Rightarrow> bool" where
  "is_placeholder_name name = (name = [] \<or> name = ''(unnamed)'' \<or> name = ''(no name)'')"

text \<open>\<open>names_[id]\<close> makes an entry when there is none.\<close>

definition name_at :: "name_book \<Rightarrow> string \<Rightarrow> device_name" where
  "name_at b i = (case om_get b i of Some n \<Rightarrow> n | None \<Rightarrow> no_name)"

definition book_display :: "name_book \<Rightarrow> string \<Rightarrow> string \<times> name_source" where
  "book_display b i =
     (case om_get b i of
        None \<Rightarrow> (i, NoSource)
      | Some n \<Rightarrow>
          if dn_user n \<noteq> [] then (dn_user n, UserName)
          else if dn_probed n \<noteq> [] then (dn_probed n, ProbedName)
          else if dn_heard n \<noteq> [] then (dn_heard n, HeardName)
          else (i, NoSource))"

definition book_rename :: "name_book \<Rightarrow> string \<Rightarrow> string \<Rightarrow> name_book" where
  "book_rename b i name =
     (if i = [] then b
      else if name = [] then
        (case om_get b i of
           None \<Rightarrow> b
         | Some n \<Rightarrow> let n' = n\<lparr>dn_user := []\<rparr> in if name_empty n' then om_del b i else om_put b i n')
      else om_put b i ((name_at b i)\<lparr>dn_user := name\<rparr>))"

definition book_probed :: "name_book \<Rightarrow> string \<Rightarrow> string \<Rightarrow> name_book" where
  "book_probed b i name =
     (if i = [] then b
      else om_put b i ((name_at b i)\<lparr>dn_probed_done := True,
                                     dn_probed := if is_placeholder_name name then [] else name\<rparr>))"

definition book_heard :: "name_book \<Rightarrow> string \<Rightarrow> string \<Rightarrow> name_book" where
  "book_heard b i name =
     (if i = [] \<or> is_placeholder_name name then b else om_put b i ((name_at b i)\<lparr>dn_heard := name\<rparr>))"

definition book_refresh :: "name_book \<Rightarrow> string \<Rightarrow> bool \<times> name_book" where
  "book_refresh b i =
     (case om_get b i of
        None \<Rightarrow> (False, b)
      | Some n \<Rightarrow> (True, if dn_user n \<noteq> [] then om_put (om_del b i) i (no_name\<lparr>dn_user := dn_user n\<rparr>) else om_del b i))"

definition book_needs_probe :: "name_book \<Rightarrow> string \<Rightarrow> bool" where
  "book_needs_probe b i =
     (case om_get b i of None \<Rightarrow> True | Some n \<Rightarrow> if dn_user n \<noteq> [] then False else \<not> dn_probed_done n)"

definition book_unprobed :: "name_book \<Rightarrow> string list" where
  "book_unprobed b = filter (book_needs_probe b) (map fst b)"

definition book_put :: "name_book \<Rightarrow> string \<Rightarrow> device_name \<Rightarrow> name_book" where
  "book_put b i n = (if i = [] \<or> name_empty n then b else om_put b i n)"

section \<open>Radios in the same book\<close>

definition kRadioPrefix :: string where "kRadioPrefix = ''radio:''"

definition radio_name_key :: "string \<Rightarrow> string" where
  "radio_name_key radio = kRadioPrefix @ radio"

definition is_radio_key :: "string \<Rightarrow> bool" where
  "is_radio_key i = (take (length kRadioPrefix) i = kRadioPrefix)"

definition radio_user_name :: "name_book \<Rightarrow> string \<Rightarrow> string" where
  "radio_user_name b radio =
     (let (got, from) = book_display b (radio_name_key radio) in if from = UserName then got else [])"

section \<open>Reachable books\<close>

datatype name_op =
    Rename string string
  | Probed string string
  | Heard string string
  | Refresh string
  | PutName string device_name

fun name_step :: "name_book \<Rightarrow> name_op \<Rightarrow> name_book" where
  "name_step b (Rename i n) = book_rename b i n"
| "name_step b (Probed i n) = book_probed b i n"
| "name_step b (Heard i n) = book_heard b i n"
| "name_step b (Refresh i) = snd (book_refresh b i)"
| "name_step b (PutName i n) = book_put b i n"

inductive book_reach :: "name_book \<Rightarrow> bool" where
  empty_book: "book_reach []"
| book_op: "book_reach b \<Longrightarrow> book_reach (name_step b p)"

definition name_inv :: "name_book \<Rightarrow> bool" where
  "name_inv b = (om_ok b \<and> (\<forall>e \<in> set b. fst e \<noteq> [] \<and> \<not> name_empty (snd e)))"

lemma set_put: "set (om_put b k v) \<subseteq> insert (k, v) (set b)"
  by (induction b k v rule: om_put.induct) auto

lemma name_inv_put: "name_inv b \<Longrightarrow> i \<noteq> [] \<Longrightarrow> \<not> name_empty n \<Longrightarrow> name_inv (om_put b i n)"
  using set_put[of b i n] by (auto simp: name_inv_def om_ok_put)

lemma name_inv_del: "name_inv b \<Longrightarrow> name_inv (om_del b i)"
  by (auto simp: name_inv_def om_ok_del) (auto simp: om_del_def)

lemma name_inv_get: "name_inv b \<Longrightarrow> om_get b i = Some n \<Longrightarrow> i \<noteq> [] \<and> \<not> name_empty n"
  using om_get_in[of b i n] by (auto simp: name_inv_def)

lemma step_inv: "name_inv b \<Longrightarrow> name_inv (name_step b p)"
proof (cases p)
  case (Rename i n)
  then show "name_inv b \<Longrightarrow> ?thesis"
    by (auto simp: book_rename_def Let_def name_inv_del name_inv_put name_inv_get name_empty_def split: option.splits)
next
  case (Refresh i)
  then show "name_inv b \<Longrightarrow> ?thesis"
    by (auto simp: book_refresh_def name_inv_del name_empty_def dest: name_inv_get
        intro!: name_inv_put split: option.splits)
qed (auto simp: book_probed_def book_heard_def book_put_def is_placeholder_name_def name_empty_def
     intro!: name_inv_put)

lemma reach_inv: "book_reach b \<Longrightarrow> name_inv b"
  by (induction rule: book_reach.induct) (simp add: name_inv_def, rule step_inv)

text \<open>
  However the book is used, it is sorted with one record per identifier, keeps no
  record that says nothing and none under the empty identifier; so what it shows for a
  device that has an identifier is never blank.
\<close>

theorem name_book_invariant:
  assumes "book_reach b"
  shows "om_ok b \<and> (\<forall>e \<in> set b. fst e \<noteq> [] \<and> \<not> name_empty (snd e)) \<and>
    (i \<noteq> [] \<longrightarrow> fst (book_display b i) \<noteq> [])"
  using reach_inv[OF assms] by (auto simp: name_inv_def book_display_def split: option.splits)

theorem name_book_invariant_witness:
  "om_ok (name_step [] (Probed ''a'' ''(unnamed)'')) \<and> fst (book_display (name_step [] (Probed ''a'' ''(unnamed)'')) ''a'') \<noteq> []"
  using name_book_invariant[OF book_op[OF empty_book], of "Probed ''a'' ''(unnamed)''" "''a''"] by simp

section \<open>Who decides\<close>

definition names_user :: "string \<Rightarrow> name_op \<Rightarrow> bool" where
  "names_user i p = (case p of Rename j n \<Rightarrow> j = i | PutName j n \<Rightarrow> j = i | _ \<Rightarrow> False)"

lemma user_kept:
  assumes "\<not> names_user i p" "name_at b i = n" "dn_user n \<noteq> []"
  shows "dn_user (name_at (name_step b p) i) = dn_user n"
  using assms
  by (cases p) (auto simp: names_user_def name_at_def book_rename_def book_probed_def book_heard_def book_refresh_def
      book_put_def om_get_put om_get_del no_name_def Let_def split: option.splits if_splits)

lemma user_kept_all:
  assumes "\<forall>p \<in> set ps. \<not> names_user i p" "dn_user (name_at b i) = name" "name \<noteq> []"
  shows "dn_user (name_at (foldl name_step b ps) i) = name"
  using assms by (induction ps arbitrary: b) (auto simp: user_kept)

text \<open>
  A person's name wins: once a device has been named, no probe, no advertisement, no
  refresh and no operation on another device changes what is shown for it.
\<close>

theorem typed_name_wins:
  assumes "i \<noteq> []" "name \<noteq> []" "\<forall>p \<in> set ps. \<not> names_user i p"
  shows "book_display (foldl name_step (book_rename b i name) ps) i = (name, UserName)"
proof -
  have "dn_user (name_at (book_rename b i name) i) = name"
    using assms by (simp add: book_rename_def name_at_def om_get_put)
  from user_kept_all[OF assms(3) this assms(2)]
  have "dn_user (name_at (foldl name_step (book_rename b i name) ps) i) = name" .
  then show ?thesis using assms(2)
    by (auto simp: name_at_def book_display_def no_name_def split: option.splits)
qed

theorem typed_name_wins_witness:
  "book_display (foldl name_step (book_rename [] ''aa'' ''B cam'') [Refresh ''aa'', Heard ''aa'' ''BMPCC'', Rename ''bb'' ''x'']) ''aa''
     = (''B cam'', UserName)"
  by (rule typed_name_wins) (simp_all add: names_user_def)

section \<open>The work list\<close>

lemma probed_not_needed: "i \<noteq> [] \<Longrightarrow> \<not> book_needs_probe (book_probed b i a) i"
  by (simp add: book_probed_def book_needs_probe_def om_get_put)

lemma probed_other: "j \<noteq> i \<Longrightarrow> book_needs_probe (book_probed b i a) j = book_needs_probe b j"
  by (simp add: book_probed_def book_needs_probe_def om_get_put)

lemma probe_all_needs:
  "[] \<notin> set is \<Longrightarrow>
   book_needs_probe (foldl (\<lambda>b i. book_probed b i (answer i)) b is) j = (j \<notin> set is \<and> book_needs_probe b j)"
proof (induction "is" arbitrary: b)
  case (Cons i "is")
  have "i \<noteq> []" "[] \<notin> set is" using Cons.prems by auto
  with Cons.IH[of "book_probed b i (answer i)"] show ?case
    using probed_not_needed[of i b "answer i"] probed_other[of j i b "answer i"] by auto
qed simp

lemma probe_all_keys:
  "set is \<subseteq> fst ` set b \<Longrightarrow> fst ` set (foldl (\<lambda>b i. book_probed b i (answer i)) b is) = fst ` set b"
  by (induction "is" arbitrary: b) (auto simp: book_probed_def keys_put insert_absorb)

text \<open>
  Asking every device on the work list once empties it, whatever they answer, a blank
  or a placeholder included: a device with no name of its own is asked once, not on every
  pass.
\<close>

theorem one_pass_probes_all:
  assumes "book_reach b"
  shows "book_unprobed (foldl (\<lambda>b i. book_probed b i (answer i)) b (book_unprobed b)) = []"
proof -
  have e: "[] \<notin> set (book_unprobed b)"
    using reach_inv[OF assms] by (fastforce simp: name_inv_def book_unprobed_def)
  have s: "set (book_unprobed b) \<subseteq> fst ` set b" by (auto simp: book_unprobed_def)
  show ?thesis
    using probe_all_keys[OF s, of answer] probe_all_needs[OF e, of answer b]
    by (auto simp: book_unprobed_def filter_empty_conv)
qed

theorem one_pass_probes_all_witness:
  "book_unprobed (foldl (\<lambda>b i. book_probed b i []) (name_step [] (Heard ''a'' ''n''))
     (book_unprobed (name_step [] (Heard ''a'' ''n'')))) = []"
  by (rule one_pass_probes_all) (rule book_op[OF empty_book])

end
