(* ===== verification/Advert.thy ===== *)
theory Advert
  imports HciAd Bmd
begin

text \<open>
  \<open>src/advert.cc\<close>: what one advertising report turned out to be, a timecode box, a camera,
  both or neither.
\<close>

record advert_match =
  av_is_box :: bool
  av_is_camera :: bool
  av_name :: string
  av_box_data :: bytes

definition no_match :: advert_match where
  "no_match = \<lparr>av_is_box = False, av_is_camera = False, av_name = [], av_box_data = []\<rparr>"

definition fdac_uuid :: uuid where "fdac_uuid = uuid_from_16 0xfdac"

definition camera_uuid :: uuid where "camera_uuid = uuid_const kServiceCamera"

definition classify_ad :: "bytes \<Rightarrow> advert_match" where
  "classify_ad data =
     (if data = [] then no_match
      else
        let info = summarise_ad (parse_ad data) in
        \<lparr>av_is_box = (\<exists>sd \<in> set (ai_service_data info). fst sd = fdac_uuid \<and> snd sd \<noteq> []),
         av_is_camera = (camera_uuid \<in> set (ai_services info)),
         av_name = ai_name info,
         av_box_data =
           (case find (\<lambda>sd. fst sd = fdac_uuid \<and> snd sd \<noteq> []) (ai_service_data info) of
              Some sd \<Rightarrow> snd sd | None \<Rightarrow> [])\<rparr>)"

section \<open>What advertisements built by the program mean\<close>

lemma fdac_le: "uuid_to_le fdac_uuid = [0xac, 0xfd]"
  unfolding fdac_uuid_def by code_simp

lemma fdac_from_le: "uuid_from_le [0xac, 0xfd] = Some fdac_uuid"
  unfolding fdac_uuid_def by code_simp

lemma camera_le_length: "length (uuid_to_le camera_uuid) = 16"
  unfolding camera_uuid_def by code_simp

lemma camera_from_le: "uuid_from_le (uuid_to_le camera_uuid) = Some camera_uuid"
  unfolding camera_uuid_def by code_simp

definition fdac_structure :: "bytes \<Rightarrow> ad_structure" where
  "fdac_structure payload = \<lparr>ad_type = kAdServiceData16, ad_value = [0xac, 0xfd] @ payload\<rparr>"

lemma service_data_add:
  "ai_service_data (summarise_one info s) =
     ai_service_data info @
     (if ad_type s \<in> {kAdServiceData16, kAdServiceData32, kAdServiceData128} \<and>
         service_data_width (ad_type s) \<le> length (ad_value s)
      then (case uuid_from_le (take (service_data_width (ad_type s)) (ad_value s)) of
              Some u \<Rightarrow> [(u, drop (service_data_width (ad_type s)) (ad_value s))] | None \<Rightarrow> [])
      else [])"
  by (auto simp: summarise_one_def Let_def const_defs split: option.splits)

definition service_data_of :: "ad_structure list \<Rightarrow> (uuid \<times> bytes) list" where
  "service_data_of ss = concat (map (\<lambda>s. ai_service_data (summarise_one ad_info_empty s)) ss)"

lemma summarise_service_data:
  "ai_service_data (foldl summarise_one info ss) = ai_service_data info @ service_data_of ss"
  unfolding service_data_of_def
  by (induction ss arbitrary: info) (simp_all add: service_data_add ad_info_empty_def)

lemma service_data_sum: "ai_service_data (summarise_ad ss) = service_data_of ss"
  by (simp add: summarise_ad_def summarise_service_data) (simp add: ad_info_empty_def)

lemma service_data_append: "service_data_of (xs @ ys) = service_data_of xs @ service_data_of ys"
  by (simp add: service_data_of_def)

lemma service_data_fdac: "service_data_of [fdac_structure payload] = [(fdac_uuid, payload)]"
  by (simp add: service_data_of_def service_data_add fdac_structure_def service_data_width_def const_defs
      ad_info_empty_def fdac_from_le numeral_2_eq_2)

lemma no_box_data: "(\<not> (\<exists>sd \<in> set xs. P sd)) \<Longrightarrow> find P (xs @ ys) = find P ys"
  by (induction xs) auto

text \<open>
  A box is recognised by what it carries: an advertisement laid out from any structures
  without timecode data, then the service data of a box, then anything at all, even a tail
  cut short, is classified as a box with exactly its payload, unless that is empty.
\<close>

theorem box_recognised:
  assumes "\<forall>s \<in> set before. ad_wf s" and "length payload \<le> 252"
    and "\<not> (\<exists>sd \<in> set (service_data_of before). fst sd = fdac_uuid \<and> snd sd \<noteq> [])"
    and "append_ad_service_data (concat (map ad_bytes before)) fdac_uuid payload budget = Some out"
  shows "if payload = [] then \<not> av_is_box (classify_ad out) \<and> av_box_data (classify_ad out) = []
    else av_is_box (classify_ad (out @ tail)) \<and> av_box_data (classify_ad (out @ tail)) = payload"
proof -
  let ?s = "fdac_structure payload" and ?P = "\<lambda>sd. fst sd = fdac_uuid \<and> snd sd \<noteq> []"
  have out: "out = concat (map ad_bytes (before @ [?s]))"
    using assms(4)
    by (auto simp: append_ad_service_data_def fdac_le append_ad_def ad_bytes_def fdac_structure_def Let_def split: if_splits)
  have wf: "\<forall>s \<in> set (before @ [?s]). ad_wf s" using assms(1,2) by (auto simp: ad_wf_def fdac_structure_def)
  have p: "parse_ad (out @ t) = before @ [?s] @ parse_ad t" for t
    using parse_ad_concat[OF wf, of t] by (simp add: out)
  have d: "ai_service_data (summarise_ad (parse_ad (out @ t))) =
      service_data_of before @ (fdac_uuid, payload) # service_data_of (parse_ad t)" for t
    unfolding p service_data_sum by (simp add: service_data_append service_data_fdac)
       (simp add: service_data_of_def service_data_fdac[unfolded service_data_of_def, simplified])
  have ne: "out \<noteq> []" by (simp add: out ad_bytes_def)
  show ?thesis
  proof (cases "payload = []")
    case True
    then show ?thesis using no_box_data[OF assms(3)] ne d[of "[]"] assms(3)
      by (auto simp: classify_ad_def Let_def service_data_of_def find_None_iff split: option.splits)
  next
    case False
    then show ?thesis using no_box_data[OF assms(3)] ne by (simp add: classify_ad_def d Let_def)
  qed
qed

theorem box_recognised_witness:
  "av_is_box (classify_ad ([2, 1, 6, 5, 0x16, 0xac, 0xfd, 7, 8] @ [9, 9])) \<and>
   av_box_data (classify_ad ([2, 1, 6, 5, 0x16, 0xac, 0xfd, 7, 8] @ [9, 9])) = [7, 8]"
  using box_recognised[where before = "[\<lparr>ad_type = 1, ad_value = [6]\<rparr>]" and payload = "[7, 8]" and budget = 31
      and out = "[2, 1, 6, 5, 0x16, 0xac, 0xfd, 7, 8]" and tail = "[9, 9]"]
  by (simp add: ad_wf_def ad_bytes_def append_ad_service_data_def fdac_le append_ad_def const_defs
      service_data_of_def service_data_add ad_info_empty_def)

end
