(* ===== verification/Cnum.thy ===== *)
theory Cnum
  imports BoxMsg Complex_Main
begin

text \<open>
  Decimal fractions as the C library prints and reads them: \<open>%.df\<close> is \<open>fixed d\<close>, rounding to
  nearest with ties to even, and \<open>strtod\<close> reads a decimal literal with an optional exponent.
  Real numbers stand for \<open>double\<close>, so infinities, \<open>nan\<close> and hexadecimal literals have no
  counterpart and the last bit of a double is not modelled.  The number fields of
  \<open>src/boxmsg.cc\<close> that need them are here too.
\<close>

definition round_even :: "real \<Rightarrow> int" where
  "round_even x =
     (let f = \<lfloor>x\<rfloor>; d = x - of_int f in
      if d < 1 / 2 then f else if 1 / 2 < d then f + 1 else if even f then f else f + 1)"

definition pad_zeros :: "nat \<Rightarrow> string \<Rightarrow> string" where
  "pad_zeros d s = replicate (d - length s) CHR ''0'' @ s"

definition fixed :: "nat \<Rightarrow> real \<Rightarrow> string" where
  "fixed d x =
     (let n = nat (round_even (\<bar>x\<bar> * 10 ^ d)) in
      (if x < 0 then ''-'' else []) @ show_nat (n div 10 ^ d) @
      (if d = 0 then [] else CHR ''.'' # pad_zeros d (show_nat (n mod 10 ^ d))))"

definition split_sign :: "string \<Rightarrow> bool \<times> string" where
  "split_sign t =
     (case t of [] \<Rightarrow> (False, t)
      | c # t' \<Rightarrow> if c = CHR ''-'' then (True, t') else if c = CHR ''+'' then (False, t') else (False, t))"

definition exponent :: "string \<Rightarrow> int \<times> string" where
  "exponent w =
     (case w of [] \<Rightarrow> (0, w)
      | c # w' \<Rightarrow>
          if c \<noteq> CHR ''e'' \<and> c \<noteq> CHR ''E'' then (0, w)
          else let (neg, u) = split_sign w'; ds = takeWhile is_digit u in
            if ds = [] then (0, w)
            else (if neg then - int (digits_value 0 ds) else int (digits_value 0 ds), dropWhile is_digit u))"

definition ten_to :: "int \<Rightarrow> real" where
  "ten_to e = (if 0 \<le> e then 10 ^ nat e else 1 / 10 ^ nat (- e))"

definition strtod :: "string \<Rightarrow> (real \<times> string) option" where
  "strtod s =
     (let (neg, u) = split_sign (dropWhile is_space s);
          ip = takeWhile is_digit u; v = dropWhile is_digit u;
          (fp, w) = (case v of [] \<Rightarrow> ([], v)
                     | c # v' \<Rightarrow> if c = CHR ''.'' then (takeWhile is_digit v', dropWhile is_digit v') else ([], v))
      in if ip @ fp = [] then None
         else let m = real (digits_value 0 (ip @ fp)) / 10 ^ length fp; (e, rest) = exponent w
           in Some ((if neg then - m else m) * ten_to e, rest))"

section \<open>Number fields of a message\<close>

definition set_double :: "message \<Rightarrow> string \<Rightarrow> real \<Rightarrow> int \<Rightarrow> message" where
  "set_double m k v digits = set_field m k (take 63 (fixed (if digits < 0 then 6 else nat digits) v))"

definition get_double :: "message \<Rightarrow> string \<Rightarrow> real option" where
  "get_double m k =
     (if \<not> has_field m k then None
      else let v = get_field m k [] in
        if v = [] then None
        else case strtod (takeWhile (\<lambda>c. c \<noteq> CHR 0x00) v) of
            None \<Rightarrow> None
          | Some (parsed, end) \<Rightarrow> if end \<noteq> [] then None else Some parsed)"

section \<open>Reading back what was printed\<close>

definition rounded :: "nat \<Rightarrow> real \<Rightarrow> real" where
  "rounded d x = (if x < 0 then -1 else 1) * real_of_int (round_even (\<bar>x\<bar> * 10 ^ d)) / 10 ^ d"

lemma round_even_near: "\<bar>real_of_int (round_even x) - x\<bar> \<le> 1 / 2"
  unfolding round_even_def Let_def by (auto simp: abs_le_iff)

lemma round_even_nonneg: "0 \<le> x \<Longrightarrow> 0 \<le> round_even x"
  unfolding round_even_def Let_def by (auto simp: zero_le_floor intro: order_trans)

lemma round_even_int: "round_even (of_int n) = n"
  by (simp add: round_even_def)

lemma rounded_near: "\<bar>rounded d x - x\<bar> \<le> 1 / 2 / 10 ^ d"
proof -
  define y where "y = \<bar>x\<bar> * 10 ^ d"
  have "real_of_int (round_even y) / 10 ^ d - \<bar>x\<bar> = (real_of_int (round_even y) - y) / 10 ^ d"
    by (simp add: y_def field_simps)
  then have "\<bar>real_of_int (round_even y) / 10 ^ d - \<bar>x\<bar>\<bar> = \<bar>real_of_int (round_even y) - y\<bar> / 10 ^ d"
    by (simp only: abs_divide) simp
  also have "\<dots> \<le> 1 / 2 / 10 ^ d" by (rule divide_right_mono[OF round_even_near]) simp
  finally have "\<bar>real_of_int (round_even y) / 10 ^ d - \<bar>x\<bar>\<bar> \<le> 1 / 2 / 10 ^ d" .
  then show ?thesis unfolding rounded_def y_def[symmetric] by (cases "x < 0") (auto simp: abs_le_iff)
qed

lemma digits_value_scale: "digits_value a s = a * 10 ^ length s + digits_value 0 s"
proof (induction s arbitrary: a)
  case (Cons c s)
  from Cons[of "10 * a + digit_val c"] Cons[of "digit_val c"] show ?case by (simp add: algebra_simps)
qed simp

lemma pad_zeros_value: "digits_value 0 (pad_zeros d s) = digits_value 0 s"
proof -
  have "digits_value 0 (replicate k CHR ''0'') = 0" for k by (induction k) (simp_all add: digit_val_def)
  then show ?thesis by (simp add: pad_zeros_def digits_value_append)
qed

lemma pad_zeros_digits: "\<forall>c \<in> set s. is_digit c \<Longrightarrow> \<forall>c \<in> set (pad_zeros d s). is_digit c"
  by (auto simp: pad_zeros_def is_digit_def)

lemma show_nat_length: "n < 10 ^ d \<Longrightarrow> 0 < d \<Longrightarrow> length (show_nat n) \<le> d"
proof (induction d arbitrary: n)
  case (Suc d)
  show ?case
  proof (cases "n < 10")
    case True
    then show ?thesis by (subst show_nat.simps) simp
  next
    case False
    have "n div 10 < 10 ^ d" using Suc.prems by (simp add: less_mult_imp_div_less mult.commute)
    moreover have "0 < d" using False Suc.prems by (cases d) auto
    ultimately have "length (show_nat (n div 10)) \<le> d" using Suc.IH by blast
    then show ?thesis using False by (subst show_nat.simps) simp
  qed
qed simp

lemma pad_zeros_length: "n < 10 ^ d \<Longrightarrow> 0 < d \<Longrightarrow> length (pad_zeros d (show_nat n)) = d"
  using show_nat_length[of n d] by (simp add: pad_zeros_def)

definition stops :: "string \<Rightarrow> bool" where
  "stops rest = (rest = [] \<or> \<not> is_digit (hd rest) \<and> hd rest \<noteq> CHR ''e'' \<and> hd rest \<noteq> CHR ''E'' \<and> hd rest \<noteq> CHR ''.'')"

lemma span_digits:
  assumes "\<forall>c \<in> set ds. is_digit c" "rest = [] \<or> \<not> is_digit (hd rest)"
  shows "takeWhile is_digit (ds @ rest) = ds" "dropWhile is_digit (ds @ rest) = rest"
  using assms by (induction ds) (cases rest; simp)+

lemma exponent_stops: "stops rest \<Longrightarrow> exponent rest = (0, rest)"
  by (auto simp: stops_def exponent_def split: list.splits)

lemma split_sign_fixed:
  "split_sign (dropWhile is_space (fixed d x @ rest)) =
     (x < 0, show_nat (nat (round_even (\<bar>x\<bar> * 10 ^ d)) div 10 ^ d) @
       (if d = 0 then [] else CHR ''.'' # pad_zeros d (show_nat (nat (round_even (\<bar>x\<bar> * 10 ^ d)) mod 10 ^ d))) @ rest)"
proof -
  obtain c t where ct: "show_nat (nat (round_even (\<bar>x\<bar> * 10 ^ d)) div 10 ^ d) = c # t" and c: "is_digit c"
    using show_nat_head by blast
  have "\<not> is_space CHR ''-''" by (simp add: is_space_def)
  then show ?thesis using ct digit_not_sign[OF c] by (simp add: fixed_def split_sign_def Let_def)
qed

lemma strtod_fixed:
  assumes d: "0 < d" and r: "stops rest"
  shows "strtod (fixed d x @ rest) = Some (rounded d x, rest)"
proof -
  define n where "n = nat (round_even (\<bar>x\<bar> * 10 ^ d))"
  let ?q = "show_nat (n div 10 ^ d)" and ?r = "pad_zeros d (show_nat (n mod 10 ^ d))"
  have n: "real n = real_of_int (round_even (\<bar>x\<bar> * 10 ^ d))"
    unfolding n_def by (simp add: round_even_nonneg)
  have dig: "\<forall>c \<in> set ?q. is_digit c" "\<forall>c \<in> set ?r. is_digit c"
    using show_nat_digits pad_zeros_digits[OF show_nat_digits] by blast+
  have len: "length ?r = d" using d by (simp add: pad_zeros_length)
  have val: "digits_value 0 (?q @ ?r) = n"
    using digits_value_scale[of "digits_value 0 ?q" ?r] len
    by (simp add: digits_value_append show_nat_value pad_zeros_value div_mult_mod_eq)
  have st: "rest = [] \<or> \<not> is_digit (hd rest)" using r by (auto simp: stops_def)
  have q: "takeWhile is_digit (?q @ CHR ''.'' # ?r @ rest) = ?q"
      "dropWhile is_digit (?q @ CHR ''.'' # ?r @ rest) = CHR ''.'' # ?r @ rest"
    using span_digits[OF dig(1), of "CHR ''.'' # ?r @ rest"] by (simp_all add: is_digit_def)
  have ne: "?q @ ?r \<noteq> []" using show_nat_ne by simp
  have s: "split_sign (dropWhile is_space (fixed d x @ rest)) = (x < 0, ?q @ CHR ''.'' # ?r @ rest)"
    using split_sign_fixed[of d x rest] d by (simp add: n_def)
  have "strtod (fixed d x @ rest) =
      Some ((if x < 0 then - (real (digits_value 0 (?q @ ?r)) / 10 ^ length ?r)
             else real (digits_value 0 (?q @ ?r)) / 10 ^ length ?r) * ten_to 0, rest)"
    unfolding strtod_def s
    by (simp only: case_prod_conv Let_def q list.case if_True span_digits[OF dig(2) st] ne if_False
        exponent_stops[OF r] simp_thms)
  then show ?thesis by (simp only: val len n) (simp add: ten_to_def rounded_def)
qed

lemma fixed_no_nul: "takeWhile (\<lambda>c. c \<noteq> CHR 0x00) (fixed d x) = fixed d x"
proof -
  have p: "c \<noteq> CHR 0x00" if "c \<in> set (pad_zeros d (show_nat n))" for c n
    using that pad_zeros_digits[OF show_nat_digits] digit_not_sign by blast
  have q: "c \<noteq> CHR 0x00" if "c \<in> set (show_nat n)" for c n
    using that show_nat_digits digit_not_sign by blast
  have "\<forall>c \<in> set (fixed d x). c \<noteq> CHR 0x00"
    by (auto simp: fixed_def Let_def dest: p q)
  then show ?thesis by (simp add: takeWhile_eq_all_conv)
qed

text \<open>
  A number field read back is the number written, to half a unit in the last decimal
  printed, as long as the text fits the 63 characters the encoder formats into; the other
  fields of the message are as they were.
\<close>

theorem double_field_round_trip:
  assumes "0 < digits" "length (fixed (nat digits) x) \<le> 63"
  shows "(\<exists>y. get_double (set_double m k x digits) k = Some y \<and> \<bar>y - x\<bar> \<le> 1 / 2 / 10 ^ nat digits) \<and>
    (k' \<noteq> k \<longrightarrow> get_double (set_double m k x digits) k' = get_double m k')"
proof -
  have "fixed (nat digits) x \<noteq> []" by (simp add: fixed_def Let_def show_nat_ne)
  then have "get_double (set_double m k x digits) k = Some (rounded (nat digits) x)"
    using assms strtod_fixed[of "nat digits" "[]" x]
    by (simp add: get_double_def set_double_def has_set_field get_set_field fixed_no_nul stops_def)
  then show ?thesis using rounded_near[of "nat digits" x]
    by (auto simp: get_double_def set_double_def has_set_field get_set_field)
qed

theorem double_field_round_trip_witness:
  "\<exists>y. get_double (set_double \<lparr>msg_verb = ''seen'', msg_fields = []\<rparr> ''x'' (- 6.25) 3) ''x'' = Some y \<and> \<bar>y - (- 6.25)\<bar> \<le> 1 / 2 / 10 ^ 3"
proof -
  have "char_of (48 :: nat) = CHR ''0''" "char_of (50 :: nat) = CHR ''2''" "char_of (53 :: nat) = CHR ''5''" "char_of (54 :: nat) = CHR ''6''"
    by code_simp+
  moreover have "round_even 6250 = 6250" using round_even_int[of 6250] by simp
  ultimately have "fixed 3 (- 6.25) = ''-6.250''"
    by (simp add: fixed_def pad_zeros_def show_nat.simps[of 6] show_nat.simps[of 250] show_nat.simps[of 25] show_nat.simps[of 2])
  then show ?thesis
    using double_field_round_trip[where digits = 3 and x = "- 6.25" and k = "''x''" and k' = "''x''" and m = "\<lparr>msg_verb = ''seen'', msg_fields = []\<rparr>"]
    by simp
qed

end
