(* ===== verification/Json.thy ===== *)
theory Json
  imports Cnum Hci Ordmap
begin

text \<open>
  The lines the daemons write and read back: \<open>json_escape\<close>, \<open>rotate_files\<close> of
  \<open>src/jsonlog.cc\<close> and the scanner of \<open>src/logscan.cc\<close>.  A scan position is the text that
  is left, so a scanner takes a text and returns what it read with the rest, or \<open>None\<close> for
  \<open>false\<close>.  The file system of \<open>rotate_files\<close> is a map from paths to contents.
\<close>

section \<open>Escaping\<close>

definition json_char :: "char \<Rightarrow> string" where
  "json_char c =
     (if c = CHR 0x22 then [CHR 0x5c, CHR 0x22]
      else if c = CHR 0x5c then [CHR 0x5c, CHR 0x5c]
      else if c = CHR 0x0a then [CHR 0x5c, CHR ''n'']
      else if c = CHR 0x0d then [CHR 0x5c, CHR ''r'']
      else if c = CHR 0x09 then [CHR 0x5c, CHR ''t'']
      else if code c < 0x20 then [CHR 0x5c, CHR ''u'', CHR ''0'', CHR ''0''] @ hex2 (word_of_nat (code c))
      else [c])"

definition json_escape :: "string \<Rightarrow> string" where
  "json_escape s = concat (map json_char s)"

definition json_quote :: "string \<Rightarrow> string" where
  "json_quote s = CHR 0x22 # json_escape s @ [CHR 0x22]"

section \<open>Rotation\<close>

type_synonym files = "string \<Rightarrow> string option"

definition generation :: "string \<Rightarrow> nat \<Rightarrow> string" where
  "generation path n = path @ ''.'' @ show_nat n"

text \<open>\<open>rename\<close> replaces its target, and does nothing when there is nothing to rename.\<close>

definition rename_file :: "files \<Rightarrow> string \<Rightarrow> string \<Rightarrow> files" where
  "rename_file fs a b = (case fs a of None \<Rightarrow> fs | Some x \<Rightarrow> (fs(a := None))(b := Some x))"

fun shift_down :: "string \<Rightarrow> nat \<Rightarrow> files \<Rightarrow> files" where
  "shift_down path 0 fs = fs"
| "shift_down path (Suc n) fs =
     shift_down path n (rename_file fs (generation path (Suc n)) (generation path (Suc (Suc n))))"

definition rotate_files :: "string \<Rightarrow> int \<Rightarrow> files \<Rightarrow> files" where
  "rotate_files path keep fs =
     (if keep \<le> 0 then fs
      else rename_file (shift_down path (nat keep - 1) (fs(generation path (nat keep) := None)))
             path (generation path 1))"

section \<open>Scanning\<close>

definition json_space :: "char \<Rightarrow> bool" where
  "json_space c = (c = CHR '' '' \<or> c = CHR 0x09 \<or> c = CHR 0x0a \<or> c = CHR 0x0d)"

definition skip_space :: "string \<Rightarrow> string" where
  "skip_space s = dropWhile json_space s"

definition before_rest :: "string \<Rightarrow> (string \<times> string) option \<Rightarrow> (string \<times> string) option" where
  "before_rest p r = map_option (\<lambda>(a, b). (p @ a, b)) r"

text \<open>Inside a string, up to and with its closing quote.\<close>

fun scan_str :: "string \<Rightarrow> (string \<times> string) option" where
  "scan_str [] = None"
| "scan_str [c] = (if c = CHR 0x22 then Some ([c], []) else None)"
| "scan_str (c # d # r) =
     (if c = CHR 0x5c then before_rest [c, d] (scan_str r)
      else if c = CHR 0x22 then Some ([c], d # r)
      else before_rest [c] (scan_str (d # r)))"

fun scan_nest :: "int \<Rightarrow> bool \<Rightarrow> string \<Rightarrow> (string \<times> string) option" where
  "scan_nest depth instr [] = None"
| "scan_nest depth instr [c] =
     (if \<not> instr \<and> c \<in> {CHR ''}'', CHR '']''} \<and> depth = 1 then Some ([c], []) else None)"
| "scan_nest depth instr (c # d # r) =
     (if instr then
        (if c = CHR 0x5c then before_rest [c, d] (scan_nest depth True r)
         else before_rest [c] (scan_nest depth (c \<noteq> CHR 0x22) (d # r)))
      else if c = CHR 0x22 then before_rest [c] (scan_nest depth True (d # r))
      else if c \<in> {CHR ''{'', CHR ''[''} then before_rest [c] (scan_nest (depth + 1) False (d # r))
      else if c \<in> {CHR ''}'', CHR '']''} then
        (if depth - 1 = 0 then Some ([c], d # r) else before_rest [c] (scan_nest (depth - 1) False (d # r)))
      else before_rest [c] (scan_nest depth False (d # r)))"

definition bare_end :: "char \<Rightarrow> bool" where
  "bare_end c = (c \<in> {CHR '','', CHR ''}'', CHR '']''})"

definition trim_end :: "string \<Rightarrow> string" where
  "trim_end s = rev (dropWhile (\<lambda>c. c = CHR '' '' \<or> c = CHR 0x09) (rev s))"

definition scan_value :: "string \<Rightarrow> (string \<times> string) option" where
  "scan_value s0 =
     (case skip_space s0 of
        [] \<Rightarrow> None
      | c # r \<Rightarrow>
          if c = CHR 0x22 then before_rest [c] (scan_str r)
          else if c = CHR ''{'' \<or> c = CHR ''['' then scan_nest 0 False (c # r)
          else let raw = trim_end (takeWhile (\<lambda>c. \<not> bare_end c) (c # r)) in
            if raw = [] then None else Some (raw, dropWhile (\<lambda>c. \<not> bare_end c) (c # r)))"

section \<open>Strings\<close>

definition hex_digit :: "char \<Rightarrow> nat option" where
  "hex_digit c =
     (if is_digit c then Some (code c - 48)
      else if code CHR ''a'' \<le> code c \<and> code c \<le> code CHR ''f'' then Some (code c - 87)
      else if code CHR ''A'' \<le> code c \<and> code c \<le> code CHR ''F'' then Some (code c - 55)
      else None)"

fun hex_digits_value :: "int \<Rightarrow> string \<Rightarrow> int" where
  "hex_digits_value acc [] = acc"
| "hex_digits_value acc (c # s) =
     (case hex_digit c of None \<Rightarrow> acc | Some d \<Rightarrow> hex_digits_value (16 * acc + int d) s)"

text \<open>\<open>strtol(..., 16)\<close> of at most four characters, which cannot overflow.\<close>

definition strtol16 :: "string \<Rightarrow> int" where
  "strtol16 s =
     (let (neg, u) = split_sign (dropWhile is_space (takeWhile (\<lambda>c. c \<noteq> CHR 0x00) s));
          v = (case u of c # d # e # t \<Rightarrow>
                 if c = CHR ''0'' \<and> (d = CHR ''x'' \<or> d = CHR ''X'') \<and> hex_digit e \<noteq> None then e # t else u
               | _ \<Rightarrow> u)
      in if neg then - hex_digits_value 0 v else hex_digits_value 0 v)"

text \<open>The loop of \<open>json_string\<close> from an index on: it stops one character before the end.\<close>

definition plain_escape :: "char \<Rightarrow> char option" where
  "plain_escape c =
     (if c = CHR 0x22 then Some (CHR 0x22) else if c = CHR 0x5c then Some (CHR 0x5c)
      else if c = CHR ''/'' then Some (CHR ''/'') else if c = CHR ''n'' then Some (CHR 0x0a)
      else if c = CHR ''r'' then Some (CHR 0x0d) else if c = CHR ''t'' then Some (CHR 0x09)
      else if c = CHR ''b'' then Some (CHR 0x08) else if c = CHR ''f'' then Some (CHR 0x0c) else None)"

definition unicode_char :: "int \<Rightarrow> char" where
  "unicode_char n = (if n < 0x80 then char_of (nat (n mod 256)) else CHR ''?'')"

function unquote :: "string \<Rightarrow> string option" where
  "unquote [] = Some []"
| "unquote [c] = Some []"
| "unquote (c # d # r) =
     (if c \<noteq> CHR 0x5c then map_option ((#) c) (unquote (d # r))
      else case plain_escape d of
          Some x \<Rightarrow> map_option ((#) x) (unquote r)
        | None \<Rightarrow>
            if d \<noteq> CHR ''u'' then None
            else if length (d # r) \<le> 4 then None
            else map_option ((#) (unicode_char (strtol16 (take 4 r)))) (unquote (drop 4 r)))"
  by pat_completeness auto
termination by (relation "measure length") auto

definition json_string :: "string \<Rightarrow> string option" where
  "json_string raw =
     (if length raw < 2 \<or> hd raw \<noteq> CHR 0x22 \<or> List.last raw \<noteq> CHR 0x22 then None else unquote (tl raw))"

section \<open>Objects\<close>

type_synonym log_record = "(string, string) omap"

lemma before_rest_some: "before_rest p r = Some (a, b) \<Longrightarrow> \<exists>a'. r = Some (a', b) \<and> a = p @ a'"
  by (auto simp: before_rest_def)

lemma scan_str_shorter: "scan_str s = Some (a, r) \<Longrightarrow> length r < length s"
  by (induction s arbitrary: a rule: scan_str.induct) (fastforce dest!: before_rest_some split: if_splits)+

lemma scan_nest_shorter: "scan_nest d i s = Some (a, r) \<Longrightarrow> length r < length s"
proof (induction d i s arbitrary: a rule: scan_nest.induct)
  case (3 depth instr c d r')
  have b: "length r < length y" if "before_rest p (scan_nest d' i' y) = Some (a, r)"
      "\<And>a'. scan_nest d' i' y = Some (a', r) \<Longrightarrow> length r < length y" for p d' i' y
    using that before_rest_some by blast
  show ?case
    using 3 by (auto split: if_splits dest!: before_rest_some)
qed (auto split: if_splits)

lemma scan_value_shorter: "scan_value s = Some (a, r) \<Longrightarrow> length r < length s"
proof -
  assume v: "scan_value s = Some (a, r)"
  have le: "length (skip_space s) \<le> length s" by (simp add: skip_space_def length_dropWhile_le)
  obtain c t where ct: "skip_space s = c # t" using v by (cases "skip_space s") (simp_all add: scan_value_def)
  have "length r < length (c # t)"
  proof (cases "c = CHR 0x22 \<or> c = CHR ''{'' \<or> c = CHR ''[''")
    case True
    then show ?thesis using v ct scan_str_shorter[of t] scan_nest_shorter[of 0 False "c # t"]
      by (fastforce simp: scan_value_def dest!: before_rest_some split: if_splits)
  next
    case False
    then have r: "r = dropWhile (\<lambda>c. \<not> bare_end c) (c # t)"
      and ne: "trim_end (takeWhile (\<lambda>c. \<not> bare_end c) (c # t)) \<noteq> []"
      using v ct by (auto simp: scan_value_def Let_def split: if_splits)
    have "\<not> bare_end c" using ne by (auto simp: trim_end_def)
    then show ?thesis by (simp add: r length_dropWhile_le le_imp_less_Suc)
  qed
  then show ?thesis using le ct by simp
qed

lemma skip_space_length: "length (skip_space s) \<le> length s"
  by (simp add: skip_space_def length_dropWhile_le)

lemma scan_pairs_shorter:
  assumes "scan_value (skip_space s) = Some (key_raw, s1)" "scan_value (tl (skip_space s1)) = Some (value, s3)"
  shows "length (tl (skip_space s3)) < length s"
  using scan_value_shorter[OF assms(1)] scan_value_shorter[OF assms(2)]
    skip_space_length[of s] skip_space_length[of s1] skip_space_length[of s3] by simp

text \<open>The members after an opening brace; the flag is the code's result.\<close>

function scan_pairs :: "string \<Rightarrow> log_record \<Rightarrow> bool \<times> log_record" where
  "scan_pairs s out =
     (let s = skip_space s in
      if s = [] \<or> hd s \<noteq> CHR 0x22 then (False, out)
      else case scan_value s of
          None \<Rightarrow> (False, out)
        | Some (key_raw, s1) \<Rightarrow>
            (case json_string key_raw of
               None \<Rightarrow> (False, out)
             | Some key \<Rightarrow>
                 let s2 = skip_space s1 in
                 if s2 = [] \<or> hd s2 \<noteq> CHR '':'' then (False, out)
                 else case scan_value (tl s2) of
                     None \<Rightarrow> (False, out)
                   | Some (value, s3) \<Rightarrow>
                       let out' = om_put out key value; s4 = skip_space s3 in
                       if s4 \<noteq> [] \<and> hd s4 = CHR '','' then scan_pairs (tl s4) out'
                       else if s4 \<noteq> [] \<and> hd s4 = CHR ''}'' then (True, out')
                       else (False, out')))"
  by pat_completeness auto

termination
  by (relation "measure (\<lambda>(s, out). length s)") (auto dest: scan_pairs_shorter)

declare scan_pairs.simps [simp del]

definition scan_members :: "string \<Rightarrow> log_record \<Rightarrow> bool \<times> log_record" where
  "scan_members s0 out =
     (let s = skip_space s0 in
      if s = [] \<or> hd s \<noteq> CHR ''{'' then (False, out)
      else let s1 = skip_space (tl s) in
        if s1 \<noteq> [] \<and> hd s1 = CHR ''}'' then (True, out) else scan_pairs s1 out)"

definition parse_record :: "string \<Rightarrow> log_record option" where
  "parse_record line = (case scan_members line [] of (True, m) \<Rightarrow> Some m | _ \<Rightarrow> None)"

definition parse_object :: "string \<Rightarrow> log_record \<Rightarrow> bool \<times> log_record" where
  "parse_object raw out = scan_members raw out"

text \<open>An object printed field by field.\<close>

definition print_field :: "string \<times> string \<Rightarrow> string" where
  "print_field f = CHR 0x22 # fst f @ [CHR 0x22, CHR '':''] @ snd f"

fun print_fields :: "(string \<times> string) list \<Rightarrow> string" where
  "print_fields [] = []"
| "print_fields [f] = print_field f"
| "print_fields (f # g # fs) = print_field f @ CHR '','' # print_fields (g # fs)"

definition print_object :: "(string \<times> string) list \<Rightarrow> string" where
  "print_object fs = CHR ''{'' # print_fields fs @ [CHR ''}'']"

definition record_has :: "log_record \<Rightarrow> string \<Rightarrow> bool" where
  "record_has r k = (om_get r k \<noteq> None)"

definition record_raw :: "log_record \<Rightarrow> string \<Rightarrow> string" where
  "record_raw r k = (case om_get r k of None \<Rightarrow> [] | Some v \<Rightarrow> v)"

definition record_text :: "log_record \<Rightarrow> string \<Rightarrow> string \<Rightarrow> string" where
  "record_text r k fallback =
     (case om_get r k of None \<Rightarrow> fallback
      | Some v \<Rightarrow> (case json_string v of Some s \<Rightarrow> s | None \<Rightarrow> v))"

definition record_number :: "log_record \<Rightarrow> string \<Rightarrow> real \<Rightarrow> real" where
  "record_number r k fallback =
     (case om_get r k of None \<Rightarrow> fallback
      | Some raw \<Rightarrow>
          if raw = [] \<or> hd raw = CHR 0x22 \<or> hd raw = CHR ''{'' \<or> hd raw = CHR ''['' then fallback
          else case strtod (takeWhile (\<lambda>c. c \<noteq> CHR 0x00) raw) of None \<Rightarrow> fallback | Some (v, _) \<Rightarrow> v)"

definition record_flag :: "log_record \<Rightarrow> string \<Rightarrow> bool \<Rightarrow> bool" where
  "record_flag r k fallback =
     (case om_get r k of None \<Rightarrow> fallback
      | Some v \<Rightarrow> if v = ''true'' then True else if v = ''false'' then False else fallback)"

text \<open>
  \<open>record_time\<close>: a number, or the local time the older daemon wrote, whose reading
  (\<open>sscanf\<close> and \<open>mktime\<close>, which need the time zone) is the argument \<open>iso_time\<close>.
\<close>

definition record_time :: "(string \<Rightarrow> real option) \<Rightarrow> log_record \<Rightarrow> real option" where
  "record_time iso_time r =
     (let raw = record_raw r ''wall'' in
      if raw = [] then None
      else if hd raw \<noteq> CHR 0x22 then
        (let v = record_number r ''wall'' 0 in if v \<le> 0 then None else Some v)
      else case json_string raw of None \<Rightarrow> None | Some s \<Rightarrow> iso_time s)"

end
