(* ===== verification/Bench.thy ===== *)
theory Bench
  imports CamConf RegistryLaws Json
begin

text \<open>
  \<open>src/bench.cc\<close>: which timecode boxes are the bench and what time it says it is.
\<close>

record bench =
  bn_ok :: bool
  bn_offset :: real
  bn_spread :: real
  bn_boxes :: int
  bn_skipped :: int
  bn_source :: string
  bn_boxes_json :: string

definition heard_now :: "device_snapshot \<Rightarrow> bool" where
  "heard_now d = (sn_radio d = [] \<and> sn_live d \<and> sn_has_time d)"

fun count_votes :: "camconf \<Rightarrow> device_snapshot list \<Rightarrow> real list \<Rightarrow> int \<Rightarrow> real list \<times> int" where
  "count_votes conf [] votes skipped = (votes, skipped)"
| "count_votes conf (d # ds) votes skipped =
     (if \<not> heard_now d then count_votes conf ds votes skipped
      else if \<not> box_enabled conf (sn_id d) then count_votes conf ds votes (skipped + 1)
      else count_votes conf ds (votes @ [sn_median_offset d]) skipped)"

fun box_members :: "bool \<Rightarrow> camconf \<Rightarrow> device_snapshot list \<Rightarrow> string" where
  "box_members first conf [] = []"
| "box_members first conf (d # ds) =
     (if \<not> heard_now d then box_members first conf ds
      else if \<not> box_enabled conf (sn_id d) then box_members first conf ds
      else (if first then [] else '','') @ json_quote (if sn_name d = [] then sn_id d else sn_name d) @ '':'' @
        take 255 (''{'' @ json_quote ''offset_s'' @ '':'' @ fixed 4 (sn_median_offset d) @
          '','' @ json_quote ''adverts'' @ '':'' @ show_int (sn_samples d) @
          '','' @ json_quote ''rssi'' @ '':'' @ show_int (sn_rssi d) @
          '','' @ json_quote ''resolution'' @ '':'' @ json_quote (sn_resolution d) @ ''}'') @
        box_members False conf ds)"

definition boxes_to_json :: "device_snapshot list \<Rightarrow> camconf \<Rightarrow> string" where
  "boxes_to_json devices conf = ''{'' @ box_members True conf devices @ ''}''"

definition bench_from :: "snapshot \<Rightarrow> camconf \<Rightarrow> string \<Rightarrow> bench" where
  "bench_from snap conf source =
     (let (votes, skipped) = count_votes conf (sp_device snap) [] 0;
          b = \<lparr>bn_ok = False, bn_offset = 0, bn_spread = 0, bn_boxes = 0, bn_skipped = skipped,
               bn_source = source, bn_boxes_json = boxes_to_json (sp_device snap) conf\<rparr>
      in if votes = [] then b
         else b\<lparr>bn_ok := True, bn_offset := median_offset votes,
                bn_spread := Max (set votes) - Min (set votes), bn_boxes := int (length votes)\<rparr>)"

section \<open>Voters\<close>

definition voters :: "camconf \<Rightarrow> snapshot \<Rightarrow> device_snapshot list" where
  "voters conf snap = filter (\<lambda>d. heard_now d \<and> box_enabled conf (sn_id d)) (sp_device snap)"

lemma count_votes_filter:
  "count_votes conf ds votes skipped =
     (votes @ map sn_median_offset (filter (\<lambda>d. heard_now d \<and> box_enabled conf (sn_id d)) ds),
      skipped + int (length (filter (\<lambda>d. heard_now d \<and> \<not> box_enabled conf (sn_id d)) ds)))"
  by (induction conf ds votes skipped rule: count_votes.induct) auto

text \<open>
  C23. Only boxes heard now, by this machine's own radio and switched on, decide the bench:
  two snapshots with the same such boxes give the same verdict, offset and spread; when more
  than half of them lie between two bounds the offset does too; and there is a bench exactly
  when one of them votes.
\<close>

theorem bench_is_its_voters:
  assumes "voters conf snap = voters conf snap'"
    and "bench = bench_from snap conf source" and "bench' = bench_from snap' conf source'"
  shows "bn_ok bench = bn_ok bench' \<and> bn_offset bench = bn_offset bench' \<and> bn_spread bench = bn_spread bench' \<and>
    bn_ok bench = (voters conf snap \<noteq> []) \<and> bn_boxes bench = int (length (voters conf snap)) \<and>
    (length (voters conf snap) <
       2 * length (filter (\<lambda>d. a \<le> sn_median_offset d \<and> sn_median_offset d \<le> b) (voters conf snap)) \<longrightarrow>
     a \<le> bn_offset bench \<and> bn_offset bench \<le> b)"
proof -
  let ?v = "map sn_median_offset (voters conf snap)"
  have f: "bn_ok (bench_from s conf src) = (voters conf s \<noteq> [])"
      "bn_boxes (bench_from s conf src) = int (length (voters conf s))"
      "voters conf s \<noteq> [] \<Longrightarrow> bn_offset (bench_from s conf src) = median_offset (map sn_median_offset (voters conf s))"
      "voters conf s = [] \<Longrightarrow> bn_offset (bench_from s conf src) = 0"
      "bn_spread (bench_from s conf src) = (if voters conf s = [] then 0
        else Max (set (map sn_median_offset (voters conf s))) - Min (set (map sn_median_offset (voters conf s))))"
    for s src
    by (simp_all add: bench_from_def Let_def count_votes_filter voters_def)
  have "length (filter (\<lambda>x. a \<le> x \<and> x \<le> b) ?v) =
      length (filter (\<lambda>d. a \<le> sn_median_offset d \<and> sn_median_offset d \<le> b) (voters conf snap))"
    by (simp add: filter_map comp_def)
  moreover have "voters conf snap \<noteq> []" if "length (voters conf snap) < 2 * n" "n \<le> length (voters conf snap)" for n
    using that by auto
  ultimately show ?thesis
    using assms median_offset_within[of ?v a b] f(1,2,5) f(3,4)[of snap] f(3,4)[of snap'] by auto
qed

definition heard_box :: "string \<Rightarrow> real \<Rightarrow> device_snapshot" where
  "heard_box i offset =
     \<lparr>sn_id = i, sn_name = i, sn_radio = [], sn_rssi = 0, sn_adverts = 1, sn_decoded = 1, sn_last_wall = 0,
      sn_age = 0, sn_first_seen_wall = 0, sn_live = True, sn_heard_this_run = True, sn_has_time = True, sn_sod = 0,
      sn_offset = offset, sn_median_offset = offset, sn_samples = 1, sn_resolution = [], sn_note = [], sn_fps = 24,
      sn_has_drift = False, sn_drift_ppm = 0, sn_drift_span = 0, sn_alerting = False, sn_alert_since_wall = 0\<rparr>"

definition heard_snapshot :: "device_snapshot list \<Rightarrow> snapshot" where
  "heard_snapshot ds = snd (registry_snapshot (new_registry default_policy 0) 0 0) \<lparr>sp_device := ds\<rparr>"

theorem bench_is_its_voters_witness:
  "bn_offset (bench_from (heard_snapshot [heard_box ''a'' 1, heard_box ''b'' 2, heard_box ''c'' 900])
     (fresh_conf []) ''scan'') \<le> 2"
  using bench_is_its_voters[where conf = "fresh_conf []" and a = 1 and b = 2
      and snap = "heard_snapshot [heard_box ''a'' 1, heard_box ''b'' 2, heard_box ''c'' 900]"
      and snap' = "heard_snapshot [heard_box ''a'' 1, heard_box ''b'' 2, heard_box ''c'' 900]"
      and source = "''scan''" and source' = "''scan''", OF refl refl refl]
  by (simp add: voters_def heard_snapshot_def heard_box_def heard_now_def box_enabled_def find_box_def fresh_conf_def)

end
