(* ===== verification/CamDb.thy ===== *)
theory CamDb
  imports Json Lines TimeUtil
begin

text \<open>
  \<open>src/camdb.cc\<close>: what has been learned about each camera body, an append-only file of JSON
  lines replayed at start and rewritten when too much of it is dead.  The file is a string;
  what the system does with each call on it (\<open>fopen\<close>, \<open>fputs\<close>, \<open>rename\<close>) and the wall clock
  are arguments.  Real numbers stand for \<open>double\<close>; an \<open>int\<close> is unbounded, so a number in the
  file that its C type cannot hold is converted as if it could.
\<close>

definition kMeasureEpoch :: int where "kMeasureEpoch = 1"

record write_sample =
  ws_wall :: real
  ws_error_before_s :: real
  ws_error_after_s :: real
  ws_lead_used_s :: real
  ws_latency_s :: real
  ws_fps :: int
  ws_bias :: int
  ws_verified :: bool
  ws_timing_ok :: bool
  ws_measure_epoch :: int

definition apply_delay_s :: "write_sample \<Rightarrow> real" where
  "apply_delay_s s = ws_lead_used_s s - ws_error_after_s s"

record camera_record =
  cr_id :: string
  cr_name :: string
  cr_first_seen_wall :: real
  cr_last_seen_wall :: real
  cr_sessions :: u64
  cr_writes :: u64
  cr_fps :: int
  cr_has_bias :: bool
  cr_bias :: int
  cr_has_lead :: bool
  cr_lead_s :: real
  cr_has_drift :: bool
  cr_drift_ppm :: real
  cr_drift_span_s :: real
  cr_samples :: "write_sample list"

definition new_record :: camera_record where
  "new_record = \<lparr>cr_id = [], cr_name = [], cr_first_seen_wall = 0, cr_last_seen_wall = 0, cr_sessions = 0, cr_writes = 0,
     cr_fps = 0, cr_has_bias = False, cr_bias = 0, cr_has_lead = False, cr_lead_s = 0, cr_has_drift = False,
     cr_drift_ppm = 0, cr_drift_span_s = 0, cr_samples = []\<rparr>"

fun newest_delays :: "nat \<Rightarrow> write_sample list \<Rightarrow> real list" where
  "newest_delays n [] = []"
| "newest_delays n (s # newer_first) =
     (if n = 0 then []
      else if \<not> ws_timing_ok s then newest_delays n newer_first
      else if ws_measure_epoch s \<noteq> kMeasureEpoch then newest_delays n newer_first
      else apply_delay_s s # newest_delays (n - 1) newer_first)"

definition recent_apply_delays :: "camera_record \<Rightarrow> nat \<Rightarrow> real list" where
  "recent_apply_delays r n = rev (newest_delays n (rev (cr_samples r)))"

section \<open>Lines\<close>

definition bool_text :: "bool \<Rightarrow> string" where
  "bool_text b = (if b then ''true'' else ''false'')"

definition camera_fields :: "camera_record \<Rightarrow> (string \<times> string) list" where
  "camera_fields r =
     [(''t'', json_quote ''camera''), (''id'', json_quote (cr_id r)), (''name'', json_quote (cr_name r)),
      (''first_wall'', fixed 3 (cr_first_seen_wall r)), (''last_wall'', fixed 3 (cr_last_seen_wall r)),
      (''sessions'', show_nat (unat (cr_sessions r))), (''writes'', show_nat (unat (cr_writes r))),
      (''fps'', show_int (cr_fps r))] @
     (if cr_has_bias r then [(''bias'', show_int (cr_bias r))] else []) @
     (if cr_has_lead r then [(''lead_s'', fixed 6 (cr_lead_s r))] else []) @
     (if cr_has_drift r then [(''drift_ppm'', fixed 3 (cr_drift_ppm r)), (''drift_span_s'', fixed 1 (cr_drift_span_s r))]
      else [])"

definition camera_line :: "camera_record \<Rightarrow> string" where
  "camera_line r = print_object (camera_fields r)"

definition write_fields :: "string \<Rightarrow> write_sample \<Rightarrow> (string \<times> string) list" where
  "write_fields i s =
     [(''t'', json_quote ''write''), (''id'', json_quote i), (''wall'', fixed 3 (ws_wall s)),
      (''error_before_s'', fixed 6 (ws_error_before_s s)), (''error_after_s'', fixed 6 (ws_error_after_s s)),
      (''lead_used_s'', fixed 6 (ws_lead_used_s s)), (''latency_s'', fixed 6 (ws_latency_s s)),
      (''fps'', show_int (ws_fps s)), (''bias'', show_int (ws_bias s)), (''verified'', bool_text (ws_verified s)),
      (''timing_ok'', bool_text (ws_timing_ok s)), (''measure_epoch'', show_int (ws_measure_epoch s))]"

definition write_line :: "string \<Rightarrow> write_sample \<Rightarrow> string" where
  "write_line i s = print_object (write_fields i s)"

section \<open>Replaying\<close>

definition record_at :: "(string, camera_record) omap \<Rightarrow> string \<Rightarrow> camera_record" where
  "record_at m i = (case om_get m i of Some r \<Rightarrow> r | None \<Rightarrow> new_record)"

definition keep_samples :: "nat \<Rightarrow> write_sample list \<Rightarrow> write_sample list" where
  "keep_samples max_samples ss = (if 0 < max_samples then drop (length ss - max_samples) ss else ss)"

definition replay_camera :: "log_record \<Rightarrow> string \<Rightarrow> camera_record \<Rightarrow> camera_record" where
  "replay_camera r i c0 =
     (let c1 = c0\<lparr>cr_id := i, cr_name := record_text r ''name'' (cr_name c0),
            cr_first_seen_wall := record_number r ''first_wall'' (cr_first_seen_wall c0),
            cr_last_seen_wall := record_number r ''last_wall'' (cr_last_seen_wall c0),
            cr_sessions := word_of_int (to_int (record_number r ''sessions'' 0)),
            cr_writes := word_of_int (to_int (record_number r ''writes'' 0)),
            cr_fps := to_int (record_number r ''fps'' (of_int (cr_fps c0)))\<rparr>;
          c2 = (if record_has r ''bias'' then c1\<lparr>cr_has_bias := True, cr_bias := to_int (record_number r ''bias'' 0)\<rparr> else c1);
          c3 = (if record_has r ''lead_s'' then c2\<lparr>cr_has_lead := True, cr_lead_s := record_number r ''lead_s'' 0\<rparr> else c2)
      in if record_has r ''drift_ppm''
         then c3\<lparr>cr_has_drift := True, cr_drift_ppm := record_number r ''drift_ppm'' 0,
                 cr_drift_span_s := record_number r ''drift_span_s'' 0\<rparr>
         else c3)"

definition replay_sample :: "log_record \<Rightarrow> write_sample" where
  "replay_sample r =
     (let verified = record_flag r ''verified'' False in
      \<lparr>ws_wall = record_number r ''wall'' 0, ws_error_before_s = record_number r ''error_before_s'' 0,
       ws_error_after_s = record_number r ''error_after_s'' 0, ws_lead_used_s = record_number r ''lead_used_s'' 0,
       ws_latency_s = record_number r ''latency_s'' 0, ws_fps = to_int (record_number r ''fps'' 0),
       ws_bias = to_int (record_number r ''bias'' 0), ws_verified = verified,
       ws_timing_ok = record_flag r ''timing_ok'' verified,
       ws_measure_epoch = to_int (record_number r ''measure_epoch'' 0)\<rparr>)"

definition add_sample :: "nat \<Rightarrow> string \<Rightarrow> write_sample \<Rightarrow> camera_record \<Rightarrow> camera_record" where
  "add_sample max_samples i s c =
     c\<lparr>cr_id := if cr_id c = [] then i else cr_id c, cr_samples := keep_samples max_samples (cr_samples c @ [s])\<rparr>"

definition replay_line :: "nat \<Rightarrow> (string, camera_record) omap \<Rightarrow> string \<Rightarrow> (string, camera_record) omap" where
  "replay_line max_samples m line =
     (if line = [] then m
      else case parse_record line of
          None \<Rightarrow> m
        | Some r \<Rightarrow>
            let type = record_text r ''t'' []; i = record_text r ''id'' [] in
            if i = [] then m
            else if type = ''camera'' then om_put m i (replay_camera r i (record_at m i))
            else if type = ''write'' then om_put m i (add_sample max_samples i (replay_sample r) (record_at m i))
            else m)"

definition replay_camera_db :: "string \<Rightarrow> nat \<Rightarrow> (string, camera_record) omap" where
  "replay_camera_db text max_samples = foldl (replay_line max_samples) [] (text_lines text)"

section \<open>The database\<close>

record camdb_options =
  do_max_samples :: nat
  do_compact_min_bytes :: real
  do_compact_factor :: real

definition default_camdb_options :: camdb_options where
  "default_camdb_options = \<lparr>do_max_samples = 1000, do_compact_min_bytes = 64 * 1024, do_compact_factor = 2\<rparr>"

text \<open>\<open>db_open\<close> is whether the code holds the file, \<open>db_disk\<close> what the file holds.\<close>

record camdb =
  db_open :: bool
  db_disk :: string
  db_path :: string
  db_opt :: camdb_options
  db_cam :: "(string, camera_record) omap"
  db_bytes :: int
  db_compactions :: u64

text \<open>What the system does: each flag is whether the call succeeds, \<open>sy_part\<close> what a failed
  append left on the disk.\<close>

record system =
  sy_put :: bool
  sy_part :: string
  sy_tmp :: bool
  sy_write :: bool
  sy_rename :: bool
  sy_reopen :: bool
  sy_wall :: real
  sy_error :: string

definition db_close :: "camdb \<Rightarrow> camdb" where
  "db_close db = db\<lparr>db_open := False\<rparr>"

text \<open>\<open>there\<close> is what the file at the path holds, empty when there is none to read.\<close>

definition db_open_at :: "bool \<Rightarrow> string \<Rightarrow> camdb \<Rightarrow> string \<Rightarrow> string \<Rightarrow> camdb_options \<Rightarrow> camdb \<times> string option" where
  "db_open_at opened why db there path opt =
     (let db1 = (db_close db)\<lparr>db_cam := [], db_bytes := 0, db_path := path, db_opt := opt\<rparr> in
      if path = [] then (db1, None)
      else
        let db2 = db1\<lparr>db_cam := replay_camera_db there (do_max_samples opt), db_disk := there\<rparr> in
        if \<not> opened then (db2\<lparr>db_path := []\<rparr>, Some (''could not open '' @ path @ '': '' @ why))
        else (db2\<lparr>db_open := True, db_bytes := int (length there)\<rparr>, None))"

definition db_find :: "camdb \<Rightarrow> string \<Rightarrow> camera_record option" where
  "db_find db i = om_get (db_cam db) i"

definition record_lines :: "string \<times> camera_record \<Rightarrow> string list" where
  "record_lines kv = camera_line (snd kv) # map (write_line (fst kv)) (cr_samples (snd kv))"

definition live_bytes_estimate :: "camdb \<Rightarrow> real" where
  "live_bytes_estimate db =
     64 + real (sum_list (map (\<lambda>l. length l + 1) (concat (map record_lines (db_cam db)))))"

definition should_compact :: "camdb \<Rightarrow> bool" where
  "should_compact db =
     (if \<not> db_open db then False
      else if do_compact_factor (db_opt db) \<le> 1 then False
      else if of_int (db_bytes db) < do_compact_min_bytes (db_opt db) then False
      else live_bytes_estimate db * do_compact_factor (db_opt db) \<le> of_int (db_bytes db))"

definition compact_marker :: "real \<Rightarrow> camdb \<Rightarrow> string" where
  "compact_marker wall db = print_object
     [(''t'', json_quote ''compact''), (''wall'', fixed 3 wall), (''cameras'', show_nat (length (db_cam db))),
      (''samples'', show_nat (sum_list (map (\<lambda>kv. length (cr_samples (snd kv))) (db_cam db))))]"

definition compact_body :: "real \<Rightarrow> camdb \<Rightarrow> string" where
  "compact_body wall db = unlines (compact_marker wall db # concat (map record_lines (db_cam db)))"

definition db_compact :: "system \<Rightarrow> camdb \<Rightarrow> camdb \<times> string option" where
  "db_compact sy db =
     (if db_path db = [] then (db, None)
      else let tmp = db_path db @ ''.tmp'' in
        if \<not> sy_tmp sy then (db, Some (''could not open '' @ tmp @ '': '' @ sy_error sy))
        else if \<not> sy_write sy then (db, Some (''could not write '' @ tmp @ '': '' @ sy_error sy))
        else if \<not> sy_rename sy then
          (db\<lparr>db_open := sy_reopen sy\<rparr>, Some (''could not replace '' @ db_path db @ '': '' @ sy_error sy))
        else let db1 = db\<lparr>db_open := sy_reopen sy, db_disk := compact_body (sy_wall sy) db\<rparr> in
          if \<not> sy_reopen sy then (db1, Some (''could not reopen '' @ db_path db @ '': '' @ sy_error sy))
          else (db1\<lparr>db_bytes := int (length (compact_body (sy_wall sy) db)),
                    db_compactions := db_compactions db + 1\<rparr>, None))"

definition db_append :: "system \<Rightarrow> camdb \<Rightarrow> string \<Rightarrow> camdb \<times> string option" where
  "db_append sy db line =
     (if \<not> db_open db then (db, None)
      else if \<not> sy_put sy then
        (db\<lparr>db_disk := db_disk db @ sy_part sy\<rparr>, Some (''could not write '' @ db_path db @ '': '' @ sy_error sy))
      else
        let db1 = db\<lparr>db_disk := db_disk db @ line @ [CHR 0x0A], db_bytes := db_bytes db + int (length line) + 1\<rparr> in
        if should_compact db1 then db_compact sy db1 else (db1, None))"

definition db_forget :: "system \<Rightarrow> camdb \<Rightarrow> string \<Rightarrow> camdb \<times> string option" where
  "db_forget sy db i =
     (if om_get (db_cam db) i = None then (db, None)
      else let db1 = db\<lparr>db_cam := om_del (db_cam db) i\<rparr> in
        if \<not> db_open db1 then (db1, None) else db_compact sy db1)"

definition note_seen :: "system \<Rightarrow> camdb \<Rightarrow> string \<Rightarrow> string \<Rightarrow> int \<Rightarrow> bool \<Rightarrow> camdb \<times> string option" where
  "note_seen sy db i name fps new_session =
     (if i = [] then (db, None)
      else
        let c = record_at (db_cam db) i;
            c' = c\<lparr>cr_id := if cr_id c = [] then i else cr_id c,
                   cr_first_seen_wall := if cr_first_seen_wall c \<le> 0 then sy_wall sy else cr_first_seen_wall c,
                   cr_last_seen_wall := sy_wall sy,
                   cr_name := if name \<noteq> [] then name else cr_name c,
                   cr_fps := if 0 < fps then fps else cr_fps c,
                   cr_sessions := if new_session then cr_sessions c + 1 else cr_sessions c\<rparr>;
            db1 = db\<lparr>db_cam := om_put (db_cam db) i c'\<rparr>
        in if \<not> db_open db then (db1, None) else db_append sy db1 (camera_line c'))"

definition record_write :: "system \<Rightarrow> camdb \<Rightarrow> string \<Rightarrow> write_sample \<Rightarrow> camdb \<times> string option" where
  "record_write sy db i s =
     (if i = [] then (db, None)
      else
        let c = record_at (db_cam db) i;
            c' = c\<lparr>cr_id := if cr_id c = [] then i else cr_id c,
                   cr_first_seen_wall :=
                     if cr_first_seen_wall c \<le> 0 \<or> ws_wall s < cr_first_seen_wall c then ws_wall s else cr_first_seen_wall c,
                   cr_last_seen_wall := if cr_last_seen_wall c < ws_wall s then ws_wall s else cr_last_seen_wall c,
                   cr_fps := if 0 < ws_fps s then ws_fps s else cr_fps c,
                   cr_writes := cr_writes c + 1,
                   cr_samples := keep_samples (do_max_samples (db_opt db)) (cr_samples c @ [s])\<rparr>;
            db1 = db\<lparr>db_cam := om_put (db_cam db) i c'\<rparr>
        in if \<not> db_open db then (db1, None) else db_append sy db1 (write_line i s))"

text \<open>\<open>learn\<close>: each step takes the record and whether anything changed so far.\<close>

definition learn_bias :: "int option \<Rightarrow> camera_record \<times> bool \<Rightarrow> camera_record \<times> bool" where
  "learn_bias bias cc = (case bias of
     Some b \<Rightarrow> if \<not> cr_has_bias (fst cc) \<or> cr_bias (fst cc) \<noteq> b
              then ((fst cc)\<lparr>cr_has_bias := True, cr_bias := b\<rparr>, True) else cc
   | None \<Rightarrow> cc)"

definition learn_lead :: "real option \<Rightarrow> camera_record \<times> bool \<Rightarrow> camera_record \<times> bool" where
  "learn_lead lead cc = (case lead of
     Some l \<Rightarrow> if \<not> cr_has_lead (fst cc) \<or> 1 / 10000 < \<bar>cr_lead_s (fst cc) - l\<bar>
              then ((fst cc)\<lparr>cr_has_lead := True, cr_lead_s := l\<rparr>, True) else cc
   | None \<Rightarrow> cc)"

definition learn_drift :: "(real \<times> real) option \<Rightarrow> camera_record \<times> bool \<Rightarrow> camera_record \<times> bool" where
  "learn_drift drift cc = (case drift of
     Some (ppm, sp) \<Rightarrow>
       if \<not> cr_has_drift (fst cc) \<or> 5 / 100 < \<bar>cr_drift_ppm (fst cc) - ppm\<bar> \<or> cr_drift_span_s (fst cc) * 3 / 2 < sp
       then ((fst cc)\<lparr>cr_has_drift := True, cr_drift_ppm := ppm, cr_drift_span_s := sp\<rparr>, True) else cc
   | None \<Rightarrow> cc)"

definition db_learn ::
  "camdb \<Rightarrow> string \<Rightarrow> int option \<Rightarrow> real option \<Rightarrow> (real \<times> real) option \<Rightarrow> camdb \<times> bool" where
  "db_learn db i bias lead drift =
     (if i = [] then (db, False)
      else
        let c = record_at (db_cam db) i;
            (c', changed) = learn_drift drift (learn_lead lead (learn_bias bias
              (c\<lparr>cr_id := if cr_id c = [] then i else cr_id c\<rparr>, False)))
        in (db\<lparr>db_cam := om_put (db_cam db) i c'\<rparr>, changed))"

definition record_params :: "system \<Rightarrow> camdb \<Rightarrow> string \<Rightarrow> camdb \<times> string option" where
  "record_params sy db i =
     (if i = [] \<or> \<not> db_open db then (db, None)
      else case om_get (db_cam db) i of None \<Rightarrow> (db, None) | Some c \<Rightarrow> db_append sy db (camera_line c))"

end
