(* ===== verification/JsonLaws.thy ===== *)
theory JsonLaws
  imports Json
begin

text \<open>
  What the daemons write is what they read back: an escaped string is one value whatever is
  in it, an object printed field by field parses to those fields, and rotating moves every
  generation of a log up by one.
\<close>

section \<open>Strings\<close>

lemma low_hex: "\<forall>i \<in> set [0..<32]. hex2 (word_of_nat i) = [hex_lower ! (i div 16), hex_lower ! (i mod 16)]"
  by code_simp

definition low_digits :: "nat \<Rightarrow> nat \<Rightarrow> string" where
  "low_digits a b = [CHR ''0'', CHR ''0'', hex_lower ! a, hex_lower ! b]"

lemma low_value: "\<forall>a \<in> set [0..<2]. \<forall>b \<in> set [0..<16]. strtol16 (low_digits a b) = int (16 * a + b)"
  by code_simp

lemma low_quoteless: "\<forall>a \<in> set [0..<2]. \<forall>b \<in> set [0..<16]. list_all (\<lambda>c. c \<noteq> CHR 0x22 \<and> c \<noteq> CHR 0x5c \<and> c \<noteq> CHR 0x0a) (low_digits a b)"
  by code_simp

lemma unicode_low: "code c < 128 \<Longrightarrow> unicode_char (int (code c)) = c"
  by (simp add: unicode_char_def nat_mod_as_int)

lemma control_chars:
  assumes "code c < 0x20"
  defines "h \<equiv> [CHR ''0'', CHR ''0''] @ hex2 (word_of_nat (code c))"
  shows "unicode_char (strtol16 h) = c" and "length h = 4" and "CHR 0x22 \<notin> set h" and "CHR 0x5c \<notin> set h"
    and "CHR 0x0a \<notin> set h"
proof -
  have i: "code c \<in> set [0..<32]" "code c div 16 \<in> set [0..<2]" "code c mod 16 \<in> set [0..<16]"
    using assms(1) by auto
  have h: "h = low_digits (code c div 16) (code c mod 16)"
    using bspec[OF low_hex i(1)] by (simp add: h_def low_digits_def)
  have "strtol16 h = int (code c)"
    using bspec[OF bspec[OF low_value i(2)] i(3)] unfolding h by (simp flip: of_nat_mult of_nat_add)
  then show "unicode_char (strtol16 h) = c" using unicode_low[of c] assms(1) by simp
  show "CHR 0x22 \<notin> set h" "CHR 0x5c \<notin> set h" "CHR 0x0a \<notin> set h"
    using bspec[OF bspec[OF low_quoteless i(2)] i(3)] unfolding h by (auto simp: list_all_iff)
  show "length h = 4" by (simp add: h low_digits_def)
qed

lemma json_char_plain:
  assumes "\<not> (code c < 0x20 \<and> c \<noteq> CHR 0x0a \<and> c \<noteq> CHR 0x0d \<and> c \<noteq> CHR 0x09)"
    and "c \<noteq> CHR 0x22" "c \<noteq> CHR 0x5c" "c \<noteq> CHR 0x0a" "c \<noteq> CHR 0x0d" "c \<noteq> CHR 0x09"
  shows "json_char c = [c]"
  using assms by (auto simp: json_char_def)

text \<open>One escaped character is read by one round of the decoder, with the rest untouched.\<close>

lemma unquote_char:
  assumes "r \<noteq> []"
  shows "unquote (json_char c @ r) = map_option ((#) c) (unquote r)"
proof (cases "code c < 0x20 \<and> c \<noteq> CHR 0x0a \<and> c \<noteq> CHR 0x0d \<and> c \<noteq> CHR 0x09")
  case True
  let ?h = "[CHR ''0'', CHR ''0''] @ hex2 (word_of_nat (code c))"
  have h: "unicode_char (strtol16 ?h) = c" "length ?h = 4"
    using control_chars[of c] True by simp_all
  obtain a b where ab: "hex2 (word_of_nat (code c)) = [a, b]" by (simp add: hex2_def)
  have "c \<noteq> CHR 0x22" "c \<noteq> CHR 0x5c" using True by auto
  then have "json_char c = [CHR 0x5c, CHR ''u''] @ ?h" using True by (simp add: json_char_def)
  then show ?thesis using h assms by (cases r) (simp_all add: ab plain_escape_def numeral_eq_Suc)
next
  case False
  then consider "c = CHR 0x22" | "c = CHR 0x5c" | "c = CHR 0x0a" | "c = CHR 0x0d" | "c = CHR 0x09"
    | "json_char c = [c]" "c \<noteq> CHR 0x5c"
    using json_char_plain[OF False] by blast
  then show ?thesis using assms
  proof cases
    case 6
    then show ?thesis using assms by (cases r) simp_all
  qed (simp_all add: json_char_def plain_escape_def)
qed

lemma unquote_escape: "unquote (json_escape s @ [q]) = Some s"
  by (induction s) (simp_all add: json_escape_def unquote_char)

lemma json_string_quote: "json_string (json_quote s) = Some s"
  by (simp add: json_string_def json_quote_def unquote_escape)

lemma before_rest_simps [simp]:
  "before_rest p (Some (a, b)) = Some (p @ a, b)" "before_rest p None = None"
  by (simp_all add: before_rest_def)

lemma scan_str_plain: "c \<noteq> CHR 0x5c \<Longrightarrow> c \<noteq> CHR 0x22 \<Longrightarrow> scan_str (c # r) = before_rest [c] (scan_str r)"
  by (cases r) simp_all

lemma before_rest_before: "before_rest p (before_rest q x) = before_rest (p @ q) x"
  by (cases x) (auto simp: before_rest_def)

lemma scan_str_char: "r \<noteq> [] \<Longrightarrow> scan_str (json_char c @ r) = before_rest (json_char c) (scan_str r)"
proof (cases "code c < 0x20 \<and> c \<noteq> CHR 0x0a \<and> c \<noteq> CHR 0x0d \<and> c \<noteq> CHR 0x09")
  case True
  let ?h = "[CHR ''0'', CHR ''0''] @ hex2 (word_of_nat (code c))"
  have h: "CHR 0x22 \<notin> set ?h" "CHR 0x5c \<notin> set ?h"
    using control_chars[of c] True by simp_all
  have p: "scan_str (h @ r) = before_rest h (scan_str r)" if "CHR 0x22 \<notin> set h" "CHR 0x5c \<notin> set h" for h
    using that
  proof (induction h)
    case Nil
    then show ?case by (cases "scan_str r") (auto simp: before_rest_def)
  next
    case (Cons c h)
    then have "c \<noteq> CHR 0x22" "c \<noteq> CHR 0x5c" "scan_str (h @ r) = before_rest h (scan_str r)" by auto
    then show ?case by (simp add: scan_str_plain before_rest_before)
  qed
  have "c \<noteq> CHR 0x22" "c \<noteq> CHR 0x5c" using True by auto
  then have j: "json_char c = [CHR 0x5c, CHR ''u''] @ ?h" using True by (simp add: json_char_def)
  show ?thesis using p[OF h] unfolding j by (simp add: before_rest_before)
next
  case False
  assume "r \<noteq> []"
  consider "c = CHR 0x22" | "c = CHR 0x5c" | "c = CHR 0x0a" | "c = CHR 0x0d" | "c = CHR 0x09"
    | "json_char c = [c]" "c \<noteq> CHR 0x5c" "c \<noteq> CHR 0x22"
    using json_char_plain[OF False] by blast
  then show ?thesis by cases (simp_all add: json_char_def scan_str_plain)
qed

lemma scan_str_escape: "scan_str (json_escape s @ CHR 0x22 # rest) = Some (json_escape s @ [CHR 0x22], rest)"
proof (induction s)
  case Nil
  show ?case by (cases rest) (simp_all add: json_escape_def)
next
  case (Cons c s)
  have "json_escape (c # s) = json_char c @ json_escape s" by (simp add: json_escape_def)
  then show ?case using Cons by (simp add: scan_str_char)
qed

lemma json_space_not_quote: "\<not> json_space (CHR 0x22)" "\<not> json_space (CHR ''{'')" "\<not> json_space (CHR '','')"
    "\<not> json_space (CHR ''}'')" "\<not> json_space (CHR '':'')"
  by (simp_all add: json_space_def)

lemma scan_value_quote: "scan_value (json_quote s @ rest) = Some (json_quote s, rest)"
  by (simp add: scan_value_def json_quote_def skip_space_def json_space_not_quote scan_str_escape)

text \<open>
  C32. A name cannot break out of its quotes: whatever bytes it has, quotes, backslashes and
  control characters included, and whatever follows, the scanner takes the quoted form of the
  name as one value and decodes it to the name.
\<close>

theorem quoted_name_is_one_value:
  "scan_value (json_quote s @ rest) = Some (json_quote s, rest) \<and> json_string (json_quote s) = Some s"
  by (simp add: scan_value_quote json_string_quote)

text \<open>The guard against a backslash at the end never fires, so a lone escaped quote is accepted.\<close>

lemma unterminated_string_accepted:
  "json_string [CHR 0x22, CHR 0x5c, CHR 0x22] = Some [CHR 0x22] \<and>
   scan_value [CHR 0x22, CHR 0x5c, CHR 0x22] = None"
  by code_simp

section \<open>Objects\<close>

definition delimited :: "string \<Rightarrow> bool" where
  "delimited v = (\<forall>c rest. c = CHR '','' \<or> c = CHR ''}'' \<longrightarrow> scan_value (v @ c # rest) = Some (v, c # rest))"

lemma delimited_quote: "delimited (json_quote s)"
  by (simp add: delimited_def scan_value_quote)

definition bare_char :: "char \<Rightarrow> bool" where
  "bare_char c = (\<not> bare_end c \<and> \<not> json_space c \<and> c \<noteq> CHR 0x22 \<and> c \<noteq> CHR ''{'' \<and> c \<noteq> CHR ''['')"

lemma delimited_bare:
  assumes "v \<noteq> []" "\<forall>c \<in> set v. bare_char c"
  shows "delimited v"
  unfolding delimited_def
proof (intro allI impI)
  fix c :: char and rest :: string
  assume c: "c = CHR '','' \<or> c = CHR ''}''"
  obtain a t where v: "v = a # t" using assms(1) by (cases v) auto
  have ne: "\<forall>x \<in> set v. \<not> bare_end x" using assms(2) by (simp add: bare_char_def)
  have e: "bare_end c" using c by (auto simp: bare_end_def)
  have tw: "takeWhile (\<lambda>c. \<not> bare_end c) (v @ c # rest) = v" "dropWhile (\<lambda>c. \<not> bare_end c) (v @ c # rest) = c # rest"
    using ne e by (simp_all add: takeWhile_append takeWhile_eq_all_conv dropWhile_append)
  have "trim_end v = v"
  proof -
    obtain z u where z: "rev v = z # u" using assms(1) by (cases "rev v") auto
    have "z \<in> set (rev v)" unfolding z by simp
    then have "z \<in> set v" by simp
    then have "\<not> (z = CHR '' '' \<or> z = CHR 0x09)" using assms(2) by (auto simp: bare_char_def json_space_def)
    then have "dropWhile (\<lambda>c. c = CHR '' '' \<or> c = CHR 0x09) (rev v) = rev v" unfolding z by simp
    then show ?thesis by (simp add: trim_end_def)
  qed
  then show "scan_value (v @ c # rest) = Some (v, c # rest)"
    using assms(2) tw by (simp add: scan_value_def skip_space_def v bare_char_def Let_def)
qed

definition quotable_key :: "string \<Rightarrow> bool" where
  "quotable_key k = (json_escape k = k)"

definition put_fields :: "log_record \<Rightarrow> (string \<times> string) list \<Rightarrow> log_record" where
  "put_fields m fs = foldl (\<lambda>m (k, v). om_put m k v) m fs"

lemma scan_pairs_field:
  assumes "quotable_key k" "delimited v" "c = CHR '','' \<or> c = CHR ''}''"
  shows "scan_pairs (print_field (k, v) @ c # rest) out =
    (if c = CHR '','' then scan_pairs rest (om_put out k v) else (True, om_put out k v))"
proof -
  have k: "CHR 0x22 # k @ [CHR 0x22] = json_quote k" using assms(1) by (simp add: json_quote_def quotable_key_def)
  have p: "print_field (k, v) @ c # rest = json_quote k @ CHR '':'' # v @ c # rest"
    unfolding k[symmetric] by (simp add: print_field_def)
  have h: "skip_space (json_quote k @ t) = json_quote k @ t" "json_quote k @ t \<noteq> []" "hd (json_quote k @ t) = CHR 0x22" for t
    by (simp_all add: json_quote_def skip_space_def json_space_not_quote)
  have v: "scan_value (v @ c # rest) = Some (v, c # rest)" using assms(2,3) by (simp only: delimited_def)
  have s: "skip_space (CHR '':'' # t) = CHR '':'' # t" "skip_space (CHR '','' # t) = CHR '','' # t"
      "skip_space (CHR ''}'' # t) = CHR ''}'' # t" for t
    by (simp_all add: skip_space_def json_space_not_quote)
  show ?thesis unfolding p
    by (subst scan_pairs.simps)
       (use assms(3) in \<open>auto simp: h scan_value_quote json_string_quote s v Let_def\<close>)
qed

lemma scan_pairs_fields:
  assumes "\<forall>f \<in> set fs. quotable_key (fst f) \<and> delimited (snd f)" "fs \<noteq> []"
  shows "scan_pairs (print_fields fs @ CHR ''}'' # rest) out = (True, put_fields out fs)"
  using assms
proof (induction fs arbitrary: out rule: print_fields.induct)
  case (2 f)
  then show ?case by (cases f) (simp add: scan_pairs_field put_fields_def)
next
  case (3 f g fs)
  then show ?case by (cases f) (simp add: scan_pairs_field put_fields_def)
qed simp

lemma parse_record_print:
  assumes "\<forall>f \<in> set fs. quotable_key (fst f) \<and> delimited (snd f)"
  shows "parse_record (print_object fs @ rest) = Some (put_fields [] fs)"
proof (cases fs)
  case Nil
  then show ?thesis
    by (simp add: parse_record_def scan_members_def print_object_def skip_space_def json_space_not_quote put_fields_def)
next
  case (Cons f fs')
  then have q: "print_fields fs = CHR 0x22 # tl (print_fields fs)" by (cases fs') (simp_all add: print_field_def)
  have "skip_space (print_fields fs @ t) = print_fields fs @ t" "hd (print_fields fs @ t) \<noteq> CHR ''}''" for t
    by (subst (1 2) q, simp add: skip_space_def json_space_not_quote) (subst q, simp)
  then show ?thesis using scan_pairs_fields[OF assms, of rest "[]"] Cons
    by (simp add: parse_record_def scan_members_def print_object_def skip_space_def json_space_not_quote)
qed

lemma om_get_put_fields: "om_get (put_fields m fs) k = (case map_of (rev fs) k of Some v \<Rightarrow> Some v | None \<Rightarrow> om_get m k)"
  unfolding put_fields_def
  by (induction fs arbitrary: m) (auto simp: om_get_put map_add_def split: option.splits)

section \<open>Rotation\<close>

lemma generation_inj: "generation path i = generation path j \<longleftrightarrow> i = j"
  by (metis show_nat_value generation_def append_same_eq same_append_eq)

lemma generation_not_path: "generation path i \<noteq> path"
  by (simp add: generation_def)

lemma rename_get:
  "a \<noteq> b \<Longrightarrow> fs b = None \<Longrightarrow>
   rename_file fs a b f = (if f = b then fs a else if f = a then None else fs f)"
  by (auto simp: rename_file_def split: option.splits)

lemma shift_down_get:
  assumes "fs (generation path (Suc n)) = None"
  shows "(\<forall>j. 1 \<le> j \<and> j \<le> n \<longrightarrow> shift_down path n fs (generation path (Suc j)) = fs (generation path j)) \<and>
    shift_down path n fs (generation path 1) = None \<and>
    (\<forall>f. f \<notin> generation path ` {1..Suc n} \<longrightarrow> shift_down path n fs f = fs f)"
  using assms
proof (induction n arbitrary: fs)
  case 0
  then show ?case by simp
next
  case (Suc n)
  define gs where "gs = rename_file fs (generation path (Suc n)) (generation path (Suc (Suc n)))"
  have g: "gs f = (if f = generation path (Suc (Suc n)) then fs (generation path (Suc n))
      else if f = generation path (Suc n) then None else fs f)" for f
    unfolding gs_def using Suc.prems by (intro rename_get) (simp_all add: generation_inj)
  have none: "gs (generation path (Suc n)) = None" by (simp add: g generation_inj)
  note ih = Suc.IH[of gs, OF none]
  have r: "shift_down path (Suc n) fs = shift_down path n gs" by (simp add: gs_def)
  have out: "shift_down path n gs f = gs f" if "f \<notin> generation path ` {1..Suc n}" for f using ih that by blast
  have top: "shift_down path n gs (generation path (Suc (Suc n))) = fs (generation path (Suc n))"
    by (subst out) (auto simp: generation_inj g[of "generation path (Suc (Suc n))"])
  have mid: "shift_down path n gs (generation path (Suc j)) = fs (generation path j)" if "1 \<le> j" "j \<le> n" for j
  proof -
    have "shift_down path n gs (generation path (Suc j)) = gs (generation path j)" using ih that by blast
    then show ?thesis using that by (simp add: g[of "generation path j"] generation_inj)
  qed
  have rest: "shift_down path n gs f = fs f" if "f \<notin> generation path ` {1..Suc (Suc n)}" for f
  proof -
    have n: "f \<notin> generation path ` {1..Suc n}" "f \<noteq> generation path (Suc (Suc n))" "f \<noteq> generation path (Suc n)"
      using that by (auto simp: image_iff)
    show ?thesis using out[OF n(1)] n(2,3) by (simp add: g[of f])
  qed
  have "shift_down path n gs (generation path 1) = None" using ih by blast
  then show ?case unfolding r using top mid rest by (auto simp: le_Suc_eq)
qed

text \<open>
  Rotation moves history aside and loses only the oldest: the live file becomes the first
  generation, every generation the next, the one past the last kept is gone, and no other
  file is touched, whether or not all the generations exist.
\<close>

theorem rotation_shifts:
  assumes "0 < keep"
  shows "rotate_files path keep fs (generation path 1) = fs path \<and> rotate_files path keep fs path = None \<and>
    (\<forall>j. 1 \<le> j \<and> j < nat keep \<longrightarrow> rotate_files path keep fs (generation path (Suc j)) = fs (generation path j)) \<and>
    (\<forall>f. f \<noteq> path \<and> f \<notin> generation path ` {1..nat keep} \<longrightarrow> rotate_files path keep fs f = fs f)"
proof -
  define gs where "gs = fs(generation path (nat keep) := None)"
  have k: "Suc (nat keep - 1) = nat keep" using assms by simp
  have none: "gs (generation path (Suc (nat keep - 1))) = None" unfolding k by (simp add: gs_def)
  note sh = shift_down_get[of gs, OF none]
  have one: "shift_down path (nat keep - 1) gs (generation path 1) = None" using sh by blast
  have gs: "gs path = fs path" using generation_not_path[of path "nat keep"] by (auto simp: gs_def)
  have p: "shift_down path (nat keep - 1) gs path = fs path"
    using sh gs generation_not_path[of path] by (metis imageE)
  have r: "rotate_files path keep fs f =
      (if f = generation path 1 then fs path else if f = path then None else shift_down path (nat keep - 1) gs f)" for f
    using assms rename_get[of path "generation path 1" "shift_down path (nat keep - 1) gs" f] one p
      generation_not_path[of path 1]
    by (auto simp: rotate_files_def gs_def)
  have moved: "rotate_files path keep fs (generation path (Suc j)) = fs (generation path j)"
    if "1 \<le> j" "j < nat keep" for j
  proof -
    have "shift_down path (nat keep - 1) gs (generation path (Suc j)) = gs (generation path j)"
      using sh that by auto
    then show ?thesis using that generation_not_path[of path "Suc j"] by (simp add: r generation_inj gs_def)
  qed
  have kept: "rotate_files path keep fs f = fs f" if "f \<noteq> path" "f \<notin> generation path ` {1..nat keep}" for f
  proof -
    have "f \<noteq> generation path 1" "f \<noteq> generation path (nat keep)" using that assms by auto
    then show ?thesis using sh that unfolding r k by (simp add: gs_def)
  qed
  show ?thesis using moved kept generation_not_path[of path 1] by (auto simp: r)
qed

theorem rotation_shifts_witness:
  "rotate_files ''log'' 2 [''log'' \<mapsto> ''new'', ''log.1'' \<mapsto> ''old'', ''x'' \<mapsto> ''y''] (generation ''log'' 1) = Some ''new'' \<and>
   rotate_files ''log'' 2 [''log'' \<mapsto> ''new'', ''log.1'' \<mapsto> ''old'', ''x'' \<mapsto> ''y''] (generation ''log'' 2) = Some ''old''"
proof -
  have g: "generation ''log'' 1 = ''log.1''" by code_simp
  show ?thesis
    using rotation_shifts[of 2 "''log''" "[''log'' \<mapsto> ''new'', ''log.1'' \<mapsto> ''old'', ''x'' \<mapsto> ''y'']"] g
    by (simp add: numeral_2_eq_2)
qed

end
