(* ===== verification/CamDbLaws.thy ===== *)
theory CamDbLaws
  imports CamDb JsonLaws
begin

text \<open>
  What the camera database guarantees: a compacted file replays to what memory holds, to the
  decimals printed; history is bounded per body; only fair measurements teach the lead.
\<close>

section \<open>Values that come back\<close>

lemma digits_bare: "is_digit c \<Longrightarrow> bare_char c"
  by (auto simp: is_digit_def bare_char_def bare_end_def json_space_def)

lemma sign_bare: "bare_char (CHR ''-'')" "bare_char (CHR ''.'')"
  by (simp_all add: bare_char_def bare_end_def json_space_def)

lemma show_nat_bare: "\<forall>c \<in> set (show_nat n). bare_char c"
  using show_nat_digits digits_bare by blast

lemma show_int_bare: "\<forall>c \<in> set (show_int i). bare_char c"
  using show_nat_bare sign_bare by (simp add: show_int_def)

lemma fixed_bare: "\<forall>c \<in> set (fixed d x). bare_char c"
proof -
  have "\<forall>c \<in> set (pad_zeros d (show_nat n)). bare_char c" for n
    using pad_zeros_digits[OF show_nat_digits] digits_bare by blast
  then show ?thesis using show_nat_bare sign_bare by (auto simp: fixed_def Let_def)
qed

lemma show_int_ne: "show_int i \<noteq> []" and fixed_ne: "fixed d x \<noteq> []"
  by (simp_all add: show_int_def fixed_def Let_def show_nat_ne)

lemma delimited_values [simp]:
  "delimited (json_quote s)" "delimited (show_nat n)" "delimited (show_int i)" "delimited (fixed d x)"
  "delimited (bool_text b)"
  by (simp_all add: delimited_quote delimited_bare show_nat_ne show_nat_bare show_int_ne show_int_bare fixed_ne
      fixed_bare bool_text_def) (simp add: delimited_bare bare_char_def bare_end_def json_space_def)

lemma strtod_show_nat: "strtod (show_nat n) = Some (real n, [])"
proof -
  obtain c t where ct: "show_nat n = c # t" and c: "is_digit c" using show_nat_head by blast
  have "split_sign (dropWhile is_space (show_nat n)) = (False, show_nat n)"
    using ct digit_not_sign[OF c] by (simp add: split_sign_def)
  then show ?thesis
    by (simp add: strtod_def show_nat_span show_nat_value show_nat_ne Let_def exponent_def ten_to_def)
qed

lemma strtod_show_int: "strtod (show_int i) = Some (of_int i, [])"
proof (cases "i < 0")
  case True
  have "\<not> is_space (CHR ''-'')" by (simp add: is_space_def)
  then have "split_sign (dropWhile is_space (show_int i)) = (True, show_nat (nat (- i)))"
    using True by (simp add: show_int_def split_sign_def)
  then show ?thesis using True
    by (simp add: strtod_def show_nat_span show_nat_value show_nat_ne Let_def exponent_def ten_to_def)
next
  case False
  then show ?thesis by (simp add: show_int_def strtod_show_nat)
qed

definition number_text :: "string \<Rightarrow> real \<Rightarrow> bool" where
  "number_text v x = (v \<noteq> [] \<and> hd v \<noteq> CHR 0x22 \<and> hd v \<noteq> CHR ''{'' \<and> hd v \<noteq> CHR ''['' \<and>
     takeWhile (\<lambda>c. c \<noteq> CHR 0x00) v = v \<and> strtod v = Some (x, []))"

lemma bare_hd: "v \<noteq> [] \<Longrightarrow> \<forall>c \<in> set v. bare_char c \<Longrightarrow> hd v \<noteq> CHR 0x22 \<and> hd v \<noteq> CHR ''{'' \<and> hd v \<noteq> CHR ''[''"
  by (cases v) (auto simp: bare_char_def)

lemma number_texts:
  "number_text (show_nat n) (real n)" "number_text (show_int i) (of_int i)"
  "0 < d \<Longrightarrow> number_text (fixed d x) (rounded d x)"
proof -
  have n: "takeWhile (\<lambda>c. c \<noteq> CHR 0x00) (show_nat n) = show_nat n"
    using show_nat_digits digit_not_sign by (simp add: takeWhile_eq_all_conv)
  show "number_text (show_nat n) (real n)" unfolding number_text_def
    using bare_hd[OF show_nat_ne show_nat_bare, of n] n by (simp add: show_nat_ne strtod_show_nat)
  show "number_text (show_int i) (of_int i)" unfolding number_text_def
    using bare_hd[OF show_int_ne show_int_bare, of i] by (simp add: show_int_ne show_int_no_nul strtod_show_int)
  show "number_text (fixed d x) (rounded d x)" if "0 < d" unfolding number_text_def
    using bare_hd[OF fixed_ne fixed_bare, of d x] strtod_fixed[OF that, of "[]" x]
    by (simp add: fixed_ne fixed_no_nul stops_def)
qed

lemma number_of_text: "om_get r k = Some v \<Longrightarrow> number_text v x \<Longrightarrow> record_number r k fb = x"
  by (simp only: record_number_def number_text_def option.case) simp

lemma number_absent: "om_get r k = None \<Longrightarrow> record_number r k fb = fb"
  by (simp add: record_number_def)

lemma text_of_quote: "om_get r k = Some (json_quote s) \<Longrightarrow> record_text r k fb = s"
  by (simp add: record_text_def json_string_quote)

lemma flag_of_text: "om_get r k = Some (bool_text b) \<Longrightarrow> record_flag r k fb = b"
  by (simp add: record_flag_def bool_text_def)

lemma to_int_of_int [simp]: "to_int (of_int i) = i" "to_int (real n) = int n"
  by (simp_all add: to_int_def)

lemma to_int_unsigned [simp]: "to_int (unsigned (w :: u64)) = uint w"
  using to_int_of_int(2)[of "unat w"] by simp

section \<open>Replaying one line\<close>

definition rounded_record :: "camera_record \<Rightarrow> camera_record" where
  "rounded_record r = r\<lparr>cr_first_seen_wall := rounded 3 (cr_first_seen_wall r),
     cr_last_seen_wall := rounded 3 (cr_last_seen_wall r),
     cr_bias := if cr_has_bias r then cr_bias r else 0,
     cr_lead_s := if cr_has_lead r then rounded 6 (cr_lead_s r) else 0,
     cr_drift_ppm := if cr_has_drift r then rounded 3 (cr_drift_ppm r) else 0,
     cr_drift_span_s := if cr_has_drift r then rounded 1 (cr_drift_span_s r) else 0\<rparr>"

definition rounded_sample :: "write_sample \<Rightarrow> write_sample" where
  "rounded_sample s = s\<lparr>ws_wall := rounded 3 (ws_wall s), ws_error_before_s := rounded 6 (ws_error_before_s s),
     ws_error_after_s := rounded 6 (ws_error_after_s s), ws_lead_used_s := rounded 6 (ws_lead_used_s s),
     ws_latency_s := rounded 6 (ws_latency_s s)\<rparr>"

lemma plain_keys [simp]:
  "quotable_key ''t''" "quotable_key ''id''" "quotable_key ''name''" "quotable_key ''first_wall''" "quotable_key ''last_wall''"
  "quotable_key ''sessions''" "quotable_key ''writes''" "quotable_key ''fps''" "quotable_key ''bias''" "quotable_key ''lead_s''"
  "quotable_key ''drift_ppm''" "quotable_key ''drift_span_s''" "quotable_key ''wall''" "quotable_key ''error_before_s''"
  "quotable_key ''error_after_s''" "quotable_key ''lead_used_s''" "quotable_key ''latency_s''" "quotable_key ''verified''"
  "quotable_key ''timing_ok''" "quotable_key ''measure_epoch''" "quotable_key ''cameras''" "quotable_key ''samples''"
  by (simp_all add: quotable_key_def json_escape_def json_char_def)

lemma parse_printed:
  assumes "\<forall>f \<in> set fs. quotable_key (fst f) \<and> delimited (snd f)"
  shows "\<exists>r. parse_record (print_object fs) = Some r \<and> (\<forall>k. om_get r k = map_of (rev fs) k)"
  using parse_record_print[OF assms, of "[]"] om_get_put_fields[of "[]" fs]
  by (auto split: option.split)

lemma camera_fields_ok: "\<forall>f \<in> set (camera_fields c). quotable_key (fst f) \<and> delimited (snd f)"
  by (auto simp: camera_fields_def)

lemma write_fields_ok: "\<forall>f \<in> set (write_fields i s). quotable_key (fst f) \<and> delimited (snd f)"
  by (simp add: write_fields_def)

lemma camera_values:
  "map_of (rev (camera_fields c)) ''t'' = Some (json_quote ''camera'')"
  "map_of (rev (camera_fields c)) ''id'' = Some (json_quote (cr_id c))"
  "map_of (rev (camera_fields c)) ''name'' = Some (json_quote (cr_name c))"
  "map_of (rev (camera_fields c)) ''first_wall'' = Some (fixed 3 (cr_first_seen_wall c))"
  "map_of (rev (camera_fields c)) ''last_wall'' = Some (fixed 3 (cr_last_seen_wall c))"
  "map_of (rev (camera_fields c)) ''sessions'' = Some (show_nat (unat (cr_sessions c)))"
  "map_of (rev (camera_fields c)) ''writes'' = Some (show_nat (unat (cr_writes c)))"
  "map_of (rev (camera_fields c)) ''fps'' = Some (show_int (cr_fps c))"
  "map_of (rev (camera_fields c)) ''bias'' = (if cr_has_bias c then Some (show_int (cr_bias c)) else None)"
  "map_of (rev (camera_fields c)) ''lead_s'' = (if cr_has_lead c then Some (fixed 6 (cr_lead_s c)) else None)"
  "map_of (rev (camera_fields c)) ''drift_ppm'' = (if cr_has_drift c then Some (fixed 3 (cr_drift_ppm c)) else None)"
  "map_of (rev (camera_fields c)) ''drift_span_s'' = (if cr_has_drift c then Some (fixed 1 (cr_drift_span_s c)) else None)"
  by (cases "cr_has_bias c"; cases "cr_has_lead c"; cases "cr_has_drift c"; simp add: camera_fields_def)+

lemma write_values:
  "map_of (rev (write_fields i s)) ''t'' = Some (json_quote ''write'')"
  "map_of (rev (write_fields i s)) ''id'' = Some (json_quote i)"
  "map_of (rev (write_fields i s)) ''wall'' = Some (fixed 3 (ws_wall s))"
  "map_of (rev (write_fields i s)) ''error_before_s'' = Some (fixed 6 (ws_error_before_s s))"
  "map_of (rev (write_fields i s)) ''error_after_s'' = Some (fixed 6 (ws_error_after_s s))"
  "map_of (rev (write_fields i s)) ''lead_used_s'' = Some (fixed 6 (ws_lead_used_s s))"
  "map_of (rev (write_fields i s)) ''latency_s'' = Some (fixed 6 (ws_latency_s s))"
  "map_of (rev (write_fields i s)) ''fps'' = Some (show_int (ws_fps s))"
  "map_of (rev (write_fields i s)) ''bias'' = Some (show_int (ws_bias s))"
  "map_of (rev (write_fields i s)) ''verified'' = Some (bool_text (ws_verified s))"
  "map_of (rev (write_fields i s)) ''timing_ok'' = Some (bool_text (ws_timing_ok s))"
  "map_of (rev (write_fields i s)) ''measure_epoch'' = Some (show_int (ws_measure_epoch s))"
  by (simp_all add: write_fields_def)

lemma print_object_ne: "print_object fs \<noteq> []" by (simp add: print_object_def)

lemma replay_camera_line:
  assumes i: "cr_id c \<noteq> []" and fresh: "om_get m (cr_id c) = None"
  shows "replay_line n m (camera_line c) = om_put m (cr_id c) (rounded_record c\<lparr>cr_samples := []\<rparr>)"
proof -
  obtain r where r: "parse_record (camera_line c) = Some r" and g: "\<And>k. om_get r k = map_of (rev (camera_fields c)) k"
    unfolding camera_line_def using parse_printed[OF camera_fields_ok] by blast
  note v = camera_values[of c, folded g]
  have "record_text r ''t'' [] = ''camera''" "record_text r ''id'' [] = cr_id c" using v by (simp_all add: text_of_quote)
  moreover have "replay_camera r (cr_id c) new_record = rounded_record c\<lparr>cr_samples := []\<rparr>"
    using v
    by (cases c) (simp add: replay_camera_def record_has_def text_of_quote number_of_text[OF _ number_texts(1)]
        number_of_text[OF _ number_texts(2)] number_of_text[OF _ number_texts(3)] rounded_record_def new_record_def Let_def)
  moreover have "record_at m (cr_id c) = new_record" using fresh by (simp add: record_at_def)
  ultimately show ?thesis using r i by (simp add: replay_line_def camera_line_def print_object_ne)
qed

lemma replay_write_line:
  assumes i: "i \<noteq> []"
  shows "replay_line n m (write_line i s) = om_put m i (add_sample n i (rounded_sample s) (record_at m i))"
proof -
  obtain r where r: "parse_record (write_line i s) = Some r" and g: "\<And>k. om_get r k = map_of (rev (write_fields i s)) k"
    unfolding write_line_def using parse_printed[OF write_fields_ok] by blast
  note v = write_values[of i s, folded g]
  have "record_text r ''t'' [] = ''write''" "record_text r ''id'' [] = i" using v by (simp_all add: text_of_quote)
  moreover have "replay_sample r = rounded_sample s"
    using v
    by (cases s) (simp add: replay_sample_def flag_of_text number_of_text[OF _ number_texts(2)]
        number_of_text[OF _ number_texts(3)] rounded_sample_def Let_def)
  ultimately show ?thesis using r i by (simp add: replay_line_def write_line_def print_object_ne)
qed

section \<open>Replaying a compacted file\<close>

definition reread :: "camera_record \<Rightarrow> camera_record" where
  "reread c = rounded_record c\<lparr>cr_samples := map rounded_sample (cr_samples c)\<rparr>"

definition record_ok :: "nat \<Rightarrow> string \<times> camera_record \<Rightarrow> bool" where
  "record_ok n kv = (fst kv \<noteq> [] \<and> cr_id (snd kv) = fst kv \<and> (0 < n \<longrightarrow> length (cr_samples (snd kv)) \<le> n))"

definition cam_ok :: "nat \<Rightarrow> (string, camera_record) omap \<Rightarrow> bool" where
  "cam_ok n m = (om_ok m \<and> (\<forall>kv \<in> set m. record_ok n kv))"

lemma om_put_put: "om_put (om_put m k v) k w = om_put m k w"
  by (induction m k v rule: om_put.induct) auto

lemma record_at_put [simp]: "record_at (om_put m i c) i = c"
  by (simp add: record_at_def om_get_put)

lemma replay_writes:
  assumes "i \<noteq> []" "cr_id d \<noteq> []" "0 < n \<longrightarrow> length (cr_samples d) + length ss \<le> n"
  shows "foldl (replay_line n) (om_put m i d) (map (write_line i) ss) =
    om_put m i (d\<lparr>cr_samples := cr_samples d @ map rounded_sample ss\<rparr>)"
  using assms
proof (induction ss arbitrary: d)
  case (Cons s ss)
  have "add_sample n i (rounded_sample s) d = d\<lparr>cr_samples := cr_samples d @ [rounded_sample s]\<rparr>"
    using Cons.prems by (auto simp: add_sample_def keep_samples_def)
  then show ?case
    using Cons.IH[of "d\<lparr>cr_samples := cr_samples d @ [rounded_sample s]\<rparr>"] Cons.prems
    by (simp add: replay_write_line om_put_put)
qed simp

lemma replay_record_lines:
  assumes "record_ok n (i, c)" "om_get m i = None"
  shows "foldl (replay_line n) m (record_lines (i, c)) = om_put m i (reread c)"
  using replay_writes[of i "rounded_record c\<lparr>cr_samples := []\<rparr>" n "cr_samples c" m] assms
    replay_camera_line[of c m n]
  by (simp add: record_lines_def record_ok_def reread_def rounded_record_def)

lemma replay_records:
  assumes "om_ok (m @ kvs)" "\<forall>kv \<in> set kvs. record_ok n kv"
  shows "foldl (replay_line n) m (concat (map record_lines kvs)) = m @ om_map reread kvs"
  using assms
proof (induction kvs arbitrary: m)
  case Nil
  then show ?case by (simp add: om_map_def)
next
  case (Cons kv kvs)
  obtain i c where kv: "kv = (i, c)" by (cases kv)
  have keys: "sorted (map fst m @ i # map fst kvs)" "distinct (map fst m @ i # map fst kvs)"
    using Cons.prems(1) by (simp_all add: om_ok_def kv)
  then have k: "om_ok ((m @ [(i, reread c)]) @ kvs)" by (simp add: om_ok_def)
  have i: "\<forall>e \<in> set m. fst e < i"
  proof
    fix e assume e: "e \<in> set m"
    then have "fst e \<le> i" using keys(1) by (auto simp: sorted_append)
    moreover have "fst e \<noteq> i" using keys(2) e by auto
    ultimately show "fst e < i" by simp
  qed
  have "i \<notin> fst ` set m" using keys(2) by auto
  then have "om_get m i = None" by (simp add: map_of_eq_None_iff)
  with Cons.prems(2) have "foldl (replay_line n) m (record_lines (i, c)) = m @ [(i, reread c)]"
    using replay_record_lines[of n i c m] om_put_snoc[OF i] by (simp add: kv)
  then show ?case using Cons.IH[OF k] Cons.prems(2) by (simp add: kv om_map_def)
qed

lemma quote_no_newline: "no_newline (json_quote s)"
proof -
  have "CHR 0x0a \<notin> set (json_char c)" for c
  proof (cases "code c < 0x20")
    case True
    then show ?thesis using control_chars(5)[OF True] by (auto simp: json_char_def)
  next
    case False
    then show ?thesis by (auto simp: json_char_def)
  qed
  then show ?thesis by (auto simp: no_newline_def json_quote_def json_escape_def)
qed

lemma bare_no_newline: "\<forall>c \<in> set v. bare_char c \<Longrightarrow> no_newline v"
  by (auto simp: no_newline_def bare_char_def json_space_def)

lemma print_no_newline:
  "\<forall>f \<in> set fs. no_newline (fst f) \<and> no_newline (snd f) \<Longrightarrow> no_newline (print_object fs)"
proof -
  have "\<forall>f \<in> set fs. no_newline (fst f) \<and> no_newline (snd f) \<Longrightarrow> no_newline (print_fields fs)"
    by (induction fs rule: print_fields.induct) (auto simp: print_field_def no_newline_def)
  then show "\<forall>f \<in> set fs. no_newline (fst f) \<and> no_newline (snd f) \<Longrightarrow> no_newline (print_object fs)"
    by (simp add: print_object_def no_newline_def)
qed

lemma values_no_newline [simp]:
  "no_newline (json_quote s)" "no_newline (show_nat n)" "no_newline (show_int i)" "no_newline (fixed d x)"
  "no_newline (bool_text b)"
  by (simp_all add: quote_no_newline bare_no_newline show_nat_bare show_int_bare fixed_bare)
     (simp add: bool_text_def)

lemma record_lines_no_newline: "l \<in> set (record_lines kv) \<Longrightarrow> no_newline l"
proof -
  have "no_newline (camera_line c)" for c
    unfolding camera_line_def by (rule print_no_newline) (auto simp: camera_fields_def)
  moreover have "no_newline (write_line i s)" for i s
    unfolding write_line_def by (rule print_no_newline) (simp add: write_fields_def)
  ultimately show "l \<in> set (record_lines kv) \<Longrightarrow> no_newline l" by (auto simp: record_lines_def)
qed

lemma marker_skipped: "replay_line n m (compact_marker wall db) = m" and marker_no_newline: "no_newline (compact_marker wall db)"
proof -
  let ?fs = "[(''t'', json_quote ''compact''), (''wall'', fixed 3 wall), (''cameras'', show_nat (length (db_cam db))),
      (''samples'', show_nat (sum_list (map (\<lambda>kv. length (cr_samples (snd kv))) (db_cam db))))]"
  have ok: "\<forall>f \<in> set ?fs. quotable_key (fst f) \<and> delimited (snd f)" by simp
  obtain r where "parse_record (compact_marker wall db) = Some r" and g: "\<And>k. om_get r k = map_of (rev ?fs) k"
    unfolding compact_marker_def using parse_printed[OF ok] by blast
  moreover have "record_text r ''id'' [] = []" using g[of "''id''"] by (simp add: record_text_def)
  ultimately show "replay_line n m (compact_marker wall db) = m" by (simp add: replay_line_def)
  show "no_newline (compact_marker wall db)"
    unfolding compact_marker_def by (rule print_no_newline) simp
qed

lemma replay_compact_body:
  assumes "cam_ok n (db_cam db)"
  shows "replay_camera_db (compact_body wall db) n = om_map reread (db_cam db)"
proof -
  have "text_lines (compact_body wall db) = compact_marker wall db # concat (map record_lines (db_cam db))"
    unfolding compact_body_def by (rule text_lines_unlines) (auto simp: marker_no_newline record_lines_no_newline)
  then show ?thesis using replay_records[of "[]" "db_cam db" n] assms
    by (simp add: replay_camera_db_def marker_skipped cam_ok_def)
qed

section \<open>Any use of the database\<close>

datatype db_op =
    OpenAt bool string string string camdb_options
  | Close
  | Seen string string int bool
  | Write string write_sample
  | Learn string "int option" "real option" "(real \<times> real) option"
  | Params string
  | Forget string
  | Compact

fun db_step :: "system \<Rightarrow> db_op \<Rightarrow> camdb \<Rightarrow> camdb" where
  "db_step sy (OpenAt opened why there path opt) db = fst (db_open_at opened why db there path opt)"
| "db_step sy Close db = db_close db"
| "db_step sy (Seen i name fps fresh) db = fst (note_seen sy db i name fps fresh)"
| "db_step sy (Write i s) db = fst (record_write sy db i s)"
| "db_step sy (Learn i bias lead drift) db = fst (db_learn db i bias lead drift)"
| "db_step sy (Params i) db = fst (record_params sy db i)"
| "db_step sy (Forget i) db = fst (db_forget sy db i)"
| "db_step sy Compact db = fst (db_compact sy db)"

definition new_camdb :: camdb where
  "new_camdb = \<lparr>db_open = False, db_disk = [], db_path = [], db_opt = default_camdb_options, db_cam = [],
     db_bytes = 0, db_compactions = 0\<rparr>"

inductive db_reach :: "camdb \<Rightarrow> bool" where
  new_db: "db_reach new_camdb"
| db_op: "db_reach db \<Longrightarrow> db_reach (db_step sy p db)"

definition db_ok :: "camdb \<Rightarrow> bool" where
  "db_ok db = cam_ok (do_max_samples (db_opt db)) (db_cam db)"

lemma keep_samples_length: "0 < n \<Longrightarrow> length (keep_samples n ss) \<le> n"
  by (simp add: keep_samples_def)

lemma cam_ok_put: "cam_ok n m \<Longrightarrow> record_ok n (i, c) \<Longrightarrow> cam_ok n (om_put m i c)"
  using om_put_values[of m] unfolding cam_ok_def
proof -
  assume a: "om_ok m \<and> (\<forall>kv \<in> set m. record_ok n kv)" "record_ok n (i, c)"
  have "set (om_put m i c) \<subseteq> insert (i, c) (set m)"
    by (induction m i c rule: om_put.induct) auto
  then show "om_ok (om_put m i c) \<and> (\<forall>kv \<in> set (om_put m i c). record_ok n kv)"
    using a by (auto simp: om_ok_put)
qed

lemma record_at_ok:
  assumes "cam_ok n m" "i \<noteq> []"
  shows "cr_id (record_at m i) = [] \<or> cr_id (record_at m i) = i"
    "0 < n \<longrightarrow> length (cr_samples (record_at m i)) \<le> n"
  using assms om_get_in[of m i]
  by (auto simp: record_at_def cam_ok_def record_ok_def new_record_def split: option.split)

lemma db_append_cam: "db_cam (fst (db_append sy db line)) = db_cam db \<and> db_opt (fst (db_append sy db line)) = db_opt db"
  by (simp add: db_append_def db_compact_def Let_def)

lemma db_compact_cam: "db_cam (fst (db_compact sy db)) = db_cam db \<and> db_opt (fst (db_compact sy db)) = db_opt db"
  by (simp add: db_compact_def Let_def)

lemma replay_camera_ok: "cr_id (replay_camera r i c) = i \<and> cr_samples (replay_camera r i c) = cr_samples c"
  by (simp add: replay_camera_def Let_def)

lemma record_ok_camera:
  assumes "cam_ok n m" "i \<noteq> []" shows "record_ok n (i, replay_camera r i (record_at m i))"
  using record_at_ok[OF assms] assms(2) by (simp add: record_ok_def replay_camera_ok)

lemma record_ok_sample:
  assumes "cam_ok n m" "i \<noteq> []" shows "record_ok n (i, add_sample n i s (record_at m i))"
  using record_at_ok[OF assms] assms(2) by (auto simp: record_ok_def add_sample_def keep_samples_length)

lemma replay_line_ok: "cam_ok n m \<Longrightarrow> cam_ok n (replay_line n m line)"
  by (simp add: replay_line_def Let_def cam_ok_put record_ok_camera record_ok_sample split: option.split)

lemma replay_ok: "cam_ok n (replay_camera_db text n)"
proof -
  have "cam_ok n m \<Longrightarrow> cam_ok n (foldl (replay_line n) m ls)" for m ls
    by (induction ls arbitrary: m) (simp_all add: replay_line_ok)
  moreover have "cam_ok n []" by (simp add: cam_ok_def)
  ultimately show ?thesis by (simp add: replay_camera_db_def)
qed

lemma note_seen_ok: "db_ok db \<Longrightarrow> db_ok (fst (note_seen sy db i name fps fresh))"
  unfolding db_ok_def note_seen_def Let_def
  using record_at_ok[of "do_max_samples (db_opt db)" "db_cam db" i]
  by (auto simp: db_append_cam record_ok_def intro!: cam_ok_put)

lemma record_write_ok: "db_ok db \<Longrightarrow> db_ok (fst (record_write sy db i s))"
  unfolding db_ok_def record_write_def Let_def
  using record_at_ok[of "do_max_samples (db_opt db)" "db_cam db" i]
  by (auto simp: db_append_cam record_ok_def keep_samples_length intro!: cam_ok_put)

lemma learn_keeps:
  "cr_id (fst (learn_bias bias cc)) = cr_id (fst cc) \<and> cr_samples (fst (learn_bias bias cc)) = cr_samples (fst cc)"
  "cr_id (fst (learn_lead lead cc)) = cr_id (fst cc) \<and> cr_samples (fst (learn_lead lead cc)) = cr_samples (fst cc)"
  "cr_id (fst (learn_drift drift cc)) = cr_id (fst cc) \<and> cr_samples (fst (learn_drift drift cc)) = cr_samples (fst cc)"
  by (auto simp: learn_bias_def learn_lead_def learn_drift_def split: option.split)

lemma db_learn_record:
  "i \<noteq> [] \<Longrightarrow> \<exists>c. fst (db_learn db i bias lead drift) = db\<lparr>db_cam := om_put (db_cam db) i c\<rparr> \<and>
     cr_samples c = cr_samples (record_at (db_cam db) i) \<and>
     cr_id c = (if cr_id (record_at (db_cam db) i) = [] then i else cr_id (record_at (db_cam db) i))"
  by (rule exI[of _ "fst (learn_drift drift (learn_lead lead (learn_bias bias
      ((record_at (db_cam db) i)\<lparr>cr_id := if cr_id (record_at (db_cam db) i) = [] then i else cr_id (record_at (db_cam db) i)\<rparr>, False))))"])
     (simp add: db_learn_def Let_def learn_keeps case_prod_beta)

lemma db_learn_ok: "db_ok db \<Longrightarrow> db_ok (fst (db_learn db i bias lead drift))"
proof (cases "i = []")
  case False
  assume ok: "db_ok db"
  obtain c where c: "fst (db_learn db i bias lead drift) = db\<lparr>db_cam := om_put (db_cam db) i c\<rparr>"
     "cr_samples c = cr_samples (record_at (db_cam db) i)"
     "cr_id c = (if cr_id (record_at (db_cam db) i) = [] then i else cr_id (record_at (db_cam db) i))"
    using db_learn_record[OF False] by blast
  then show ?thesis
    using record_at_ok[of "do_max_samples (db_opt db)" "db_cam db" i] ok False
    by (auto simp: db_ok_def record_ok_def intro!: cam_ok_put)
qed (simp add: db_learn_def)

lemma db_step_ok: "db_ok db \<Longrightarrow> db_ok (db_step sy p db)"
proof (cases p)
  case (OpenAt opened why there path opt)
  then show "db_ok db \<Longrightarrow> ?thesis"
    using replay_ok by (auto simp: db_open_at_def db_ok_def db_close_def Let_def cam_ok_def[of _ "[]"])
next
  case (Forget i)
  have "cam_ok n m \<Longrightarrow> cam_ok n (om_del m i)" for n and m :: "(string, camera_record) omap"
    by (auto simp: cam_ok_def om_ok_del) (simp add: om_del_def)
  then show "db_ok db \<Longrightarrow> ?thesis" using Forget by (auto simp: db_forget_def db_ok_def Let_def db_compact_cam)
next
  case (Params i)
  then show "db_ok db \<Longrightarrow> ?thesis" by (auto simp: db_ok_def record_params_def db_append_cam split: option.split)
next
  case Close
  then show "db_ok db \<Longrightarrow> ?thesis" by (simp add: db_ok_def db_close_def)
next
  case Compact
  then show "db_ok db \<Longrightarrow> ?thesis" by (simp add: db_ok_def db_compact_cam)
qed (simp_all add: note_seen_ok record_write_ok db_learn_ok)

lemma db_reach_ok: "db_reach db \<Longrightarrow> db_ok db"
  by (induction rule: db_reach.induct)
     (simp add: db_ok_def new_camdb_def cam_ok_def, rule db_step_ok)

text \<open>
  C11. Compacting loses nothing: after any use of the database, the file a compaction leaves
  is replayed, by a restart with the same options, to every body memory knew, with its
  learned values and every retained write, to the decimals the lines print; and no other body.
\<close>

theorem compaction_restores:
  assumes "db_reach db" and "db_path db \<noteq> []" and "db_compact sy db = (db', None)"
  shows "db_find (fst (db_open_at opened why db0 (db_disk db') path (db_opt db))) i =
    (if path = [] then None else map_option reread (db_find db i))"
proof -
  have "db_disk db' = compact_body (sy_wall sy) db"
    using assms(2,3) by (auto simp: db_compact_def Let_def split: if_splits)
  then have "replay_camera_db (db_disk db') (do_max_samples (db_opt db)) = om_map reread (db_cam db)"
    using replay_compact_body[of _ db] db_reach_ok[OF assms(1)] by (simp add: db_ok_def)
  then show ?thesis
    by (simp add: db_open_at_def db_close_def db_find_def om_get_map Let_def)
qed

definition all_well :: system where
  "all_well = \<lparr>sy_put = True, sy_part = [], sy_tmp = True, sy_write = True, sy_rename = True, sy_reopen = True,
     sy_wall = 10, sy_error = []\<rparr>"

definition one_camera :: camdb where
  "one_camera = db_step all_well (Seen ''a'' ''BMPCC'' 24 True)
     (db_step all_well (OpenAt True [] [] ''db'' default_camdb_options) new_camdb)"

theorem compaction_restores_witness:
  "db_find (fst (db_open_at True [] new_camdb (db_disk (fst (db_compact all_well one_camera))) ''db'' (db_opt one_camera))) ''a''
     = map_option reread (db_find one_camera ''a'')"
proof -
  have r: "db_reach one_camera" unfolding one_camera_def by (intro db_op new_db)
  have p: "db_path one_camera = ''db''"
    by (simp add: one_camera_def db_open_at_def db_close_def Let_def note_seen_def new_camdb_def db_append_def
        db_compact_def should_compact_def default_camdb_options_def all_well_def)
  have c: "snd (db_compact all_well one_camera) = None" using p by (simp add: db_compact_def all_well_def Let_def)
  show ?thesis
    using compaction_restores[OF r, of all_well "fst (db_compact all_well one_camera)" True "[]" new_camdb "''db''" "''a''"] p c
    by (simp add: prod_eq_iff)
qed

text \<open>What the file keeps of a write does not include the count of writes.\<close>

lemma restart_forgets_write_count:
  assumes "i \<noteq> []"
  shows "map_option cr_writes (om_get (replay_camera_db (unlines [write_line i s]) n) i) = Some 0"
    "map_option cr_writes (db_find (fst (record_write all_well new_camdb i s)) i) = Some 1"
proof -
  have "write_line i s \<in> set (record_lines (i, new_record\<lparr>cr_samples := [s]\<rparr>))" by (simp add: record_lines_def)
  then have "text_lines (unlines [write_line i s]) = [write_line i s]"
    using record_lines_no_newline by (intro text_lines_unlines) auto
  then show "map_option cr_writes (om_get (replay_camera_db (unlines [write_line i s]) n) i) = Some 0"
    using assms by (simp add: replay_camera_db_def replay_write_line om_get_put record_at_def new_record_def add_sample_def)
  show "map_option cr_writes (db_find (fst (record_write all_well new_camdb i s)) i) = Some 1"
    using assms
    by (simp add: record_write_def Let_def new_camdb_def db_find_def om_get_put record_at_def new_record_def)
qed

section \<open>What teaches the lead\<close>

lemma newest_delays_filter:
  "newest_delays n ss = take n (map apply_delay_s (filter (\<lambda>s. ws_timing_ok s \<and> ws_measure_epoch s = kMeasureEpoch) ss))"
  by (induction n ss rule: newest_delays.induct) (auto simp: take_Cons' )

text \<open>
  The lead is learned from the newest fair measurements and nothing else: recording a
  write whose timing was not fair, or that was measured on an older basis, changes nothing
  the lead is computed from; a fair one comes last, and the history of a body never exceeds
  its cap.
\<close>

theorem only_fair_writes_teach:
  assumes "db_reach db" and "i \<noteq> []" and "db_find db i = Some c"
    and "0 < do_max_samples (db_opt db) \<longrightarrow> length (cr_samples c) < do_max_samples (db_opt db)"
    and "db_find (fst (record_write sy db i s)) i = Some c'"
  shows "recent_apply_delays c' (Suc n) =
      (if ws_timing_ok s \<and> ws_measure_epoch s = kMeasureEpoch
       then recent_apply_delays c n @ [apply_delay_s s] else recent_apply_delays c (Suc n)) \<and>
    length (recent_apply_delays c' n) \<le> n \<and>
    (0 < do_max_samples (db_opt db) \<longrightarrow>
      (\<forall>e \<in> set (db_cam (fst (record_write sy db i s))). length (cr_samples (snd e)) \<le> do_max_samples (db_opt db)))"
proof -
  have "db_ok (fst (record_write sy db i s))" by (rule record_write_ok[OF db_reach_ok[OF assms(1)]])
  moreover have "db_opt (fst (record_write sy db i s)) = db_opt db"
    by (simp add: record_write_def Let_def db_append_cam)
  ultimately have cap: "0 < do_max_samples (db_opt db) \<longrightarrow>
      (\<forall>e \<in> set (db_cam (fst (record_write sy db i s))). length (cr_samples (snd e)) \<le> do_max_samples (db_opt db))"
    by (simp add: db_ok_def cam_ok_def record_ok_def)
  have "record_at (db_cam db) i = c" using assms(3) by (simp add: db_find_def record_at_def)
  then have s: "cr_samples c' = keep_samples (do_max_samples (db_opt db)) (cr_samples c @ [s])"
    using assms(2,5) by (auto simp: record_write_def Let_def db_find_def db_append_cam om_get_put split: if_splits)
  then have "cr_samples c' = cr_samples c @ [s]" using assms(4) by (auto simp: keep_samples_def)
  then show ?thesis using cap by (simp add: recent_apply_delays_def newest_delays_filter)
qed

definition a_sample :: write_sample where
  "a_sample = \<lparr>ws_wall = 5, ws_error_before_s = 1, ws_error_after_s = 1 / 8, ws_lead_used_s = 1 / 2, ws_latency_s = 0,
     ws_fps = 24, ws_bias = 0, ws_verified = True, ws_timing_ok = True, ws_measure_epoch = 1\<rparr>"

definition seen_camera :: camera_record where
  "seen_camera = new_record\<lparr>cr_id := ''a'', cr_first_seen_wall := 10, cr_last_seen_wall := 10, cr_sessions := 1\<rparr>"

definition written_camera :: camera_record where
  "written_camera = seen_camera\<lparr>cr_first_seen_wall := 5, cr_fps := 24, cr_writes := 1, cr_samples := [a_sample]\<rparr>"

theorem only_fair_writes_teach_witness:
  "recent_apply_delays written_camera 1 = recent_apply_delays seen_camera 0 @ [3 / 8]"
proof -
  let ?db = "db_step all_well (Seen ''a'' [] 0 True) new_camdb"
  have d: "?db = new_camdb\<lparr>db_cam := [(''a'', seen_camera)]\<rparr>"
    by (simp add: note_seen_def Let_def new_camdb_def record_at_def seen_camera_def new_record_def all_well_def)
  have r: "db_reach ?db" by (intro db_op new_db)
  have f: "db_find ?db ''a'' = Some seen_camera" unfolding d by (simp add: db_find_def)
  have w: "db_find (fst (record_write all_well ?db ''a'' a_sample)) ''a'' = Some written_camera"
    unfolding d by (simp add: record_write_def Let_def new_camdb_def db_find_def record_at_def written_camera_def
        seen_camera_def new_record_def a_sample_def keep_samples_def default_camdb_options_def)
  have c: "length (cr_samples seen_camera) = 0" by (simp add: seen_camera_def new_record_def)
  have o: "do_max_samples (db_opt ?db) = 1000" unfolding d by (simp add: new_camdb_def default_camdb_options_def)
  have "ws_timing_ok a_sample \<and> ws_measure_epoch a_sample = kMeasureEpoch" "apply_delay_s a_sample = 3 / 8"
    by (simp_all add: a_sample_def kMeasureEpoch_def apply_delay_s_def)
  then show ?thesis using only_fair_writes_teach[OF r _ f _ w, of 0] unfolding o c by simp
qed

end
