(* ===== verification/DeviceDb.thy ===== *)
theory DeviceDb
  imports CamDbLaws RegistryLaws
begin

text \<open>
  The roster file of \<open>devicedb.cc\<close>: one flat JSON object per remembered device, rewritten whole
  on every save through a temporary file.  What the file system answers is an argument.
\<close>

section \<open>Loading\<close>

definition device_of :: "log_record \<Rightarrow> remembered_device" where
  "device_of r =
     \<lparr>rd_id = record_text r ''id'' [], rd_name = record_text r ''name'' [],
      rd_user_name = record_text r ''user_name'' [], rd_probed_name = record_text r ''probed_name'' [],
      rd_probed = (record_number r ''probed'' 0 \<noteq> 0),
      rd_first_seen_wall = record_number r ''first_seen'' 0, rd_last_seen_wall = record_number r ''last_seen'' 0,
      rd_has_time = record_flag r ''has_time'' False, rd_offset = record_number r ''offset'' 0,
      rd_median_offset = record_number r ''median'' 0, rd_resolution = record_text r ''resolution'' [],
      rd_fps = to_int (record_number r ''fps'' 0), rd_rssi = to_int (record_number r ''rssi'' 0)\<rparr>"

text \<open>The loop over the lines; an error leaves no devices.\<close>

fun load_lines :: "string \<Rightarrow> nat \<Rightarrow> string list \<Rightarrow> remembered_device list \<Rightarrow> string + remembered_device list" where
  "load_lines path n [] acc = Inr acc"
| "load_lines path n (line # ls) acc =
     (if line = [] \<or> hd line = CHR ''#'' then load_lines path (n + 1) ls acc
      else case parse_record line of
        None \<Rightarrow> Inl (path @ '':'' @ show_nat n @ '': not a flat JSON object'')
      | Some r \<Rightarrow>
          if record_text r ''t'' [] \<noteq> ''device'' then load_lines path (n + 1) ls acc
          else if record_text r ''id'' [] = [] then Inl (path @ '':'' @ show_nat n @ '': no id'')
          else load_lines path (n + 1) ls (acc @ [device_of r]))"

text \<open>\<open>there\<close> is what the file holds, or nothing when it cannot be opened.\<close>

definition load_roster :: "string \<Rightarrow> string option \<Rightarrow> string + remembered_device list" where
  "load_roster path there =
     (case there of None \<Rightarrow> Inr [] | Some body \<Rightarrow> load_lines path 1 (text_lines body) [])"

definition default_roster_path :: "string option \<Rightarrow> string" where
  "default_roster_path home =
     (case home of Some h \<Rightarrow> if h = [] then ''/tmp'' else h | None \<Rightarrow> ''/tmp'') @ ''/.octomancer/devices.json''"

section \<open>Saving\<close>

definition roster_fields :: "remembered_device \<Rightarrow> (string \<times> string) list" where
  "roster_fields d =
     [(''t'', json_quote ''device''), (''id'', json_quote (rd_id d)), (''name'', json_quote (rd_name d))] @
     (if rd_user_name d = [] then [] else [(''user_name'', json_quote (rd_user_name d))]) @
     (if rd_probed_name d = [] then [] else [(''probed_name'', json_quote (rd_probed_name d))]) @
     (if rd_probed d then [(''probed'', show_nat 1)] else []) @
     [(''first_seen'', fixed 3 (rd_first_seen_wall d)), (''last_seen'', fixed 3 (rd_last_seen_wall d)),
      (''has_time'', bool_text (rd_has_time d)), (''offset'', fixed 6 (rd_offset d)),
      (''median'', fixed 6 (rd_median_offset d)), (''resolution'', json_quote (rd_resolution d)),
      (''fps'', show_int (rd_fps d)), (''rssi'', show_int (rd_rssi d))]"

definition device_line :: "remembered_device \<Rightarrow> string" where
  "device_line d = print_object (roster_fields d)"

definition roster_header :: string where
  "roster_header = ''# octomancerd's device roster. Rewritten whole on every save.''"

definition roster_body :: "remembered_device list \<Rightarrow> string" where
  "roster_body ds = unlines (roster_header # map device_line ds)"

text \<open>Which of the three file operations succeed, and what the system says when one does not.\<close>

record save_system =
  ss_open :: bool
  ss_write :: bool
  ss_rename :: bool
  ss_error :: string

text \<open>\<open>disk\<close> is what the path holds; a save that fails leaves it as it was.\<close>

definition save_roster ::
    "save_system \<Rightarrow> string \<Rightarrow> remembered_device list \<Rightarrow> string option \<Rightarrow> string option \<times> string option" where
  "save_roster sy path ds disk =
     (if \<not> ss_open sy then (disk, Some (''cannot write '' @ path @ ''.tmp: '' @ ss_error sy))
      else if \<not> ss_write sy then (disk, Some (''cannot write '' @ path @ ''.tmp''))
      else if \<not> ss_rename sy then (disk, Some (''cannot replace '' @ path @ '': '' @ ss_error sy))
      else (Some (roster_body ds), None))"

section \<open>What comes back\<close>

definition rounded_device :: "remembered_device \<Rightarrow> remembered_device" where
  "rounded_device d =
     d\<lparr>rd_first_seen_wall := rounded 3 (rd_first_seen_wall d), rd_last_seen_wall := rounded 3 (rd_last_seen_wall d),
       rd_offset := rounded 6 (rd_offset d), rd_median_offset := rounded 6 (rd_median_offset d)\<rparr>"

lemma device_keys [simp]:
  "quotable_key ''user_name''" "quotable_key ''probed_name''" "quotable_key ''probed''"
  "quotable_key ''first_seen''" "quotable_key ''last_seen''" "quotable_key ''has_time''" "quotable_key ''offset''"
  "quotable_key ''median''" "quotable_key ''resolution''" "quotable_key ''rssi''"
  by (simp_all add: quotable_key_def json_escape_def json_char_def)

lemma roster_fields_ok: "\<forall>f \<in> set (roster_fields d). quotable_key (fst f) \<and> delimited (snd f)"
  by (auto simp: roster_fields_def)

lemma device_values:
  "map_of (rev (roster_fields d)) ''t'' = Some (json_quote ''device'')"
  "map_of (rev (roster_fields d)) ''id'' = Some (json_quote (rd_id d))"
  "map_of (rev (roster_fields d)) ''name'' = Some (json_quote (rd_name d))"
  "map_of (rev (roster_fields d)) ''user_name'' =
     (if rd_user_name d = [] then None else Some (json_quote (rd_user_name d)))"
  "map_of (rev (roster_fields d)) ''probed_name'' =
     (if rd_probed_name d = [] then None else Some (json_quote (rd_probed_name d)))"
  "map_of (rev (roster_fields d)) ''probed'' = (if rd_probed d then Some (show_nat 1) else None)"
  "map_of (rev (roster_fields d)) ''first_seen'' = Some (fixed 3 (rd_first_seen_wall d))"
  "map_of (rev (roster_fields d)) ''last_seen'' = Some (fixed 3 (rd_last_seen_wall d))"
  "map_of (rev (roster_fields d)) ''has_time'' = Some (bool_text (rd_has_time d))"
  "map_of (rev (roster_fields d)) ''offset'' = Some (fixed 6 (rd_offset d))"
  "map_of (rev (roster_fields d)) ''median'' = Some (fixed 6 (rd_median_offset d))"
  "map_of (rev (roster_fields d)) ''resolution'' = Some (json_quote (rd_resolution d))"
  "map_of (rev (roster_fields d)) ''fps'' = Some (show_int (rd_fps d))"
  "map_of (rev (roster_fields d)) ''rssi'' = Some (show_int (rd_rssi d))"
  by (cases "rd_user_name d = []"; cases "rd_probed_name d = []"; cases "rd_probed d"; simp add: roster_fields_def)+

lemma text_absent: "om_get r k = None \<Longrightarrow> record_text r k fb = fb"
  by (simp add: record_text_def)

lemma device_line_parses:
  "\<exists>r. parse_record (device_line d) = Some r \<and> device_of r = rounded_device d \<and>
     record_text r ''t'' [] = ''device''"
proof -
  obtain r where p: "parse_record (device_line d) = Some r" and g: "\<And>k. om_get r k = map_of (rev (roster_fields d)) k"
    unfolding device_line_def using parse_printed[OF roster_fields_ok] by blast
  note v = device_values[of d, folded g]
  have "record_text r ''user_name'' [] = rd_user_name d" "record_text r ''probed_name'' [] = rd_probed_name d"
    using v(4,5) text_of_quote text_absent by (cases "rd_user_name d = []"; cases "rd_probed_name d = []"; auto)+
  moreover have "record_number r ''probed'' 0 = (if rd_probed d then 1 else 0)"
    using v(6) number_of_text[OF _ number_texts(1)[of 1]] number_absent by (cases "rd_probed d") auto
  moreover have "record_number r ''fps'' 0 = of_int (rd_fps d)" "record_number r ''rssi'' 0 = of_int (rd_rssi d)"
    by (rule number_of_text[OF v(13) number_texts(2)], rule number_of_text[OF v(14) number_texts(2)])
  ultimately have "device_of r = rounded_device d"
    using v number_texts(3) by (cases d) (simp add: device_of_def rounded_device_def text_of_quote flag_of_text number_of_text)
  then show ?thesis using p v(1) by (auto simp: text_of_quote)
qed

lemma device_line_shape: "device_line d \<noteq> [] \<and> hd (device_line d) \<noteq> CHR ''#'' \<and> no_newline (device_line d)"
proof -
  have "no_newline (device_line d)"
    unfolding device_line_def by (rule print_no_newline) (auto simp: roster_fields_def)
  then show ?thesis by (simp add: device_line_def print_object_def)
qed

lemma load_device_lines:
  "\<forall>d \<in> set ds. rd_id d \<noteq> [] \<Longrightarrow>
   load_lines path n (map device_line ds) acc = Inr (acc @ map rounded_device ds)"
proof (induction ds arbitrary: n acc)
  case (Cons d ds)
  obtain r where r: "parse_record (device_line d) = Some r" "device_of r = rounded_device d"
      "record_text r ''t'' [] = ''device''"
    using device_line_parses by blast
  have "record_text r ''id'' [] = rd_id d"
    using arg_cong[OF r(2), of rd_id] by (simp add: device_of_def rounded_device_def)
  then show ?case using Cons r device_line_shape[of d] by simp
qed simp

lemma load_saved:
  assumes "\<forall>d \<in> set ds. rd_id d \<noteq> []"
  shows "load_roster path (Some (roster_body ds)) = Inr (map rounded_device ds)"
proof -
  have h: "no_newline roster_header" "roster_header \<noteq> []" "hd roster_header = CHR ''#''"
    by (simp_all add: roster_header_def)
  have "text_lines (roster_body ds) = roster_header # map device_line ds"
    unfolding roster_body_def by (rule text_lines_unlines) (use h(1) device_line_shape in auto)
  then show ?thesis using load_device_lines[OF assms, of path "Suc 1" "[]"] h by (simp add: load_roster_def)
qed

lemma remembered_plain:
  "d \<in> set (remembered r) \<Longrightarrow> rd_user_name d = [] \<and> rd_probed_name d = [] \<and> \<not> rd_probed d"
  by (auto simp: remembered_def remembered_one_def Let_def)

lemma rounded_device_fields [simp]:
  "rd_id (rounded_device d) = rd_id d" "rd_user_name (rounded_device d) = rd_user_name d"
  "rd_probed_name (rounded_device d) = rd_probed_name d" "rd_probed (rounded_device d) = rd_probed d"
  by (simp_all add: rounded_device_def)


definition roster_system :: save_system where
  "roster_system = \<lparr>ss_open = True, ss_write = True, ss_rename = True, ss_error = []\<rparr>"


text \<open>A device saved without an identifier makes the whole roster unreadable.\<close>

lemma nameless_device_spoils_roster:
  assumes "rd_id d = []"
  shows "\<exists>why. load_roster path (Some (roster_body (d # ds))) = Inl why"
proof -
  have h: "no_newline roster_header" "roster_header \<noteq> []" "hd roster_header = CHR ''#''"
    by (simp_all add: roster_header_def)
  have l: "text_lines (roster_body (d # ds)) = roster_header # device_line d # map device_line ds"
    unfolding roster_body_def using text_lines_unlines[of "roster_header # map device_line (d # ds)"] h(1) device_line_shape by auto
  obtain r where r: "parse_record (device_line d) = Some r" "device_of r = rounded_device d"
      "record_text r ''t'' [] = ''device''"
    using device_line_parses by blast
  have "record_text r ''id'' [] = []"
    using arg_cong[OF r(2), of rd_id] assms by (simp add: device_of_def)
  then show ?thesis using l h r device_line_shape[of d] by (simp add: load_roster_def)
qed

end
