(* ===== verification/Watchdog.thy ===== *)
theory Watchdog
  imports Prelude Complex_Main
begin

text \<open>
  \<open>src/watchdog.cc\<close>: which checks still hold and how long one has not, and whether something
  idle by design can still run.  What the checks answer at a poll is an argument, in the
  order they were registered; real numbers stand for \<open>double\<close>.
\<close>

record wd_entry =
  we_name :: string
  we_failing :: bool
  we_since :: real

definition kMaxChecks :: nat where "kMaxChecks = 8"

text \<open>\<open>there\<close> is whether the check is a function at all.\<close>

definition wd_watch :: "wd_entry list \<Rightarrow> string \<Rightarrow> bool \<Rightarrow> bool \<times> wd_entry list" where
  "wd_watch es name there =
     (if kMaxChecks \<le> length es \<or> \<not> there then (False, es)
      else (True, es @ [\<lparr>we_name = name, we_failing = False, we_since = 0\<rparr>]))"

definition wd_name :: "wd_entry list \<Rightarrow> nat \<Rightarrow> string" where
  "wd_name es i = (if length es \<le> i then [] else we_name (es ! i))"

definition judge :: "real \<Rightarrow> bool \<Rightarrow> wd_entry \<Rightarrow> wd_entry" where
  "judge now ok e =
     (if ok then e\<lparr>we_failing := False\<rparr>
      else if \<not> we_failing e then e\<lparr>we_failing := True, we_since := now\<rparr> else e)"

fun wd_poll_from :: "nat \<Rightarrow> real \<Rightarrow> (bool \<times> wd_entry) list \<Rightarrow> u32 \<times> wd_entry list" where
  "wd_poll_from i now [] = (0, [])"
| "wd_poll_from i now ((ok, e) # rest) =
     (let (mask, es) = wd_poll_from (Suc i) now rest
      in (if ok then push_bit i 1 OR mask else mask, judge now ok e # es))"

definition wd_poll :: "wd_entry list \<Rightarrow> real \<Rightarrow> bool list \<Rightarrow> u32 \<times> wd_entry list" where
  "wd_poll es now answers = wd_poll_from 0 now (zip answers es)"

definition failing_for :: "wd_entry list \<Rightarrow> nat \<Rightarrow> real \<Rightarrow> real" where
  "failing_for es i now =
     (if length es \<le> i then 0
      else if \<not> we_failing (es ! i) then 0
      else let sp = now - we_since (es ! i) in if 0 < sp then sp else 0)"

definition worst_step :: "wd_entry list \<Rightarrow> real \<Rightarrow> string \<times> real \<Rightarrow> nat \<Rightarrow> string \<times> real" where
  "worst_step es now acc i =
     (let (name, longest) = acc; sp = failing_for es i now in
      if \<not> we_failing (es ! i) then (name, longest)
      else if name = [] \<or> longest < sp then (we_name (es ! i), sp) else (name, longest))"

definition wd_worst :: "wd_entry list \<Rightarrow> real \<Rightarrow> string" where
  "wd_worst es now = fst (foldl (worst_step es now) ([], 0) [0..<length es])"

section \<open>Liveness of something idle\<close>

record probe =
  pl_period :: real
  pl_patience :: real
  pl_started :: bool
  pl_waiting :: bool
  pl_last_poke :: real
  pl_ticks_at_poke :: u32

definition new_probe :: "real \<Rightarrow> real \<Rightarrow> probe" where
  "new_probe period patience = \<lparr>pl_period = period, pl_patience = patience, pl_started = False, pl_waiting = False,
     pl_last_poke = 0, pl_ticks_at_poke = 0\<rparr>"

record probe_result =
  pr_alive :: bool
  pr_poke :: bool

definition probe_poll :: "probe \<Rightarrow> real \<Rightarrow> u32 \<Rightarrow> probe_result \<times> probe" where
  "probe_poll p now ticks =
     (if \<not> pl_started p then
        (\<lparr>pr_alive = True, pr_poke = False\<rparr>,
         p\<lparr>pl_started := True, pl_last_poke := now, pl_ticks_at_poke := ticks, pl_waiting := False\<rparr>)
      else if pl_waiting p then
        (if ticks \<noteq> pl_ticks_at_poke p
         then (\<lparr>pr_alive = True, pr_poke = False\<rparr>, p\<lparr>pl_waiting := False, pl_last_poke := now\<rparr>)
         else (\<lparr>pr_alive = now - pl_last_poke p \<le> pl_patience p, pr_poke = False\<rparr>, p))
      else if pl_period p \<le> now - pl_last_poke p then
        (\<lparr>pr_alive = True, pr_poke = True\<rparr>, p\<lparr>pl_waiting := True, pl_last_poke := now, pl_ticks_at_poke := ticks\<rparr>)
      else (\<lparr>pr_alive = True, pr_poke = False\<rparr>, p))"

section \<open>Feeding exactly what holds\<close>

lemma poll_bits:
  "i + length xs \<le> 32 \<Longrightarrow> n < 32 \<Longrightarrow>
   bit (fst (wd_poll_from i now xs)) n = (i \<le> n \<and> n < i + length xs \<and> fst (xs ! (n - i)))"
proof (induction i now xs rule: wd_poll_from.induct)
  case (2 i now ok e rest)
  have ih: "bit (fst (wd_poll_from (Suc i) now rest)) n =
      (Suc i \<le> n \<and> n < Suc i + length rest \<and> fst (rest ! (n - Suc i)))" using 2 by simp
  have p: "bit (push_bit i 1 :: u32) n = (n = i)" using 2(3) by (auto simp: bit_simps)
  have "n < i \<or> n = i \<or> Suc i \<le> n" by linarith
  then show ?case using ih p by (elim disjE) (auto simp: Let_def case_prod_beta bit_or_iff nth_Cons' Suc_diff_le)
qed simp

lemma poll_length: "length (snd (wd_poll_from i now xs)) = length xs"
  by (induction i now xs rule: wd_poll_from.induct) (auto simp: Let_def case_prod_beta)

lemma poll_entries: "snd (wd_poll_from i now xs) = map (\<lambda>(ok, e). judge now ok e) xs"
  by (induction i now xs rule: wd_poll_from.induct) (auto simp: Let_def case_prod_beta)

text \<open>A run of polls of one check, oldest first.\<close>

definition judge_polls :: "(real \<times> bool) list \<Rightarrow> wd_entry \<Rightarrow> wd_entry" where
  "judge_polls polls e = foldl (\<lambda>e (now, ok). judge now ok e) e polls"

lemma judge_polls_failing:
  assumes "\<forall>p \<in> set polls. \<not> snd p" "we_failing e"
  shows "judge_polls polls e = e"
  using assms by (induction polls) (auto simp: judge_polls_def judge_def)

definition watched :: "nat \<Rightarrow> wd_entry list \<Rightarrow> bool" where
  "watched n es = (length es = n \<and> n \<le> kMaxChecks)"

text \<open>
  A poll feeds exactly the channels whose checks hold, one bit each and no other bit, and
  a check that has failed ever since some poll has been failing for exactly the time since
  that poll, whatever it did before: a recovery in between starts the count again.
\<close>

theorem watchdog_feeds_what_holds:
  assumes "watched (length answers) es" and "i < length es" and "t \<le> now"
  shows "(\<forall>n < 32. bit (fst (wd_poll es now answers)) n = (n < length es \<and> answers ! n)) \<and>
    snd (wd_poll es now answers) ! i = judge now (answers ! i) (es ! i) \<and>
    (es ! i = judge_polls (before @ [(s, True), (t, False)] @ after) e \<and> (\<forall>p \<in> set after. \<not> snd p) \<longrightarrow>
      failing_for es i now = now - t)"
proof (intro conjI)
  have l: "length es = length answers" "length (zip answers es) \<le> 32" using assms(1) by (simp_all add: watched_def kMaxChecks_def)
  show "\<forall>n < 32. bit (fst (wd_poll es now answers)) n = (n < length es \<and> answers ! n)"
    using l poll_bits[of 0 "zip answers es"] by (auto simp: wd_poll_def)
  show "snd (wd_poll es now answers) ! i = judge now (answers ! i) (es ! i)"
    using l assms(2) by (simp add: wd_poll_def poll_entries)
  show "es ! i = judge_polls (before @ [(s, True), (t, False)] @ after) e \<and> (\<forall>p \<in> set after. \<not> snd p) \<longrightarrow>
      failing_for es i now = now - t"
  proof
    assume a: "es ! i = judge_polls (before @ [(s, True), (t, False)] @ after) e \<and> (\<forall>p \<in> set after. \<not> snd p)"
    let ?e = "judge t False (judge s True (judge_polls before e))"
    have "es ! i = judge_polls after ?e" using a by (simp add: judge_polls_def)
    also have "\<dots> = ?e" using a by (intro judge_polls_failing) (simp_all add: judge_def)
    finally show "failing_for es i now = now - t"
      using assms(2,3) by (simp add: failing_for_def judge_def Let_def)
  qed
qed

theorem watchdog_feeds_what_holds_witness:
  "bit (fst (wd_poll [\<lparr>we_name = ''loop'', we_failing = False, we_since = 0\<rparr>, \<lparr>we_name = ''usb'', we_failing = False, we_since = 0\<rparr>]
     5 [False, True])) 1"
  using watchdog_feeds_what_holds[of "[False, True]"
      "[\<lparr>we_name = ''loop'', we_failing = False, we_since = 0\<rparr>, \<lparr>we_name = ''usb'', we_failing = False, we_since = 0\<rparr>]" 0 5 5]
  by (simp add: watched_def kMaxChecks_def)

section \<open>Telling stuck from idle\<close>

definition probe_run :: "(real \<times> u32) list \<Rightarrow> probe \<Rightarrow> probe" where
  "probe_run polls p = foldl (\<lambda>p (now, ticks). snd (probe_poll p now ticks)) p polls"

text \<open>A probe that waits has poked at the time it remembers, at the count it remembers.\<close>

definition poked_in :: "(real \<times> u32) list \<Rightarrow> probe \<Rightarrow> probe \<Rightarrow> bool" where
  "poked_in polls p0 p = (pl_waiting p \<longrightarrow>
     (\<exists>earlier later. polls = earlier @ (pl_last_poke p, pl_ticks_at_poke p) # later \<and>
        pr_poke (fst (probe_poll (probe_run earlier p0) (pl_last_poke p) (pl_ticks_at_poke p))) \<and>
        (\<forall>q \<in> set later. snd q = pl_ticks_at_poke p)))"

lemma probe_run_snoc: "probe_run (polls @ [(t, n)]) p = snd (probe_poll (probe_run polls p) t n)"
  by (simp add: probe_run_def)

lemma probe_cases:
  "(snd (probe_poll p t n) = p \<and> pl_waiting p \<and> n = pl_ticks_at_poke p) \<or>
   (pr_poke (fst (probe_poll p t n)) \<and> pl_last_poke (snd (probe_poll p t n)) = t \<and>
    pl_ticks_at_poke (snd (probe_poll p t n)) = n) \<or> \<not> pl_waiting (snd (probe_poll p t n))"
  by (simp add: probe_poll_def)

lemma probe_run_poked:
  "\<not> pl_waiting p0 \<Longrightarrow> poked_in polls p0 (probe_run polls p0)"
proof (induction polls rule: rev_induct)
  case Nil
  then show ?case by (simp add: poked_in_def probe_run_def)
next
  case (snoc q polls)
  obtain t n where q: "q = (t, n)" by (cases q)
  let ?p = "probe_run polls p0"
  consider (keep) "snd (probe_poll ?p t n) = ?p" "pl_waiting ?p" "n = pl_ticks_at_poke ?p"
    | (poke) "pr_poke (fst (probe_poll ?p t n))" "pl_last_poke (snd (probe_poll ?p t n)) = t"
        "pl_ticks_at_poke (snd (probe_poll ?p t n)) = n"
    | (idle) "\<not> pl_waiting (snd (probe_poll ?p t n))"
    using probe_cases by blast
  then show ?case
  proof cases
    case keep
    with snoc obtain earlier later where
      "polls = earlier @ (pl_last_poke ?p, pl_ticks_at_poke ?p) # later"
      "pr_poke (fst (probe_poll (probe_run earlier p0) (pl_last_poke ?p) (pl_ticks_at_poke ?p)))"
      "\<forall>q \<in> set later. snd q = pl_ticks_at_poke ?p"
      by (auto simp: poked_in_def)
    then show ?thesis using keep unfolding poked_in_def q probe_run_snoc
      by (intro impI exI[of _ earlier] exI[of _ "later @ [(t, n)]"]) auto
  next
    case poke
    then show ?thesis unfolding poked_in_def q probe_run_snoc by (intro impI exI[of _ polls] exI[of _ "[]"]) simp
  next
    case idle
    then show ?thesis by (simp add: poked_in_def q probe_run_snoc)
  qed
qed

text \<open>
  Stuck is told from idle: a probe reports death only if it poked more than its patience
  ago and the count has not moved in any poll since; and it does report it, at the first poll
  later than that.
\<close>

theorem probe_tells_stuck_from_idle:
  assumes "p = probe_run polls (new_probe period patience)"
  shows "(\<not> pr_alive (fst (probe_poll p now ticks)) \<longrightarrow>
      (\<exists>earlier later t. polls = earlier @ (t, ticks) # later \<and> patience < now - t \<and>
        pr_poke (fst (probe_poll (probe_run earlier (new_probe period patience)) t ticks)) \<and>
        (\<forall>q \<in> set later. snd q = ticks))) \<and>
    (pr_poke (fst (probe_poll p t ticks)) \<and> (\<forall>q \<in> set later. snd q = ticks) \<and> patience < now - t \<longrightarrow>
      \<not> pr_alive (fst (probe_poll (probe_run ((t, ticks) # later) p) now ticks)))"
proof (intro conjI impI)
  have par: "pl_patience (probe_run polls p0) = pl_patience p0" for polls p0
    by (induction polls rule: rev_induct) (auto simp: probe_run_def probe_poll_def)
  then have pat: "pl_patience p = patience" using assms by (simp add: new_probe_def)
  have po: "poked_in polls (new_probe period patience) p"
    unfolding assms by (rule probe_run_poked) (simp add: new_probe_def)
  show "\<exists>earlier later t. polls = earlier @ (t, ticks) # later \<and> patience < now - t \<and>
        pr_poke (fst (probe_poll (probe_run earlier (new_probe period patience)) t ticks)) \<and>
        (\<forall>q \<in> set later. snd q = ticks)"
    if "\<not> pr_alive (fst (probe_poll p now ticks))"
  proof -
    from that have "pl_waiting p" "ticks = pl_ticks_at_poke p" "patience < now - pl_last_poke p"
      using pat by (auto simp: probe_poll_def split: if_splits)
    then show ?thesis using po by (auto simp: poked_in_def)
  qed
  show "\<not> pr_alive (fst (probe_poll (probe_run ((t, ticks) # later) p) now ticks))"
    if a: "pr_poke (fst (probe_poll p t ticks)) \<and> (\<forall>q \<in> set later. snd q = ticks) \<and> patience < now - t"
  proof -
    let ?w = "snd (probe_poll p t ticks)"
    have w: "pl_started ?w" "pl_waiting ?w" "pl_last_poke ?w = t" "pl_ticks_at_poke ?w = ticks" "pl_patience ?w = patience"
      using a pat by (auto simp: probe_poll_def split: if_splits)
    have stay: "probe_run l ?w = ?w" if "\<forall>q \<in> set l. snd q = ticks" for l
      using that w(1,2,4) by (induction l) (auto simp: probe_run_def probe_poll_def)
    have "probe_run ((t, ticks) # later) p = ?w" using stay[of later] a by (simp add: probe_run_def)
    then show ?thesis using w a by (simp add: probe_poll_def)
  qed
qed

theorem probe_tells_stuck_from_idle_witness:
  "\<not> pr_alive (fst (probe_poll (probe_run [(10, 7), (12, 7)] (probe_run [(0, 7)] (new_probe 5 3))) 14 7))"
  using probe_tells_stuck_from_idle[of "probe_run [(0, 7)] (new_probe 5 3)" "[(0, 7)]" 5 3 14 7 10 "[(12, 7)]"]
  by (simp add: probe_run_def probe_poll_def new_probe_def)

end
