(* ===== verification/Loop.thy ===== *)
theory Loop
  imports Prelude Complex_Main "HOL-Library.Product_Lexorder"
begin

text \<open>
  \<open>src/loop.cc\<close>: the one place the programs wait.  Sources and timers are kept in the order
  they were added; what a handler does is \<open>run\<close>, a function of the handler's name that may
  use every operation of the loop; the clock and what \<open>wait\<close> reports are functions of the
  world outside (\<open>'w\<close>), which a handler may change too.
\<close>

record 'h source =
  so_id :: u32
  so_interest :: int
  so_dead :: bool
  so_on_ready :: "'h option"
  so_on_error :: "'h option"

record 'h timer =
  tm_id :: u32
  tm_deadline :: real
  tm_period :: real
  tm_seq :: u64
  tm_dead :: bool
  tm_fn :: 'h

record 'h loop =
  lo_sources :: "'h source list"
  lo_timers :: "'h timer list"
  lo_next_source :: u32
  lo_next_timer :: u32
  lo_next_seq :: u64
  lo_depth :: int
  lo_running :: bool
  lo_need_sweep :: bool

definition new_loop :: "'h loop" where
  "new_loop = \<lparr>lo_sources = [], lo_timers = [], lo_next_source = 1, lo_next_timer = 1, lo_next_seq = 1,
     lo_depth = 0, lo_running = True, lo_need_sweep = False\<rparr>"

definition update_first :: "('a \<Rightarrow> bool) \<Rightarrow> ('a \<Rightarrow> 'a) \<Rightarrow> 'a list \<Rightarrow> 'a list" where
  "update_first P f xs = takeWhile (\<lambda>x. \<not> P x) xs @
     (case dropWhile (\<lambda>x. \<not> P x) xs of [] \<Rightarrow> [] | x # r \<Rightarrow> f x # r)"

section \<open>Sources\<close>

definition live_source :: "u32 \<Rightarrow> 'h source \<Rightarrow> bool" where
  "live_source i s = (so_id s = i \<and> \<not> so_dead s)"

definition find_source :: "'h loop \<Rightarrow> u32 \<Rightarrow> 'h source option" where
  "find_source l i = List.find (live_source i) (lo_sources l)"

definition sweep :: "'h loop \<Rightarrow> 'h loop" where
  "sweep l =
     (if \<not> lo_need_sweep l then l
      else l\<lparr>lo_sources := filter (\<lambda>s. \<not> so_dead s) (lo_sources l),
             lo_timers := filter (\<lambda>t. \<not> tm_dead t) (lo_timers l), lo_need_sweep := False\<rparr>)"

definition add_source :: "int \<Rightarrow> 'h option \<Rightarrow> 'h option \<Rightarrow> 'h loop \<Rightarrow> u32 \<times> 'h loop" where
  "add_source interest on_ready on_error l =
     (lo_next_source l,
      l\<lparr>lo_sources := lo_sources l @ [\<lparr>so_id = lo_next_source l, so_interest = interest, so_dead = False,
                                       so_on_ready = on_ready, so_on_error = on_error\<rparr>],
        lo_next_source := lo_next_source l + 1\<rparr>)"

definition set_interest :: "u32 \<Rightarrow> int \<Rightarrow> 'h loop \<Rightarrow> 'h loop" where
  "set_interest i interest l =
     l\<lparr>lo_sources := update_first (live_source i) (\<lambda>s. s\<lparr>so_interest := interest\<rparr>) (lo_sources l)\<rparr>"

definition remove_source :: "u32 \<Rightarrow> 'h loop \<Rightarrow> 'h loop" where
  "remove_source i l =
     (let l' = (if find_source l i = None then l
                else l\<lparr>lo_sources := update_first (live_source i) (\<lambda>s. s\<lparr>so_dead := True\<rparr>) (lo_sources l),
                       lo_need_sweep := True\<rparr>)
      in if lo_depth l' = 0 then sweep l' else l')"

section \<open>Timers\<close>

definition timer_at :: "real \<Rightarrow> 'h \<Rightarrow> 'h loop \<Rightarrow> u32 \<times> 'h loop" where
  "timer_at deadline fn l =
     (lo_next_timer l,
      l\<lparr>lo_timers := lo_timers l @ [\<lparr>tm_id = lo_next_timer l, tm_deadline = deadline, tm_period = 0,
                                     tm_seq = lo_next_seq l, tm_dead = False, tm_fn = fn\<rparr>],
        lo_next_timer := lo_next_timer l + 1, lo_next_seq := lo_next_seq l + 1\<rparr>)"

definition timer_after :: "real \<Rightarrow> real \<Rightarrow> 'h \<Rightarrow> 'h loop \<Rightarrow> u32 \<times> 'h loop" where
  "timer_after now seconds fn l = timer_at (now + seconds) fn l"

definition timer_every :: "real \<Rightarrow> real \<Rightarrow> 'h \<Rightarrow> 'h loop \<Rightarrow> u32 \<times> 'h loop" where
  "timer_every now period fn l =
     (let (i, l') = timer_at (now + period) fn l
      in (i, l'\<lparr>lo_timers := map (\<lambda>t. if tm_id t = i then t\<lparr>tm_period := period\<rparr> else t) (lo_timers l')\<rparr>))"

definition cancel :: "u32 \<Rightarrow> 'h loop \<Rightarrow> 'h loop" where
  "cancel i l =
     (let l' = l\<lparr>lo_timers := map (\<lambda>t. if tm_id t = i then t\<lparr>tm_dead := True\<rparr> else t) (lo_timers l),
                 lo_need_sweep := lo_need_sweep l \<or> (\<exists>t \<in> set (lo_timers l). tm_id t = i)\<rparr>
      in if lo_depth l' = 0 then sweep l' else l')"

definition earlier :: "real \<Rightarrow> 'h timer \<Rightarrow> real" where
  "earlier best t = (if tm_dead t then best else if best < 0 \<or> tm_deadline t < best then tm_deadline t else best)"

definition next_deadline :: "'h loop \<Rightarrow> real" where
  "next_deadline l = foldl earlier (- 1) (lo_timers l)"

definition stop :: "'h loop \<Rightarrow> 'h loop" where
  "stop l = l\<lparr>lo_running := False\<rparr>"

section \<open>One turn\<close>

datatype occasion = Ready int | Failed string | Due

record ('h, 'w) env =
  en_clock :: "'w \<Rightarrow> real"
  en_wait :: "real \<Rightarrow> 'h loop \<Rightarrow> 'w \<Rightarrow> (u32 \<times> int) list \<times> u32 list \<times> 'w"
  en_run :: "'h \<Rightarrow> occasion \<Rightarrow> 'h loop \<times> 'w \<Rightarrow> 'h loop \<times> 'w"

definition wait_budget :: "real \<Rightarrow> real \<Rightarrow> real \<Rightarrow> real" where
  "wait_budget max_wait deadline now =
     (if 0 \<le> deadline then
        (let remaining = (if deadline - now < 0 then 0 else deadline - now)
         in if max_wait < 0 \<or> remaining < max_wait then remaining else max_wait)
      else max_wait)"

definition serve_ready :: "('h, 'w) env \<Rightarrow> 'h loop \<times> 'w \<Rightarrow> u32 \<times> int \<Rightarrow> 'h loop \<times> 'w" where
  "serve_ready en lw r =
     (case find_source (fst lw) (fst r) of
        Some s \<Rightarrow> (case so_on_ready s of Some h \<Rightarrow> en_run en h (Ready (snd r)) lw | None \<Rightarrow> lw)
      | None \<Rightarrow> lw)"

definition serve_failed :: "('h, 'w) env \<Rightarrow> 'h loop \<times> 'w \<Rightarrow> u32 \<Rightarrow> 'h loop \<times> 'w" where
  "serve_failed en lw i =
     (case find_source (fst lw) i of
        Some s \<Rightarrow> (case so_on_error s of Some h \<Rightarrow> en_run en h (Failed ''the source failed'') lw | None \<Rightarrow> lw)
      | None \<Rightarrow> lw)"

definition due_timers :: "real \<Rightarrow> 'h timer list \<Rightarrow> (real \<times> u64 \<times> u32) list" where
  "due_timers now ts =
     sort_key (\<lambda>k. (fst k, fst (snd k)))
       (map (\<lambda>t. (tm_deadline t, tm_seq t, tm_id t)) (filter (\<lambda>t. \<not> tm_dead t \<and> tm_deadline t \<le> now) ts))"

definition live_timer :: "u32 \<Rightarrow> 'h timer \<Rightarrow> bool" where
  "live_timer i t = (tm_id t = i \<and> \<not> tm_dead t)"

definition realign :: "real \<Rightarrow> real \<Rightarrow> real \<Rightarrow> real" where
  "realign fired_for period after =
     (if fired_for + period \<le> after
      then let quot = (after - fired_for) / period; skip = (if 0 \<le> quot then \<lfloor>quot\<rfloor> else \<lceil>quot\<rceil>) + 1
        in fired_for + of_int skip * period
      else fired_for + period)"

definition fire :: "('h, 'w) env \<Rightarrow> 'h loop \<times> 'w \<Rightarrow> real \<times> u64 \<times> u32 \<Rightarrow> 'h loop \<times> 'w" where
  "fire en lw key =
     (let i = snd (snd key) in
      case List.find (live_timer i) (lo_timers (fst lw)) of
        None \<Rightarrow> lw
      | Some t \<Rightarrow>
          if tm_period t \<le> 0 then
            en_run en (tm_fn t) Due
              ((fst lw)\<lparr>lo_timers := update_first (live_timer i) (\<lambda>t. t\<lparr>tm_dead := True\<rparr>) (lo_timers (fst lw)),
                        lo_need_sweep := True\<rparr>, snd lw)
          else
            let (l', w') = en_run en (tm_fn t) Due lw
            in (l'\<lparr>lo_timers := update_first (live_timer i)
                     (\<lambda>c. c\<lparr>tm_deadline := realign (tm_deadline t) (tm_period t) (en_clock en w')\<rparr>) (lo_timers l')\<rparr>, w'))"

definition tick :: "('h, 'w) env \<Rightarrow> real \<Rightarrow> 'h loop \<times> 'w \<Rightarrow> bool \<times> 'h loop \<times> 'w" where
  "tick en max_wait lw =
     (let (l, w) = lw in
      if \<not> lo_running l then (False, lw)
      else
        let (ready, failed, w1) = en_wait en (wait_budget max_wait (next_deadline l) (en_clock en w)) l w;
            lw1 = foldl (serve_ready en) (l\<lparr>lo_depth := lo_depth l + 1\<rparr>, w1) ready;
            lw2 = foldl (serve_failed en) lw1 failed;
            (l3, w3) = foldl (fire en) lw2 (due_timers (en_clock en (snd lw2)) (lo_timers (fst lw2)));
            l4 = sweep (l3\<lparr>lo_depth := lo_depth l3 - 1\<rparr>)
        in (lo_running l4, l4, w3))"

text \<open>\<open>run\<close> is \<open>tick(-1.0)\<close> until it says no, which may be never.\<close>

partial_function (option) run_loop :: "('h, 'w) env \<Rightarrow> 'h loop \<times> 'w \<Rightarrow> ('h loop \<times> 'w) option" where
  "run_loop en lw = (let (again, lw') = tick en (- 1) lw in if again then run_loop en lw' else Some lw')"

section \<open>Deadlines\<close>

lemma earliest:
  assumes "\<forall>t \<in> set ts. \<not> tm_dead t \<longrightarrow> 0 \<le> tm_deadline t"
  shows "(best < 0 \<and> (\<forall>t \<in> set ts. tm_dead t) \<longrightarrow> foldl earlier best ts = best) \<and>
    (0 \<le> best \<longrightarrow> 0 \<le> foldl earlier best ts \<and> foldl earlier best ts \<le> best) \<and>
    (\<forall>t \<in> set ts. \<not> tm_dead t \<longrightarrow> 0 \<le> foldl earlier best ts \<and> foldl earlier best ts \<le> tm_deadline t)"
  using assms
proof (induction ts arbitrary: best)
  case (Cons t ts)
  then have ts: "\<forall>t \<in> set ts. \<not> tm_dead t \<longrightarrow> 0 \<le> tm_deadline t" and t: "\<not> tm_dead t \<longrightarrow> 0 \<le> tm_deadline t" by auto
  from t have e: "\<not> tm_dead t \<longrightarrow> 0 \<le> earlier best t \<and> earlier best t \<le> tm_deadline t"
      "0 \<le> best \<longrightarrow> 0 \<le> earlier best t \<and> earlier best t \<le> best" "tm_dead t \<longrightarrow> earlier best t = best"
    by (simp_all add: earlier_def)
  show ?case using Cons.IH[of "earlier best t", OF ts] e by fastforce
qed simp

text \<open>
  C36. The loop never sleeps past a timer: the wait ends no later than the earliest live
  deadline and no later than the caller allowed, it is without limit only when neither sets
  one, and a deadline already passed does not make it negative.
\<close>

theorem never_sleeps_past_timer:
  assumes "\<forall>t \<in> set (lo_timers l). \<not> tm_dead t \<longrightarrow> 0 \<le> tm_deadline t"
    and "budget = wait_budget max_wait (next_deadline l) now"
  shows "(\<forall>t \<in> set (lo_timers l). \<not> tm_dead t \<longrightarrow> 0 \<le> budget \<and> budget \<le> max 0 (tm_deadline t - now)) \<and>
    (0 \<le> max_wait \<longrightarrow> 0 \<le> budget \<and> budget \<le> max_wait) \<and>
    (budget < 0 \<longrightarrow> max_wait < 0 \<and> (\<forall>t \<in> set (lo_timers l). tm_dead t))"
proof -
  define D where "D = next_deadline l"
  have D: "(\<forall>t \<in> set (lo_timers l). tm_dead t) \<longrightarrow> D = - 1"
      "\<forall>t \<in> set (lo_timers l). \<not> tm_dead t \<longrightarrow> 0 \<le> D \<and> D \<le> tm_deadline t"
    using earliest[OF assms(1), of "- 1"] by (auto simp: D_def next_deadline_def)
  show ?thesis
  proof (cases "\<forall>t \<in> set (lo_timers l). tm_dead t")
    case True
    then show ?thesis using D assms(2) by (auto simp: wait_budget_def simp flip: D_def)
  next
    case False
    then have "0 \<le> D" using D by blast
    then have b: "0 \<le> budget" "budget \<le> max 0 (D - now)" 
      using assms(2) \<open>0 \<le> D\<close> by (auto simp: wait_budget_def Let_def simp flip: D_def)
    have m: "0 \<le> max_wait \<longrightarrow> budget \<le> max_wait"
      using assms(2) \<open>0 \<le> D\<close> by (auto simp: wait_budget_def Let_def simp flip: D_def)
    have "max 0 (D - now) \<le> max 0 (tm_deadline t - now)" if "t \<in> set (lo_timers l)" "\<not> tm_dead t" for t
      using D(2) that by (auto simp: max_def)
    then show ?thesis using b m by (meson linorder_not_less order_trans)
  qed
qed

theorem never_sleeps_past_timer_witness:
  "wait_budget (- 1) (next_deadline (snd (timer_at 7 () new_loop))) 5 \<le> 2"
  using never_sleeps_past_timer[of "snd (timer_at 7 () new_loop)" _ "- 1" 5, OF _ refl]
  by (simp add: timer_at_def new_loop_def)

text \<open>
  A repeating timer realigns to the future: whenever its handler returns, its next
  deadline is after that moment, by at most one period, or the very next one if that has not
  come, and is a whole number of periods after the deadline it fired for; periods missed are
  not owed.
\<close>

theorem repeating_timer_realigns:
  assumes "0 < period"
  shows "after < realign fired_for period after \<and>
    (fired_for \<le> after \<longrightarrow> realign fired_for period after \<le> after + period) \<and>
    (\<exists>k \<ge> 1. realign fired_for period after = fired_for + of_int k * period) \<and>
    (after < fired_for + period \<longrightarrow> realign fired_for period after = fired_for + period)"
proof (cases "fired_for + period \<le> after")
  case True
  define q where "q = (after - fired_for) / period"
  have q: "q * period = after - fired_for" "1 \<le> q" using assms True by (simp_all add: q_def field_simps)
  have fl: "of_int \<lfloor>q\<rfloor> \<le> q" "q < of_int \<lfloor>q\<rfloor> + 1" by linarith+
  then have "of_int \<lfloor>q\<rfloor> * period \<le> q * period" "q * period < (of_int \<lfloor>q\<rfloor> + 1) * period"
    using assms by (simp_all add: mult_right_mono)
  moreover have r: "realign fired_for period after = fired_for + (of_int \<lfloor>q\<rfloor> + 1) * period"
    using True q(2) by (simp add: realign_def q_def[symmetric] Let_def)
  moreover have "\<exists>k \<ge> 1. realign fired_for period after = fired_for + of_int k * period"
    using q(2) by (intro exI[of _ "\<lfloor>q\<rfloor> + 1"]) (simp add: r)
  ultimately show ?thesis using True q(1) by (auto simp: algebra_simps)
next
  case False
  then show ?thesis using assms by (auto simp: realign_def intro!: exI[of _ 1])
qed

theorem repeating_timer_realigns_witness: "realign 10 5 31 \<le> 36 \<and> 31 < realign 10 5 31"
  using repeating_timer_realigns[of 5 31 10] by simp

end
