(* ===== verification/CameraHci.thy ===== *)
theory CameraHci
  imports AttClient HciAd HciPackets Bmd Smp Pairing Ordmap
begin

text \<open>
  A camera reached over the dongle (\<open>src/camera_hci.cc\<close>, \<open>src/camhci.h\<close>, the records of
  \<open>src/camera.h\<close>): finding it, walking its services, subscribing, writing to it, pairing when
  it insists, and the view of its state that its notifications build up.

  Every operation is one call into the class, from its owner, from the loop or from the link.
  What it asks of the link and of the radio, and which of the handlers it was given it calls, is
  the list of actions it returns, in order.  The closures that travel with a request are the
  values of \<open>cam_req\<close>, \<open>write_for\<close> and \<open>later\<close>, with what they capture as arguments.  The calls
  into the link stand last in the code, so an answer that the link gives inside the call is the
  same as one given just after it.  What the link knows (its own address, which connections are
  encrypted, whether a security manager packet could be sent) is the record \<open>cam_env\<close>.
\<close>

section \<open>What is kept\<close>

record char_handles =
  chh_value :: u16
  chh_cccd :: u16
  chh_properties :: byte

definition no_handles :: char_handles where
  "no_handles = \<lparr>chh_value = 0, chh_cccd = 0, chh_properties = 0\<rparr>"

definition found :: "char_handles \<Rightarrow> bool" where
  "found h \<longleftrightarrow> chh_value h \<noteq> 0"

record camera_view =
  cv_has_timecode :: bool
  cv_timecode :: timecode
  cv_timecode_mono :: real
  cv_has_transport :: bool
  cv_transport :: int
  cv_has_fps :: bool
  cv_fps :: int
  cv_has_timecode_source :: bool
  cv_timecode_source :: int
  cv_state :: "byte \<times> byte \<Rightarrow> bmd_value option"

definition empty_view :: camera_view where
  "empty_view =
     \<lparr>cv_has_timecode = False, cv_timecode = \<lparr>tc_hours = 0, tc_minutes = 0, tc_seconds = 0, tc_frames = 0\<rparr>,
      cv_timecode_mono = 0, cv_has_transport = False, cv_transport = 0, cv_has_fps = False, cv_fps = 0,
      cv_has_timecode_source = False, cv_timecode_source = 0, cv_state = Map.empty\<rparr>"

record camera_device =
  cam_id :: string
  cam_name :: string
  cam_rssi :: int
  cam_by_uuid :: bool

record scan_result =
  scr_cameras :: "camera_device list"
  scr_all :: "camera_device list"
  scr_total :: int
  scr_tentacles :: int

text \<open>Who a characteristic is written for: the next step of subscribing, with the index, the
  timeout and the handler its lambda captures, or a control packet.\<close>

datatype 'u write_for = ForCccd nat real "'u option" | ForControl "'u option"

datatype 'u cam_req =
    MtuReq "'u option"
  | ServicesReq nat "'u option"
  | CharsReq nat "'u option"
  | CccdReq nat u16 nat "'u option"
  | FirstWrite bytes real "'u write_for"
  | SecondWrite "'u write_for"

text \<open>The request, the timeout and the continuation a pairing will resume.\<close>

type_synonym 'u resume = "bytes \<times> real \<times> 'u write_for"

datatype 'u cam_later = TellLater 'u bool string | ResumeLater "'u resume" bool string

datatype 'u cam_action =
    Asked u16 bytes real "'u cam_req"
  | AttSent u16 bytes
  | SmpSent u16 bytes
  | EncryptAsked u16 bytes u16 bytes real
  | ConnectAsked address real nat real "'u option"
  | LinkDropped u16
  | ScanWanted bool
  | ScanUnwanted
  | PairingTimer real
  | ScanTimer nat real
  | Told 'u bool string
  | ScanTold 'u scan_result
  | ViewTold camera_view
  | GoneTold

record 'u scan_job =
  sj_seen :: "(string, camera_device) omap"
  sj_tentacles :: "string list"
  sj_seconds :: real
  sj_hint :: string
  sj_all :: bool
  sj_done :: "'u option"

record cam_env =
  ev_local :: address
  ev_encrypted :: "u16 \<Rightarrow> bool"
  ev_send_smp :: "u16 \<Rightarrow> bytes \<Rightarrow> string option"

record 'u camera =
  cm_conn :: u16
  cm_peer :: address
  cm_mtu :: u16
  cm_subscribed :: bool
  cm_outgoing :: char_handles
  cm_incoming :: char_handles
  cm_timecode :: char_handles
  cm_live :: camera_view
  cm_svc_start :: u16
  cm_svc_end :: u16
  cm_chars :: "char_decl list"
  cm_chars_cccd :: "nat \<Rightarrow> u16 option"
  cm_pairing :: "initiator option"
  cm_pairing_done :: "'u resume option"
  cm_pairing_timeout :: real
  cm_pairing_timer :: bool
  cm_jobs :: "'u scan_job list"
  cm_scan_timer :: "nat option"
  cm_on_ready :: "'u option"
  cm_on_view :: bool
  cm_on_gone :: bool
  cm_later :: "'u cam_later list"

type_synonym 'u cam_step = "'u camera \<times> 'u cam_action list"

definition fresh_camera :: "'u option \<Rightarrow> 'u camera" where
  "fresh_camera on_ready =
     \<lparr>cm_conn = 0, cm_peer = Address (replicate 6 0) kAddrPublic, cm_mtu = kDefaultMtu,
      cm_subscribed = False, cm_outgoing = no_handles, cm_incoming = no_handles, cm_timecode = no_handles,
      cm_live = empty_view, cm_svc_start = 0, cm_svc_end = 0, cm_chars = [], cm_chars_cccd = Map.empty,
      cm_pairing = None, cm_pairing_done = None, cm_pairing_timeout = 0, cm_pairing_timer = False,
      cm_jobs = [], cm_scan_timer = None, cm_on_ready = on_ready, cm_on_view = False, cm_on_gone = False,
      cm_later = []\<rparr>"

definition kInsufficientAuthentication :: byte where [const_defs]: "kInsufficientAuthentication = 0x05"
definition kInsufficientKeySize :: byte where [const_defs]: "kInsufficientKeySize = 0x0c"
definition kInsufficientEncryption :: byte where [const_defs]: "kInsufficientEncryption = 0x0f"
definition kGroupOutput :: byte where [const_defs]: "kGroupOutput = 4"
definition kParamTimecodeSource :: byte where [const_defs]: "kParamTimecodeSource = 7"
definition kGroupMedia :: byte where [const_defs]: "kGroupMedia = 10"
definition kParamTransport :: byte where [const_defs]: "kParamTransport = 1"
definition kGroupVideo :: byte where [const_defs]: "kGroupVideo = 1"
definition kParamFrameRate :: byte where [const_defs]: "kParamFrameRate = 9"

section \<open>Calling handlers\<close>

text \<open>\<open>if (done) done(ok, why)\<close> and \<open>if (done) loop_->after(0.0, [done] { done(ok, why); })\<close>.\<close>

definition tell :: "'u option \<Rightarrow> bool \<Rightarrow> string \<Rightarrow> 'u cam_action list" where
  "tell handler ok why = (case handler of None \<Rightarrow> [] | Some u \<Rightarrow> [Told u ok why])"

definition tell_later :: "'u option \<Rightarrow> bool \<Rightarrow> string \<Rightarrow> 'u camera \<Rightarrow> 'u camera" where
  "tell_later handler ok why c =
     (case handler of None \<Rightarrow> c | Some u \<Rightarrow> c\<lparr>cm_later := cm_later c @ [TellLater u ok why]\<rparr>)"

definition cam_on_ready :: "bool \<Rightarrow> string \<Rightarrow> 'u camera \<Rightarrow> 'u cam_step" where
  "cam_on_ready ok err c = (c\<lparr>cm_on_ready := None\<rparr>, tell (cm_on_ready c) ok err)"

definition set_view_handler :: "bool \<Rightarrow> 'u camera \<Rightarrow> 'u camera" where
  "set_view_handler given c = c\<lparr>cm_on_view := given\<rparr>"

definition set_disconnect_handler :: "bool \<Rightarrow> 'u camera \<Rightarrow> 'u camera" where
  "set_disconnect_handler given c = c\<lparr>cm_on_gone := given\<rparr>"

definition forget_timecode :: "'u camera \<Rightarrow> 'u camera" where
  "forget_timecode c = c\<lparr>cm_live := (cm_live c)\<lparr>cv_has_timecode := False\<rparr>\<rparr>"

definition cam_connected :: "'u camera \<Rightarrow> bool" where
  "cam_connected c \<longleftrightarrow> cm_conn c \<noteq> 0"

definition cam_is_subscribed :: "'u camera \<Rightarrow> bool" where
  "cam_is_subscribed c \<longleftrightarrow> cm_conn c \<noteq> 0 \<and> cm_subscribed c"

definition cam_note :: "'u camera \<Rightarrow> 'u cam_action list" where
  "cam_note c = (if cm_on_view c then [ViewTold (cm_live c)] else [])"

section \<open>Scanning\<close>

definition empty_scan_result :: scan_result where
  "empty_scan_result = \<lparr>scr_cameras = [], scr_all = [], scr_total = 0, scr_tentacles = 0\<rparr>"

definition cam_scan :: "real \<Rightarrow> string \<Rightarrow> bool \<Rightarrow> 'u option \<Rightarrow> 'u camera \<Rightarrow> 'u cam_step" where
  "cam_scan seconds name_hint want_all handler c =
     (c\<lparr>cm_jobs := cm_jobs c @ [\<lparr>sj_seen = [], sj_tentacles = [], sj_seconds = seconds, sj_hint = name_hint,
                                  sj_all = want_all, sj_done = handler\<rparr>]\<rparr>,
      [ScanWanted True])"

definition heard_camera :: "adv_report \<Rightarrow> (string, camera_device) omap \<Rightarrow> (string, camera_device) omap" where
  "heard_camera r seen =
     (let info = summarise_ad (parse_ad (ar_data r));
          ident = address_to_string (ar_addr r);
          by_uuid = (uuid_const kServiceCamera \<in> set (ai_services info));
          dev = (case map_of seen ident of Some d \<Rightarrow> d
                 | None \<Rightarrow> \<lparr>cam_id = [], cam_name = [], cam_rssi = 0, cam_by_uuid = False\<rparr>)
      in om_put seen ident
           \<lparr>cam_id = ident, cam_name = (if ai_name info \<noteq> [] then ai_name info else cam_name dev),
            cam_rssi = ar_rssi r, cam_by_uuid = (cam_by_uuid dev \<or> by_uuid)\<rparr>)"

definition heard_tentacle :: "adv_report \<Rightarrow> string list \<Rightarrow> string list" where
  "heard_tentacle r ids =
     (if uuid_from_16 0xfdac \<in> fst ` set (ai_service_data (summarise_ad (parse_ad (ar_data r))))
      then List.insert (address_to_string (ar_addr r)) ids else ids)"

definition scan_heard :: "nat \<Rightarrow> adv_report \<Rightarrow> 'u camera \<Rightarrow> 'u camera" where
  "scan_heard n r c =
     (if length (cm_jobs c) \<le> n then c
      else let j = cm_jobs c ! n
        in c\<lparr>cm_jobs := (cm_jobs c)[n := j\<lparr>sj_seen := heard_camera r (sj_seen j),
                                           sj_tentacles := heard_tentacle r (sj_tentacles j)\<rparr>]\<rparr>)"

definition tell_scan :: "'u option \<Rightarrow> scan_result \<Rightarrow> 'u cam_action list" where
  "tell_scan handler r = (case handler of None \<Rightarrow> [] | Some u \<Rightarrow> [ScanTold u r])"

definition cam_scan_started :: "nat \<Rightarrow> bool \<Rightarrow> 'u camera \<Rightarrow> 'u cam_step" where
  "cam_scan_started n ok c =
     (if length (cm_jobs c) \<le> n then (c, [])
      else let j = cm_jobs c ! n
        in if \<not> ok then (c, tell_scan (sj_done j) empty_scan_result)
           else (c\<lparr>cm_scan_timer := Some n\<rparr>, [ScanTimer n (sj_seconds j)]))"

definition cam_matches :: "string \<Rightarrow> camera_device \<Rightarrow> bool" where
  "cam_matches hint dev =
     (cam_by_uuid dev \<or>
      (lowered hint \<noteq> [] \<and> cam_name dev \<noteq> [] \<and> contains (lowered (cam_name dev)) (lowered hint)))"

text \<open>\<open>std::sort\<close> leaves the order of equal elements open; the model keeps the order they are
  seen in, which is the order of their addresses.  Two stable sorts, by strength and then by
  proof, are the one by proof and then strength.\<close>

definition by_strength :: "camera_device list \<Rightarrow> camera_device list" where
  "by_strength = sort_key (\<lambda>d. - cam_rssi d)"

definition proof_first :: "camera_device list \<Rightarrow> camera_device list" where
  "proof_first ds = sort_key (\<lambda>d. if cam_by_uuid d then 0 else 1 :: nat) (by_strength ds)"

definition collect_scan :: "'u scan_job \<Rightarrow> scan_result" where
  "collect_scan j =
     (let devs = map snd (sj_seen j)
      in \<lparr>scr_cameras = proof_first (filter (cam_matches (sj_hint j)) devs),
          scr_all = by_strength (if sj_all j then devs else []),
          scr_total = int (length (sj_seen j)), scr_tentacles = int (length (sj_tentacles j))\<rparr>)"

definition scan_over :: "nat \<Rightarrow> 'u camera \<Rightarrow> 'u cam_step" where
  "scan_over n c =
     (if length (cm_jobs c) \<le> n then (c, [])
      else let j = cm_jobs c ! n
        in (c\<lparr>cm_scan_timer := None\<rparr>, ScanUnwanted # tell_scan (sj_done j) (collect_scan j)))"

section \<open>Subscribing\<close>

definition ask :: "'u camera \<Rightarrow> bytes \<Rightarrow> real \<Rightarrow> 'u cam_req \<Rightarrow> 'u cam_action list" where
  "ask c req timeout k = [Asked (cm_conn c) req timeout k]"

definition write_cccd :: "u16 \<Rightarrow> real \<Rightarrow> 'u write_for \<Rightarrow> 'u camera \<Rightarrow> 'u cam_step" where
  "write_cccd cccd timeout who c =
     (let req = write_request cccd [0x01, 0x00] in (c, ask c req timeout (FirstWrite req timeout who)))"

definition subscription_order :: "'u camera \<Rightarrow> char_handles list" where
  "subscription_order c = [cm_timecode c, cm_incoming c]"

definition subscribable :: "char_handles \<Rightarrow> bool" where
  "subscribable h \<longleftrightarrow> found h \<and> chh_cccd h \<noteq> 0"

text \<open>The loop that passes over what cannot be subscribed to.\<close>

definition skip_unsubscribable :: "char_handles list \<Rightarrow> nat \<Rightarrow> nat" where
  "skip_unsubscribable order index = index + length (takeWhile (\<lambda>h. \<not> subscribable h) (drop index order))"

definition subscribe_next :: "nat \<Rightarrow> real \<Rightarrow> 'u option \<Rightarrow> 'u camera \<Rightarrow> 'u cam_step" where
  "subscribe_next index timeout handler c =
     (let order = subscription_order c; index = skip_unsubscribable order index
      in if 2 \<le> index then (c\<lparr>cm_subscribed := True\<rparr>, tell handler True [])
         else write_cccd (chh_cccd (order ! index)) timeout (ForCccd index timeout handler) c)"

definition subscribe :: "real \<Rightarrow> 'u option \<Rightarrow> 'u camera \<Rightarrow> 'u cam_step" where
  "subscribe timeout handler c =
     (if cm_conn c = 0 then (tell_later handler False ''not connected'' c, [])
      else if cm_subscribed c then (tell_later handler True [] c, [])
      else subscribe_next 0 timeout handler c)"

text \<open>The handler a write reports to.\<close>

fun written :: "'u write_for \<Rightarrow> bool \<Rightarrow> string \<Rightarrow> 'u camera \<Rightarrow> 'u cam_step" where
  "written (ForControl handler) ok why c = (c, tell handler ok why)"
| "written (ForCccd index timeout handler) ok why c =
     (if \<not> ok then (c, tell handler False why) else subscribe_next (index + 1) timeout handler c)"

fun refusal :: "'u write_for \<Rightarrow> bool \<Rightarrow> string" where
  "refusal (ForControl handler) again = ''the camera refused the write: ''"
| "refusal (ForCccd index timeout handler) again =
     (if again then ''subscribing failed even after pairing: '' else ''subscribing failed: '')"

section \<open>Pairing\<close>

definition needs_encryption :: "byte \<Rightarrow> bool" where
  "needs_encryption e \<longleftrightarrow>
     e = kInsufficientAuthentication \<or> e = kInsufficientEncryption \<or> e = kInsufficientKeySize"

text \<open>The continuation of \<open>ensure_encrypted\<close>: the write is made again, or given up.\<close>

fun resume_write :: "'u resume \<Rightarrow> bool \<Rightarrow> string \<Rightarrow> 'u camera \<Rightarrow> 'u cam_step" where
  "resume_write (req, timeout, who) paired why c =
     (if \<not> paired then written who False why c else (c, ask c req timeout (SecondWrite who)))"

definition finish_pairing :: "bool \<Rightarrow> string \<Rightarrow> 'u camera \<Rightarrow> 'u cam_step" where
  "finish_pairing ok err c =
     (if cm_pairing c = None \<and> cm_pairing_done c = None then (c, [])
      else let c' = c\<lparr>cm_pairing := None, cm_pairing_done := None, cm_pairing_timer := False\<rparr>
        in case cm_pairing_done c of None \<Rightarrow> (c', []) | Some r \<Rightarrow> resume_write r ok err c')"

definition later_resume :: "'u resume \<Rightarrow> bool \<Rightarrow> string \<Rightarrow> 'u camera \<Rightarrow> 'u camera" where
  "later_resume r ok why c = c\<lparr>cm_later := cm_later c @ [ResumeLater r ok why]\<rparr>"

definition pairing_config :: "cam_env \<Rightarrow> 'u camera \<Rightarrow> smp_config" where
  "pairing_config env c =
     \<lparr>cf_local = ev_local env, cf_remote = cm_peer c, cf_io_capability = kKeyboardOnly,
      cf_want_bonding = True, cf_want_mitm = True\<rparr>"

definition ensure_encrypted :: "cam_env \<Rightarrow> real \<Rightarrow> 'u resume \<Rightarrow> 'u camera \<Rightarrow> 'u cam_step" where
  "ensure_encrypted env timeout r c =
     (if cm_conn c = 0 then (later_resume r False ''not connected'' c, [])
      else if ev_encrypted env (cm_conn c) then (later_resume r True [] c, [])
      else if cm_pairing c \<noteq> None then (later_resume r False ''pairing is already in progress'' c, [])
      else
        let (i, pdu) = smp_begin (new_initiator (pairing_config env c));
            c = c\<lparr>cm_pairing := Some i, cm_pairing_done := Some r, cm_pairing_timeout := timeout\<rparr>
        in case ev_send_smp env (cm_conn c) pdu of
             Some err \<Rightarrow>
               (let (c, acts) = finish_pairing False err c in (c, SmpSent (cm_conn c) pdu # acts))
           | None \<Rightarrow> (c\<lparr>cm_pairing_timer := True\<rparr>, [SmpSent (cm_conn c) pdu, PairingTimer (timeout + 30)]))"

definition pairing_timed_out :: "'u camera \<Rightarrow> 'u cam_step" where
  "pairing_timed_out c =
     finish_pairing False ''the camera never finished pairing'' (c\<lparr>cm_pairing_timer := False\<rparr>)"

text \<open>The passkey the provider would give, when there is a provider and it gives one, and the
  nonce the system would give, are the first two arguments.\<close>

definition on_smp :: "u32 option \<Rightarrow> bytes \<Rightarrow> u16 \<Rightarrow> bytes \<Rightarrow> 'u camera \<Rightarrow> 'u cam_step" where
  "on_smp passkey rnd conn pdu c =
     (case cm_pairing c of
        None \<Rightarrow> (c, [])
      | Some i \<Rightarrow>
          if conn \<noteq> cm_conn c then (c, [])
          else let r = smp_handle passkey rnd i pdu;
                   c = c\<lparr>cm_pairing := Some (rs_state r)\<rparr>;
                   sent = (if rs_out r \<noteq> [] then [SmpSent conn (rs_out r)] else [])
            in if \<not> rs_ok r
               then (let (c, acts) = finish_pairing False (case rs_error r of None \<Rightarrow> [] | Some e \<Rightarrow> e) c
                     in (c, sent @ acts))
               else if in_state (rs_state r) \<noteq> ReadyToEncrypt then (c, sent)
               else (c, sent @ [EncryptAsked conn (in_stk (rs_state r)) 0 (replicate 8 0) 10]))"

definition encryption_answered :: "bool \<Rightarrow> string \<Rightarrow> 'u camera \<Rightarrow> 'u cam_step" where
  "encryption_answered ok why c = finish_pairing ok why c"

section \<open>Connecting\<close>

definition disconnect :: "'u camera \<Rightarrow> 'u cam_step" where
  "disconnect c =
     (let (c', acts) = finish_pairing False ''the connection was dropped''
                         (c\<lparr>cm_conn := 0, cm_subscribed := False\<rparr>)
      in (c', acts @ (if cm_conn c \<noteq> 0 then [LinkDropped (cm_conn c)] else [])))"

definition on_gone :: "u16 \<Rightarrow> 'u camera \<Rightarrow> 'u cam_step" where
  "on_gone handle c =
     (if handle \<noteq> cm_conn c then (c, [])
      else let (c', acts) = finish_pairing False ''the camera disconnected during pairing''
                              (c\<lparr>cm_conn := 0, cm_subscribed := False\<rparr>)
        in (c', acts @ (if cm_on_gone c' then [GoneTold] else [])))"

definition connect_types :: "byte list" where
  "connect_types = [kAddrPublic, kAddrRandom]"

definition try_connect :: "address \<Rightarrow> nat \<Rightarrow> real \<Rightarrow> 'u option \<Rightarrow> 'u cam_action list" where
  "try_connect peer type_index timeout handler =
     (if 2 \<le> type_index then []
      else [ConnectAsked (Address (addr_bytes peer) (connect_types ! type_index)) (timeout / 2) type_index timeout handler])"

definition not_an_address :: "string \<Rightarrow> string" where
  "not_an_address ident =
     [CHR 0x22] @ ident @ [CHR 0x22] @
     '' is not a Bluetooth address. Over the dongle a camera is named by its address, not by the identifier CoreBluetooth uses; run --scan-only to list them.''"

definition connect :: "string \<Rightarrow> real \<Rightarrow> 'u option \<Rightarrow> 'u camera \<Rightarrow> 'u cam_step" where
  "connect ident timeout handler c =
     (case address_from_string ident kAddrPublic of
        None \<Rightarrow> (tell_later handler False (not_an_address ident) c, [])
      | Some peer \<Rightarrow>
          (let (c, acts) = disconnect c in (c, acts @ try_connect peer 0 timeout handler)))"

definition connect_answered ::
  "address \<Rightarrow> nat \<Rightarrow> real \<Rightarrow> 'u option \<Rightarrow> bool \<Rightarrow> u16 \<Rightarrow> string \<Rightarrow> 'u camera \<Rightarrow> 'u cam_step" where
  "connect_answered target type_index timeout handler ok handle err c =
     (if \<not> ok then
        (c, if type_index + 1 < 2 then try_connect target (type_index + 1) timeout handler
            else tell handler False err)
      else
        (let c = c\<lparr>cm_conn := handle, cm_peer := target, cm_live := empty_view, cm_subscribed := False,
                   cm_timecode := no_handles, cm_incoming := no_handles, cm_outgoing := no_handles,
                   cm_mtu := kDefaultMtu\<rparr>
         in (c, [Asked handle (exchange_mtu_request 247) 5 (MtuReq handler)])))"


section \<open>Discovery\<close>

text \<open>The handler \<open>connect\<close> gives to \<open>discover\<close>.\<close>

definition discovered :: "'u option \<Rightarrow> bool \<Rightarrow> string \<Rightarrow> 'u camera \<Rightarrow> 'u cam_step" where
  "discovered handler ok why c =
     (let (c, acts) = (if ok then (c, []) else disconnect c) in (c, acts @ tell handler ok why))"

definition kNotACamera :: string where
  "kNotACamera = ''this device does not have the Blackmagic camera control service; it is not a camera''"

text \<open>The loop of \<open>finish_discovery\<close>, one characteristic.\<close>

definition take_up :: "'u camera \<Rightarrow> nat \<Rightarrow> 'u camera" where
  "take_up c i =
     (let d = cm_chars c ! i;
          fill = (\<lambda>h. \<lparr>chh_value = cd_value_handle d,
                       chh_cccd = (case cm_chars_cccd c i of Some x \<Rightarrow> x | None \<Rightarrow> chh_cccd h),
                       chh_properties = cd_properties d\<rparr>)
      in if cd_uuid d = uuid_const kCharOutgoingControl then c\<lparr>cm_outgoing := fill (cm_outgoing c)\<rparr>
         else if cd_uuid d = uuid_const kCharIncomingControl then c\<lparr>cm_incoming := fill (cm_incoming c)\<rparr>
         else if cd_uuid d = uuid_const kCharTimecode then c\<lparr>cm_timecode := fill (cm_timecode c)\<rparr>
         else c)"

definition finish_discovery :: "'u option \<Rightarrow> 'u camera \<Rightarrow> 'u cam_step" where
  "finish_discovery handler c =
     (let c = foldl take_up c [0..<length (cm_chars c)]; c = c\<lparr>cm_chars_cccd := Map.empty\<rparr>
      in if \<not> found (cm_outgoing c) \<or> \<not> found (cm_timecode c)
         then discovered handler False
                ''the camera control service is missing the characteristics this program needs'' c
         else discovered handler True [] c)"

definition cccd_wanted :: "char_decl \<Rightarrow> bool" where
  "cccd_wanted d \<longleftrightarrow>
     (cd_uuid d = uuid_const kCharIncomingControl \<or> cd_uuid d = uuid_const kCharTimecode) \<and>
     cd_properties d AND (kPropNotify OR kPropIndicate) \<noteq> 0"

definition cccd_range :: "'u camera \<Rightarrow> nat \<Rightarrow> u16 \<times> u16" where
  "cccd_range c index =
     (cd_value_handle (cm_chars c ! index) + 1,
      if index + 1 < length (cm_chars c) then cd_handle (cm_chars c ! (index + 1)) - 1 else cm_svc_end c)"

text \<open>The first question \<open>find_cccd\<close> asks is part of \<open>walk_cccds\<close>, which makes the two of them one
  recursion over the characteristics.\<close>

function walk_cccds :: "nat \<Rightarrow> 'u option \<Rightarrow> 'u camera \<Rightarrow> 'u cam_step" where
  "walk_cccds index handler c =
     (if index < length (cm_chars c) then
        if cccd_wanted (cm_chars c ! index) then
          let (cursor, stop) = cccd_range c index
          in if cursor > stop then walk_cccds (index + 1) handler c
             else (c, ask c (find_information_request cursor stop) 10 (CccdReq index stop 0 handler))
        else walk_cccds (index + 1) handler c
      else finish_discovery handler c)"
  by pat_completeness auto
termination
  by (relation "measure (\<lambda>(i, h, c). length (cm_chars c) - i)") auto

declare walk_cccds.simps [simp del]

definition find_cccd :: "nat \<Rightarrow> u16 \<Rightarrow> u16 \<Rightarrow> nat \<Rightarrow> 'u option \<Rightarrow> 'u camera \<Rightarrow> 'u cam_step" where
  "find_cccd index cursor stop turn handler c =
     (if 8 \<le> turn \<or> cursor > stop then walk_cccds (index + 1) handler c
      else (c, ask c (find_information_request cursor stop) 10 (CccdReq index stop turn handler)))"

text \<open>Counting up to a bound, as the walk does.\<close>

lemma up_to_induct:
  assumes "\<And>i. (i < n \<Longrightarrow> P (Suc i)) \<Longrightarrow> P i"
  shows "P (i :: nat)"
proof (induction "n - i" arbitrary: i rule: less_induct)
  case less
  show ?case by (rule assms) (rule less, simp)
qed

lemma walk_cccds_step:
  "walk_cccds index handler c =
     (if index < length (cm_chars c) then
        if cccd_wanted (cm_chars c ! index)
        then find_cccd index (fst (cccd_range c index)) (snd (cccd_range c index)) 0 handler c
        else walk_cccds (index + 1) handler c
      else finish_discovery handler c)"
  by (simp add: walk_cccds.simps[of index] find_cccd_def case_prod_unfold Let_def)

fun client_config :: "handle_uuid list \<Rightarrow> u16 \<Rightarrow> u16 \<times> u16" where
  "client_config [] next_handle = (0, next_handle)"
| "client_config (d # ds) next_handle =
     (if hu_uuid d = uuid_from_16 kUuidClientCharConfig then (hu_handle d, next_handle)
      else client_config ds (hu_handle d + 1))"

definition cccd_answered ::
  "nat \<Rightarrow> u16 \<Rightarrow> nat \<Rightarrow> 'u option \<Rightarrow> bool \<Rightarrow> bytes \<Rightarrow> 'u camera \<Rightarrow> 'u cam_step" where
  "cccd_answered index stop turn handler ok rsp c =
     (let (parsed, descs) = parse_find_information_response rsp
      in if \<not> ok \<or> \<not> parsed \<or> descs = [] then walk_cccds (index + 1) handler c
         else let (cccd, next_handle) = client_config descs 0
           in if cccd \<noteq> 0
              then walk_cccds (index + 1) handler (c\<lparr>cm_chars_cccd := (cm_chars_cccd c)(index \<mapsto> cccd)\<rparr>)
              else find_cccd index next_handle stop (turn + 1) handler c)"

definition walk_chars :: "u16 \<Rightarrow> nat \<Rightarrow> 'u option \<Rightarrow> 'u camera \<Rightarrow> 'u cam_step" where
  "walk_chars cursor turn handler c =
     (if 24 \<le> turn \<or> cursor > cm_svc_end c then walk_cccds 0 handler c
      else (c, ask c (read_by_type_request cursor (cm_svc_end c) (uuid_from_16 kUuidCharacteristic)) 10
                 (CharsReq turn handler)))"

definition chars_answered ::
  "nat \<Rightarrow> 'u option \<Rightarrow> bool \<Rightarrow> bytes \<Rightarrow> string \<Rightarrow> 'u camera \<Rightarrow> 'u cam_step" where
  "chars_answered turn handler ok rsp err c =
     (if \<not> ok then discovered handler False err c
      else let (parsed, chars) = parse_read_by_type_response_chars rsp
        in if \<not> parsed \<or> chars = [] then walk_cccds 0 handler c
           else walk_chars (cd_value_handle (last chars) + 1) (turn + 1) handler
                  (c\<lparr>cm_chars := cm_chars c @ chars\<rparr>))"

definition walk_services :: "u16 \<Rightarrow> nat \<Rightarrow> 'u option \<Rightarrow> 'u camera \<Rightarrow> 'u cam_step" where
  "walk_services start turn handler c =
     (if 16 \<le> turn \<or> start = 0 then discovered handler False kNotACamera c
      else (c, ask c (read_by_group_type_request start 0xffff (uuid_from_16 kUuidPrimaryService)) 10
                 (ServicesReq turn handler)))"

definition note_service :: "'u camera \<Rightarrow> service_range \<Rightarrow> 'u camera" where
  "note_service c s =
     (if sr_uuid s = uuid_const kServiceCamera then c\<lparr>cm_svc_start := sr_start s, cm_svc_end := sr_end s\<rparr>
      else c)"

definition services_answered ::
  "nat \<Rightarrow> 'u option \<Rightarrow> bool \<Rightarrow> bytes \<Rightarrow> string \<Rightarrow> 'u camera \<Rightarrow> 'u cam_step" where
  "services_answered turn handler ok rsp err c =
     (if \<not> ok then discovered handler False err c
      else let (parsed, svcs) = parse_read_by_group_type_response rsp
        in if \<not> parsed \<or> svcs = [] then discovered handler False kNotACamera c
           else let c = foldl note_service c svcs;
                    stop = sr_end (last svcs); next_handle = (if stop = 0xffff then 0 else stop + 1)
             in if cm_svc_start c \<noteq> 0 then walk_chars (cm_svc_start c) 0 handler c
                else walk_services next_handle (turn + 1) handler c)"

definition discover :: "'u option \<Rightarrow> 'u camera \<Rightarrow> 'u cam_step" where
  "discover handler c =
     walk_services 1 0 handler (c\<lparr>cm_svc_start := 0, cm_svc_end := 0, cm_chars := []\<rparr>)"

definition mtu_answered :: "'u option \<Rightarrow> bool \<Rightarrow> bytes \<Rightarrow> 'u camera \<Rightarrow> 'u cam_step" where
  "mtu_answered handler got rsp c =
     discover handler
       (case (if got then parse_exchange_mtu_response rsp else None) of
          None \<Rightarrow> c
        | Some mtu \<Rightarrow> c\<lparr>cm_mtu := (if mtu < kDefaultMtu then kDefaultMtu else mtu)\<rparr>)"


section \<open>Writing\<close>

definition write_control :: "bytes \<Rightarrow> real \<Rightarrow> 'u option \<Rightarrow> 'u camera \<Rightarrow> 'u cam_step" where
  "write_control packet timeout handler c =
     (if cm_conn c = 0 then (tell_later handler False ''not connected'' c, [])
      else if \<not> found (cm_outgoing c)
        then (tell_later handler False ''the camera has no Outgoing Camera Control characteristic'' c, [])
      else let req = write_request (chh_value (cm_outgoing c)) packet
        in (c, ask c req timeout (FirstWrite req timeout (ForControl handler))))"

definition first_write_answered ::
  "cam_env \<Rightarrow> bytes \<Rightarrow> real \<Rightarrow> 'u write_for \<Rightarrow> bool \<Rightarrow> bytes \<Rightarrow> string \<Rightarrow> 'u camera \<Rightarrow> 'u cam_step" where
  "first_write_answered env req timeout who ok rsp err c =
     (if \<not> ok then written who False err c
      else case parse_error_response rsp of
          None \<Rightarrow> written who True [] c
        | Some e \<Rightarrow>
            if \<not> needs_encryption (er_error e)
            then written who False (refusal who False @ error_name (er_error e)) c
            else ensure_encrypted env timeout (req, timeout, who) c)"

definition second_write_answered ::
  "'u write_for \<Rightarrow> bool \<Rightarrow> bytes \<Rightarrow> string \<Rightarrow> 'u camera \<Rightarrow> 'u cam_step" where
  "second_write_answered who again rsp err c =
     (if \<not> again then written who False err c
      else case parse_error_response rsp of
          None \<Rightarrow> written who True [] c
        | Some e \<Rightarrow> written who False (refusal who True @ error_name (er_error e)) c)"

section \<open>Answers and deferred calls\<close>

fun answered :: "cam_env \<Rightarrow> 'u cam_req \<Rightarrow> bool \<Rightarrow> bytes \<Rightarrow> string \<Rightarrow> 'u camera \<Rightarrow> 'u cam_step" where
  "answered env (MtuReq h) ok rsp err c = mtu_answered h ok rsp c"
| "answered env (ServicesReq turn h) ok rsp err c = services_answered turn h ok rsp err c"
| "answered env (CharsReq turn h) ok rsp err c = chars_answered turn h ok rsp err c"
| "answered env (CccdReq index stop turn h) ok rsp err c = cccd_answered index stop turn h ok rsp c"
| "answered env (FirstWrite req timeout who) ok rsp err c = first_write_answered env req timeout who ok rsp err c"
| "answered env (SecondWrite who) ok rsp err c = second_write_answered who ok rsp err c"

definition cam_run_later :: "'u camera \<Rightarrow> 'u cam_step" where
  "cam_run_later c =
     (case cm_later c of
        [] \<Rightarrow> (c, [])
      | TellLater u ok why # rest \<Rightarrow> (c\<lparr>cm_later := rest\<rparr>, [Told u ok why])
      | ResumeLater r ok why # rest \<Rightarrow> resume_write r ok why (c\<lparr>cm_later := rest\<rparr>))"

section \<open>What it tells us\<close>

definition to_int32 :: "int \<Rightarrow> int" where
  "to_int32 n = sint (word_of_int n :: 32 word)"

definition note_value :: "camera_view \<Rightarrow> bmd_value \<Rightarrow> camera_view" where
  "note_value cv v =
     (let cv = cv\<lparr>cv_state := (cv_state cv)((bv_group v, bv_param v) \<mapsto> v)\<rparr>;
          cv = (if bv_group v = kGroupOutput \<and> bv_param v = kParamTimecodeSource \<and> bv_ints v \<noteq> []
                then cv\<lparr>cv_has_timecode_source := True, cv_timecode_source := bv_ints v ! 0\<rparr> else cv);
          cv = (if bv_group v = kGroupMedia \<and> bv_param v = kParamTransport \<and> bv_ints v \<noteq> []
                then cv\<lparr>cv_has_transport := True, cv_transport := bv_ints v ! 0\<rparr> else cv)
      in if bv_group v = kGroupVideo \<and> bv_param v = kParamFrameRate \<and> bv_ints v \<noteq> [] \<and> 0 < bv_ints v ! 0
         then cv\<lparr>cv_has_fps := True, cv_fps := to_int32 (bv_ints v ! 0)\<rparr> else cv)"

definition stream_values :: "bytes \<Rightarrow> bmd_value list" where
  "stream_values data = List.map_filter decode_value (bmd_parse_stream data)"

definition on_att :: "real \<Rightarrow> u16 \<Rightarrow> bytes \<Rightarrow> 'u camera \<Rightarrow> 'u cam_step" where
  "on_att now conn pdu c =
     (if conn \<noteq> cm_conn c then (c, [])
      else case parse_notification pdu of
          None \<Rightarrow> (c, [])
        | Some n \<Rightarrow>
            (let ack = (if nt_wants_confirmation n then [AttSent conn handle_value_confirmation] else [])
             in if nt_handle n = chh_value (cm_timecode c) then
                  (case parse_timecode (nt_value n) of
                     None \<Rightarrow> (c, ack)
                   | Some tc \<Rightarrow>
                       (let c = c\<lparr>cm_live := (cm_live c)\<lparr>cv_has_timecode := True, cv_timecode := tc,
                                                       cv_timecode_mono := now\<rparr>\<rparr>
                        in (c, ack @ cam_note c)))
                else if nt_handle n \<noteq> chh_value (cm_incoming c) then (c, ack)
                else let values = stream_values (nt_value n)
                  in if values = [] then (c, ack)
                     else let c = c\<lparr>cm_live := foldl note_value (cm_live c) values\<rparr>
                       in (c, ack @ cam_note c)))"

end
