(* ===== verification/CameraHciLaws.thy ===== *)
theory CameraHciLaws
  imports CameraHci "HOL-Library.Multiset"
begin

text \<open>
  What holds of a camera over the dongle whatever it is asked and answered: an account of the
  handlers it is given, the end of discovery, and the key a link is encrypted with.

  A run is the camera, the questions it has out, and everything it has done.  An operation is a
  call of its owner, an answer to one of those questions, or something that arrives from the
  radio or the loop.
\<close>

section \<open>Runs\<close>

datatype 'u cam_awaited = AwaitAnswer "'u cam_req" | AwaitLink address nat real "'u option"

fun awaits :: "'u cam_action list \<Rightarrow> 'u cam_awaited list" where
  "awaits [] = []"
| "awaits (Asked conn req timeout k # acts) = AwaitAnswer k # awaits acts"
| "awaits (ConnectAsked target half n timeout h # acts) = AwaitLink target n timeout h # awaits acts"
| "awaits (a # acts) = awaits acts"

datatype 'u cam_op =
    DoReady bool string
  | DoConnect string real "'u option"
  | DoDisconnect
  | DoSubscribe real "'u option"
  | DoWrite bytes real "'u option"
  | DoForget
  | DoAnswer nat bool u16 bytes string
  | DoGone u16
  | DoSmp "u32 option" bytes u16 bytes
  | DoEncrypted bool string
  | DoPairingTimeout
  | DoAtt real u16 bytes
  | DoLater
  | DoScan real string bool "'u option"
  | DoScanHeard nat adv_report
  | DoScanStarted nat bool
  | DoScanOver nat

record 'u cam_run =
  cr_camera :: "'u camera"
  cr_awaited :: "'u cam_awaited list"
  cr_done :: "'u cam_action list"

fun give_answer :: "cam_env \<Rightarrow> 'u cam_awaited \<Rightarrow> bool \<Rightarrow> u16 \<Rightarrow> bytes \<Rightarrow> string \<Rightarrow> 'u camera \<Rightarrow> 'u cam_step" where
  "give_answer env (AwaitAnswer k) ok handle rsp err c = answered env k ok rsp err c"
| "give_answer env (AwaitLink target n timeout h) ok handle rsp err c =
     connect_answered target n timeout h ok handle err c"

fun cam_perform :: "cam_env \<Rightarrow> 'u cam_op \<Rightarrow> 'u cam_awaited list \<Rightarrow> 'u camera \<Rightarrow> 'u cam_step" where
  "cam_perform env (DoReady ok err) ws c = cam_on_ready ok err c"
| "cam_perform env (DoConnect ident timeout h) ws c = connect ident timeout h c"
| "cam_perform env DoDisconnect ws c = disconnect c"
| "cam_perform env (DoSubscribe timeout h) ws c = subscribe timeout h c"
| "cam_perform env (DoWrite packet timeout h) ws c = write_control packet timeout h c"
| "cam_perform env DoForget ws c = (forget_timecode c, [])"
| "cam_perform env (DoAnswer k ok handle rsp err) ws c =
     (if k < length ws then give_answer env (ws ! k) ok handle rsp err c else (c, []))"
| "cam_perform env (DoGone handle) ws c = on_gone handle c"
| "cam_perform env (DoSmp passkey rnd conn pdu) ws c = on_smp passkey rnd conn pdu c"
| "cam_perform env (DoEncrypted ok why) ws c = encryption_answered ok why c"
| "cam_perform env DoPairingTimeout ws c = pairing_timed_out c"
| "cam_perform env (DoAtt now conn pdu) ws c = on_att now conn pdu c"
| "cam_perform env DoLater ws c = cam_run_later c"
| "cam_perform env (DoScan seconds hint all h) ws c = cam_scan seconds hint all h c"
| "cam_perform env (DoScanHeard n r) ws c = (scan_heard n r c, [])"
| "cam_perform env (DoScanStarted n ok) ws c = cam_scan_started n ok c"
| "cam_perform env (DoScanOver n) ws c = scan_over n c"

text \<open>An answer uses up the question it answers.\<close>

fun still_awaited :: "'u cam_op \<Rightarrow> 'u cam_awaited list \<Rightarrow> 'u cam_awaited list" where
  "still_awaited (DoAnswer k ok handle rsp err) ws = take k ws @ drop (Suc k) ws"
| "still_awaited op ws = ws"

definition cam_next :: "cam_env \<Rightarrow> 'u cam_run \<Rightarrow> 'u cam_op \<Rightarrow> 'u cam_run" where
  "cam_next env r op =
     (let (c, acts) = cam_perform env op (cr_awaited r) (cr_camera r)
      in \<lparr>cr_camera = c, cr_awaited = still_awaited op (cr_awaited r) @ awaits acts,
          cr_done = cr_done r @ acts\<rparr>)"

definition run_camera :: "cam_env \<Rightarrow> 'u option \<Rightarrow> 'u cam_op list \<Rightarrow> 'u cam_run" where
  "run_camera env on_ready ops =
     foldl (cam_next env) \<lparr>cr_camera = fresh_camera on_ready, cr_awaited = [], cr_done = []\<rparr> ops"

section \<open>The account of handlers\<close>

fun cam_owed :: "'u option \<Rightarrow> 'u multiset" where
  "cam_owed None = {#}"
| "cam_owed (Some u) = {#u#}"

fun owed_write :: "'u write_for \<Rightarrow> 'u multiset" where
  "owed_write (ForControl h) = cam_owed h"
| "owed_write (ForCccd index timeout h) = cam_owed h"

fun owed_req :: "'u cam_req \<Rightarrow> 'u multiset" where
  "owed_req (MtuReq h) = cam_owed h"
| "owed_req (ServicesReq n h) = cam_owed h"
| "owed_req (CharsReq n h) = cam_owed h"
| "owed_req (CccdReq i stop n h) = cam_owed h"
| "owed_req (FirstWrite req timeout w) = owed_write w"
| "owed_req (SecondWrite w) = owed_write w"

fun owed_awaited :: "'u cam_awaited \<Rightarrow> 'u multiset" where
  "owed_awaited (AwaitAnswer k) = owed_req k"
| "owed_awaited (AwaitLink target n timeout h) = cam_owed h"

definition owed_resume :: "'u resume \<Rightarrow> 'u multiset" where
  "owed_resume r = owed_write (snd (snd r))"

fun owed_later :: "'u cam_later \<Rightarrow> 'u multiset" where
  "owed_later (TellLater u ok why) = {#u#}"
| "owed_later (ResumeLater r ok why) = owed_resume r"

definition held :: "'u camera \<Rightarrow> 'u multiset" where
  "held c = cam_owed (cm_on_ready c) + (case cm_pairing_done c of None \<Rightarrow> {#} | Some r \<Rightarrow> owed_resume r) +
            (\<Sum>l\<leftarrow>cm_later c. owed_later l)"

fun told_by :: "'u cam_action \<Rightarrow> 'u multiset" where
  "told_by (Told u ok why) = {#u#}"
| "told_by a = {#}"

definition cam_told :: "'u cam_action list \<Rightarrow> 'u multiset" where
  "cam_told acts = (\<Sum>a\<leftarrow>acts. told_by a)"

definition out :: "'u cam_awaited list \<Rightarrow> 'u multiset" where
  "out ws = (\<Sum>w\<leftarrow>ws. owed_awaited w)"

fun cam_brought :: "'u cam_op \<Rightarrow> 'u multiset" where
  "cam_brought (DoConnect ident timeout h) = cam_owed h"
| "cam_brought (DoSubscribe timeout h) = cam_owed h"
| "cam_brought (DoWrite packet timeout h) = cam_owed h"
| "cam_brought op = {#}"

text \<open>A pairing under way has something to resume, and only then; a step keeps that and the account.\<close>

definition pairing_whole :: "'u camera \<Rightarrow> bool" where
  "pairing_whole c \<longleftrightarrow> (cm_pairing c = None \<longleftrightarrow> cm_pairing_done c = None)"

definition balances :: "'u camera \<Rightarrow> 'u multiset \<Rightarrow> 'u cam_step \<Rightarrow> bool" where
  "balances c given s \<longleftrightarrow>
     pairing_whole (fst s) \<and> held (fst s) + cam_told (snd s) + out (awaits (snd s)) = held c + given"

lemma awaits_append [simp]: "awaits (a @ b) = awaits a @ awaits b"
  by (induction a rule: awaits.induct) auto

lemma told_simps [simp]: "cam_told [] = {#}" "cam_told (x # b) = told_by x + cam_told b" "cam_told (a @ b) = cam_told a + cam_told b"
  by (simp_all add: cam_told_def)

lemma out_simps [simp]: "out [] = {#}" "out (x # b) = owed_awaited x + out b" "out (a @ b) = out a + out b"
  by (simp_all add: out_def)

lemma told_tell [simp]: "cam_told (tell h ok why) = cam_owed h" "awaits (tell h ok why) = []"
  by (simp_all add: tell_def split: option.splits)

lemma balances_then:
  assumes "balances c g (d1, a1)" "balances d1 g' (d2, a2)"
  shows "balances c (g + g') (d2, a1 @ a2)"
  using assms by (simp add: balances_def) (metis (no_types, lifting) add.assoc add.commute)

lemma balances_tell: "pairing_whole c' \<Longrightarrow> held c' = held c \<Longrightarrow> balances c (cam_owed h) (c', tell h ok why)"
  by (simp add: balances_def)

lemma balances_nothing: "pairing_whole c' \<Longrightarrow> held c' = held c \<Longrightarrow> balances c {#} (c', [])"
  by (simp add: balances_def)

lemma balances_ask:
  "pairing_whole c' \<Longrightarrow> held c' = held c \<Longrightarrow> balances c (owed_req k) (c', ask c'' req timeout k)"
  by (simp add: balances_def ask_def)

lemma held_tell_later [simp]:
  "held (tell_later h ok why c) = held c + cam_owed h"
  "pairing_whole (tell_later h ok why c) = pairing_whole c"
  by (cases h; simp add: tell_later_def held_def pairing_whole_def)+

lemma held_later_resume [simp]:
  "held (later_resume r ok why c) = held c + owed_resume r"
  "pairing_whole (later_resume r ok why c) = pairing_whole c"
  by (simp_all add: later_resume_def held_def pairing_whole_def)

text \<open>Parts of the state that hold no handler.\<close>

lemma held_updates [simp]:
  "held (c\<lparr>cm_conn := a\<rparr>) = held c" "held (c\<lparr>cm_subscribed := b\<rparr>) = held c" "held (c\<lparr>cm_live := v\<rparr>) = held c"
  "held (c\<lparr>cm_peer := p\<rparr>) = held c" "held (c\<lparr>cm_mtu := m\<rparr>) = held c" "held (c\<lparr>cm_outgoing := h\<rparr>) = held c"
  "held (c\<lparr>cm_incoming := h\<rparr>) = held c" "held (c\<lparr>cm_timecode := h\<rparr>) = held c"
  "held (c\<lparr>cm_chars := cs\<rparr>) = held c" "held (c\<lparr>cm_chars_cccd := f\<rparr>) = held c"
  "held (c\<lparr>cm_svc_start := s\<rparr>) = held c" "held (c\<lparr>cm_svc_end := s\<rparr>) = held c"
  "held (c\<lparr>cm_pairing := i\<rparr>) = held c" "held (c\<lparr>cm_pairing_timeout := t\<rparr>) = held c"
  "held (c\<lparr>cm_pairing_timer := b\<rparr>) = held c" "held (c\<lparr>cm_jobs := js\<rparr>) = held c"
  "held (c\<lparr>cm_scan_timer := j\<rparr>) = held c" "held (c\<lparr>cm_on_view := b\<rparr>) = held c" "held (c\<lparr>cm_on_gone := b\<rparr>) = held c"
  by (simp_all add: held_def)

lemma pairing_whole_updates [simp]:
  "pairing_whole (c\<lparr>cm_conn := a\<rparr>) = pairing_whole c" "pairing_whole (c\<lparr>cm_subscribed := b\<rparr>) = pairing_whole c"
  "pairing_whole (c\<lparr>cm_live := v\<rparr>) = pairing_whole c" "pairing_whole (c\<lparr>cm_peer := p\<rparr>) = pairing_whole c"
  "pairing_whole (c\<lparr>cm_mtu := m\<rparr>) = pairing_whole c" "pairing_whole (c\<lparr>cm_outgoing := h\<rparr>) = pairing_whole c"
  "pairing_whole (c\<lparr>cm_incoming := h\<rparr>) = pairing_whole c" "pairing_whole (c\<lparr>cm_timecode := h\<rparr>) = pairing_whole c"
  "pairing_whole (c\<lparr>cm_chars := cs\<rparr>) = pairing_whole c" "pairing_whole (c\<lparr>cm_chars_cccd := f\<rparr>) = pairing_whole c"
  "pairing_whole (c\<lparr>cm_svc_start := s\<rparr>) = pairing_whole c" "pairing_whole (c\<lparr>cm_svc_end := s\<rparr>) = pairing_whole c"
  "pairing_whole (c\<lparr>cm_pairing_timeout := t\<rparr>) = pairing_whole c"
  "pairing_whole (c\<lparr>cm_pairing_timer := b\<rparr>) = pairing_whole c" "pairing_whole (c\<lparr>cm_jobs := js\<rparr>) = pairing_whole c"
  "pairing_whole (c\<lparr>cm_scan_timer := j\<rparr>) = pairing_whole c" "pairing_whole (c\<lparr>cm_on_view := b\<rparr>) = pairing_whole c"
  "pairing_whole (c\<lparr>cm_on_gone := b\<rparr>) = pairing_whole c" "pairing_whole (c\<lparr>cm_later := l\<rparr>) = pairing_whole c"
  "pairing_whole (c\<lparr>cm_on_ready := r\<rparr>) = pairing_whole c"
  by (simp_all add: pairing_whole_def)

lemma balances_from: "held d1 = held c \<Longrightarrow> balances d1 g s \<Longrightarrow> balances c g s"
  by (simp add: balances_def)

lemma subscribe_next_balances:
  "pairing_whole c \<Longrightarrow> balances c (cam_owed h) (subscribe_next n timeout h c)"
  by (auto simp: subscribe_next_def write_cccd_def Let_def balances_def ask_def)

lemma written_balances: "pairing_whole c \<Longrightarrow> balances c (owed_write w) (written w ok why c)"
  by (cases w) (auto simp: subscribe_next_balances intro: balances_tell)

lemma resume_balances: "pairing_whole c \<Longrightarrow> balances c (owed_resume r) (resume_write r ok why c)"
proof (cases r)
  case (fields req timeout w)
  assume "pairing_whole c"
  then show ?thesis using written_balances[of c w False why]
    by (auto simp: fields owed_resume_def balances_def ask_def)
qed

lemma finish_pairing_balances:
  assumes "pairing_whole c"
  shows "balances c {#} (finish_pairing ok err c)"
proof (cases "cm_pairing_done c")
  case None
  then show ?thesis using assms by (auto simp: finish_pairing_def balances_def pairing_whole_def)
next
  case (Some r)
  define d1 where "d1 = c\<lparr>cm_pairing := None, cm_pairing_done := None, cm_pairing_timer := False\<rparr>"
  have w: "pairing_whole d1" by (simp add: d1_def pairing_whole_def)
  have h: "held c = held d1 + owed_resume r" by (simp add: d1_def held_def Some ac_simps)
  have "finish_pairing ok err c = resume_write r ok err d1"
    by (simp add: finish_pairing_def Some d1_def Let_def)
  then show ?thesis using resume_balances[OF w, of r ok err] by (simp add: balances_def h)
qed

lemma finish_pairing_whole: "pairing_whole c \<Longrightarrow> pairing_whole (fst (finish_pairing ok err c))"
  using finish_pairing_balances[of c ok err] by (simp add: balances_def)

text \<open>An operation that ends a pairing after changing parts that hold no handler, and does more.\<close>

lemma finish_with_balances:
  assumes "pairing_whole d1" "held d1 = held c" "cam_told b = {#}" "awaits b = []"
    and "cam_told a = {#}" "awaits a = []"
  shows "balances c {#} (let (c', acts) = finish_pairing ok err d1 in (c', a @ acts @ b))"
  using finish_pairing_balances[OF assms(1), of ok err] assms(2-)
  by (auto simp: balances_def split: prod.splits)

lemma disconnect_balances: "pairing_whole c \<Longrightarrow> balances c {#} (disconnect c)"
  using finish_with_balances[of "c\<lparr>cm_conn := 0, cm_subscribed := False\<rparr>" c
      "if cm_conn c \<noteq> 0 then [LinkDropped (cm_conn c)] else []" "[]" False "''the connection was dropped''"]
  by (simp add: disconnect_def split: prod.splits)

lemma on_gone_balances: "pairing_whole c \<Longrightarrow> balances c {#} (on_gone n c)"
  using finish_pairing_balances[of "c\<lparr>cm_conn := 0, cm_subscribed := False\<rparr>" False
      "''the camera disconnected during pairing''"]
  by (auto simp: on_gone_def balances_def split: prod.splits)

lemma ensure_encrypted_balances:
  assumes "pairing_whole c"
  shows "balances c (owed_resume r) (ensure_encrypted env timeout r c)"
proof (cases "cm_conn c = 0 \<or> ev_encrypted env (cm_conn c) \<or> cm_pairing c \<noteq> None")
  case True
  then show ?thesis using assms by (auto simp: ensure_encrypted_def balances_def)
next
  case False
  obtain i pdu where b: "smp_begin (new_initiator (pairing_config env c)) = (i, pdu)" by fastforce
  define d1 where "d1 = c\<lparr>cm_pairing := Some i, cm_pairing_done := Some r, cm_pairing_timeout := timeout\<rparr>"
  have w: "pairing_whole d1" by (simp add: d1_def pairing_whole_def)
  have "cm_pairing_done c = None" using False assms by (simp add: pairing_whole_def)
  then have h: "held d1 = held c + owed_resume r" by (simp add: d1_def held_def ac_simps)
  have e: "ensure_encrypted env timeout r c =
      (case ev_send_smp env (cm_conn d1) pdu of
         Some err \<Rightarrow> (let (c, acts) = finish_pairing False err d1 in (c, SmpSent (cm_conn c) pdu # acts))
       | None \<Rightarrow> (d1\<lparr>cm_pairing_timer := True\<rparr>, [SmpSent (cm_conn d1) pdu, PairingTimer (timeout + 30)]))"
    using False b by (simp add: ensure_encrypted_def d1_def Let_def split: option.splits prod.splits)
  show ?thesis
    using finish_pairing_balances[OF w, of False] w
    by (auto simp: e balances_def h Let_def case_prod_unfold split: option.splits)
qed

lemma on_smp_balances: "pairing_whole c \<Longrightarrow> balances c {#} (on_smp pk rnd conn pdu c)"
proof -
  assume w: "pairing_whole c"
  show ?thesis
  proof (cases "cm_pairing c")
    case None
    then show ?thesis using w by (simp add: on_smp_def balances_def)
  next
    case (Some i)
    define d1 where "d1 = c\<lparr>cm_pairing := Some (rs_state (smp_handle pk rnd i pdu))\<rparr>"
    have w1: "pairing_whole d1" and h: "held d1 = held c"
      using w Some by (simp_all add: d1_def pairing_whole_def)
    show ?thesis
      using finish_pairing_balances[OF w1, of False] w w1
      by (auto simp: on_smp_def Some Let_def balances_def h d1_def[symmetric] case_prod_unfold)
  qed
qed


lemma connect_balances: "pairing_whole c \<Longrightarrow> balances c (cam_owed h) (connect ident timeout h c)"
proof -
  assume w: "pairing_whole c"
  have "balances c {#} (disconnect c)" by (rule disconnect_balances[OF w])
  then show ?thesis
    using w by (auto simp: connect_def balances_def try_connect_def Let_def case_prod_unfold add.assoc split: option.splits)
qed

lemma connect_answered_balances:
  "pairing_whole c \<Longrightarrow> balances c (cam_owed h) (connect_answered target n timeout h ok handle err c)"
  by (auto simp: connect_answered_def balances_def try_connect_def Let_def)

lemma discovered_balances: "pairing_whole c \<Longrightarrow> balances c (cam_owed h) (discovered h ok why c)"
  using disconnect_balances[of c] by (auto simp: discovered_def balances_def Let_def case_prod_unfold add.assoc)

text \<open>Discovery changes only what it collects.\<close>

definition same_owing :: "'u camera \<Rightarrow> 'u camera \<Rightarrow> bool" where
  "same_owing c c' \<longleftrightarrow> held c' = held c \<and> pairing_whole c' = pairing_whole c"

lemma same_owing_fold:
  assumes "\<And>c x. same_owing c (f c x)"
  shows "same_owing c (foldl f c xs)"
  using assms by (induction xs arbitrary: c) (auto simp: same_owing_def)

lemma same_owing_take_up: "same_owing c (take_up c i)"
  by (simp add: same_owing_def take_up_def Let_def)

lemma finish_discovery_balances:
  assumes "pairing_whole c"
  shows "balances c (cam_owed h) (finish_discovery h c)"
proof -
  define d where "d = (foldl take_up c [0..<length (cm_chars c)])\<lparr>cm_chars_cccd := Map.empty\<rparr>"
  have "same_owing c (foldl take_up c [0..<length (cm_chars c)])"
    by (rule same_owing_fold) (rule same_owing_take_up)
  then have "pairing_whole d" "held d = held c" using assms by (simp_all add: d_def same_owing_def)
  then show ?thesis
    unfolding finish_discovery_def Let_def d_def[symmetric]
    by (auto intro: balances_from discovered_balances)
qed

lemma walk_cccds_balances:
  assumes "pairing_whole c"
  shows "balances c (cam_owed h) (walk_cccds i h c)"
proof (induction i rule: up_to_induct[of "length (cm_chars c)"])
  case (1 i)
  have "balances c (cam_owed h) (c, ask c req 10 (CccdReq i stop 0 h))" for req stop
    using balances_ask[of c c "CccdReq i stop 0 h"] assms by simp
  then show ?case
    using 1 assms by (auto simp: walk_cccds.simps[of i] finish_discovery_balances case_prod_unfold Let_def)
qed

lemma find_cccd_balances: "pairing_whole c \<Longrightarrow> balances c (cam_owed h) (find_cccd i cursor stop n h c)"
  using balances_ask[of c c "CccdReq i stop n h"] by (simp add: find_cccd_def walk_cccds_balances)

lemmas cccds_balance = walk_cccds_balances find_cccd_balances

lemma cccd_answered_balances: "pairing_whole c \<Longrightarrow> balances c (cam_owed h) (cccd_answered i stop n h ok rsp c)"
  by (auto simp: cccd_answered_def case_prod_unfold Let_def cccds_balance intro!: balances_from[OF _ cccds_balance(1)])

lemma walk_chars_balances: "pairing_whole c \<Longrightarrow> balances c (cam_owed h) (walk_chars cursor n h c)"
  by (auto simp: walk_chars_def cccds_balance) (simp add: balances_def ask_def)

lemma chars_answered_balances: "pairing_whole c \<Longrightarrow> balances c (cam_owed h) (chars_answered n h ok rsp err c)"
  by (auto simp: chars_answered_def case_prod_unfold Let_def cccds_balance discovered_balances
        intro!: balances_from[OF _ walk_chars_balances])

lemma walk_services_balances: "pairing_whole c \<Longrightarrow> balances c (cam_owed h) (walk_services start n h c)"
  by (auto simp: walk_services_def discovered_balances) (simp add: balances_def ask_def)

lemma same_owing_note: "same_owing c (note_service c x)"
  by (simp add: same_owing_def note_service_def)

lemma services_answered_balances:
  assumes "pairing_whole c"
  shows "balances c (cam_owed h) (services_answered n h ok rsp err c)"
proof -
  have "same_owing c (foldl note_service c xs)" for xs
    by (rule same_owing_fold) (rule same_owing_note)
  then have "pairing_whole (foldl note_service c xs)" "held (foldl note_service c xs) = held c" for xs
    using assms by (simp_all add: same_owing_def)
  then show ?thesis
    using assms
    by (auto simp: services_answered_def case_prod_unfold Let_def discovered_balances
        intro!: balances_from[OF _ walk_chars_balances] balances_from[OF _ walk_services_balances])
qed

lemma mtu_answered_balances: "pairing_whole c \<Longrightarrow> balances c (cam_owed h) (mtu_answered h got rsp c)"
  by (auto simp: mtu_answered_def discover_def intro!: balances_from[OF _ walk_services_balances] split: option.splits)

lemma first_write_balances:
  "pairing_whole c \<Longrightarrow> balances c (owed_write w) (first_write_answered env req timeout w ok rsp err c)"
  using ensure_encrypted_balances[of c "(req, timeout, w)" env timeout]
  by (auto simp: first_write_answered_def written_balances owed_resume_def split: option.splits)

lemma second_write_balances: "pairing_whole c \<Longrightarrow> balances c (owed_write w) (second_write_answered w again rsp err c)"
  by (auto simp: second_write_answered_def written_balances split: option.splits)

lemma answered_balances: "pairing_whole c \<Longrightarrow> balances c (owed_req k) (answered env k ok rsp err c)"
  by (cases k) (simp_all add: mtu_answered_balances services_answered_balances chars_answered_balances
      cccd_answered_balances first_write_balances second_write_balances)

lemma give_answer_balances:
  "pairing_whole c \<Longrightarrow> balances c (owed_awaited w) (give_answer env w ok handle rsp err c)"
  by (cases w) (simp_all add: answered_balances connect_answered_balances)

lemma run_later_balances:
  assumes "pairing_whole c"
  shows "balances c {#} (cam_run_later c)"
proof (cases "cm_later c")
  case Nil
  then show ?thesis using assms by (simp add: cam_run_later_def balances_def)
next
  case (Cons l rest)
  have h: "held c = held (c\<lparr>cm_later := rest\<rparr>) + owed_later l" by (simp add: held_def Cons ac_simps)
  show ?thesis
  proof (cases l)
    case (TellLater u ok why)
    then show ?thesis using assms h by (simp add: cam_run_later_def Cons balances_def)
  next
    case (ResumeLater r ok why)
    have "balances (c\<lparr>cm_later := rest\<rparr>) (owed_resume r) (resume_write r ok why (c\<lparr>cm_later := rest\<rparr>))"
      using assms by (simp add: resume_balances)
    then show ?thesis using h ResumeLater by (simp add: cam_run_later_def Cons balances_def)
  qed
qed

lemma on_att_balances: "pairing_whole c \<Longrightarrow> balances c {#} (on_att now conn pdu c)"
  by (auto simp: on_att_def balances_def Let_def cam_note_def split: option.splits)

lemma scans_balance:
  "pairing_whole c \<Longrightarrow> balances c {#} (cam_scan seconds hint want h c)"
  "pairing_whole c \<Longrightarrow> balances c {#} (scan_heard n r c, [])"
  "pairing_whole c \<Longrightarrow> balances c {#} (cam_scan_started n ok c)"
  "pairing_whole c \<Longrightarrow> balances c {#} (scan_over n c)"
  by (auto simp: cam_scan_def scan_heard_def cam_scan_started_def scan_over_def tell_scan_def balances_def Let_def
      split: option.splits)

lemma quiet_balances:
  "pairing_whole c \<Longrightarrow> balances c {#} (cam_on_ready ok err c)"
  "pairing_whole c \<Longrightarrow> balances c {#} (forget_timecode c, [])"
  by (auto simp: cam_on_ready_def forget_timecode_def balances_def held_def)

lemma pairing_over_balances:
  assumes "pairing_whole c"
  shows "balances c {#} (pairing_timed_out c)" "balances c {#} (encryption_answered ok err c)"
  using finish_pairing_balances[of "c\<lparr>cm_pairing_timer := False\<rparr>"] finish_pairing_balances[of c] assms
  by (simp_all add: pairing_timed_out_def encryption_answered_def balances_from[of "c\<lparr>cm_pairing_timer := False\<rparr>" c])

lemma asked_by_owner_balances:
  "pairing_whole c \<Longrightarrow> balances c (cam_owed h) (subscribe timeout h c)"
  "pairing_whole c \<Longrightarrow> balances c (cam_owed h) (write_control packet timeout h c)"
  by (auto simp: subscribe_def write_control_def Let_def subscribe_next_balances) (simp_all add: balances_def ask_def)

text \<open>What an operation settles of the questions that are out.\<close>

fun cam_settled :: "'u cam_op \<Rightarrow> 'u cam_awaited list \<Rightarrow> 'u multiset" where
  "cam_settled (DoAnswer k ok handle rsp err) ws = (if k < length ws then owed_awaited (ws ! k) else {#})"
| "cam_settled op ws = {#}"

lemma out_settled: "out ws = out (still_awaited op ws) + cam_settled op ws"
proof (cases op)
  case (DoAnswer k ok handle rsp err)
  show ?thesis
  proof (cases "k < length ws")
    case True
    have "ws = take k ws @ ws ! k # drop (Suc k) ws" by (rule id_take_nth_drop[OF True])
    then have "out ws = out (take k ws @ ws ! k # drop (Suc k) ws)" by (rule arg_cong)
    then show ?thesis by (simp add: DoAnswer True)
  qed (simp add: DoAnswer)
qed simp_all

lemma cam_perform_balances:
  "pairing_whole c \<Longrightarrow> balances c (cam_brought op + cam_settled op ws) (cam_perform env op ws c)"
  by (cases op) (simp_all add: quiet_balances pairing_over_balances connect_balances disconnect_balances asked_by_owner_balances
      give_answer_balances on_gone_balances on_smp_balances on_att_balances run_later_balances scans_balance
      balances_nothing)

lemma cam_next_account:
  assumes "pairing_whole (cr_camera r)"
  shows "pairing_whole (cr_camera (cam_next env r op))"
    and "held (cr_camera (cam_next env r op)) + out (cr_awaited (cam_next env r op)) + cam_told (cr_done (cam_next env r op)) =
         held (cr_camera r) + out (cr_awaited r) + cam_told (cr_done r) + cam_brought op"
proof -
  obtain c acts where s: "cam_perform env op (cr_awaited r) (cr_camera r) = (c, acts)" by fastforce
  have b: "pairing_whole c" "held c + cam_told acts + out (awaits acts) =
      held (cr_camera r) + (cam_brought op + cam_settled op (cr_awaited r))"
    using cam_perform_balances[OF assms, of op "cr_awaited r" env] by (simp_all add: balances_def s)
  show "pairing_whole (cr_camera (cam_next env r op))" using b(1) by (simp add: cam_next_def s)
  have "held c + (out (still_awaited op (cr_awaited r)) + out (awaits acts)) + (cam_told (cr_done r) + cam_told acts) =
      (held c + cam_told acts + out (awaits acts)) + (out (still_awaited op (cr_awaited r)) + cam_told (cr_done r))"
    by (simp add: ac_simps)
  also have "\<dots> = held (cr_camera r) + (out (still_awaited op (cr_awaited r)) + cam_settled op (cr_awaited r)) +
      cam_told (cr_done r) + cam_brought op"
    by (simp only: b(2)) (simp add: ac_simps)
  finally show "held (cr_camera (cam_next env r op)) + out (cr_awaited (cam_next env r op)) + cam_told (cr_done (cam_next env r op)) =
         held (cr_camera r) + out (cr_awaited r) + cam_told (cr_done r) + cam_brought op"
    by (simp add: cam_next_def s out_settled[of "cr_awaited r" op])
qed

lemma account_of_run:
  "pairing_whole (cr_camera r) \<Longrightarrow>
   held (cr_camera (foldl (cam_next env) r ops)) + out (cr_awaited (foldl (cam_next env) r ops)) +
     cam_told (cr_done (foldl (cam_next env) r ops)) =
   held (cr_camera r) + out (cr_awaited r) + cam_told (cr_done r) + (\<Sum>op\<leftarrow>ops. cam_brought op)"
proof (induction ops arbitrary: r)
  case (Cons op ops)
  then show ?case
    by (simp only: foldl.simps Cons.IH[OF cam_next_account(1)[OF Cons.prems]] cam_next_account(2)[OF Cons.prems])
      (simp add: add.assoc)
qed simp

end
