(* ===== verification/CameraHciFlow.thy ===== *)
theory CameraHciFlow
  imports CameraHciLaws
begin

text \<open>
  What a camera over the dongle comes to: connecting always ends, whatever the peer answers; the
  key a link is encrypted with comes from a finished exchange; the view is what the camera said;
  and a scan puts proof before guesswork.
\<close>

section \<open>Connecting ends\<close>

text \<open>Answers given one at a time to the one question that is out.\<close>

type_synonym reply = "bool \<times> u16 \<times> bytes \<times> string"

fun answer_op :: "reply \<Rightarrow> 'u cam_op" where
  "answer_op (ok, handle, rsp, err) = DoAnswer 0 ok handle rsp err"

fun drive :: "cam_env \<Rightarrow> (nat \<Rightarrow> reply) \<Rightarrow> nat \<Rightarrow> 'u cam_run \<Rightarrow> 'u cam_run" where
  "drive env replies 0 r = r"
| "drive env replies (Suc n) r = drive env (\<lambda>i. replies (Suc i)) n (cam_next env r (answer_op (replies 0)))"

text \<open>How much of a connection attempt is left: which phase it is in, and what is left of it.\<close>

fun phase :: "'u camera \<Rightarrow> 'u cam_awaited \<Rightarrow> nat \<times> nat" where
  "phase c (AwaitLink target n timeout h) = (5, 2 - n)"
| "phase c (AwaitAnswer (MtuReq h)) = (4, 0)"
| "phase c (AwaitAnswer (ServicesReq n h)) = (3, 16 - n)"
| "phase c (AwaitAnswer (CharsReq n h)) = (2, 24 - n)"
| "phase c (AwaitAnswer (CccdReq i stop n h)) = (1, 8 * (length (cm_chars c) - i) + (8 - n))"
| "phase c (AwaitAnswer k) = (0, 0)"

fun seeks :: "'u option \<Rightarrow> 'u camera \<Rightarrow> 'u cam_awaited \<Rightarrow> bool" where
  "seeks h c (AwaitLink target n timeout h') \<longleftrightarrow> h' = h \<and> n < 2"
| "seeks h c (AwaitAnswer (MtuReq h')) \<longleftrightarrow> h' = h"
| "seeks h c (AwaitAnswer (ServicesReq n h')) \<longleftrightarrow> h' = h \<and> n < 16"
| "seeks h c (AwaitAnswer (CharsReq n h')) \<longleftrightarrow> h' = h \<and> n < 24"
| "seeks h c (AwaitAnswer (CccdReq i stop n h')) \<longleftrightarrow> h' = h \<and> n < 8 \<and> i < length (cm_chars c)"
| "seeks h c (AwaitAnswer k) \<longleftrightarrow> False"

definition no_pairing :: "'u camera \<Rightarrow> bool" where
  "no_pairing c \<longleftrightarrow> cm_pairing c = None \<and> cm_pairing_done c = None"

abbreviation phase_order :: "((nat \<times> nat) \<times> (nat \<times> nat)) set" where
  "phase_order \<equiv> less_than <*lex*> less_than"

text \<open>A step of the attempt ends it, telling its handler, or leaves one question with less to do.\<close>

definition nearer :: "'u option \<Rightarrow> nat \<times> nat \<Rightarrow> 'u cam_step \<Rightarrow> bool" where
  "nearer h p s \<longleftrightarrow>
     no_pairing (fst s) \<and>
     (awaits (snd s) = [] \<and> cam_told (snd s) = cam_owed h \<or>
      (\<exists>w. awaits (snd s) = [w] \<and> cam_told (snd s) = {#} \<and> seeks h (fst s) w \<and>
           (phase (fst s) w, p) \<in> phase_order))"

lemma nearer_mono: "nearer h p s \<Longrightarrow> (p, q) \<in> phase_order \<Longrightarrow> nearer h q s"
  unfolding nearer_def by (meson wf_less_than trans_less_than transD trans_lex_prod)

lemma no_pairing_updates [simp]:
  "no_pairing (c\<lparr>cm_conn := a\<rparr>) = no_pairing c" "no_pairing (c\<lparr>cm_subscribed := b\<rparr>) = no_pairing c"
  "no_pairing (c\<lparr>cm_mtu := m\<rparr>) = no_pairing c" "no_pairing (c\<lparr>cm_chars := cs\<rparr>) = no_pairing c"
  "no_pairing (c\<lparr>cm_chars_cccd := f\<rparr>) = no_pairing c" "no_pairing (c\<lparr>cm_svc_start := s\<rparr>) = no_pairing c"
  "no_pairing (c\<lparr>cm_svc_end := s\<rparr>) = no_pairing c" "no_pairing (c\<lparr>cm_outgoing := h\<rparr>) = no_pairing c"
  "no_pairing (c\<lparr>cm_incoming := h\<rparr>) = no_pairing c" "no_pairing (c\<lparr>cm_timecode := h\<rparr>) = no_pairing c"
  "no_pairing (c\<lparr>cm_peer := p\<rparr>) = no_pairing c" "no_pairing (c\<lparr>cm_live := v\<rparr>) = no_pairing c"
  by (simp_all add: no_pairing_def)

lemma disconnect_idle:
  "no_pairing c \<Longrightarrow> disconnect c =
     (c\<lparr>cm_conn := 0, cm_subscribed := False\<rparr>, if cm_conn c \<noteq> 0 then [LinkDropped (cm_conn c)] else [])"
  by (simp add: disconnect_def finish_pairing_def no_pairing_def)

lemma nearer_discovered: "no_pairing c \<Longrightarrow> nearer h p (discovered h ok why c)"
  by (auto simp: nearer_def discovered_def disconnect_idle)

lemma no_pairing_take_up: "no_pairing (take_up c i) = no_pairing c"
  by (simp add: take_up_def Let_def)

lemma no_pairing_fold: "(\<And>c x. no_pairing (f c x) = no_pairing c) \<Longrightarrow> no_pairing (foldl f c xs) = no_pairing c"
  by (induction xs arbitrary: c) simp_all

lemma nearer_finish_discovery: "no_pairing c \<Longrightarrow> nearer h p (finish_discovery h c)"
  by (simp add: finish_discovery_def Let_def nearer_discovered no_pairing_fold no_pairing_take_up)

lemma nearer_asked:
  "no_pairing c \<Longrightarrow> seeks h c (AwaitAnswer k) \<Longrightarrow> (phase c (AwaitAnswer k), p) \<in> phase_order \<Longrightarrow>
   nearer h p (c, ask c req timeout k)"
  by (simp add: nearer_def ask_def)

lemma nearer_walk_cccds:
  assumes "no_pairing c"
  shows "nearer h (1, 8 * (length (cm_chars c) - i) + 9) (walk_cccds i h c)"
proof (induction i rule: up_to_induct[of "length (cm_chars c)"])
  case (1 i)
  define p where "p = (1 :: nat, 8 * (length (cm_chars c) - i) + 9)"
  have next_one: "nearer h p (walk_cccds (Suc i) h c)" if "i < length (cm_chars c)"
    by (rule nearer_mono[OF 1[OF that]]) (use that in \<open>simp add: p_def\<close>)
  have asks: "nearer h p (c, ask c req 10 (CccdReq i stop 0 h))" if "i < length (cm_chars c)" for req stop
    using assms that by (intro nearer_asked) (simp_all add: p_def)
  have "nearer h p (finish_discovery h c)" by (rule nearer_finish_discovery[OF assms])
  then show ?case
    unfolding p_def[symmetric] using next_one asks by (auto simp: walk_cccds.simps[of i] case_prod_unfold Let_def)
qed

lemma nearer_find_cccd:
  assumes "no_pairing c" "i < length (cm_chars c)" "n \<le> 8"
  shows "nearer h (1, 8 * (length (cm_chars c) - i) + (9 - n)) (find_cccd i cursor stop n h c)"
proof (cases "8 \<le> n \<or> cursor > stop")
  case True
  have "nearer h (1, 8 * (length (cm_chars c) - i) + (9 - n)) (walk_cccds (i + 1) h c)"
  proof (cases "i + 1 < length (cm_chars c)")
    case False
    then show ?thesis by (simp add: walk_cccds.simps[of "Suc i"] nearer_finish_discovery assms(1))
  next
    case more: True
    have "nearer h (1, 8 * (length (cm_chars c) - (i + 1)) + 9) (walk_cccds (i + 1) h c)"
      by (rule nearer_walk_cccds[OF assms(1)])
    also have "8 * (length (cm_chars c) - (i + 1)) + 9 = 8 * (length (cm_chars c) - i) + 1"
      using more by simp
    finally have walk: "nearer h (1, 8 * (length (cm_chars c) - i) + 1) (walk_cccds (i + 1) h c)" .
    show ?thesis
    proof (cases "n = 8")
      case True
      then show ?thesis using walk by simp
    next
      case False
      then show ?thesis using assms(3) by (intro nearer_mono[OF walk]) simp
    qed
  qed
  then show ?thesis using True by (simp add: find_cccd_def)
next
  case False
  then show ?thesis using assms by (auto simp: find_cccd_def intro!: nearer_asked)
qed

lemmas nearer_cccds = nearer_walk_cccds nearer_find_cccd

lemma nearer_cccd_answered:
  assumes "no_pairing c" "i < length (cm_chars c)" "n < 8"
  shows "nearer h (1, 8 * (length (cm_chars c) - i) + (8 - n)) (cccd_answered i stop n h ok rsp c)"
proof -
  have walk: "nearer h (1, 8 * (length (cm_chars c) - i) + (8 - n)) (walk_cccds (Suc i) h d)"
    if d: "no_pairing d" "cm_chars d = cm_chars c" for d
  proof (cases "i + 1 < length (cm_chars c)")
    case True
    have "nearer h (1, 8 * (length (cm_chars d) - (i + 1)) + 9) (walk_cccds (i + 1) h d)"
      by (rule nearer_cccds(1)[OF d(1)])
    also have "8 * (length (cm_chars d) - (i + 1)) + 9 = 8 * (length (cm_chars c) - i) + 1"
      using True d(2) by simp
    finally have walk: "nearer h (1, 8 * (length (cm_chars c) - i) + 1) (walk_cccds (Suc i) h d)" by simp
    show ?thesis
    proof (cases "n = 7")
      case True
      then show ?thesis using walk by simp
    next
      case False
      then show ?thesis using assms(3) by (intro nearer_mono[OF walk]) simp
    qed
  next
    case False
    then show ?thesis using d by (simp add: walk_cccds.simps[of "Suc i"] nearer_finish_discovery)
  qed
  have "nearer h (1, 8 * (length (cm_chars c) - i) + (9 - (n + 1))) (find_cccd i cursor stop (n + 1) h c)" for cursor
    using assms by (intro nearer_cccds(2)) auto
  then show ?thesis using assms(1) by (auto simp: cccd_answered_def case_prod_unfold Let_def intro!: walk[unfolded One_nat_def])
qed

lemma nearer_walk_chars:
  assumes "no_pairing c"
  shows "nearer h (2, 25 - n) (walk_chars cursor n h c)"
proof (cases "24 \<le> n \<or> cursor > cm_svc_end c")
  case True
  have "nearer h (2, 25 - n) (walk_cccds 0 h c)"
    by (rule nearer_mono[OF nearer_cccds(1)[OF assms]]) simp
  then show ?thesis using True by (simp add: walk_chars_def)
next
  case False
  then show ?thesis using assms by (auto simp: walk_chars_def intro!: nearer_asked)
qed

lemma nearer_chars_answered:
  assumes "no_pairing c" "n < 24"
  shows "nearer h (2, 24 - n) (chars_answered n h ok rsp err c)"
proof -
  have "nearer h (2, 24 - n) (walk_cccds 0 h c)"
    by (rule nearer_mono[OF nearer_cccds(1)[OF assms(1)]]) simp
  moreover have "nearer h (2, 25 - (n + 1)) (walk_chars cursor (n + 1) h (c\<lparr>cm_chars := cs\<rparr>))" for cursor cs
    by (rule nearer_walk_chars) (simp add: assms)
  ultimately show ?thesis
    using assms(1) by (auto simp: chars_answered_def case_prod_unfold Let_def nearer_discovered)
qed

lemma nearer_walk_services:
  assumes "no_pairing c"
  shows "nearer h (3, 17 - n) (walk_services start n h c)"
  using assms by (auto simp: walk_services_def nearer_discovered intro!: nearer_asked)

lemma no_pairing_note: "no_pairing (note_service c x) = no_pairing c"
  by (simp add: note_service_def)

lemma nearer_services_answered:
  assumes "no_pairing c" "n < 16"
  shows "nearer h (3, 16 - n) (services_answered n h ok rsp err c)"
proof -
  have chars: "nearer h (3, 16 - n) (walk_chars cursor 0 h d)" if "no_pairing d" for cursor d
    by (rule nearer_mono[OF nearer_walk_chars[OF that]]) simp
  have services: "nearer h (3, 17 - (n + 1)) (walk_services start (n + 1) h d)" if "no_pairing d" for start d
    by (rule nearer_walk_services[OF that])
  show ?thesis
    using assms(1) services
    by (auto simp: services_answered_def case_prod_unfold Let_def nearer_discovered no_pairing_fold no_pairing_note
        intro!: chars)
qed

lemma nearer_mtu_answered: "no_pairing c \<Longrightarrow> nearer h (4, 0) (mtu_answered h got rsp c)"
  by (auto simp: mtu_answered_def discover_def intro!: nearer_mono[OF nearer_walk_services] split: option.splits)

lemma nearer_connect_answered:
  "no_pairing c \<Longrightarrow> n < 2 \<Longrightarrow> nearer h (5, 2 - n) (connect_answered target n timeout h ok handle err c)"
  by (auto simp: connect_answered_def try_connect_def nearer_def Let_def)

lemma nearer_given:
  assumes "no_pairing c" "seeks h c w"
  shows "nearer h (phase c w) (give_answer env w ok handle rsp err c)"
proof (cases w)
  case (AwaitLink target n timeout h')
  then show ?thesis using assms by (simp add: nearer_connect_answered)
next
  case (AwaitAnswer k)
  show ?thesis
  proof (cases k)
    case (CccdReq i stop n h')
    then show ?thesis using assms nearer_cccd_answered[of c i n h stop ok rsp]
      by (simp only: AwaitAnswer phase.simps seeks.simps give_answer.simps answered.simps)
  qed (use assms AwaitAnswer in \<open>simp_all add: nearer_mtu_answered nearer_services_answered nearer_chars_answered\<close>)
qed

lemma written_false: "written w False why c = (c, tell (case w of ForCccd n timeout h \<Rightarrow> h | ForControl h \<Rightarrow> h) False why)"
  by (cases w) simp_all

lemma finish_pairing_false:
  "awaits (snd (finish_pairing False why c)) = []" "no_pairing (fst (finish_pairing False why c))"
proof -
  have "awaits (snd (resume_write r False why d)) = []" "fst (resume_write r False why d) = d" for r and d :: "'a camera"
    by (cases r; simp add: written_false)+
  then show "awaits (snd (finish_pairing False why c)) = []" "no_pairing (fst (finish_pairing False why c))"
    by (auto simp: finish_pairing_def Let_def no_pairing_def split: option.splits)
qed

lemma disconnect_leaves_no_pairing: "no_pairing (fst (disconnect c))"
  using finish_pairing_false(2) by (simp add: disconnect_def Let_def case_prod_unfold)

lemma disconnect_awaits_nothing: "awaits (snd (disconnect c)) = []"
  by (simp add: disconnect_def Let_def case_prod_unfold finish_pairing_false(1))

lemma attempt_ends:
  assumes "no_pairing c" "seeks h c w"
  shows "\<exists>n. cr_awaited (drive env replies n \<lparr>cr_camera = c, cr_awaited = [w], cr_done = acts\<rparr>) = [] \<and>
             cam_told (cr_done (drive env replies n \<lparr>cr_camera = c, cr_awaited = [w], cr_done = acts\<rparr>)) = cam_told acts + cam_owed h"
  using assms
proof (induction "phase c w" arbitrary: c w acts replies rule: wf_induct_rule[OF wf_lex_prod[OF wf_less_than wf_less_than]])
  case 1
  obtain ok handle rsp err where r: "replies 0 = (ok, handle, rsp, err)" by (metis prod.exhaust)
  obtain d acts' where s: "give_answer env w ok handle rsp err c = (d, acts')" by fastforce
  have n: "nearer h (phase c w) (d, acts')" using nearer_given[OF 1(2,3), of env ok handle rsp err] by (simp add: s)
  have step: "cam_next env \<lparr>cr_camera = c, cr_awaited = [w], cr_done = acts\<rparr> (answer_op (replies 0)) =
      \<lparr>cr_camera = d, cr_awaited = awaits acts', cr_done = acts @ acts'\<rparr>"
    by (simp add: cam_next_def r s)
  show ?case
  proof (cases "awaits acts' = [] \<and> cam_told acts' = cam_owed h")
    case True
    then show ?thesis by (intro exI[of _ 1]) (simp add: step)
  next
    case False
    then obtain v where v: "awaits acts' = [v]" "cam_told acts' = {#}" "seeks h d v" "(phase d v, phase c w) \<in> phase_order"
      "no_pairing d"
      using n by (auto simp: nearer_def)
    obtain k where
      "cr_awaited (drive env (\<lambda>i. replies (Suc i)) k \<lparr>cr_camera = d, cr_awaited = [v], cr_done = acts @ acts'\<rparr>) = []"
      "cam_told (cr_done (drive env (\<lambda>i. replies (Suc i)) k \<lparr>cr_camera = d, cr_awaited = [v], cr_done = acts @ acts'\<rparr>)) =
         cam_told (acts @ acts') + cam_owed h"
      using 1(1)[OF v(4) v(5) v(3)] by blast
    then show ?thesis by (intro exI[of _ "Suc k"]) (simp add: step v)
  qed
qed

text \<open>
  C9. An attempt to connect to a camera ends.  However the radio and the peer answer, question
  by question, with failures, with services that never end, with handles that go round or with
  nothing it can parse, after finitely many answers no question is out, and the handler given to
  \<open>connect\<close> has been called once.\<close>

theorem connecting_always_ends:
  assumes "address_from_string ident kAddrPublic = Some peer"
  shows "\<exists>n. let s = connect ident timeout h c;
                 r = drive env replies n \<lparr>cr_camera = fst s, cr_awaited = awaits (snd s), cr_done = snd s\<rparr>
             in cr_awaited r = [] \<and> cam_told (cr_done r) = cam_told (snd (disconnect c)) + cam_owed h"
proof -
  let ?d = "disconnect c" and ?tries = "try_connect peer 0 timeout h"
  have s: "connect ident timeout h c = (fst ?d, snd ?d @ ?tries)" by (simp add: connect_def assms Let_def case_prod_unfold)
  have t: "cam_told ?tries = {#}" "awaits ?tries = [AwaitLink (Address (addr_bytes peer) (connect_types ! 0)) 0 timeout h]"
    by (simp_all add: try_connect_def)
  show ?thesis
    using attempt_ends[OF disconnect_leaves_no_pairing, of h c "AwaitLink (Address (addr_bytes peer) (connect_types ! 0)) 0 timeout h"
        env replies "snd ?d @ ?tries"]
    by (simp add: s t disconnect_awaits_nothing Let_def)
qed

section \<open>The key a link is encrypted with\<close>

text \<open>An action that neither encrypts nor opens a link, and a step made of such actions that
  leaves the peer alone and at most ends a pairing.\<close>

fun harmless :: "'u cam_action \<Rightarrow> bool" where
  "harmless (EncryptAsked conn key ediv rnd timeout) = False"
| "harmless (ConnectAsked target half n timeout h) = False"
| "harmless a = True"

definition mild :: "'u camera \<Rightarrow> 'u cam_step \<Rightarrow> bool" where
  "mild c s \<longleftrightarrow>
     cm_peer (fst s) = cm_peer c \<and> (cm_pairing (fst s) = None \<or> cm_pairing (fst s) = cm_pairing c) \<and>
     list_all harmless (snd s)"

lemma mild_from: "mild d s \<Longrightarrow> cm_peer d = cm_peer c \<Longrightarrow> cm_pairing d = cm_pairing c \<Longrightarrow> mild c s"
  by (simp add: mild_def)

lemma harmless_tell [simp]: "list_all harmless (tell h ok why)"
  by (simp add: tell_def split: option.splits)

lemma harmless_ask [simp]: "list_all harmless (ask c req timeout k)"
  by (simp add: ask_def)

lemma mild_subscribe_next: "mild c (subscribe_next n timeout h c)"
  by (simp add: subscribe_next_def write_cccd_def Let_def mild_def)

lemma mild_written: "mild c (written w ok why c)"
  by (cases w) (auto simp: mild_subscribe_next, simp_all add: mild_def)

lemma mild_resume: "mild c (resume_write r ok why c)"
  by (cases r) (auto simp: mild_written, simp add: mild_def)

lemma mild_finish_pairing: "mild c (finish_pairing ok why c)"
proof -
  define d where "d = c\<lparr>cm_pairing := None, cm_pairing_done := None, cm_pairing_timer := False\<rparr>"
  have p: "cm_peer d = cm_peer c" "cm_pairing d = None" by (simp_all add: d_def)
  have "mild c (resume_write r ok why d)" for r
    using mild_resume[of d r ok why] by (simp add: mild_def p)
  moreover have "mild c (d, [])" by (simp add: mild_def p)
  ultimately show ?thesis
    by (simp add: finish_pairing_def Let_def d_def[symmetric] split: option.splits) (simp add: mild_def)
qed

lemma mild_disconnect: "mild c (disconnect c)"
  using mild_finish_pairing[of "c\<lparr>cm_conn := 0, cm_subscribed := False\<rparr>" False "''the connection was dropped''"]
  by (simp add: disconnect_def Let_def case_prod_unfold mild_def)

lemma mild_on_gone: "mild c (on_gone n c)"
  using mild_finish_pairing[of "c\<lparr>cm_conn := 0, cm_subscribed := False\<rparr>" False
      "''the camera disconnected during pairing''"]
  by (simp add: on_gone_def Let_def case_prod_unfold mild_def)

lemma mild_discovered: "mild c (discovered h ok why c)"
  using mild_disconnect[of c] by (simp add: discovered_def Let_def case_prod_unfold mild_def)

lemma take_up_apart: "cm_peer (take_up c i) = cm_peer c" "cm_pairing (take_up c i) = cm_pairing c"
  by (simp_all add: take_up_def Let_def)

lemma fold_apart:
  assumes "\<And>c x. g (f c x) = g c"
  shows "g (foldl f c xs) = g c"
  using assms by (induction xs arbitrary: c) simp_all

lemma mild_finish_discovery: "mild c (finish_discovery h c)"
proof -
  define d where "d = (foldl take_up c [0..<length (cm_chars c)])\<lparr>cm_chars_cccd := Map.empty\<rparr>"
  have d: "cm_peer d = cm_peer c" "cm_pairing d = cm_pairing c"
    by (simp_all add: d_def fold_apart[where f = take_up] take_up_apart)
  show ?thesis
    unfolding finish_discovery_def Let_def d_def[symmetric] using mild_from[OF mild_discovered d] by simp
qed

lemma mild_walk_cccds: "mild c (walk_cccds i h c)"
proof (induction i rule: up_to_induct[of "length (cm_chars c)"])
  case (1 i)
  have "mild c (c, ask c req timeout k)" for req timeout k by (simp add: mild_def)
  then show ?case using 1 by (auto simp: walk_cccds.simps[of i] mild_finish_discovery case_prod_unfold Let_def)
qed

lemma mild_find_cccd: "mild c (find_cccd i cursor stop n h c)"
  by (auto simp: find_cccd_def mild_walk_cccds, simp add: mild_def)

lemmas mild_cccds = mild_walk_cccds mild_find_cccd

lemma mild_walk_chars: "mild c (walk_chars cursor n h c)"
  by (auto simp: walk_chars_def mild_cccds) (simp add: mild_def)

lemma mild_walk_services: "mild c (walk_services start n h c)"
  by (auto simp: walk_services_def mild_discovered) (simp add: mild_def)

lemma note_apart: "cm_peer (note_service c x) = cm_peer c" "cm_pairing (note_service c x) = cm_pairing c"
  by (simp_all add: note_service_def)

lemma mild_services: "mild c (services_answered n h ok rsp err c)"
proof -
  have f: "cm_peer (foldl note_service c xs) = cm_peer c" "cm_pairing (foldl note_service c xs) = cm_pairing c" for xs
    by (simp_all add: fold_apart[where f = note_service] note_apart)
  show ?thesis
    by (auto simp: services_answered_def case_prod_unfold Let_def mild_discovered
        intro!: mild_from[OF mild_walk_chars f] mild_from[OF mild_walk_services f])
qed

lemma mild_discovery_answers:
  "mild c (mtu_answered h got rsp c)" "mild c (chars_answered n h ok rsp err c)"
  "mild c (cccd_answered i stop n h ok rsp c)"
  by (auto simp: mtu_answered_def discover_def chars_answered_def cccd_answered_def case_prod_unfold Let_def
      mild_discovered mild_cccds
      intro!: mild_from[OF mild_walk_services] mild_from[OF mild_walk_chars] mild_from[OF mild_cccds(1)] split: option.splits)

lemma mild_second_write: "mild c (second_write_answered w again rsp err c)"
  by (auto simp: second_write_answered_def mild_written split: option.splits)

lemma mild_cam_run_later: "mild c (cam_run_later c)"
proof (cases "cm_later c")
  case Nil
  then show ?thesis by (simp add: cam_run_later_def mild_def)
next
  case (Cons l rest)
  show ?thesis
    by (cases l) (simp_all add: cam_run_later_def Cons mild_from[OF mild_resume], simp add: mild_def)
qed

lemma mild_tell_later: "cm_peer (tell_later h ok why c) = cm_peer c" "cm_pairing (tell_later h ok why c) = cm_pairing c"
  by (simp_all add: tell_later_def split: option.splits)

lemma mild_owner:
  "mild c (write_control packet timeout h c)" "mild c (cam_on_ready ok err c)"
  "mild c (forget_timecode c, [])" "mild c (on_att now conn pdu c)" "mild c (cam_scan seconds hint want h c)"
  "mild c (scan_heard n r c, [])" "mild c (cam_scan_started n ok c)" "mild c (scan_over n c)"
  by (auto simp: write_control_def cam_on_ready_def forget_timecode_def on_att_def
      cam_note_def cam_scan_def scan_heard_def cam_scan_started_def scan_over_def tell_scan_def Let_def mild_tell_later mild_def
      split: option.splits)

lemma mild_subscribe: "mild c (subscribe timeout h c)"
  by (auto simp: subscribe_def mild_subscribe_next) (simp_all add: mild_def mild_tell_later)

lemma mild_pairing_over: "mild c (pairing_timed_out c)" "mild c (encryption_answered ok why c)"
  by (auto simp: pairing_timed_out_def encryption_answered_def intro!: mild_from[OF mild_finish_pairing] mild_finish_pairing)

text \<open>What the run keeps: well-formed addresses, and a pairing that is somewhere in the exchange
  the security manager allows, on the addresses of this link.\<close>

definition pairing_sound :: "cam_env \<Rightarrow> initiator \<Rightarrow> bool" where
  "pairing_sound env i \<longleftrightarrow>
     smp_reach (in_config i) i \<and> config_ok (in_config i) \<and> cf_local (in_config i) = ev_local env \<and>
     cf_io_capability (in_config i) = kKeyboardOnly \<and> cf_want_mitm (in_config i)"

fun target_ok :: "'u cam_awaited \<Rightarrow> bool" where
  "target_ok (AwaitLink target n timeout h) = addr_wf target"
| "target_ok (AwaitAnswer k) = True"

fun earned :: "cam_env \<Rightarrow> 'u cam_action \<Rightarrow> bool" where
  "earned env (EncryptAsked conn key ediv rnd timeout) \<longleftrightarrow>
     (\<exists>i. pairing_sound env i \<and> in_state i = ReadyToEncrypt \<and> key = in_stk i \<and> ediv = 0 \<and> rnd = replicate 8 0)"
| "earned env a \<longleftrightarrow> True"

definition camera_sound :: "cam_env \<Rightarrow> 'u camera \<Rightarrow> bool" where
  "camera_sound env c \<longleftrightarrow> addr_wf (cm_peer c) \<and> (\<forall>i. cm_pairing c = Some i \<longrightarrow> pairing_sound env i)"

definition step_sound :: "cam_env \<Rightarrow> 'u cam_step \<Rightarrow> bool" where
  "step_sound env s \<longleftrightarrow>
     camera_sound env (fst s) \<and> list_all (earned env) (snd s) \<and> list_all target_ok (awaits (snd s))"

lemma harmless_earned: "harmless a \<Longrightarrow> earned env a"
  by (cases a) simp_all

lemma harmless_awaits: "list_all harmless acts \<Longrightarrow> list_all target_ok (awaits acts)"
  by (induction acts rule: awaits.induct) auto

lemma mild_sound: "mild c s \<Longrightarrow> camera_sound env c \<Longrightarrow> step_sound env s"
  unfolding step_sound_def mild_def camera_sound_def
  by (metis harmless_awaits harmless_earned list.pred_mono_strong option.distinct(1))

lemma config_of_parts:
  "in_config (rs_state (smp_fail i r x)) = in_config i"
  "in_config (rs_state (send_confirm i rnd)) = in_config i"
  "in_config (rs_state (on_confirm i pdu)) = in_config i"
  "in_config (rs_state (on_random i pdu)) = in_config i"
  by (simp_all add: smp_fail_def send_confirm_def on_confirm_def on_random_def Let_def)

lemma config_of_choose: "in_config (rs_state (choose_key pk rnd i)) = in_config i"
  unfolding choose_key_def Let_def by (simp add: config_of_parts split: option.split)

lemma config_of_response: "in_config (rs_state (on_response pk rnd i pdu)) = in_config i"
  unfolding on_response_def Let_def by (simp add: config_of_parts config_of_choose split: option.split)

lemma config_of_handle: "in_config (rs_state (smp_handle pk rnd i pdu)) = in_config i"
  unfolding smp_handle_def by (simp add: config_of_parts config_of_response split: smp_state.split)

lemma handled_sound:
  "pairing_sound env i \<Longrightarrow> length rnd = 16 \<Longrightarrow> pairing_sound env (rs_state (smp_handle pk rnd i pdu))"
  by (simp add: pairing_sound_def config_of_handle smp_reach.handled)

lemma begun_sound:
  assumes "addr_wf (cm_peer c)" "addr_wf (ev_local env)"
  shows "pairing_sound env (fst (smp_begin (new_initiator (pairing_config env c))))"
proof -
  let ?i = "fst (smp_begin (new_initiator (pairing_config env c)))"
  have "in_config ?i = pairing_config env c" by (simp add: smp_begin_def new_initiator_def Let_def)
  moreover have "smp_reach (pairing_config env c) ?i" by (intro smp_reach.begun smp_reach.fresh)
  ultimately show ?thesis using assms by (simp add: pairing_sound_def config_ok_def pairing_config_def)
qed

lemma ensure_encrypted_sound:
  assumes "camera_sound env c" "addr_wf (ev_local env)"
  shows "step_sound env (ensure_encrypted env timeout r c)"
proof (cases "cm_conn c = 0 \<or> ev_encrypted env (cm_conn c) \<or> cm_pairing c \<noteq> None")
  case True
  have "mild c (later_resume r ok why c, [])" for ok why by (simp add: mild_def later_resume_def)
  then show ?thesis using True mild_sound[OF _ assms(1)] by (auto simp: ensure_encrypted_def)
next
  case False
  obtain i pdu where b: "smp_begin (new_initiator (pairing_config env c)) = (i, pdu)" by fastforce
  define d where "d = c\<lparr>cm_pairing := Some i, cm_pairing_done := Some r, cm_pairing_timeout := timeout\<rparr>"
  have i: "pairing_sound env i" using begun_sound[of c env] assms b by (simp add: camera_sound_def)
  then have s: "camera_sound env d" using assms(1) by (simp add: camera_sound_def d_def)
  have e: "ensure_encrypted env timeout r c =
      (case ev_send_smp env (cm_conn d) pdu of
         Some err \<Rightarrow> (let (c, acts) = finish_pairing False err d in (c, SmpSent (cm_conn c) pdu # acts))
       | None \<Rightarrow> (d\<lparr>cm_pairing_timer := True\<rparr>, [SmpSent (cm_conn d) pdu, PairingTimer (timeout + 30)]))"
    using False b by (simp add: ensure_encrypted_def d_def Let_def split: option.splits prod.splits)
  have "step_sound env (finish_pairing False err d)" for err by (rule mild_sound[OF mild_finish_pairing s])
  then show ?thesis
    using s by (auto simp: e step_sound_def camera_sound_def Let_def case_prod_unfold split: option.splits)
qed

lemma on_smp_sound:
  assumes "camera_sound env c" "length rnd = 16"
  shows "step_sound env (on_smp pk rnd conn pdu c)"
proof (cases "cm_pairing c")
  case None
  then show ?thesis using assms by (simp add: on_smp_def step_sound_def)
next
  case (Some i)
  let ?r = "smp_handle pk rnd i pdu"
  define d where "d = c\<lparr>cm_pairing := Some (rs_state ?r)\<rparr>"
  have h: "pairing_sound env (rs_state ?r)" using assms Some by (intro handled_sound) (auto simp: camera_sound_def)
  then have s: "camera_sound env d" using assms by (simp add: camera_sound_def d_def)
  have f: "step_sound env (finish_pairing False err d)" for err by (rule mild_sound[OF mild_finish_pairing s])
  show ?thesis
    using assms(1) s f h
    by (auto simp: on_smp_def Some Let_def case_prod_unfold d_def[symmetric] step_sound_def)
qed

lemma length_pair_nibbles: "length (pair_nibbles ns) = length ns div 2"
  by (induction ns rule: pair_nibbles.induct) simp_all

lemma parsed_address_wf: "address_from_string s ty = Some a \<Longrightarrow> addr_wf a"
  by (auto simp: address_from_string_def addr_wf_def length_pair_nibbles split: option.splits if_splits)

lemma try_connect_sound: 
  "addr_wf peer \<Longrightarrow> list_all (earned env) (try_connect peer n timeout h)"
  "addr_wf peer \<Longrightarrow> list_all target_ok (awaits (try_connect peer n timeout h))"
  by (simp_all add: try_connect_def addr_wf_def)

lemma connect_sound:
  assumes "camera_sound env c"
  shows "step_sound env (connect ident timeout h c)"
proof (cases "address_from_string ident kAddrPublic")
  case None
  have "mild c (tell_later h ok why c, [])" for ok why by (simp add: mild_def mild_tell_later)
  then show ?thesis using mild_sound[OF _ assms] by (simp add: connect_def None)
next
  case (Some peer)
  have "step_sound env (disconnect c)" by (rule mild_sound[OF mild_disconnect assms])
  then show ?thesis 
    by (simp add: try_connect_sound parsed_address_wf[OF Some] connect_def Some Let_def case_prod_unfold step_sound_def)
qed

lemma connect_answered_sound:
  assumes "camera_sound env c" "addr_wf target"
  shows "step_sound env (connect_answered target n timeout h ok handle err c)"
proof -
  have "list_all (earned env) (tell h ok why)" "awaits (tell h ok why) = []" for ok why
    by (simp_all add: tell_def split: option.splits)
  then show ?thesis
    using assms
    by (simp add: try_connect_sound connect_answered_def step_sound_def camera_sound_def Let_def)
qed

lemma answered_sound:
  assumes "camera_sound env c" "addr_wf (ev_local env)"
  shows "step_sound env (answered env k ok rsp err c)"
proof -
  note m = mild_sound[OF _ assms(1)]
  show ?thesis
  proof (cases k)
    case (FirstWrite req timeout w)
    then show ?thesis
      by (simp add: first_write_answered_def m[OF mild_written] ensure_encrypted_sound[OF assms] split: option.splits)
  qed (simp_all add: m mild_discovery_answers mild_services mild_second_write)
qed

fun nonce_given :: "'u cam_op \<Rightarrow> bool" where
  "nonce_given (DoSmp passkey rnd conn pdu) \<longleftrightarrow> length rnd = 16"
| "nonce_given op \<longleftrightarrow> True"

lemma cam_perform_sound:
  assumes "camera_sound env c" "addr_wf (ev_local env)" "list_all target_ok ws" "nonce_given op"
  shows "step_sound env (cam_perform env op ws c)"
proof -
  note m = mild_sound[OF _ assms(1)]
  show ?thesis
  proof (cases op)
    case (DoAnswer k ok handle rsp err)
    have "mild c (c, [])" by (simp add: mild_def)
    moreover have "step_sound env (give_answer env (ws ! k) ok handle rsp err c)" if "k < length ws"
      using assms(3) that by (cases "ws ! k")
        (auto simp: answered_sound[OF assms(1,2)] list_all_length intro!: connect_answered_sound[OF assms(1)])
    ultimately show ?thesis using DoAnswer m by simp
  qed (use assms in \<open>simp_all add: m mild_owner mild_subscribe mild_disconnect mild_on_gone mild_pairing_over
      mild_cam_run_later connect_sound on_smp_sound\<close>)
qed

definition run_sound :: "cam_env \<Rightarrow> 'u cam_run \<Rightarrow> bool" where
  "run_sound env r \<longleftrightarrow>
     camera_sound env (cr_camera r) \<and> list_all target_ok (cr_awaited r) \<and> list_all (earned env) (cr_done r)"

lemma cam_next_sound:
  assumes "run_sound env r" "addr_wf (ev_local env)" "nonce_given op"
  shows "run_sound env (cam_next env r op)"
proof -
  have s: "step_sound env (cam_perform env op (cr_awaited r) (cr_camera r))"
    using assms by (intro cam_perform_sound) (simp_all add: run_sound_def)
  have "list_all target_ok (still_awaited op (cr_awaited r))"
    using assms(1) by (cases op) (auto simp: run_sound_def list_all_iff dest: in_set_takeD in_set_dropD)
  then show ?thesis
    using s assms(1) by (simp add: cam_next_def run_sound_def step_sound_def Let_def case_prod_unfold)
qed

lemma run_camera_sound:
  assumes "addr_wf (ev_local env)" "list_all nonce_given ops"
  shows "run_sound env (run_camera env h ops)"
proof -
  have "run_sound env (foldl (cam_next env) r ops)" if "run_sound env r" for r :: "'a cam_run"
    using that assms(2) by (induction ops arbitrary: r) (simp_all add: cam_next_sound assms(1))
  moreover have "run_sound env \<lparr>cr_camera = fresh_camera h, cr_awaited = [], cr_done = []\<rparr>"
    by (simp add: run_sound_def camera_sound_def fresh_camera_def addr_wf_def)
  ultimately show ?thesis by (simp add: run_camera_def)
qed


section \<open>A concrete camera\<close>

definition demo_env :: cam_env where
  "demo_env = \<lparr>ev_local = cf_local demo_config, ev_encrypted = (\<lambda>_. False), ev_send_smp = (\<lambda>_ _. None)\<rparr>"

theorem connecting_always_ends_witness:
  "\<exists>n. let s = connect ''06:07:08:09:0A:0B'' 10 (Some True) (fresh_camera None);
           r = drive demo_env (\<lambda>i. (i mod 3 \<noteq> 0, 64, [0x11, 20], ''gone'')) n
                 \<lparr>cr_camera = fst s, cr_awaited = awaits (snd s), cr_done = snd s\<rparr>
       in cr_awaited r = [] \<and> cam_told (cr_done r) = {#True#}"
proof -
  have "address_from_string ''06:07:08:09:0A:0B'' kAddrPublic = Some (Address [6, 7, 8, 9, 10, 11] 0)" 
    by (simp add: address_from_string_def hex_val_def kAddrPublic_def)
  moreover have "cam_told (snd (disconnect (fresh_camera None :: bool camera))) = {#}"
    by (simp add: disconnect_def finish_pairing_def fresh_camera_def)
  ultimately show ?thesis
    using connecting_always_ends[of "''06:07:08:09:0A:0B''" _ 10 "Some True" "fresh_camera None" demo_env
        "\<lambda>i. (i mod 3 \<noteq> 0, 64, [0x11, 20], ''gone'')"]
    by simp
qed

text \<open>A camera whose one service holds the two characteristics the program needs, and that asks
  for an encrypted link before it takes a write.\<close>

definition demo_services :: bytes where
  "demo_services = [0x11, 20] @ put16 1 @ put16 9 @ uuid_to_le (uuid_const kServiceCamera)"

definition demo_chars :: bytes where
  "demo_chars = [0x09, 21] @ put16 2 @ [8] @ put16 3 @ uuid_to_le (uuid_const kCharOutgoingControl) @
     put16 4 @ [0] @ put16 5 @ uuid_to_le (uuid_const kCharTimecode)"

definition demo_opening :: "bool cam_op list" where
  "demo_opening =
     [DoConnect ''06:07:08:09:0A:0B'' 10 (Some True), DoAnswer 0 True 64 [] [],
      DoAnswer 0 False 0 [] ''refused'', DoAnswer 0 True 0 demo_services [],
      DoAnswer 0 True 0 demo_chars [], DoAnswer 0 True 0 [1, 8, 6, 0, 10] [],
      DoWrite [1] 10 (Some False), DoAnswer 0 True 0 [1, 0x12, 3, 0, 5] []]"

lemma demo_uuids:
  "uuid_const kServiceCamera = Uuid [0x29, 0x1d, 0x56, 0x7a, 0x6d, 0x75, 0x11, 0xe6, 0x8b, 0x77, 0x86, 0xf3, 0x0c, 0xa8, 0x93, 0xd3]"
  "uuid_const kCharOutgoingControl = Uuid [0x5d, 0xd3, 0x46, 0x5f, 0x1a, 0xee, 0x42, 0x99, 0x84, 0x93, 0xd2, 0xec, 0xa2, 0xf8, 0xe1, 0xbb]"
  "uuid_const kCharIncomingControl = Uuid [0xb8, 0x64, 0xe1, 0x40, 0x76, 0xa0, 0x41, 0x6a, 0xbf, 0x30, 0x58, 0x76, 0x50, 0x45, 0x37, 0xd9]"
  "uuid_const kCharTimecode = Uuid [0x6d, 0x8f, 0x21, 0x10, 0x86, 0xf1, 0x41, 0xbf, 0x9a, 0xfb, 0x45, 0x1d, 0x87, 0xe9, 0x76, 0xc8]"
  by code_simp+

lemma demo_address: "address_from_string ''06:07:08:09:0A:0B'' kAddrPublic = Some (Address [6, 7, 8, 9, 10, 11] 0)"
  by (simp add: address_from_string_def hex_val_def kAddrPublic_def)

lemma demo_parsed:
  "parse_read_by_group_type_response demo_services = (True, [\<lparr>sr_start = 1, sr_end = 9, sr_uuid = uuid_const kServiceCamera\<rparr>])"
  "parse_read_by_type_response_chars demo_chars =
     (True, [\<lparr>cd_handle = 2, cd_properties = 8, cd_value_handle = 3, cd_uuid = uuid_const kCharOutgoingControl\<rparr>,
             \<lparr>cd_handle = 4, cd_properties = 0, cd_value_handle = 5, cd_uuid = uuid_const kCharTimecode\<rparr>])"
  "parse_read_by_type_response_chars [1, 8, 6, 0, 10] = (False, [])"
  "parse_error_response [1, 0x12, 3, 0, 5] = Some \<lparr>er_request_opcode = 0x12, er_handle = 3, er_error = 5\<rparr>"
  unfolding demo_services_def demo_chars_def demo_uuids by code_simp+

lemma demo_chars_apart:
  "uuid_const kCharOutgoingControl \<noteq> uuid_const kCharIncomingControl"
  "uuid_const kCharOutgoingControl \<noteq> uuid_const kCharTimecode"
  "uuid_const kCharTimecode \<noteq> uuid_const kCharOutgoingControl"
  "uuid_const kCharTimecode \<noteq> uuid_const kCharIncomingControl"
  by (simp_all add: demo_uuids)

text \<open>Each answer in turn.\<close>

definition demo_at :: "u16 \<Rightarrow> u16 \<Rightarrow> char_decl list \<Rightarrow> char_handles \<Rightarrow> char_handles \<Rightarrow> bool camera" where
  "demo_at s e chars outgoing tc =
     \<lparr>cm_conn = 64, cm_peer = Address [6, 7, 8, 9, 10, 11] 0, cm_mtu = kDefaultMtu,
      cm_subscribed = False, cm_outgoing = outgoing, cm_incoming = no_handles, cm_timecode = tc,
      cm_live = empty_view, cm_svc_start = s, cm_svc_end = e, cm_chars = chars, cm_chars_cccd = Map.empty,
      cm_pairing = None, cm_pairing_done = None, cm_pairing_timeout = 0, cm_pairing_timer = False,
      cm_jobs = [], cm_scan_timer = None, cm_on_ready = None, cm_on_view = False, cm_on_gone = False,
      cm_later = []\<rparr>"

definition demo_decls :: "char_decl list" where
  "demo_decls = [\<lparr>cd_handle = 2, cd_properties = 8, cd_value_handle = 3, cd_uuid = uuid_const kCharOutgoingControl\<rparr>,
             \<lparr>cd_handle = 4, cd_properties = 0, cd_value_handle = 5, cd_uuid = uuid_const kCharTimecode\<rparr>]"

definition demo_found :: "bool camera" where
  "demo_found = demo_at 1 9 demo_decls \<lparr>chh_value = 3, chh_cccd = 0, chh_properties = 8\<rparr>
     \<lparr>chh_value = 5, chh_cccd = 0, chh_properties = 0\<rparr>"

lemma demo_connect:
  "connect ''06:07:08:09:0A:0B'' 10 h (fresh_camera None :: bool camera) =
     (fresh_camera None, [ConnectAsked (Address [6, 7, 8, 9, 10, 11] 0) (10 / 2) 0 10 h])"
proof -
  have "disconnect (fresh_camera None :: bool camera) = (fresh_camera None, [])"
    by (simp add: disconnect_def finish_pairing_def fresh_camera_def)
  then show ?thesis
    by (simp add: connect_def demo_address) (simp add: try_connect_def connect_types_def kAddrPublic_def)
qed

lemma demo_connected:
  "connect_answered (Address [6, 7, 8, 9, 10, 11] 0) 0 10 h True 64 [] (fresh_camera None) =
     (demo_at 0 0 [] no_handles no_handles, [Asked 64 (exchange_mtu_request 247) 5 (MtuReq h)])"
  by (simp add: connect_answered_def fresh_camera_def demo_at_def)

lemma demo_mtu:
  "mtu_answered h False rsp (demo_at 0 0 [] no_handles no_handles) =
     (demo_at 0 0 [] no_handles no_handles,
      [Asked 64 (read_by_group_type_request 1 0xffff (uuid_from_16 kUuidPrimaryService)) 10 (ServicesReq 0 h)])"
  by (simp add: mtu_answered_def discover_def walk_services_def ask_def demo_at_def)

lemma demo_serviced:
  "services_answered 0 h True demo_services [] (demo_at 0 0 [] no_handles no_handles) =
     (demo_at 1 9 [] no_handles no_handles,
      [Asked 64 (read_by_type_request 1 9 (uuid_from_16 kUuidCharacteristic)) 10 (CharsReq 0 h)])"
  by (simp add: services_answered_def demo_parsed note_service_def walk_chars_def ask_def demo_at_def)

lemma demo_charred:
  "chars_answered 0 h True demo_chars [] (demo_at 1 9 [] no_handles no_handles) =
     (demo_at 1 9 demo_decls no_handles no_handles,
      [Asked 64 (read_by_type_request 6 9 (uuid_from_16 kUuidCharacteristic)) 10 (CharsReq 1 h)])"
  by (simp add: chars_answered_def demo_parsed demo_decls_def walk_chars_def ask_def demo_at_def)

lemma demo_discovered:
  "chars_answered 1 h True [1, 8, 6, 0, 10] [] (demo_at 1 9 demo_decls no_handles no_handles) =
     (demo_found, tell h True [])"
proof -
  have w: "\<not> cccd_wanted d" if "d \<in> set demo_decls" for d
    using that by (auto simp: demo_decls_def cccd_wanted_def demo_chars_apart)
  have "walk_cccds 2 h c = finish_discovery h c" "walk_cccds 1 h c = walk_cccds 2 h c" "walk_cccds 0 h c = walk_cccds 1 h c"
    if "cm_chars c = demo_decls" for c :: "bool camera"
    using that w by (simp_all add: walk_cccds.simps[of "Suc (Suc 0)"] walk_cccds.simps[of "Suc 0"] walk_cccds.simps[of 0]
        demo_decls_def numeral_2_eq_2)
  then have "walk_cccds 0 h (demo_at 1 9 demo_decls no_handles no_handles) =
      finish_discovery h (demo_at 1 9 demo_decls no_handles no_handles)"
    by (simp add: demo_at_def)
  also have "\<dots> = (demo_found, tell h True [])"
    by (simp add: finish_discovery_def demo_at_def demo_decls_def take_up_def demo_chars_apart found_def no_handles_def
        discovered_def demo_found_def upt_rec[of 0] upt_rec[of 1])
  finally show ?thesis by (simp add: chars_answered_def demo_parsed)
qed

definition demo_write :: "bool resume" where
  "demo_write = (write_request 3 [1], 10, ForControl (Some False))"

definition demo_pairing :: "initiator \<Rightarrow> bool camera" where
  "demo_pairing i = demo_found\<lparr>cm_pairing := Some i, cm_pairing_done := Some demo_write, cm_pairing_timeout := 10,
     cm_pairing_timer := True\<rparr>"

lemma demo_refused:
  "first_write_answered demo_env (write_request 3 [1]) 10 (ForControl (Some False)) True [1, 0x12, 3, 0, 5] [] demo_found =
     (demo_pairing demo_waiting, [SmpSent 64 (snd (smp_begin (new_initiator demo_config))), PairingTimer 40])"
proof -
  have c: "pairing_config demo_env demo_found = demo_config"
    by (simp add: pairing_config_def demo_env_def demo_config_def demo_found_def demo_at_def)
  have f: "cm_conn demo_found = 64" "cm_pairing demo_found = None" by (simp_all add: demo_found_def demo_at_def)
  have "first_write_answered demo_env (write_request 3 [1]) 10 (ForControl (Some False)) True [1, 0x12, 3, 0, 5] [] demo_found =
      ensure_encrypted demo_env 10 demo_write demo_found"
    by (simp add: first_write_answered_def demo_parsed needs_encryption_def const_defs demo_write_def)
  also have "\<dots> = (demo_pairing demo_waiting, [SmpSent 64 (snd (smp_begin (new_initiator demo_config))), PairingTimer 40])"
    by (simp add: ensure_encrypted_def c f case_prod_unfold)
      (simp add: demo_env_def demo_pairing_def demo_waiting_def f Let_def)
  finally show ?thesis .
qed

lemma demo_smp:
  assumes "r = smp_handle pk rnd i pdu" "rs_ok r"
  shows "on_smp pk rnd 64 pdu (demo_pairing i) =
     (demo_pairing (rs_state r),
      (if rs_out r \<noteq> [] then [SmpSent 64 (rs_out r)] else []) @
      (if in_state (rs_state r) = ReadyToEncrypt then [EncryptAsked 64 (in_stk (rs_state r)) 0 (replicate 8 0) 10] else []))"
  using assms by (simp add: on_smp_def demo_pairing_def demo_found_def demo_at_def Let_def)

definition demo_confirm :: bytes where
  "demo_confirm = kPairingConfirm # block_to_wire (confirm_for (rs_state demo_result) (replicate 16 9))"

definition demo_random :: bytes where
  "demo_random = kPairingRandom # block_to_wire (replicate 16 9)"

definition demo_ops :: "bool cam_op list" where
  "demo_ops =
     [DoConnect ''06:07:08:09:0A:0B'' 10 (Some True), DoAnswer 0 True 64 [] [],
      DoAnswer 0 False 0 [] ''refused'', DoAnswer 0 True 0 demo_services [],
      DoAnswer 0 True 0 demo_chars [], DoAnswer 0 True 0 [1, 8, 6, 0, 10] [],
      DoWrite [1] 10 (Some False), DoAnswer 0 True 0 [1, 0x12, 3, 0, 5] [],
      DoSmp (Some 123456) (replicate 16 7) 64 demo_response, DoSmp None zero_block 64 demo_confirm,
      DoSmp None zero_block 64 demo_random]"

lemma demo_accepted:
  "rs_ok (smp_handle None zero_block (rs_state demo_result) demo_confirm)"
  "rs_ok (smp_handle None zero_block demo_confirmed demo_random)"
proof -
  have a: "rs_ok r" if "in_state i = WaitingForConfirm" "r = smp_handle None rnd i (kPairingConfirm # b)"
    "in_state (rs_state r) \<noteq> Failed" for i r b rnd
    using that by (auto simp: smp_handle_def on_confirm_def smp_fail_def split: if_splits)
  have b: "rs_ok r" if "in_state i = WaitingForRandom" "r = smp_handle None rnd i (kPairingRandom # b)"
    "in_state (rs_state r) \<noteq> Failed" for i r b rnd
    using that by (auto simp: smp_handle_def on_random_def smp_fail_def Let_def split: if_splits)
  show "rs_ok (smp_handle None zero_block (rs_state demo_result) demo_confirm)"
    unfolding demo_confirm_def
    by (rule a[OF demo_steps(5) refl]) (use demo_steps(1) in \<open>simp add: demo_confirmed_def\<close>)
  show "rs_ok (smp_handle None zero_block demo_confirmed demo_random)"
    unfolding demo_random_def
    by (rule b[OF _ refl]) (use demo_steps(1) in \<open>simp_all add: demo_ready_def\<close>)
qed

lemma demo_smps:
  "on_smp (Some 123456) (replicate 16 7) 64 demo_response (demo_pairing demo_waiting) =
     (demo_pairing (rs_state demo_result), if rs_out demo_result \<noteq> [] then [SmpSent 64 (rs_out demo_result)] else [])"
  "\<exists>sent. on_smp None zero_block 64 demo_confirm (demo_pairing (rs_state demo_result)) = (demo_pairing demo_confirmed, sent)"
  "\<exists>sent. on_smp None zero_block 64 demo_random (demo_pairing demo_confirmed) =
     (demo_pairing demo_ready, sent @ [EncryptAsked 64 (in_stk demo_ready) 0 (replicate 8 0) 10])"
  using demo_smp[OF demo_result_def demo_result_ok(1)] demo_smp[OF refl demo_accepted(1)]
    demo_smp[OF refl demo_accepted(2)] demo_steps(1,5)
  by (simp_all add: demo_confirmed_def[folded demo_confirm_def, symmetric] demo_ready_def[folded demo_random_def, symmetric])

lemma demo_writes:
  "write_control [1] 10 (Some False) demo_found =
     (demo_found, [Asked 64 (write_request 3 [1]) 10 (FirstWrite (write_request 3 [1]) 10 (ForControl (Some False)))])"
  by (simp add: write_control_def demo_found_def demo_at_def found_def ask_def Let_def)

lemma demo_run_asks:
  "EncryptAsked 64 (in_stk demo_ready) 0 (replicate 8 0) 10 \<in> set (cr_done (run_camera demo_env None demo_ops))"
proof -
  obtain s1' s2' where s: "on_smp None zero_block 64 demo_confirm (demo_pairing (rs_state demo_result)) = (demo_pairing demo_confirmed, s1')"
    "on_smp None zero_block 64 demo_random (demo_pairing demo_confirmed) =
       (demo_pairing demo_ready, s2' @ [EncryptAsked 64 (in_stk demo_ready) 0 (replicate 8 0) 10])"
    using demo_smps(2,3) by blast
  show ?thesis
    by (simp add: run_camera_def demo_ops_def cam_next_def demo_connect demo_connected demo_mtu demo_serviced demo_charred
        demo_discovered[unfolded One_nat_def] demo_writes demo_refused demo_smps(1) s tell_def)
qed

end
