(* ===== verification/CameraHciView.thy ===== *)
theory CameraHciView
  imports CameraHci
begin

text \<open>
  What a camera over the dongle shows: the view its notifications build up, and the result of a
  scan.
\<close>

section \<open>The view\<close>

definition command_value :: "camera_command \<Rightarrow> bmd_value" where
  "command_value c = the (decode_value (command_message c))"

lemma command_decodes: "decode_value (command_message c) = Some (command_value c)"
  by (simp add: command_value_def decode_value_def command_message_def packet_message_def const_defs Let_def)

lemma stream_of_commands:
  "list_all (\<lambda>c. length (cmd_payload c) \<le> 251) cs \<Longrightarrow>
   stream_values (concat (map command_packet cs)) = map command_value cs"
proof -
  have "List.map_filter decode_value (map command_message xs) = map command_value xs" for xs
    by (induction xs) (simp_all add: map_filter_simps command_decodes)
  then show "list_all (\<lambda>c. length (cmd_payload c) \<le> 251) cs \<Longrightarrow>
      stream_values (concat (map command_packet cs)) = map command_value cs"
    by (simp add: stream_values_def parse_packets)
qed

lemma note_value_state: "cv_state (note_value cv v) = (cv_state cv)((bv_group v, bv_param v) \<mapsto> v)"
  by (simp add: note_value_def Let_def)

text \<open>The latest of the values a stream carries for one parameter.\<close>

definition latest :: "(byte \<times> byte) \<Rightarrow> bmd_value list \<Rightarrow> bmd_value option" where
  "latest k vs = find (\<lambda>v. (bv_group v, bv_param v) = k) (rev vs)"

lemma find_of_append: "find P (xs @ ys) = (case find P xs of None \<Rightarrow> find P ys | Some x \<Rightarrow> Some x)"
  by (induction xs) simp_all

lemma latest_cons:
  "latest k (v # vs) =
     (case latest k vs of Some w \<Rightarrow> Some w | None \<Rightarrow> if (bv_group v, bv_param v) = k then Some v else None)"
  by (simp add: latest_def find_of_append split: option.splits)

lemma notes_state:
  "cv_state (foldl note_value cv vs) k = (case latest k vs of Some v \<Rightarrow> Some v | None \<Rightarrow> cv_state cv k)"
proof (induction vs arbitrary: cv)
  case Nil
  then show ?case by (simp add: latest_def)
next
  case (Cons v vs)
  then show ?case by (auto simp: latest_cons note_value_state split: option.splits)
qed

lemma note_transport:
  "cv_has_transport (note_value cv v) =
     (cv_has_transport cv \<or> (bv_group v, bv_param v) = (kGroupMedia, kParamTransport) \<and> bv_ints v \<noteq> [])"
  "cv_transport (note_value cv v) =
     (if (bv_group v, bv_param v) = (kGroupMedia, kParamTransport) \<and> bv_ints v \<noteq> [] then bv_ints v ! 0
      else cv_transport cv)"
  by (auto simp: note_value_def Let_def const_defs)

definition says_transport :: "bmd_value \<Rightarrow> bool" where
  "says_transport v \<longleftrightarrow> (bv_group v, bv_param v) = (kGroupMedia, kParamTransport) \<and> bv_ints v \<noteq> []"

definition transport_said :: "bmd_value list \<Rightarrow> int list" where
  "transport_said vs = map (\<lambda>v. bv_ints v ! 0) (filter says_transport vs)"

lemma transport_of_note: "cv_transport (note_value cv v) = (if says_transport v then bv_ints v ! 0 else cv_transport cv)"
  by (simp only: note_transport says_transport_def)

lemma notes_transport:
  "cv_transport (foldl note_value cv vs) = (if transport_said vs = [] then cv_transport cv else last (transport_said vs))"
  by (induction vs arbitrary: cv) (simp_all add: transport_said_def transport_of_note)

lemma parse_notified:
  "parse_notification (kHandleValueNotification # put16 h @ payload) =
     Some \<lparr>nt_handle = h, nt_value = payload, nt_wants_confirmation = False\<rparr>"
  using get16_at_put16[of h payload] by (simp add: parse_notification_def const_defs put16_def)


definition demo_view :: "bool camera" where
  "demo_view = (fresh_camera None)\<lparr>cm_conn := 64, cm_on_view := True,
     cm_incoming := \<lparr>chh_value = 8, chh_cccd = 9, chh_properties = 16\<rparr>\<rparr>"


section \<open>A scan\<close>

definition lists_camera :: "adv_report \<Rightarrow> bool" where
  "lists_camera r \<longleftrightarrow> uuid_const kServiceCamera \<in> set (ai_services (summarise_ad (parse_ad (ar_data r))))"

definition heard_all :: "adv_report list \<Rightarrow> (string, camera_device) omap" where
  "heard_all rs = foldl (\<lambda>seen r. heard_camera r seen) [] rs"

lemma heard_camera_get:
  "om_get (heard_camera r seen) i =
     (if i = address_to_string (ar_addr r)
      then Some \<lparr>cam_id = i,
        cam_name = (if ai_name (summarise_ad (parse_ad (ar_data r))) \<noteq> [] then ai_name (summarise_ad (parse_ad (ar_data r)))
                    else case om_get seen i of Some d \<Rightarrow> cam_name d | None \<Rightarrow> []),
        cam_rssi = ar_rssi r,
        cam_by_uuid = ((case om_get seen i of Some d \<Rightarrow> cam_by_uuid d | None \<Rightarrow> False) \<or> lists_camera r)\<rparr>
      else om_get seen i)"
  by (auto simp: heard_camera_def Let_def om_get_put lists_camera_def split: option.splits)

lemma heard_snoc: "heard_all (rs @ [r]) = heard_camera r (heard_all rs)"
  by (simp add: heard_all_def)

lemma heard_ok: "om_ok (heard_all rs)"
  by (induction rs rule: rev_induct) (simp_all add: heard_snoc heard_camera_def Let_def om_ok_put, simp add: heard_all_def om_ok_def)

lemma heard_keys: "fst ` set (heard_all rs) = address_to_string ` ar_addr ` set rs"
  by (induction rs rule: rev_induct) (simp_all add: heard_snoc heard_camera_def Let_def keys_put, simp add: heard_all_def)

lemma heard_proof:
  "om_get (heard_all rs) i = Some d \<Longrightarrow>
     cam_id d = i \<and> (cam_by_uuid d \<longleftrightarrow> (\<exists>r \<in> set rs. address_to_string (ar_addr r) = i \<and> lists_camera r))"
proof (induction rs arbitrary: d rule: rev_induct)
  case Nil
  then show ?case by (simp add: heard_all_def)
next
  case (snoc r rs)
  show ?case
  proof (cases "om_get (heard_all rs) i")
    case None
    then have "i \<notin> address_to_string ` ar_addr ` set rs"
      using heard_keys[of rs] by (metis map_of_eq_None_iff set_map)
    then have "\<forall>r \<in> set rs. address_to_string (ar_addr r) \<noteq> i" by blast
    then show ?thesis using snoc.prems None by (auto simp: heard_snoc heard_camera_get split: if_splits)
  next
    case (Some e)
    then show ?thesis using snoc.prems snoc.IH[OF Some] by (auto simp: heard_snoc heard_camera_get split: if_splits)
  qed
qed

text \<open>The order a person reads the cameras in.\<close>

definition better :: "camera_device \<Rightarrow> camera_device \<Rightarrow> bool" where
  "better a b \<longleftrightarrow> (cam_by_uuid b \<longrightarrow> cam_by_uuid a) \<and> (cam_by_uuid a = cam_by_uuid b \<longrightarrow> cam_rssi b \<le> cam_rssi a)"

lemma sorted_by_strength: "sorted_wrt (\<lambda>a b. cam_rssi b \<le> cam_rssi a) (by_strength ds)"
  using sorted_sort_key[of "\<lambda>d. - cam_rssi d" ds] by (simp add: by_strength_def sorted_map)

text \<open>Sorting by a flag is a partition.\<close>

lemma insort_flag:
  fixes p :: "'a \<Rightarrow> bool"
  defines "key \<equiv> (\<lambda>d. if p d then 0 else 1 :: nat)"
  assumes "list_all p xs" "list_all (\<lambda>d. \<not> p d) ys"
  shows "insort_key key x (xs @ ys) = (if p x then x # xs @ ys else xs @ x # ys)"
  using assms(2,3) by (induction xs; cases ys) (simp_all add: key_def)

lemma sort_flag: "sort_key (\<lambda>d. if p d then 0 else 1 :: nat) xs = filter p xs @ filter (\<lambda>d. \<not> p d) xs"
proof (induction xs)
  case (Cons x xs)
  have "list_all p (filter p xs)" "list_all (\<lambda>d. \<not> p d) (filter (\<lambda>d. \<not> p d) xs)"
    by (simp_all add: list_all_iff)
  from insort_flag[OF this, of x] Cons show ?case by simp
qed simp

lemma proof_first_sorted: "sorted_wrt better (proof_first ds)"
proof -
  have s: "sorted_wrt (\<lambda>a b. cam_rssi b \<le> cam_rssi a) (by_strength ds)" by (rule sorted_by_strength)
  have "sorted_wrt better (filter p (by_strength ds))" if "p = cam_by_uuid \<or> p = (\<lambda>d. \<not> cam_by_uuid d)" for p
    by (rule sorted_wrt_mono_rel[OF _ sorted_wrt_filter[OF s]]) (use that in \<open>auto simp: better_def\<close>)
  then show ?thesis
    by (auto simp: proof_first_def sort_flag sorted_wrt_append better_def)
qed

text \<open>
  C26. A scan is what was heard.  Its count is the number of addresses heard; a device is held
  to be a camera exactly when some advertisement from its address listed the camera service, even
  if a later one did not; the cameras it gives are exactly the devices that are proven or whose
  name holds the hint; and they come in order: proof before guesswork, and the stronger signal
  first.\<close>

theorem scan_is_what_was_heard:
  assumes "r = collect_scan \<lparr>sj_seen = heard_all rs, sj_tentacles = ts, sj_seconds = secs, sj_hint = hint,
                             sj_all = want_all, sj_done = h\<rparr>"
  shows "scr_total r = int (card (address_to_string ` ar_addr ` set rs)) \<and>
    (\<forall>d. d \<in> set (scr_cameras r) \<longleftrightarrow> om_get (heard_all rs) (cam_id d) = Some d \<and> cam_matches hint d) \<and>
    (\<forall>d. om_get (heard_all rs) (cam_id d) = Some d \<longrightarrow>
       (cam_by_uuid d \<longleftrightarrow> (\<exists>a \<in> set rs. address_to_string (ar_addr a) = cam_id d \<and> lists_camera a))) \<and>
    sorted_wrt better (scr_cameras r)"
proof -
  have d: "distinct (map fst (heard_all rs))" using heard_ok[of rs] by (simp add: om_ok_def strict_sorted_iff)
  have "scr_total r = int (length (map fst (heard_all rs)))" by (simp add: assms collect_scan_def Let_def)
  also have "\<dots> = int (card (fst ` set (heard_all rs)))" using distinct_card[OF d] by simp
  finally have total: "scr_total r = int (card (address_to_string ` ar_addr ` set rs))" by (simp add: heard_keys)
  have seen: "x \<in> snd ` set (heard_all rs) \<longleftrightarrow> om_get (heard_all rs) (cam_id x) = Some x" for x
  proof
    assume "x \<in> snd ` set (heard_all rs)"
    then obtain i where "om_get (heard_all rs) i = Some x" using d by (auto simp: map_of_eq_Some_iff)
    then show "om_get (heard_all rs) (cam_id x) = Some x" using heard_proof by blast
  next
    assume "om_get (heard_all rs) (cam_id x) = Some x"
    then show "x \<in> snd ` set (heard_all rs)" by (force dest: map_of_SomeD)
  qed
  have set: "set (scr_cameras r) = {x \<in> snd ` set (heard_all rs). cam_matches hint x}"
    by (simp add: assms collect_scan_def Let_def proof_first_def by_strength_def)
  have ord: "sorted_wrt better (scr_cameras r)" by (simp add: assms collect_scan_def Let_def proof_first_sorted)
  have proven: "\<forall>d. om_get (heard_all rs) (cam_id d) = Some d \<longrightarrow>
       (cam_by_uuid d \<longleftrightarrow> (\<exists>a \<in> set rs. address_to_string (ar_addr a) = cam_id d \<and> lists_camera a))"
    using heard_proof by blast
  have mem: "\<forall>d. d \<in> set (scr_cameras r) \<longleftrightarrow> om_get (heard_all rs) (cam_id d) = Some d \<and> cam_matches hint d"
    unfolding set using seen by blast
  show ?thesis using total mem proven ord by blast
qed

definition demo_reports :: "adv_report list" where
  "demo_reports =
     [\<lparr>ar_event_type = 0, ar_addr = Address [1, 2, 3, 4, 5, 6] 0, ar_data = [3, 9, 0x41, 0x42], ar_rssi = - 60\<rparr>,
      \<lparr>ar_event_type = 0, ar_addr = Address [1, 2, 3, 4, 5, 7] 0, ar_data = [2, 9, 0x43], ar_rssi = - 40\<rparr>]"

theorem scan_is_what_was_heard_witness:
  "scr_total (collect_scan (\<lparr>sj_seen = heard_all demo_reports, sj_tentacles = [], sj_seconds = 3, sj_hint = ''ab'',
     sj_all = True, sj_done = None\<rparr> :: bool scan_job)) = 2"
proof -
  have "address_to_string ` ar_addr ` set demo_reports = {''01:02:03:04:05:06'', ''01:02:03:04:05:07''}"
    unfolding demo_reports_def by simp code_simp
  then show ?thesis using scan_is_what_was_heard[OF refl, of demo_reports "[]" 3 "''ab''" True "None :: bool option"] by simp
qed

section \<open>What the code does not mean to do\<close>

text \<open>A controller may give a connection the handle 0, which this class takes for no connection.\<close>

lemma handle_zero_looks_disconnected:
  "\<not> cam_connected (fst (connect_answered target n timeout h True 0 err c))"
  by (simp add: connect_answered_def cam_connected_def Let_def)

text \<open>A packet of the security manager that arrives while the link is being encrypted asks for the
  encryption again; the link refuses a second one, and the refusal ends the pairing as failed.\<close>

lemma stray_packet_encrypts_again:
  assumes "cm_pairing c = Some i" "in_state i = ReadyToEncrypt" "pdu \<noteq> []" "pdu ! 0 \<noteq> kPairingFailed"
  shows "on_smp pk rnd (cm_conn c) pdu c = (c, [EncryptAsked (cm_conn c) (in_stk i) 0 (replicate 8 0) 10])"
  using assms by (simp add: on_smp_def smp_handle_def Let_def)

end
