(* ===== verification/SyncD.thy ===== *)
theory SyncD
  imports CameraHci CamSync Registry CamConf Cnum
begin

text \<open>
  The sync daemon (\<open>src/syncd.cc\<close>, \<open>src/syncd.h\<close>): the cycle that finds a camera, reads its
  clock, decides and writes; what it answers the peers that talk to it; and what it announces.

  The daemon is a record and every call into it a function of the record and of what it sees at
  that moment (\<open>syncd_env\<close>): the two clocks, what the wall clock reads once it has been told the time, the camera's view and whether it is connected and
  subscribed, the local time of day, the version it was built with, what the handlers of its owner
  make of the camera's state, and the sentences \<open>camsync.cc\<close> composes for a person.  What it asks
  of the camera, sends and reports is the list of actions it returns.  The camera never answers
  inside the call that asks it (\<open>src/camasync.h\<close>), so an answer is a later operation, with the
  number of the cycle its closure captured.  The one step timer is the step it will take and the
  cycle it was armed in.  The camera is there or not, so giving one camera up for another is not
  visible, and a camera taken away in the middle of a cycle, which the code would still reach for, is
  still seen through the environment.  Console lines (\<open>say\<close>) are left out.
\<close>

section \<open>The bench\<close>

record bench_view =
  bw_ok :: bool
  bw_offset :: real
  bw_spread :: real
  bw_boxes :: int
  bw_skipped :: int
  bw_absolute :: bool

definition no_bench :: bench_view where
  "no_bench = \<lparr>bw_ok = False, bw_offset = 0, bw_spread = 0, bw_boxes = 0, bw_skipped = 0, bw_absolute = True\<rparr>"

definition conf_box_enabled :: "camconf option \<Rightarrow> string \<Rightarrow> bool" where
  "conf_box_enabled conf k = (case conf of None \<Rightarrow> True | Some c \<Rightarrow> box_enabled c k)"

fun bench_votes :: "camconf option \<Rightarrow> device_snapshot list \<Rightarrow> real list \<Rightarrow> int \<Rightarrow> real list \<times> int" where
  "bench_votes conf [] votes skipped = (votes, skipped)"
| "bench_votes conf (d # ds) votes skipped =
     (if \<not> sn_live d \<or> \<not> sn_has_time d then bench_votes conf ds votes skipped
      else if \<not> conf_box_enabled conf (sn_id d) then bench_votes conf ds votes (skipped + 1)
      else bench_votes conf ds (votes @ [sn_median_offset d]) skipped)"

definition measure_bench :: "snapshot \<Rightarrow> camconf option \<Rightarrow> bench_view" where
  "measure_bench snap conf =
     (let (votes, skipped) = bench_votes conf (sp_device snap) [] 0;
          b = no_bench\<lparr>bw_absolute := sp_wall_is_real snap, bw_skipped := skipped\<rparr>
      in if votes = [] then b
         else b\<lparr>bw_ok := True, bw_offset := median_offset votes, bw_spread := Max (set votes) - Min (set votes),
                bw_boxes := int (length votes)\<rparr>)"

section \<open>What is kept\<close>

datatype sync_phase = PhStopped | PhIdle | PhScanning | PhConnecting | PhSubscribing | PhObserving
  | PhSourceWrite | PhAligning | PhWriting | PhVerifying

fun phase_name :: "sync_phase \<Rightarrow> string" where
  "phase_name PhStopped = ''stopped''"
| "phase_name PhIdle = ''idle''"
| "phase_name PhScanning = ''scanning''"
| "phase_name PhConnecting = ''connecting''"
| "phase_name PhSubscribing = ''subscribing''"
| "phase_name PhObserving = ''observing''"
| "phase_name PhSourceWrite = ''source''"
| "phase_name PhAligning = ''aligning''"
| "phase_name PhWriting = ''writing''"
| "phase_name PhVerifying = ''verifying''"

record syncd_options =
  sdo_sync :: sync_options
  sdo_tentacle_bench :: bool
  sdo_hold :: bool
  sdo_camera :: string
  sdo_default_writes :: bool
  sdo_announce_period :: real
  sdo_announce :: bool

record cycle_report =
  rp_action :: string
  rp_message :: string
  rp_reached_camera :: bool
  rp_wrote :: bool
  rp_verified :: bool
  rp_bench :: bench_view
  rp_has_error :: bool
  rp_error_before :: real
  rp_has_error_after :: bool
  rp_error_after :: real
  rp_camera_id :: string
  rp_timecode :: string
  rp_fps :: int
  rp_recording :: bool
  rp_has_timecode_source :: bool
  rp_timecode_source :: int
  rp_timing_usable :: bool
  rp_has_write :: bool
  rp_wrote_value :: civil
  rp_bias :: int
  rp_lead :: real
  rp_write_latency :: real
  rp_next_poll :: real
  rp_next_poll_reason :: string

definition default_civil :: civil where
  "default_civil = \<lparr>year = 1970, month = 1, day = 1, hour = 0, minute = 0, second = 0\<rparr>"

definition empty_report :: cycle_report where
  "empty_report =
     \<lparr>rp_action = [], rp_message = [], rp_reached_camera = False, rp_wrote = False, rp_verified = False,
      rp_bench = no_bench, rp_has_error = False, rp_error_before = 0, rp_has_error_after = False,
      rp_error_after = 0, rp_camera_id = [], rp_timecode = [], rp_fps = 0, rp_recording = False,
      rp_has_timecode_source = False, rp_timecode_source = 0, rp_timing_usable = False, rp_has_write = False,
      rp_wrote_value = default_civil, rp_bias = 0, rp_lead = 0, rp_write_latency = 0, rp_next_poll = 0,
      rp_next_poll_reason = []\<rparr>"

record cycle =
  cy_seq :: u64
  cy_forced :: bool
  cy_set_source :: bool
  cy_source_value :: int
  cy_want_camera :: string
  cy_report :: cycle_report
  cy_bench :: bench_view
  cy_offset :: real
  cy_may_write :: bool
  cy_have_camera_date :: bool
  cy_camera_date :: civil
  cy_camera_date_sod :: real
  cy_try_id :: string
  cy_try_name :: string
  cy_tried_scan :: bool
  cy_looked :: bool
  cy_bias :: int
  cy_lead :: real
  cy_write_started :: real

definition empty_cycle :: cycle where
  "empty_cycle =
     \<lparr>cy_seq = 0, cy_forced = False, cy_set_source = False, cy_source_value = 0, cy_want_camera = [],
      cy_report = empty_report, cy_bench = no_bench, cy_offset = 0, cy_may_write = False,
      cy_have_camera_date = False, cy_camera_date = default_civil, cy_camera_date_sod = - 1, cy_try_id = [],
      cy_try_name = [], cy_tried_scan = False, cy_looked = False, cy_bias = 0, cy_lead = 0,
      cy_write_started = 0\<rparr>"

text \<open>The steps \<open>arm_step\<close> is given.\<close>

datatype timed_step = ConnectUnanswered | ScanUnfinished | SubscribeUnfinished | EvaluateNow | SourceUnanswered
  | SourceEcho | WriteNow | WriteUnanswered | VerifyNow | JudgeNow

record date_only =
  do_year :: int
  do_month :: int
  do_day :: int

record 'p syncd =
  sd_opt :: syncd_options
  sd_registry :: registry
  sd_camera :: bool
  sd_conf :: "camconf option"
  sd_state :: sync_state
  sd_takes_time :: bool
  sd_told_date :: bool
  sd_date_told :: date_only
  sd_started :: bool
  sd_phase :: sync_phase
  sd_next_seq :: u64
  sd_cur :: cycle
  sd_pending_sync :: bool
  sd_pending_force :: bool
  sd_pending_source :: bool
  sd_pending_source_value :: int
  sd_pending_camera :: string
  sd_misses :: int
  sd_camera_present :: bool
  sd_last_action :: string
  sd_next_cycle_at :: real
  sd_cycle_timer :: bool
  sd_step_timer :: "(u64 \<times> timed_step) option"
  sd_step_at :: real
  sd_announce_timer :: bool
  sd_peers :: "'p list"
  sd_quiet :: "'p list"

definition new_syncd :: "registry \<Rightarrow> syncd_options \<Rightarrow> 'p syncd" where
  "new_syncd registry opt =
     \<lparr>sd_opt = opt, sd_registry = registry, sd_camera = False, sd_conf = None, sd_state = new_state,
      sd_takes_time = False, sd_told_date = False, sd_date_told = \<lparr>do_year = 0, do_month = 0, do_day = 0\<rparr>,
      sd_started = False, sd_phase = PhStopped, sd_next_seq = 1, sd_cur = empty_cycle, sd_pending_sync = False,
      sd_pending_force = False, sd_pending_source = False, sd_pending_source_value = 0, sd_pending_camera = [],
      sd_misses = 0, sd_camera_present = False, sd_last_action = [], sd_next_cycle_at = 0, sd_cycle_timer = False,
      sd_step_timer = None, sd_step_at = 0, sd_announce_timer = False, sd_peers = [], sd_quiet = []\<rparr>"

record syncd_env =
  sv_mono :: real
  sv_wall :: real
  sv_wall_told :: real
  sv_local_sod :: "real \<Rightarrow> real"
  sv_view :: camera_view
  sv_connected :: bool
  sv_subscribed :: bool
  sv_version :: "string option"
  sv_bind :: "string \<Rightarrow> string \<Rightarrow> sync_state \<Rightarrow> sync_state"
  sv_cycle :: "cycle_report \<Rightarrow> sync_state \<Rightarrow> sync_state"
  sv_verdict_words :: "decision \<Rightarrow> string"
  sv_outcome_words :: "write_outcome \<Rightarrow> string"

datatype 'p syncd_action =
    AskScan u64 real string
  | AskConnect u64 string real
  | AskSubscribe u64 real
  | AskWrite u64 bytes real
  | AskDisconnect
  | AskForgetTimecode
  | SendLine 'p string
  | CycleDone cycle_report
  | Bound string string
  | TimeTold real "int option"
  | DateTold date_only

type_synonym 'p sd_step = "'p syncd \<times> 'p syncd_action list"

definition no_message :: "string \<Rightarrow> message" where
  "no_message verb = \<lparr>msg_verb = verb, msg_fields = []\<rparr>"

definition kMaxReadingAge :: real where [const_defs]: "kMaxReadingAge = 5"
definition kTransportRecord :: int where [const_defs]: "kTransportRecord = 2"
definition kBoxProtocolVersion :: int where [const_defs]: "kBoxProtocolVersion = 1"

section \<open>Talking\<close>

definition send_to :: "'p \<Rightarrow> message \<Rightarrow> 'p syncd_action list" where
  "send_to peer m = [SendLine peer (encode_message m)]"

definition announce :: "'p syncd \<Rightarrow> message \<Rightarrow> 'p syncd_action list" where
  "announce d m =
     (if \<not> sdo_announce (sd_opt d) then []
      else concat (map (\<lambda>p. send_to p m) (filter (\<lambda>p. p \<notin> set (sd_quiet d)) (sd_peers d))))"

text \<open>\<open>if (c) msg.set...\<close>\<close>

definition set_when :: "bool \<Rightarrow> (message \<Rightarrow> message) \<Rightarrow> message \<Rightarrow> message" where
  "set_when c f m = (if c then f m else m)"

definition alert_message :: "alert_event \<Rightarrow> message" where
  "alert_message e =
     (let m = set_field (no_message ''alert'') ''id'' (ae_id e);
          m = set_field m ''name'' (ae_name e);
          m = set_double m ''offset'' (ae_offset e) 4;
          m = set_bool m ''drifted'' (ae_entering e)
      in set_when (ae_repeat e) (\<lambda>m. set_bool m ''repeat'' True) m)"

definition drain_events :: "'p syncd \<Rightarrow> 'p sd_step" where
  "drain_events d =
     (let (r, events) = take_events (sd_registry d)
      in (d\<lparr>sd_registry := r\<rparr>, concat (map (\<lambda>e. announce d (alert_message e)) events)))"

section \<open>Scheduling\<close>

definition schedule_next :: "syncd_env \<Rightarrow> real \<Rightarrow> 'p syncd \<Rightarrow> 'p syncd" where
  "schedule_next v seconds d =
     (if \<not> sd_started d then d
      else d\<lparr>sd_next_cycle_at := sv_mono v + (if seconds < 0 then 0 else seconds), sd_cycle_timer := True\<rparr>)"

definition cancel_step :: "'p syncd \<Rightarrow> 'p syncd" where
  "cancel_step d = d\<lparr>sd_step_timer := None\<rparr>"

definition arm_step :: "syncd_env \<Rightarrow> real \<Rightarrow> timed_step \<Rightarrow> 'p syncd \<Rightarrow> 'p syncd" where
  "arm_step v seconds st d =
     (cancel_step d)\<lparr>sd_step_timer := Some (cy_seq (sd_cur d), st),
                     sd_step_at := sv_mono v + (if seconds < 0 then 0 else seconds)\<rparr>"

definition current :: "'p syncd \<Rightarrow> u64 \<Rightarrow> bool" where
  "current d seq \<longleftrightarrow> sd_phase d \<noteq> PhStopped \<and> seq \<noteq> 0 \<and> seq = cy_seq (sd_cur d)"

definition busy :: "'p syncd \<Rightarrow> bool" where
  "busy d \<longleftrightarrow> sd_phase d \<noteq> PhIdle \<and> sd_phase d \<noteq> PhStopped"

definition date_known :: "syncd_env \<Rightarrow> 'p syncd \<Rightarrow> bool" where
  "date_known v d \<longleftrightarrow> wall_known (sv_wall v) \<or> sd_told_date d"

definition today :: "syncd_env \<Rightarrow> 'p syncd \<Rightarrow> civil" where
  "today v d =
     (if wall_known (sv_wall v) then utc_civil (sv_wall v)
      else default_civil\<lparr>year := do_year (sd_date_told d), month := do_month (sd_date_told d),
                         day := do_day (sd_date_told d)\<rparr>)"

text \<open>Writing what the cycle in progress keeps, and what it reports.\<close>

definition on_cur :: "(cycle \<Rightarrow> cycle) \<Rightarrow> 'p syncd \<Rightarrow> 'p syncd" where
  "on_cur f d = d\<lparr>sd_cur := f (sd_cur d)\<rparr>"

definition on_report :: "(cycle_report \<Rightarrow> cycle_report) \<Rightarrow> 'p syncd \<Rightarrow> 'p syncd" where
  "on_report f d = on_cur (\<lambda>c. c\<lparr>cy_report := f (cy_report c)\<rparr>) d"

definition one_more_miss :: "'p syncd \<Rightarrow> 'p syncd" where
  "one_more_miss d = d\<lparr>sd_misses := sd_misses d + 1\<rparr>"

definition failed :: "'p syncd \<Rightarrow> 'p syncd" where
  "failed d = d\<lparr>sd_state := (sd_state d)\<lparr>ss_failures := ss_failures (sd_state d) + 1\<rparr>\<rparr>"

section \<open>The end of a cycle\<close>

fun reason_word :: "poll_reason \<Rightarrow> string" where
  "reason_word Floor = ''floor''"
| "reason_word Fixed = ''fixed''"
| "reason_word RateLimit = ''rate-limit''"
| "reason_word DriftReason = ''drift''"

definition next_look :: "syncd_env \<Rightarrow> 'p syncd \<Rightarrow> cycle_report \<Rightarrow> real \<times> string" where
  "next_look v d rep =
     (let opt = sdo_sync (sd_opt d)
      in if rp_reached_camera rep \<and> rp_has_error rep
         then let latest = (if rp_has_error_after rep then rp_error_after rep else rp_error_before rep);
                  plan = next_poll opt (sd_state d) latest (rp_fps rep) (sv_mono v)
           in (pl_seconds plan, reason_word (pl_reason plan))
         else if cy_looked (sd_cur d) \<and> \<not> rp_reached_camera rep \<and> 0 < sd_misses d
         then (reacquire_interval opt (sd_misses d), ''reacquire'')
         else (so_poll opt, ''floor''))"

definition cycle_message :: "cycle_report \<Rightarrow> message" where
  "cycle_message rep =
     (let m = set_field (no_message ''cycle'') ''action'' (rp_action rep);
          m = set_when (rp_message rep \<noteq> []) (\<lambda>m. set_field m ''why'' (rp_message rep)) m;
          b = rp_bench rep;
          m = set_when (bw_ok b) (\<lambda>m. set_int (set_double m ''bench'' (bw_offset b) 4) ''boxes'' (bw_boxes b)) m;
          m = set_when (rp_has_error rep) (\<lambda>m. set_double m ''err'' (rp_error_before rep) 4) m;
          m = set_when (rp_has_error_after rep) (\<lambda>m. set_double m ''err_after'' (rp_error_after rep) 4) m;
          m = set_when (rp_wrote rep) (\<lambda>m. set_bool m ''wrote'' True) m;
          m = set_when (rp_wrote rep) (\<lambda>m. set_bool m ''verified'' (rp_verified rep)) m
      in set_double m ''next'' (rp_next_poll rep) 1)"

definition finish_cycle :: "syncd_env \<Rightarrow> string \<Rightarrow> string \<Rightarrow> 'p syncd \<Rightarrow> 'p sd_step" where
  "finish_cycle v action why d =
     (let d = (cancel_step d)\<lparr>sd_phase := PhIdle, sd_last_action := action\<rparr>;
          d = on_report (\<lambda>r. r\<lparr>rp_action := action, rp_message := why, rp_bench := cy_bench (sd_cur d)\<rparr>) d;
          left = (if sd_camera d \<and> \<not> sdo_hold (sd_opt d) \<and> sv_connected v then [AskDisconnect] else []);
          (seconds, reason) = next_look v d (cy_report (sd_cur d));
          d = on_report (\<lambda>r. r\<lparr>rp_next_poll := seconds, rp_next_poll_reason := reason\<rparr>) d;
          rep = cy_report (sd_cur d);
          d = d\<lparr>sd_state := sv_cycle v rep (sd_state d)\<rparr>;
          told = announce d (cycle_message rep);
          d = schedule_next v seconds d;
          d = (if sd_pending_sync d \<or> sd_pending_source d then schedule_next v 0 d else d)
      in (d, left @ [CycleDone rep] @ told))"

section \<open>Reading the camera's clock\<close>

definition error_from :: "syncd_env \<Rightarrow> 'p syncd \<Rightarrow> camera_view \<Rightarrow> int \<Rightarrow> real" where
  "error_from v d view fps =
     (let age = reading_age_s (sv_mono v) (cv_timecode_mono view) kMaxReadingAge;
          centre = (if so_centre_frames (sdo_sync (sd_opt d)) then frame_centre_s fps else 0);
          cam = timecode_sod (cv_timecode view) fps + centre;
          want = sv_local_sod v (sv_wall v - age) + cy_offset (sd_cur d)
      in wrap_delta (cam - want))"

definition fresh_view :: "syncd_env \<Rightarrow> bool" where
  "fresh_view v \<longleftrightarrow>
     cv_has_timecode (sv_view v) \<and> sv_mono v - cv_timecode_mono (sv_view v) \<le> kMaxReadingAge \<and>
     cv_has_transport (sv_view v)"

section \<open>Writing\<close>

fun verdict_action :: "verdict \<Rightarrow> string" where
  "verdict_action VOk = ''write:ok''"
| "verdict_action VAdapting = ''write:adapting''"
| "verdict_action VNoEffect = ''write:no-effect''"

definition judge_clock :: "syncd_env \<Rightarrow> 'p syncd \<Rightarrow> 'p sd_step" where
  "judge_clock v d0 =
     (let d = cancel_step d0; view = sv_view v
      in if \<not> cv_has_timecode view
         then finish_cycle v ''write:unverified'' ''could not verify: no timecode after the write'' (failed d)
         else let after = error_from v d view (rp_fps (cy_report (sd_cur d)));
                  d = on_report (\<lambda>r. r\<lparr>rp_has_error_after := True, rp_error_after := after,
                                       rp_timecode := format_timecode (cv_timecode view)\<rparr>) d;
                  (state, outcome) = judge_write (sdo_sync (sd_opt d)) (sd_state d)
                                       (rp_error_before (cy_report (sd_cur d))) after (sv_mono v);
                  d = on_report (\<lambda>r. r\<lparr>rp_verified := wo_verified outcome,
                                       rp_timing_usable := wo_timing_usable outcome\<rparr>) (d\<lparr>sd_state := state\<rparr>)
           in finish_cycle v (verdict_action (wo_verdict outcome)) (sv_outcome_words v outcome) d)"

definition step_verify :: "syncd_env \<Rightarrow> 'p syncd \<Rightarrow> 'p sd_step" where
  "step_verify v d0 =
     (let d = d0\<lparr>sd_phase := PhVerifying\<rparr>
      in if cv_has_timecode (sv_view v) then judge_clock v d
         else (arm_step v (so_camera_wait (sdo_sync (sd_opt d))) JudgeNow d, []))"

definition done_write :: "syncd_env \<Rightarrow> bool \<Rightarrow> string \<Rightarrow> 'p syncd \<Rightarrow> 'p sd_step" where
  "done_write v ok err d =
     (if \<not> ok then finish_cycle v ''write:rejected'' err (failed d)
      else let d = on_report (\<lambda>r. r\<lparr>rp_write_latency := sv_mono v - cy_write_started (sd_cur d), rp_wrote := True\<rparr>) d;
               d = d\<lparr>sd_state := (sd_state d)\<lparr>ss_has_last_write := True, ss_last_write_mono := sv_mono v\<rparr>\<rparr>
        in (arm_step v (so_verify_wait (sdo_sync (sd_opt d))) VerifyNow d, [AskForgetTimecode]))"

text \<open>Which date a write carries: the host's clock, a date that was told, or the camera's own.\<close>

definition write_value :: "syncd_env \<Rightarrow> 'p syncd \<Rightarrow> civil" where
  "write_value v d =
     (let c = sd_cur d
      in if bw_absolute (cy_bench c) then aligned_value (sv_wall v) (cy_offset c) (of_int (cy_bias c))
         else let told = date_known v d
           in aligned_value_on_date (sv_wall v) (cy_offset c) (of_int (cy_bias c))
                (if told then today v d else cy_camera_date c) (if told then - 1 else cy_camera_date_sod c))"

definition step_write :: "syncd_env \<Rightarrow> 'p syncd \<Rightarrow> 'p sd_step" where
  "step_write v d0 =
     (let d = d0\<lparr>sd_phase := PhWriting\<rparr>; c = sd_cur d; when = write_value v d;
          d = on_report (\<lambda>r. r\<lparr>rp_wrote_value := when, rp_has_write := True, rp_bias := cy_bias c,
                               rp_lead := cy_lead c\<rparr>) d;
          d = on_cur (\<lambda>c. c\<lparr>cy_write_started := sv_mono v\<rparr>) d
      in (arm_step v 11 WriteUnanswered d, [AskWrite (cy_seq c) (rtc_packet when 0 kBroadcast) 10]))"

definition step_align :: "syncd_env \<Rightarrow> 'p syncd \<Rightarrow> 'p sd_step" where
  "step_align v d0 =
     (let d = d0\<lparr>sd_phase := PhAligning\<rparr>; c = sd_cur d
      in (arm_step v (aligned_wait (sv_wall v) (cy_offset c) (of_int (cy_bias c)) (cy_lead c)) WriteNow d, []))"

section \<open>The timecode source\<close>

definition source_echo :: "syncd_env \<Rightarrow> 'p syncd \<Rightarrow> 'p sd_step" where
  "source_echo v d =
     (let after = sv_view v; wanted = cy_source_value (sd_cur d);
          echoed = (cv_has_timecode_source after \<and> cv_timecode_source after = wanted);
          d = on_report (\<lambda>r. r\<lparr>rp_has_timecode_source := cv_has_timecode_source after,
                               rp_timecode_source := cv_timecode_source after\<rparr>) d
      in finish_cycle v (if echoed then ''source:ok'' else ''source:unverified'')
           (if echoed then ''timecode source is now '' @ show_int wanted
            else ''the camera did not echo the change back'') d)"

definition done_source :: "syncd_env \<Rightarrow> bool \<Rightarrow> string \<Rightarrow> 'p syncd \<Rightarrow> 'p sd_step" where
  "done_source v ok err d =
     (if \<not> ok then finish_cycle v ''source:rejected'' err d else (arm_step v (3 / 2) SourceEcho d, []))"

definition step_source_write :: "syncd_env \<Rightarrow> 'p syncd \<Rightarrow> 'p sd_step" where
  "step_source_write v d0 =
     (let d = d0\<lparr>sd_phase := PhSourceWrite\<rparr>; c = sd_cur d
      in if \<not> cy_may_write c
         then finish_cycle v ''skip:writes-disabled''
                ''writes are disabled for this camera -- enable it with `octomancer writes on`'' d
         else (arm_step v 11 SourceUnanswered d,
               [AskWrite (cy_seq c)
                  (build_packet kGroupOutput kParamTimecodeSource kTypeInt8 kOpAssign
                     [word_of_int (cy_source_value c)] kBroadcast) 10]))"

section \<open>Deciding\<close>

definition may_write_to :: "'p syncd \<Rightarrow> string \<Rightarrow> bool" where
  "may_write_to d cam =
     (case sd_conf d of Some conf \<Rightarrow> writes_enabled conf cam | None \<Rightarrow> sdo_default_writes (sd_opt d))"

definition note_camera_date :: "camera_view \<Rightarrow> 'p syncd \<Rightarrow> 'p syncd" where
  "note_camera_date view d =
     (case cv_state view (7, 0) of None \<Rightarrow> d
      | Some value \<Rightarrow>
          (case decode_rtc value of None \<Rightarrow> d
           | Some (date, sod) \<Rightarrow>
               on_cur (\<lambda>c. c\<lparr>cy_have_camera_date := True, cy_camera_date := date, cy_camera_date_sod := sod\<rparr>) d))"

definition conditions_seen :: "camera_view \<Rightarrow> 'p syncd \<Rightarrow> conditions" where
  "conditions_seen view d =
     \<lparr>cn_recording = rp_recording (cy_report (sd_cur d)), cn_writes_enabled = cy_may_write (sd_cur d),
      cn_has_timecode_source = cv_has_timecode_source view, cn_timecode_source = cv_timecode_source view\<rparr>"

definition decide_clock :: "syncd_env \<Rightarrow> int \<Rightarrow> 'p syncd \<Rightarrow> 'p sd_step" where
  "decide_clock v fps d0 =
     (let view = sv_view v; opt = sdo_sync (sd_opt d0);
          d = note_camera_date view d0;
          error = error_from v d view fps;
          d = on_report (\<lambda>r. r\<lparr>rp_has_error := True, rp_error_before := error,
                               rp_timecode := format_timecode (cv_timecode view)\<rparr>) d;
          (state, drift) = observe opt (sd_state d) error (sv_mono v);
          d = d\<lparr>sd_state := state\<rparr>;
          decision = decide opt state error fps (conditions_seen view d) (sv_mono v);
          action = forced_action (cy_forced (sd_cur d)) (dc_action decision)
      in if action \<noteq> Write
         then finish_cycle v (action_name action) (sv_verdict_words v decision) d
         else step_align v (on_cur (\<lambda>c. c\<lparr>cy_bias := ss_rtc_bias state, cy_lead := effective_lead opt state\<rparr>) d))"

definition evaluate :: "syncd_env \<Rightarrow> 'p syncd \<Rightarrow> 'p sd_step" where
  "evaluate v d0 =
     (let d = cancel_step d0; view = sv_view v;
          fps = (if cv_has_fps view then cv_fps view else so_fps (sdo_sync (sd_opt d)));
          d = on_cur (\<lambda>c. c\<lparr>cy_may_write := may_write_to d (ss_camera_id (sd_state d))\<rparr>) d;
          d = on_report (\<lambda>r. r\<lparr>rp_fps := fps,
                               rp_recording := (cv_has_transport view \<and> cv_transport view = kTransportRecord),
                               rp_has_timecode_source := cv_has_timecode_source view,
                               rp_timecode_source := cv_timecode_source view\<rparr>) d
      in if cy_set_source (sd_cur d) then step_source_write v d
         else if \<not> cv_has_timecode view
         then finish_cycle v ''skip:no-timecode'' ''camera connected but sent no timecode'' d
         else decide_clock v fps d)"

section \<open>Reaching the camera\<close>

definition step_observe :: "syncd_env \<Rightarrow> 'p syncd \<Rightarrow> 'p sd_step" where
  "step_observe v d0 =
     (let d = on_report (\<lambda>r. r\<lparr>rp_reached_camera := True\<rparr>) (d0\<lparr>sd_phase := PhObserving\<rparr>)
      in if cy_set_source (sd_cur d) then evaluate v d
         else if fresh_view v then evaluate v d
         else (arm_step v (so_camera_wait (sdo_sync (sd_opt d))) EvaluateNow d, []))"

definition done_subscribe :: "syncd_env \<Rightarrow> bool \<Rightarrow> string \<Rightarrow> 'p syncd \<Rightarrow> 'p sd_step" where
  "done_subscribe v ok err d =
     (if \<not> ok then finish_cycle v ''skip:no-characteristics'' err d else step_observe v d)"

definition step_subscribe :: "syncd_env \<Rightarrow> 'p syncd \<Rightarrow> 'p sd_step" where
  "step_subscribe v d0 =
     (let d = d0\<lparr>sd_phase := PhSubscribing\<rparr>; wait = so_camera_wait (sdo_sync (sd_opt d))
      in if sv_subscribed v then step_observe v d
         else (arm_step v (wait * 2 + 1) SubscribeUnfinished d, [AskSubscribe (cy_seq (sd_cur d)) wait]))"

definition connect_camera :: "syncd_env \<Rightarrow> string \<Rightarrow> string \<Rightarrow> 'p syncd \<Rightarrow> 'p sd_step" where
  "connect_camera v k name d0 =
     (let d = on_cur (\<lambda>c. c\<lparr>cy_try_id := k, cy_try_name := name\<rparr>) (d0\<lparr>sd_phase := PhConnecting\<rparr>);
          timeout = so_connect_timeout (sdo_sync (sd_opt d))
      in (arm_step v (timeout * 2 + 1) ConnectUnanswered d, [AskConnect (cy_seq (sd_cur d)) k timeout]))"

definition step_scan :: "syncd_env \<Rightarrow> 'p syncd \<Rightarrow> 'p sd_step" where
  "step_scan v d0 =
     (let d = on_cur (\<lambda>c. c\<lparr>cy_tried_scan := True\<rparr>) (d0\<lparr>sd_phase := PhScanning\<rparr>);
          timeout = so_scan_timeout (sdo_sync (sd_opt d))
      in (arm_step v (timeout * 2 + 1) ScanUnfinished d,
          [AskScan (cy_seq (sd_cur d)) timeout (cy_want_camera (sd_cur d))]))"

definition wanted_camera :: "string \<Rightarrow> camera_device \<Rightarrow> bool" where
  "wanted_camera want dev \<longleftrightarrow> want = [] \<or> contains (lowered (cam_name dev)) want \<or> lowered (cam_id dev) = want"

definition on_scan :: "syncd_env \<Rightarrow> scan_result \<Rightarrow> 'p syncd \<Rightarrow> 'p sd_step" where
  "on_scan v result d =
     (case List.find (wanted_camera (lowered (cy_want_camera (sd_cur d)))) (scr_cameras result) of
        None \<Rightarrow>
          finish_cycle v ''skip:no-camera''
            (if scr_total result = 0
             then ''no LE devices at all -- the radio may be blocked for this program''
             else ''no Blackmagic cameras among '' @ show_int (scr_total result) @ '' LE devices'') (one_more_miss d)
      | Some pick \<Rightarrow> connect_camera v (cam_id pick) (cam_name pick) d)"

definition done_connect :: "syncd_env \<Rightarrow> bool \<Rightarrow> string \<Rightarrow> 'p syncd \<Rightarrow> 'p sd_step" where
  "done_connect v ok err d =
     (if \<not> ok
      then if \<not> cy_tried_scan (sd_cur d) then step_scan v d
           else finish_cycle v ''skip:no-camera'' (''connect failed: '' @ err) (one_more_miss d)
      else let k = cy_try_id (sd_cur d); name = cy_try_name (sd_cur d); old = ss_camera_id (sd_state d);
               new_body = (old \<noteq> k);
               state = (if old \<noteq> [] \<and> new_body then forget_drift (sd_state d) else sd_state d);
               state = state\<lparr>ss_camera_id := k\<rparr>;
               d = on_report (\<lambda>r. r\<lparr>rp_camera_id := k\<rparr>) (d\<lparr>sd_state := state, sd_misses := 0\<rparr>);
               bound = (if new_body then [Bound k name] else []);
               d = (if new_body then d\<lparr>sd_state := sv_bind v k name (sd_state d)\<rparr> else d);
               (d, acts) = step_subscribe v d
           in (d, bound @ acts))"

definition step_connect :: "syncd_env \<Rightarrow> 'p syncd \<Rightarrow> 'p sd_step" where
  "step_connect v d0 =
     (let d = d0\<lparr>sd_phase := PhConnecting\<rparr>; want = cy_want_camera (sd_cur d); mine = ss_camera_id (sd_state d);
          bound_is_wanted = (want = [] \<or> mine \<noteq> [] \<and> want = mine)
      in if bound_is_wanted \<and> sv_connected v \<and> sv_subscribed v then step_observe v (d\<lparr>sd_misses := 0\<rparr>)
         else if bound_is_wanted \<and> mine \<noteq> [] then connect_camera v mine [] d
         else let (r, snap) = registry_snapshot (sd_registry d) (sv_mono v) (sv_wall v);
                  d = d\<lparr>sd_registry := r\<rparr>; seen = sp_camera snap
           in if want = [] \<and> sc_present seen \<and> sc_id seen \<noteq> []
              then connect_camera v (sc_id seen) (sc_name seen) d
              else step_scan v d)"

section \<open>The beginning of a cycle\<close>

definition new_cycle :: "'p syncd \<Rightarrow> cycle" where
  "new_cycle d =
     empty_cycle\<lparr>cy_seq := sd_next_seq d, cy_forced := sd_pending_force d, cy_set_source := sd_pending_source d,
                 cy_source_value := sd_pending_source_value d,
                 cy_want_camera := (if sd_pending_camera d = [] then sdo_camera (sd_opt d) else sd_pending_camera d)\<rparr>"

definition no_bench_words :: "bench_view \<Rightarrow> string" where
  "no_bench_words b =
     (if 0 < bw_skipped b
      then ''nothing to sync to -- every timecode box heard ('' @ show_int (bw_skipped b) @ '') is switched off''
      else ''no timecode boxes heard -- nothing to sync to'')"

definition begin_cycle :: "syncd_env \<Rightarrow> 'p syncd \<Rightarrow> 'p sd_step" where
  "begin_cycle v d0 =
     (if \<not> sd_started d0 then (d0, [])
      else let d = d0\<lparr>sd_cur := new_cycle d0, sd_next_seq := sd_next_seq d0 + 1, sd_pending_sync := False,
                      sd_pending_force := False, sd_pending_source := False, sd_pending_camera := []\<rparr>;
               (r, snap) = registry_snapshot (sd_registry d) (sv_mono v) (sv_wall v);
               bench = measure_bench snap (sd_conf d); on_bench = sdo_tentacle_bench (sd_opt d);
               d = on_cur (\<lambda>c. c\<lparr>cy_bench := bench, cy_report := (cy_report c)\<lparr>rp_bench := bench\<rparr>,
                                 cy_offset := (if on_bench then bw_offset bench else 0)\<rparr>) (d\<lparr>sd_registry := r\<rparr>)
           in if on_bench \<and> \<not> bw_ok bench
              then finish_cycle v ''skip:no-tentacle'' (no_bench_words bench) d
              else if \<not> date_known v d \<and> \<not> cy_have_camera_date (sd_cur d)
              then finish_cycle v ''skip:no-date''
                     ''nobody here knows the date -- this radio has not been told one and the camera has not said what its own is, so there is nothing to date a write from'' d
              else if \<not> sd_camera d
              then finish_cycle v ''skip:no-camera-backend'' ''no camera backend on this host -- listening only'' d
              else step_connect v (on_cur (\<lambda>c. c\<lparr>cy_looked := True\<rparr>) d))"

text \<open>What an armed step does when its time comes.\<close>

fun take_step :: "syncd_env \<Rightarrow> timed_step \<Rightarrow> 'p syncd \<Rightarrow> 'p sd_step" where
  "take_step v ConnectUnanswered d = finish_cycle v ''skip:no-camera'' ''the camera backend never let_in'' (one_more_miss d)"
| "take_step v ScanUnfinished d = finish_cycle v ''skip:no-camera'' ''the scan never finished'' (one_more_miss d)"
| "take_step v SubscribeUnfinished d =
     finish_cycle v ''skip:no-characteristics'' ''the camera never finished subscribing'' d"
| "take_step v EvaluateNow d = evaluate v d"
| "take_step v SourceUnanswered d = finish_cycle v ''source:unanswered'' ''the camera never let_in the write'' d"
| "take_step v SourceEcho d = source_echo v d"
| "take_step v WriteNow d = step_write v d"
| "take_step v WriteUnanswered d =
     finish_cycle v ''write:unanswered'' ''the camera never let_in the write'' (failed d)"
| "take_step v VerifyNow d = step_verify v d"
| "take_step v JudgeNow d = judge_clock v d"

definition step_due :: "syncd_env \<Rightarrow> 'p syncd \<Rightarrow> 'p sd_step" where
  "step_due v d =
     (case sd_step_timer d of None \<Rightarrow> (d, [])
      | Some (seq, st) \<Rightarrow> if current d seq then take_step v st (d\<lparr>sd_step_timer := None\<rparr>) else (d, []))"

definition cycle_due :: "syncd_env \<Rightarrow> 'p syncd \<Rightarrow> 'p sd_step" where
  "cycle_due v d = (if sd_cycle_timer d then begin_cycle v (d\<lparr>sd_cycle_timer := False\<rparr>) else (d, []))"

text \<open>An answer, as \<open>guard_done\<close> lets it in.\<close>

definition let_in :: "u64 \<Rightarrow> ('p syncd \<Rightarrow> 'p sd_step) \<Rightarrow> 'p syncd \<Rightarrow> 'p sd_step" where
  "let_in seq f d = (if current d seq then f (cancel_step d) else (d, []))"

section \<open>The camera volunteering\<close>

definition on_view :: "syncd_env \<Rightarrow> 'p syncd \<Rightarrow> 'p sd_step" where
  "on_view v d =
     (if sd_phase d = PhObserving then (if fresh_view v then evaluate v d else (d, []))
      else if sd_phase d = PhVerifying \<and> cv_has_timecode (sv_view v) then judge_clock v d
      else (d, []))"

definition cam_message :: "bool \<Rightarrow> message" where
  "cam_message up = set_bool (no_message ''cam'') ''up'' up"

definition on_camera_gone :: "syncd_env \<Rightarrow> 'p syncd \<Rightarrow> 'p sd_step" where
  "on_camera_gone v d0 =
     (let (d, told) = (if sd_camera_present d0
            then (d0\<lparr>sd_camera_present := False\<rparr>,
                  announce d0 (set_field (cam_message False) ''id'' (ss_camera_id (sd_state d0))))
            else (d0, []));
          (d, acts) = (if \<not> busy d then (d, [])
            else finish_cycle v ''skip:camera-gone'' ''the camera disconnected'' (one_more_miss d))
      in (d, told @ acts))"

section \<open>The radio\<close>

record heard_advert =
  ha_id :: string
  ha_name :: string
  ha_rssi :: int
  ha_data :: bytes
  ha_mono :: real
  ha_wall :: real
  ha_name_only :: bool

record sighting =
  sg_id :: string
  sg_name :: string
  sg_rssi :: int
  sg_mono :: real
  sg_wall :: real

definition observe_advert :: "syncd_env \<Rightarrow> heard_advert \<Rightarrow> 'p syncd \<Rightarrow> 'p sd_step" where
  "observe_advert v a d =
     (if ha_name_only a
      then (d\<lparr>sd_registry := fst (observe_name (sd_registry d) (ha_id a) (ha_name a))\<rparr>, [])
      else drain_events (d\<lparr>sd_registry :=
             observe_box (sv_local_sod v) (sd_registry d) (ha_id a) (ha_name a) (ha_rssi a) (ha_data a)
               (ha_mono a) (ha_wall a)\<rparr>))"

definition sight_camera :: "sighting \<Rightarrow> 'p syncd \<Rightarrow> 'p sd_step" where
  "sight_camera s d0 =
     (let d = d0\<lparr>sd_registry := observe_camera (sd_registry d0) (sg_id s) (sg_name s) (sg_rssi s) (sg_mono s) (sg_wall s)\<rparr>
      in if sd_camera_present d then (d, [])
         else let d = d\<lparr>sd_camera_present := True, sd_misses := 0\<rparr>;
                  m = set_field (cam_message True) ''id'' (sg_id s);
                  m = set_when (sg_name s \<noteq> []) (\<lambda>m. set_field m ''name'' (sg_name s)) m
           in (d, announce d (set_int m ''rssi'' (sg_rssi s))))"

definition set_radio_state :: "string \<Rightarrow> 'p syncd \<Rightarrow> 'p sd_step" where
  "set_radio_state state d0 =
     (let d = d0\<lparr>sd_registry := set_radio (sd_registry d0) state\<rparr>
      in (d, announce d (set_field (no_message ''radio'') ''state'' state)))"

definition update_camera_presence :: "syncd_env \<Rightarrow> snapshot \<Rightarrow> 'p syncd \<Rightarrow> 'p sd_step" where
  "update_camera_presence v snap d0 =
     (let seen = sp_camera snap; present = (sd_camera d0 \<and> sv_connected v \<or> sc_present seen)
      in if present = sd_camera_present d0 then (d0, [])
         else let d = d0\<lparr>sd_camera_present := present\<rparr>;
                  k = (if sc_id seen = [] then ss_camera_id (sd_state d) else sc_id seen);
                  m = set_when (k \<noteq> []) (\<lambda>m. set_field m ''id'' k) (cam_message present);
                  m = set_when present (\<lambda>m. set_int (set_when (sc_name seen \<noteq> [])
                        (\<lambda>m. set_field m ''name'' (sc_name seen)) m) ''rssi'' (sc_rssi seen)) m
           in (d, announce d m))"

definition bench_message :: "bench_view \<Rightarrow> int \<Rightarrow> message" where
  "bench_message b live =
     (let m = set_bool (no_message ''bench'') ''ok'' (bw_ok b);
          m = set_when (bw_ok b) (\<lambda>m. set_int (set_double (set_double m ''offset'' (bw_offset b) 4)
                ''spread'' (bw_spread b) 4) ''boxes'' (bw_boxes b)) m;
          m = set_when (0 < bw_skipped b) (\<lambda>m. set_int m ''disabled'' (bw_skipped b)) m
      in set_int m ''live'' live)"

definition take_snapshot :: "syncd_env \<Rightarrow> 'p syncd \<Rightarrow> 'p syncd \<times> snapshot" where
  "take_snapshot v d =
     (let (r, snap) = registry_snapshot (sd_registry d) (sv_mono v) (sv_wall v) in (d\<lparr>sd_registry := r\<rparr>, snap))"

definition tick_announce :: "syncd_env \<Rightarrow> 'p syncd \<Rightarrow> 'p sd_step" where
  "tick_announce v d0 =
     (let (d, events) = drain_events d0;
          (d, snap) = take_snapshot v d;
          (d, presence) = update_camera_presence v snap d
      in (d, events @ presence @ announce d (bench_message (measure_bench snap (sd_conf d)) (sp_live snap))))"

section \<open>What a peer is told\<close>

definition device_message :: "camconf option \<Rightarrow> device_snapshot \<Rightarrow> message" where
  "device_message conf dev =
     (let m = set_field (no_message ''dev'') ''id'' (sn_id dev);
          m = set_when (sn_name dev \<noteq> []) (\<lambda>m. set_field m ''name'' (sn_name dev)) m;
          m = set_int m ''rssi'' (sn_rssi dev);
          m = set_bool m ''live'' (sn_live dev);
          m = set_double m ''age'' (sn_age dev) 1;
          m = set_when (sn_has_time dev) (\<lambda>m. set_int (set_double (set_double m ''offset'' (sn_offset dev) 4)
                ''median'' (sn_median_offset dev) 4) ''samples'' (sn_samples dev)) m;
          m = set_when (sn_has_drift dev) (\<lambda>m. set_double m ''ppm'' (sn_drift_ppm dev) 2) m;
          m = set_when (\<not> conf_box_enabled conf (sn_id dev)) (\<lambda>m. set_bool m ''enabled'' False) m
      in set_when (sn_alerting dev) (\<lambda>m. set_bool m ''alerting'' True) m)"

definition bench_fields :: "bench_view \<Rightarrow> message \<Rightarrow> message" where
  "bench_fields b m =
     (let m = set_bool m ''bench'' (bw_ok b)
      in set_when (bw_ok b) (\<lambda>m. set_int (set_double (set_double m ''offset'' (bw_offset b) 4)
           ''spread'' (bw_spread b) 4) ''boxes'' (bw_boxes b)) m)"

definition status_camera :: "syncd_env \<Rightarrow> 'p syncd \<Rightarrow> snapshot \<Rightarrow> message \<Rightarrow> message" where
  "status_camera v d snap m =
     (let connected = (sd_camera d \<and> sv_connected v); s = sd_state d;
          m = set_bool m ''camera'' (connected \<or> sc_present (sp_camera snap));
          m = set_bool m ''connected'' connected;
          m = set_when (ss_camera_id s \<noteq> []) (\<lambda>m. set_field m ''camera_id'' (ss_camera_id s)) m;
          m = set_bool m ''backend'' (sd_camera d);
          m = set_when (sd_last_action d \<noteq> []) (\<lambda>m. set_field m ''action'' (sd_last_action d)) m;
          m = set_when (ss_has_last_write s)
                (\<lambda>m. set_double m ''since_write'' (sv_mono v - ss_last_write_mono s) 1) m;
          m = set_when (de_has (ss_drift s)) (\<lambda>m. set_double m ''ppm'' (de_ppm (ss_drift s)) 2) m;
          m = set_when (le_has (ss_lead s)) (\<lambda>m. set_double m ''lead'' (le_lead_s (ss_lead s)) 4) m;
          m = set_int m ''bias'' (ss_rtc_bias s);
          m = set_int m ''failures'' (ss_failures s)
      in set_when (sd_started d) (\<lambda>m. set_double m ''next'' (sd_next_cycle_at d - sv_mono v) 1) m)"

definition status_message :: "syncd_env \<Rightarrow> 'p syncd \<Rightarrow> 'p syncd \<times> message" where
  "status_message v d0 =
     (let (d, snap) = take_snapshot v d0; b = measure_bench snap (sd_conf d);
          m = set_field (no_message ''status'') ''phase'' (phase_name (sd_phase d));
          m = set_field m ''radio'' (sp_radio snap);
          m = set_double m ''uptime'' (sp_uptime snap) 1;
          m = set_int m ''devices'' (sp_devices snap);
          m = set_int m ''live'' (sp_live snap);
          m = bench_fields b m;
          m = set_field m ''clock'' (if bw_absolute b then ''real'' else ''free'');
          m = set_bool m ''date'' (date_known v d);
          m = set_when (0 < bw_skipped b) (\<lambda>m. set_int m ''disabled'' (bw_skipped b)) m
      in (d, status_camera v d snap m))"

section \<open>Requests\<close>

definition request_sync :: "syncd_env \<Rightarrow> string \<Rightarrow> bool \<Rightarrow> 'p syncd \<Rightarrow> 'p syncd" where
  "request_sync v camera force d0 =
     (let d = d0\<lparr>sd_pending_sync := True, sd_pending_force := sd_pending_force d0 \<or> force,
                 sd_pending_camera := (if camera = [] then sd_pending_camera d0 else camera)\<rparr>
      in if \<not> sd_started d \<or> busy d then d else schedule_next v 0 d)"

definition request_source :: "syncd_env \<Rightarrow> string \<Rightarrow> int \<Rightarrow> 'p syncd \<Rightarrow> 'p syncd" where
  "request_source v camera val d0 =
     (let d = d0\<lparr>sd_pending_source := True, sd_pending_source_value := val,
                 sd_pending_camera := (if camera = [] then sd_pending_camera d0 else camera)\<rparr>
      in if \<not> sd_started d \<or> busy d then d else schedule_next v 0 d)"

section \<open>The peers\<close>

definition hello_message :: "syncd_env \<Rightarrow> message" where
  "hello_message v =
     (let m = set_field (set_int (no_message ''hello'') ''proto'' kBoxProtocolVersion) ''role'' ''sync''
      in case sv_version v of None \<Rightarrow> m | Some version \<Rightarrow> set_field m ''version'' version)"

definition peer_opened :: "syncd_env \<Rightarrow> 'p \<Rightarrow> 'p syncd \<Rightarrow> 'p sd_step" where
  "peer_opened v peer d = (d\<lparr>sd_peers := sd_peers d @ [peer]\<rparr>, send_to peer (hello_message v))"

definition peer_closed :: "'p \<Rightarrow> 'p syncd \<Rightarrow> 'p syncd" where
  "peer_closed peer d = d\<lparr>sd_peers := removeAll peer (sd_peers d), sd_quiet := removeAll peer (sd_quiet d)\<rparr>"

text \<open>The id of the request on every reply to it.\<close>

definition tagged :: "string \<Rightarrow> message \<Rightarrow> message" where
  "tagged tag m = (if tag = [] then m else set_field m ''id'' tag)"

definition err_message :: "string \<Rightarrow> message" where
  "err_message reason = set_field (no_message ''err'') ''reason'' reason"

definition missing_field :: "string \<Rightarrow> message" where
  "missing_field k = set_field (err_message ''missing-field'') ''field'' k"

definition ok_message :: "string \<Rightarrow> message" where
  "ok_message what = set_field (no_message ''ok'') ''what'' what"

text \<open>\<open>date\<close> puts the request's id first in its replies.\<close>

definition with_id :: "message \<Rightarrow> string \<Rightarrow> message" where
  "with_id msg verb = set_when (has_field msg ''id'') (\<lambda>m. set_field m ''id'' (get_field msg ''id'' [])) (no_message verb)"

type_synonym 'p answer = "'p syncd \<times> 'p syncd_action list \<times> message list"

definition handle_date :: "message \<Rightarrow> 'p syncd \<Rightarrow> 'p answer" where
  "handle_date msg d =
     (let missing = (\<lambda>k. (d, [], [set_field (set_field (with_id msg ''err'') ''reason'' ''missing-field'') ''field'' k]))
      in case get_int msg ''y'' of None \<Rightarrow> missing ''y''
         | Some y \<Rightarrow> (case get_int msg ''mo'' of None \<Rightarrow> missing ''mo''
           | Some mo \<Rightarrow> (case get_int msg ''d'' of None \<Rightarrow> missing ''d''
             | Some dd \<Rightarrow>
                 if y < 2000 \<or> 2099 < y \<or> mo < 1 \<or> 12 < mo \<or> dd < 1 \<or> 31 < dd
                 then (d, [], [set_field (with_id msg ''err'') ''reason'' ''bad-date''])
                 else let told = \<lparr>do_year = y, do_month = mo, do_day = dd\<rparr>;
                          ok = set_field (with_id msg ''ok'') ''what'' ''date''
                   in (d\<lparr>sd_date_told := told, sd_told_date := True\<rparr>, [DateTold told],
                       [set_int (set_int (set_int ok ''y'' y) ''mo'' mo) ''d'' dd]))))"

definition handle_time :: "syncd_env \<Rightarrow> message \<Rightarrow> 'p syncd \<Rightarrow> 'p answer" where
  "handle_time v msg d =
     (case get_double msg ''wall'' of None \<Rightarrow> (d, [], [missing_field ''wall''])
      | Some when \<Rightarrow>
          if \<not> sd_takes_time d then (d, [], [err_message ''have-clock''])
          else let zone = get_int msg ''zone''
            in case zone of
                 Some z \<Rightarrow>
                   if z \<le> - 86400 \<or> 86400 \<le> z then (d, [], [set_int (err_message ''bad-zone'') ''zone'' z])
                   else (d, [TimeTold when zone],
                         [set_int (set_double (ok_message ''time'') ''wall'' (sv_wall_told v) 3) ''zone'' z])
               | None \<Rightarrow> (d, [TimeTold when None],
                          [set_double (ok_message ''time'') ''wall'' (sv_wall_told v) 3]))"

definition handle_devices :: "syncd_env \<Rightarrow> 'p syncd \<Rightarrow> 'p answer" where
  "handle_devices v d0 =
     (let (d, snap) = take_snapshot v d0
      in (d, [], map (device_message (sd_conf d)) (sp_device snap) @
            [set_int (set_field (no_message ''end'') ''what'' ''devices'') ''n'' (int (length (sp_device snap)))]))"

definition handle_sync :: "syncd_env \<Rightarrow> message \<Rightarrow> 'p syncd \<Rightarrow> 'p answer" where
  "handle_sync v msg d =
     (let force = (case get_bool msg ''force'' of Some b \<Rightarrow> b | None \<Rightarrow> False)
      in (request_sync v (get_field msg ''camera'' []) force d, [],
          [set_bool (ok_message ''sync'') ''queued'' (busy d)]))"

definition handle_source :: "syncd_env \<Rightarrow> message \<Rightarrow> 'p syncd \<Rightarrow> 'p answer" where
  "handle_source v msg d =
     (case get_int msg ''value'' of None \<Rightarrow> (d, [], [missing_field ''value''])
      | Some val \<Rightarrow> (request_source v (get_field msg ''camera'' []) val d, [],
                     [set_bool (set_int (ok_message ''source'') ''value'' val) ''queued'' (busy d)]))"

definition handle_announce :: "'p \<Rightarrow> message \<Rightarrow> 'p syncd \<Rightarrow> 'p answer" where
  "handle_announce peer msg d =
     (let on = (case get_bool msg ''on'' of Some b \<Rightarrow> b | None \<Rightarrow> True);
          effective = (on \<and> sdo_announce (sd_opt d));
          m = set_bool (ok_message ''announce'') ''on'' on
      in (d\<lparr>sd_quiet := removeAll peer (sd_quiet d) @ (if on then [] else [peer])\<rparr>, [],
          [set_when (effective \<noteq> on) (\<lambda>m. set_bool m ''effective'' effective) m]))"

definition handle_forget :: "message \<Rightarrow> 'p syncd \<Rightarrow> 'p answer" where
  "handle_forget msg d =
     (let dev = get_field msg ''dev'' []
      in if dev = [] then (d, [], [missing_field ''dev''])
         else let (r, had) = registry_forget (sd_registry d) dev
           in (d\<lparr>sd_registry := r\<rparr>, [], [set_bool (set_field (ok_message ''forget'') ''dev'' dev) ''known'' had]))"

text \<open>What a request does, what it asks of the owner, and the replies in order.\<close>

definition answer :: "syncd_env \<Rightarrow> 'p \<Rightarrow> message \<Rightarrow> 'p syncd \<Rightarrow> 'p answer" where
  "answer v peer msg d =
     (let verb = msg_verb msg
      in if verb = ''ping'' then (d, [], [no_message ''pong''])
         else if verb = ''hello'' then (d, [], [hello_message v])
         else if verb = ''date'' then handle_date msg d
         else if verb = ''time'' then handle_time v msg d
         else if verb = ''status'' then (let (d, m) = status_message v d in (d, [], [m]))
         else if verb = ''devices'' then handle_devices v d
         else if verb = ''sync'' then handle_sync v msg d
         else if verb = ''source'' then handle_source v msg d
         else if verb = ''announce'' then handle_announce peer msg d
         else if verb = ''forget'' then handle_forget msg d
         else (d, [], [set_field (err_message ''unknown-verb'') ''verb'' verb]))"

definition handle :: "syncd_env \<Rightarrow> 'p \<Rightarrow> message \<Rightarrow> 'p syncd \<Rightarrow> 'p sd_step" where
  "handle v peer msg d0 =
     (let (d, acts, replies) = answer v peer msg d0
      in (d, acts @ concat (map (\<lambda>m. send_to peer (tagged (get_field msg ''id'' []) m)) replies)))"

definition peer_line :: "syncd_env \<Rightarrow> 'p \<Rightarrow> string \<Rightarrow> 'p syncd \<Rightarrow> 'p sd_step" where
  "peer_line v peer line d =
     (case decode_message line of
        Inl err \<Rightarrow> (d, send_to peer (set_field (err_message ''bad-line'') ''detail'' err))
      | Inr msg \<Rightarrow> handle v peer msg d)"

section \<open>Starting and stopping\<close>

definition syncd_start :: "syncd_env \<Rightarrow> 'p syncd \<Rightarrow> 'p syncd" where
  "syncd_start v d =
     (if sd_started d then d
      else (schedule_next v 0 (d\<lparr>sd_started := True, sd_phase := PhIdle\<rparr>))
             \<lparr>sd_announce_timer := (sd_announce_timer d \<or> sdo_announce (sd_opt d) \<and> 0 < sdo_announce_period (sd_opt d))\<rparr>)"

definition syncd_stop :: "syncd_env \<Rightarrow> 'p syncd \<Rightarrow> 'p sd_step" where
  "syncd_stop v d0 =
     (if \<not> sd_started d0 then (d0, [])
      else let d = on_cur (\<lambda>c. c\<lparr>cy_seq := 0\<rparr>) (d0\<lparr>sd_started := False, sd_phase := PhStopped\<rparr>)
        in ((cancel_step d)\<lparr>sd_cycle_timer := False, sd_announce_timer := False\<rparr>,
            if sd_camera d \<and> sv_connected v then [AskDisconnect] else []))"

section \<open>Everything that can happen to it\<close>

datatype 'p syncd_op =
    StartOp | StopOp
  | CycleDue | StepDue | AnnounceDue
  | ConnectAnswered u64 bool string | ScanAnswered u64 scan_result | SubscribeAnswered u64 bool string
  | SourceAnswered u64 bool string | WriteAnswered u64 bool string
  | ViewChanged | CameraGone
  | AdvertHeard heard_advert | CameraHeard sighting | RadioChanged string
  | PeerOpened 'p | PeerClosed 'p | PeerLine 'p string
  | SyncAsked string bool | SourceAsked string int
  | SetCamera bool | SetConfig "camconf option" | SetState sync_state | TakeTime bool

fun syncd_step :: "syncd_env \<Rightarrow> 'p syncd_op \<Rightarrow> 'p syncd \<Rightarrow> 'p sd_step" where
  "syncd_step v StartOp d = (syncd_start v d, [])"
| "syncd_step v StopOp d = syncd_stop v d"
| "syncd_step v CycleDue d = cycle_due v d"
| "syncd_step v StepDue d = step_due v d"
| "syncd_step v AnnounceDue d = (if sd_announce_timer d then tick_announce v d else (d, []))"
| "syncd_step v (ConnectAnswered seq ok err) d = let_in seq (done_connect v ok err) d"
| "syncd_step v (ScanAnswered seq result) d = let_in seq (on_scan v result) d"
| "syncd_step v (SubscribeAnswered seq ok err) d = let_in seq (done_subscribe v ok err) d"
| "syncd_step v (SourceAnswered seq ok err) d = let_in seq (done_source v ok err) d"
| "syncd_step v (WriteAnswered seq ok err) d = let_in seq (done_write v ok err) d"
| "syncd_step v ViewChanged d = (if sd_camera d then on_view v d else (d, []))"
| "syncd_step v CameraGone d = (if sd_camera d then on_camera_gone v d else (d, []))"
| "syncd_step v (AdvertHeard a) d = observe_advert v a d"
| "syncd_step v (CameraHeard s) d = sight_camera s d"
| "syncd_step v (RadioChanged state) d = set_radio_state state d"
| "syncd_step v (PeerOpened peer) d = peer_opened v peer d"
| "syncd_step v (PeerClosed peer) d = (peer_closed peer d, [])"
| "syncd_step v (PeerLine peer line) d = peer_line v peer line d"
| "syncd_step v (SyncAsked camera force) d = (request_sync v camera force d, [])"
| "syncd_step v (SourceAsked camera val) d = (request_source v camera val d, [])"
| "syncd_step v (SetCamera c) d = (d\<lparr>sd_camera := c\<rparr>, [])"
| "syncd_step v (SetConfig conf) d = (d\<lparr>sd_conf := conf\<rparr>, [])"
| "syncd_step v (SetState state) d = (d\<lparr>sd_state := state\<rparr>, [])"
| "syncd_step v (TakeTime takes) d = (d\<lparr>sd_takes_time := takes\<rparr>, [])"

fun run_syncd :: "(syncd_env \<times> 'p syncd_op) list \<Rightarrow> 'p syncd \<Rightarrow> 'p sd_step" where
  "run_syncd [] d = (d, [])"
| "run_syncd ((v, op) # ops) d =
     (let (d', acts) = syncd_step v op d; (d'', acts') = run_syncd ops d' in (d'', acts @ acts'))"

end
