(* ===== verification/SyncDLaws.thy ===== *)
theory SyncDLaws
  imports SyncD
begin

text \<open>
  What holds of the sync daemon in every run: a started daemon always has something that will move
  it, a request is acted on as soon as the cycle in progress ends, nothing is written without
  permission, and every line a peer sends is answered under the id it carried.
\<close>

section \<open>Small steps\<close>

named_theorems settles

lemmas cur_defs = on_report_def on_cur_def one_more_miss_def failed_def cancel_step_def

text \<open>Nothing keeps a request that has been made from being acted on.\<close>

definition cycle_waits :: "real \<Rightarrow> 'p syncd \<Rightarrow> bool" where
  "cycle_waits t d \<longleftrightarrow>
     sd_cycle_timer d \<and> (sd_pending_sync d \<or> sd_pending_source d \<longrightarrow> sd_next_cycle_at d \<le> t)"

definition wired :: "real \<Rightarrow> 'p syncd \<Rightarrow> bool" where
  "wired t d \<longleftrightarrow>
     sd_phase d \<noteq> PhStopped \<and> (\<forall>q st. sd_step_timer d = Some (q, st) \<longrightarrow> q = cy_seq (sd_cur d)) \<and>
     (if busy d then sd_step_timer d \<noteq> None else cycle_waits t d)"

definition left_wired :: "syncd_env \<Rightarrow> bool \<Rightarrow> u64 \<Rightarrow> u64 \<Rightarrow> 'p sd_step \<Rightarrow> bool" where
  "left_wired v started next q s \<longleftrightarrow>
     (let d = fst s in
      sd_started d = started \<and> sd_next_seq d = next \<and> cy_seq (sd_cur d) = q \<and> (started \<longrightarrow> wired (sv_mono v) d))"

lemmas settled_defs = left_wired_def wired_def cycle_waits_def

lemma settled_finish [settles]:
  assumes "sd_started d = s" "sd_next_seq d = n" "cy_seq (sd_cur d) = q"
  shows "left_wired v s n q (finish_cycle v action why d)"
  using assms
  by (simp add: settled_defs finish_cycle_def Let_def case_prod_unfold cur_defs schedule_next_def busy_def)

lemma settled_armed [settles]:
  assumes "sd_started d = s" "sd_next_seq d = n" "cy_seq (sd_cur d) = q" "busy d"
  shows "left_wired v s n q (arm_step v t st d, acts)"
  using assms by (simp add: settled_defs arm_step_def cur_defs busy_def)

lemma settled_rearmed [settles]:
  assumes "sd_started d = s" "sd_next_seq d = n" "cy_seq (sd_cur d) = q"
    and "sd_started d \<longrightarrow> sd_phase d \<noteq> PhStopped \<and> (busy d \<or> cycle_waits (sv_mono v) d)"
  shows "left_wired v s n q (arm_step v t st d, acts)"
  using assms by (auto simp: settled_defs arm_step_def cur_defs busy_def)

lemma settled_judge [settles]:
  assumes "sd_started d = s" "sd_next_seq d = n" "cy_seq (sd_cur d) = q"
  shows "left_wired v s n q (judge_clock v d)"
  using assms by (simp add: judge_clock_def Let_def case_prod_unfold cur_defs settles)

lemma settled_verify [settles]:
  assumes "sd_started d = s" "sd_next_seq d = n" "cy_seq (sd_cur d) = q"
  shows "left_wired v s n q (step_verify v d)"
  using assms by (simp add: step_verify_def Let_def busy_def settles)

lemma settled_done_write [settles]:
  assumes "sd_started d = s" "sd_next_seq d = n" "cy_seq (sd_cur d) = q"
    and "sd_started d \<longrightarrow> sd_phase d \<noteq> PhStopped \<and> (busy d \<or> cycle_waits (sv_mono v) d)"
  shows "left_wired v s n q (done_write v ok err d)"
  using assms by (auto simp: done_write_def Let_def cur_defs busy_def cycle_waits_def settles)

lemma settled_write [settles]:
  assumes "sd_started d = s" "sd_next_seq d = n" "cy_seq (sd_cur d) = q"
  shows "left_wired v s n q (step_write v d)"
  using assms by (simp add: step_write_def Let_def cur_defs busy_def settles)

lemma settled_align [settles]:
  assumes "sd_started d = s" "sd_next_seq d = n" "cy_seq (sd_cur d) = q"
  shows "left_wired v s n q (step_align v d)"
  using assms by (simp add: step_align_def Let_def cur_defs busy_def settles)

lemma settled_echo [settles]:
  assumes "sd_started d = s" "sd_next_seq d = n" "cy_seq (sd_cur d) = q"
  shows "left_wired v s n q (source_echo v d)"
  using assms by (simp add: source_echo_def Let_def cur_defs settles)

lemma settled_done_source [settles]:
  assumes "sd_started d = s" "sd_next_seq d = n" "cy_seq (sd_cur d) = q"
    and "sd_started d \<longrightarrow> sd_phase d \<noteq> PhStopped \<and> (busy d \<or> cycle_waits (sv_mono v) d)"
  shows "left_wired v s n q (done_source v ok err d)"
  using assms by (simp add: done_source_def settles)

lemma settled_source_write [settles]:
  assumes "sd_started d = s" "sd_next_seq d = n" "cy_seq (sd_cur d) = q"
  shows "left_wired v s n q (step_source_write v d)"
  using assms by (simp add: step_source_write_def Let_def busy_def settles)

lemma camera_date_keeps [simp]:
  "sd_started (note_camera_date view d) = sd_started d"
  "sd_next_seq (note_camera_date view d) = sd_next_seq d"
  "cy_seq (sd_cur (note_camera_date view d)) = cy_seq (sd_cur d)"
  "cy_may_write (sd_cur (note_camera_date view d)) = cy_may_write (sd_cur d)"
  "cy_report (sd_cur (note_camera_date view d)) = cy_report (sd_cur d)"
  "sd_state (note_camera_date view d) = sd_state d"
  "sd_conf (note_camera_date view d) = sd_conf d"
  "sd_opt (note_camera_date view d) = sd_opt d"
  by (simp_all add: note_camera_date_def cur_defs split: option.split)

lemma settled_decide [settles]:
  assumes "sd_started d = s" "sd_next_seq d = n" "cy_seq (sd_cur d) = q"
  shows "left_wired v s n q (decide_clock v fps d)"
  using assms by (simp add: decide_clock_def Let_def case_prod_unfold cur_defs settles)

lemma settled_evaluate [settles]:
  assumes "sd_started d = s" "sd_next_seq d = n" "cy_seq (sd_cur d) = q"
  shows "left_wired v s n q (evaluate v d)"
  using assms by (simp add: evaluate_def Let_def cur_defs settles)

lemma settled_observe [settles]:
  assumes "sd_started d = s" "sd_next_seq d = n" "cy_seq (sd_cur d) = q"
  shows "left_wired v s n q (step_observe v d)"
  using assms by (simp add: step_observe_def Let_def cur_defs busy_def settles)

lemma settled_done_subscribe [settles]:
  assumes "sd_started d = s" "sd_next_seq d = n" "cy_seq (sd_cur d) = q"
  shows "left_wired v s n q (done_subscribe v ok err d)"
  using assms by (simp add: done_subscribe_def settles)

lemma settled_subscribe [settles]:
  assumes "sd_started d = s" "sd_next_seq d = n" "cy_seq (sd_cur d) = q"
  shows "left_wired v s n q (step_subscribe v d)"
  using assms by (simp add: step_subscribe_def Let_def busy_def settles)

lemma settled_connect_camera [settles]:
  assumes "sd_started d = s" "sd_next_seq d = n" "cy_seq (sd_cur d) = q"
  shows "left_wired v s n q (connect_camera v k name d)"
  using assms by (simp add: connect_camera_def Let_def cur_defs busy_def settles)

lemma settled_scan [settles]:
  assumes "sd_started d = s" "sd_next_seq d = n" "cy_seq (sd_cur d) = q"
  shows "left_wired v s n q (step_scan v d)"
  using assms by (simp add: step_scan_def Let_def cur_defs busy_def settles)

lemma settled_on_scan [settles]:
  assumes "sd_started d = s" "sd_next_seq d = n" "cy_seq (sd_cur d) = q"
  shows "left_wired v s n q (on_scan v result d)"
  using assms by (simp add: on_scan_def cur_defs settles split: option.split)

lemma settled_done_connect [settles]:
  assumes "sd_started d = s" "sd_next_seq d = n" "cy_seq (sd_cur d) = q"
  shows "left_wired v s n q (done_connect v ok err d)"
proof -
  have pair: "left_wired v s n q (case x of (d, acts) \<Rightarrow> (d, pre @ acts))" if "left_wired v s n q x"
    for x :: "'a sd_step" and pre
    using that by (cases x) (simp add: left_wired_def)
  show ?thesis
    unfolding done_connect_def Let_def using assms by (simp add: cur_defs pair settles)
qed

lemma settled_step_connect [settles]:
  assumes "sd_started d = s" "sd_next_seq d = n" "cy_seq (sd_cur d) = q"
  shows "left_wired v s n q (step_connect v d)"
  using assms by (simp add: step_connect_def Let_def case_prod_unfold cur_defs settles)

lemma settled_begin [settles]:
  assumes "sd_started d"
  shows "left_wired v True (sd_next_seq d + 1) (sd_next_seq d) (begin_cycle v d)"
  using assms by (simp add: begin_cycle_def Let_def case_prod_unfold cur_defs new_cycle_def settles)

lemma settled_timed [settles]:
  assumes "sd_started d = s" "sd_next_seq d = n" "cy_seq (sd_cur d) = q"
  shows "left_wired v s n q (take_step v st d)"
  using assms by (cases st) (simp_all add: cur_defs settles)

section \<open>Every operation\<close>

text \<open>What every run keeps: at most \<open>n\<close> cycles have begun, at the time \<open>t\<close>.\<close>

definition sound :: "nat \<Rightarrow> real \<Rightarrow> 'p syncd \<Rightarrow> bool" where
  "sound n t d \<longleftrightarrow>
     0 < unat (sd_next_seq d) \<and> unat (sd_next_seq d) \<le> Suc n \<and>
     (if sd_started d then wired t d \<and> (busy d \<or> sd_step_timer d \<noteq> None \<longrightarrow> cy_seq (sd_cur d) \<noteq> 0)
      else sd_phase d = PhStopped \<and> sd_step_timer d = None)"

lemma sound_later: "sound n t d \<Longrightarrow> t \<le> t' \<Longrightarrow> n \<le> n' \<Longrightarrow> sound n' t' d"
  by (auto simp: sound_def wired_def cycle_waits_def)

lemma sound_settled:
  assumes "left_wired v (sd_started d) (sd_next_seq d) (cy_seq (sd_cur d)) s" and "sound n (sv_mono v) d"
    and "sd_started d" "cy_seq (sd_cur d) \<noteq> 0"
  shows "sound n (sv_mono v) (fst s)"
  using assms by (auto simp: left_wired_def sound_def Let_def)

text \<open>An operation that touches nothing the invariant reads.\<close>

definition untouched :: "'p syncd \<Rightarrow> 'p syncd \<Rightarrow> bool" where
  "untouched d d' \<longleftrightarrow>
     sd_started d' = sd_started d \<and> sd_next_seq d' = sd_next_seq d \<and> sd_phase d' = sd_phase d \<and>
     sd_step_timer d' = sd_step_timer d \<and> sd_cycle_timer d' = sd_cycle_timer d \<and>
     sd_cur d' = sd_cur d \<and> sd_next_cycle_at d' = sd_next_cycle_at d \<and>
     sd_pending_sync d' = sd_pending_sync d \<and> sd_pending_source d' = sd_pending_source d"

lemma untouched_sound: "untouched d d' \<Longrightarrow> sound n t d \<Longrightarrow> sound n t d'"
  by (cases "sd_started d") (auto simp: untouched_def sound_def wired_def cycle_waits_def busy_def)

lemma untouched_drain: "untouched d (fst (drain_events d))"
  by (simp add: drain_events_def untouched_def case_prod_unfold Let_def)

lemma untouched_snapshot: "untouched d (fst (take_snapshot v d))"
  by (simp add: take_snapshot_def untouched_def case_prod_unfold Let_def)

lemma untouched_presence: "untouched d (fst (update_camera_presence v snap d))"
  by (simp add: update_camera_presence_def untouched_def Let_def)

lemma untouched_trans: "untouched d d' \<Longrightarrow> untouched d' d'' \<Longrightarrow> untouched d d''"
  by (simp add: untouched_def)

lemma untouched_refl [simp]: "untouched d d"
  by (simp add: untouched_def)

lemma untouched_tick: "untouched d (fst (tick_announce v d))"
  unfolding tick_announce_def Let_def case_prod_unfold fst_conv
  by (meson untouched_trans untouched_drain untouched_snapshot untouched_presence)

lemma untouched_advert: "untouched d (fst (observe_advert v a d))"
  by (simp add: observe_advert_def drain_events_def untouched_def case_prod_unfold Let_def)

lemma untouched_sight: "untouched d (fst (sight_camera s d))"
  by (simp add: sight_camera_def untouched_def Let_def)

lemma sound_request_sync:
  assumes "sound n (sv_mono v) d"
  shows "sound n (sv_mono v) (request_sync v camera force d)"
  using assms
  by (auto simp: request_sync_def Let_def sound_def wired_def cycle_waits_def busy_def schedule_next_def)

lemma sound_request_source:
  assumes "sound n (sv_mono v) d"
  shows "sound n (sv_mono v) (request_source v camera val d)"
  using assms
  by (auto simp: request_source_def Let_def sound_def wired_def cycle_waits_def busy_def schedule_next_def)

lemma untouched_handlers:
  "untouched d (fst (handle_date msg d))" "untouched d (fst (handle_time v msg d))"
  "untouched d (fst (handle_devices v d))" "untouched d (fst (handle_announce peer msg d))"
  "untouched d (fst (handle_forget msg d))" "untouched d (fst (status_message v d))"
  by (simp_all add: handle_date_def handle_time_def handle_devices_def handle_announce_def handle_forget_def
      status_message_def take_snapshot_def untouched_def case_prod_unfold Let_def split: option.split)

lemma sound_answer:
  assumes "sound n (sv_mono v) d"
  shows "sound n (sv_mono v) (fst (answer v peer msg d))"
proof -
  have "sound n (sv_mono v) (fst (handle_sync v msg d))" "sound n (sv_mono v) (fst (handle_source v msg d))"
    using assms by (simp_all add: handle_sync_def handle_source_def sound_request_sync sound_request_source Let_def
        split: option.split)
  then show ?thesis
    unfolding answer_def Let_def case_prod_unfold
    by (simp add: assms untouched_handlers[THEN untouched_sound, OF assms])
qed

lemma sound_line:
  assumes "sound n (sv_mono v) d"
  shows "sound n (sv_mono v) (fst (peer_line v peer line d))"
  using sound_answer[OF assms]
  by (auto simp: peer_line_def handle_def case_prod_unfold Let_def assms split: sum.split)

lemma sound_answered:
  assumes "sound n (sv_mono v) d"
    and "sd_started d \<Longrightarrow> sd_phase d \<noteq> PhStopped \<Longrightarrow> busy d \<or> cycle_waits (sv_mono v) d \<Longrightarrow>
      left_wired v (sd_started d) (sd_next_seq d) (cy_seq (sd_cur d)) (f (cancel_step d))"
  shows "sound n (sv_mono v) (fst (let_in seq f d))"
proof (cases "current d seq")
  case True
  then have "sd_phase d \<noteq> PhStopped" "cy_seq (sd_cur d) \<noteq> 0" by (auto simp: current_def)
  moreover from this assms(1) have "sd_started d" "busy d \<or> cycle_waits (sv_mono v) d"
    by (auto simp: sound_def wired_def split: if_splits)
  ultimately have "sound n (sv_mono v) (fst (f (cancel_step d)))"
    using assms by (intro sound_settled) auto
  then show ?thesis using True by (simp add: let_in_def)
qed (simp add: let_in_def assms)

lemma sound_begin:
  assumes "sound n (sv_mono v) d" and "Suc (Suc n) < 2 ^ 64"
  shows "sound (Suc n) (sv_mono v) (fst (cycle_due v d))"
proof (cases "sd_started d \<and> sd_cycle_timer d")
  case True
  let ?d = "d\<lparr>sd_cycle_timer := False\<rparr>"
  have s: "left_wired v True (sd_next_seq d + 1) (sd_next_seq d) (begin_cycle v ?d)"
    using settled_begin[of ?d v] True by simp
  have n: "0 < unat (sd_next_seq d)" "unat (sd_next_seq d) \<le> Suc n" using assms by (auto simp: sound_def)
  have "unat (sd_next_seq d + 1) = unat (sd_next_seq d) + 1"
    using n assms(2) by (simp add: unat_word_ariths)
  then show ?thesis
    using s True n by (auto simp: cycle_due_def left_wired_def sound_def Let_def)
next
  case False
  then show ?thesis using assms
    by (auto simp: cycle_due_def begin_cycle_def sound_def wired_def cycle_waits_def busy_def)
qed

lemma sound_due:
  assumes "sound n (sv_mono v) d"
  shows "sound n (sv_mono v) (fst (step_due v d))"
proof (cases "sd_step_timer d")
  case (Some x)
  then obtain q st where x: "sd_step_timer d = Some (q, st)" by (cases x) auto
  show ?thesis
  proof (cases "current d q")
    case True
    have "sound n (sv_mono v) (fst (take_step v st (d\<lparr>sd_step_timer := None\<rparr>)))"
      using True x assms
      by (intro sound_settled) (auto simp: settles current_def sound_def split: if_splits)
    then show ?thesis using True x by (simp add: step_due_def)
  qed (simp add: step_due_def x assms)
qed (simp add: step_due_def assms)

lemma sound_view:
  assumes "sound n (sv_mono v) d"
  shows "sound n (sv_mono v) (fst (on_view v d))"
proof (cases "busy d")
  case True
  then have "sd_started d" "cy_seq (sd_cur d) \<noteq> 0"
    using assms by (auto simp: sound_def busy_def split: if_splits)
  then show ?thesis
    unfolding on_view_def using assms by (auto intro!: sound_settled simp: settles)
qed (auto simp: on_view_def busy_def assms)

lemma sound_gone:
  assumes "sound n (sv_mono v) d"
  shows "sound n (sv_mono v) (fst (on_camera_gone v d))"
proof -
  let ?d = "d\<lparr>sd_camera_present := False\<rparr>"
  have u: "untouched d ?d" by (simp add: untouched_def)
  have "sound n (sv_mono v) (fst (finish_cycle v a w (one_more_miss x)))"
    if "sound n (sv_mono v) x" "busy x" for x :: "'a syncd" and a w
    using that by (intro sound_settled[of v x]) (auto simp: settles cur_defs sound_def busy_def split: if_splits)
  from this[of d] this[of ?d] show ?thesis
    using assms untouched_sound[OF u assms]
    by (simp add: on_camera_gone_def Let_def case_prod_unfold)
qed

lemma sound_start_stop:
  assumes "sound n (sv_mono v) d"
  shows "sound n (sv_mono v) (syncd_start v d)" "sound n (sv_mono v) (fst (syncd_stop v d))"
  using assms
  by (auto simp: syncd_start_def syncd_stop_def schedule_next_def sound_def wired_def cycle_waits_def busy_def
      cur_defs Let_def)

lemma untouched_sets [simp]:
  "untouched d (d\<lparr>sd_peers := ps\<rparr>)" "untouched d (d\<lparr>sd_peers := ps, sd_quiet := qs\<rparr>)"
  "untouched d (d\<lparr>sd_camera := c\<rparr>)" "untouched d (d\<lparr>sd_conf := conf\<rparr>)" "untouched d (d\<lparr>sd_state := st\<rparr>)"
  "untouched d (d\<lparr>sd_takes_time := takes\<rparr>)" "untouched d (d\<lparr>sd_registry := r\<rparr>)"
  by (simp_all add: untouched_def)

lemma sound_step:
  assumes "sound n (sv_mono v) d" and "Suc (Suc n) < 2 ^ 64"
  shows "sound (Suc n) (sv_mono v) (fst (syncd_step v op d))"
proof -
  have "sound n (sv_mono v) (fst (syncd_step v op d))" if "op \<noteq> CycleDue"
  proof (cases op)
    case AnnounceDue
    then show ?thesis using assms(1) untouched_sound[OF untouched_tick assms(1)] by simp
  next
    case (ConnectAnswered q ok err)
    then show ?thesis by (auto intro!: sound_answered[OF assms(1)] simp: settles cur_defs)
  next
    case (ScanAnswered q r)
    then show ?thesis by (auto intro!: sound_answered[OF assms(1)] simp: settles cur_defs)
  next
    case (SubscribeAnswered q ok err)
    then show ?thesis by (auto intro!: sound_answered[OF assms(1)] simp: settles cur_defs)
  next
    case (SourceAnswered q ok err)
    then show ?thesis
      by (auto intro!: sound_answered[OF assms(1)] settled_done_source simp: cur_defs busy_def cycle_waits_def)
  next
    case (WriteAnswered q ok err)
    then show ?thesis
      by (auto intro!: sound_answered[OF assms(1)] settled_done_write simp: cur_defs busy_def cycle_waits_def)
  qed (use that assms(1) sound_start_stop[OF assms(1)] sound_due[OF assms(1)] sound_view[OF assms(1)]
      sound_gone[OF assms(1)] untouched_sound[OF untouched_advert assms(1)]
      untouched_sound[OF untouched_sight assms(1)] sound_line[OF assms(1)]
      sound_request_sync[OF assms(1)] sound_request_source[OF assms(1)] in
      \<open>auto simp: set_radio_state_def peer_opened_def peer_closed_def Let_def
        intro!: untouched_sound[OF _ assms(1)]\<close>)
  then show ?thesis
    using sound_begin[OF assms] by (cases "op = CycleDue") (auto intro: sound_later)
qed

lemma sound_run:
  assumes "sound n t d" "sorted (map (sv_mono \<circ> fst) ops)" "\<And>x. x \<in> set ops \<Longrightarrow> t \<le> sv_mono (fst x)"
    and "Suc n + length ops < 2 ^ 64"
  shows "\<exists>t'. sound (n + length ops) t' (fst (run_syncd ops d)) \<and> (ops \<noteq> [] \<longrightarrow> t' = sv_mono (fst (last ops)))"
  using assms
proof (induction ops arbitrary: n t d)
  case (Cons x ops)
  obtain v op where x: "x = (v, op)" by (cases x)
  have "t \<le> sv_mono v" using Cons.prems(3) x by force
  then have "sound (Suc n) (sv_mono v) (fst (syncd_step v op d))"
    using Cons.prems x by (intro sound_step) (auto intro: sound_later)
  then obtain t' where "sound (Suc n + length ops) t' (fst (run_syncd ops (fst (syncd_step v op d))))"
    "ops \<noteq> [] \<longrightarrow> t' = sv_mono (fst (last ops))"
    using Cons.IH[of "Suc n" "sv_mono v" "fst (syncd_step v op d)"] Cons.prems x by auto
  then show ?case
    using x \<open>sound (Suc n) _ _\<close> by (cases "ops = []") (auto simp: case_prod_unfold Let_def)
qed auto

section \<open>Permission\<close>

text \<open>An armed clock write has permission for the camera that is bound, and found it not recording.\<close>

definition permitted :: "'p syncd \<Rightarrow> bool" where
  "permitted d \<longleftrightarrow> may_write_to d (ss_camera_id (sd_state d))"

definition write_held :: "'p syncd \<Rightarrow> bool" where
  "write_held d \<longleftrightarrow>
     (\<forall>q. sd_step_timer d = Some (q, WriteNow) \<longrightarrow> permitted d \<and> \<not> rp_recording (cy_report (sd_cur d)))"

definition guarded :: "'p sd_step \<Rightarrow> bool" where
  "guarded s \<longleftrightarrow>
     write_held (fst s) \<and>
     (\<forall>q pkt t. AskWrite q pkt t \<in> set (snd s) \<longrightarrow>
        permitted (fst s) \<and> (cy_set_source (sd_cur (fst s)) \<or> \<not> rp_recording (cy_report (sd_cur (fst s)))))"

named_theorems guards

text \<open>Who may be written to depends on the configuration alone.\<close>

definition allows :: "camconf option \<Rightarrow> bool \<Rightarrow> string \<Rightarrow> bool" where
  "allows conf default_writes cam =
     (case conf of Some conf \<Rightarrow> writes_enabled conf cam | None \<Rightarrow> default_writes)"

lemma permitted_allows: "permitted d = allows (sd_conf d) (sdo_default_writes (sd_opt d)) (ss_camera_id (sd_state d))"
  by (simp add: permitted_def may_write_to_def allows_def)

lemma may_write_allows: "may_write_to d cam = allows (sd_conf d) (sdo_default_writes (sd_opt d)) cam"
  by (simp add: may_write_to_def allows_def)

lemmas guard_defs = guarded_def write_held_def permitted_allows

lemma no_write_told [simp]: "AskWrite q pkt t \<notin> set (announce d m)"
  by (auto simp: announce_def send_to_def)

lemma guarded_finish [guards]: "guarded (finish_cycle v action why d)"
  by (auto simp: guard_defs finish_cycle_def Let_def case_prod_unfold cur_defs schedule_next_def)

lemma guarded_armed [guards]:
  assumes "st \<noteq> WriteNow" "\<And>q pkt t. AskWrite q pkt t \<notin> set acts"
  shows "guarded (arm_step v t st d, acts)"
  using assms by (simp add: guard_defs arm_step_def cur_defs)

lemma guarded_judge [guards]: "guarded (judge_clock v d)"
  by (simp add: judge_clock_def Let_def case_prod_unfold guards)

lemma guarded_verify [guards]: "guarded (step_verify v d)"
  by (simp add: step_verify_def Let_def guards)

lemma guarded_done_write [guards]: "guarded (done_write v ok err d)"
  by (simp add: done_write_def Let_def guards)

lemma guarded_write [guards]:
  assumes "permitted d" "\<not> rp_recording (cy_report (sd_cur d))"
  shows "guarded (step_write v d)"
  using assms by (auto simp: step_write_def Let_def guard_defs arm_step_def cur_defs)

lemma guarded_align [guards]:
  assumes "permitted d" "\<not> rp_recording (cy_report (sd_cur d))"
  shows "guarded (step_align v d)"
  using assms by (auto simp: step_align_def Let_def guard_defs arm_step_def cur_defs)

lemma guarded_echo [guards]: "guarded (source_echo v d)"
  by (simp add: source_echo_def Let_def guards)

lemma guarded_done_source [guards]: "guarded (done_source v ok err d)"
  by (simp add: done_source_def guards)

lemma guarded_source_write [guards]:
  assumes "cy_may_write (sd_cur d) = permitted d" "cy_set_source (sd_cur d)"
  shows "guarded (step_source_write v d)"
proof (cases "cy_may_write (sd_cur d)")
  case True
  then show ?thesis using assms by (auto simp: step_source_write_def Let_def guard_defs arm_step_def cur_defs)
qed (simp add: step_source_write_def Let_def guards)

lemma observe_keeps_camera [simp]: "ss_camera_id (fst (observe opt state error t)) = ss_camera_id state"
  by (simp add: observe_def observe_anchor_def detect_restart_def Let_def forget_drift_def case_prod_unfold)

lemma write_means_allowed:
  assumes "forced_action forced (dc_action (decide opt state error fps cond t)) = Write"
  shows "cn_writes_enabled cond \<and> \<not> cn_recording cond"
  using assms by (auto simp: forced_action_def decide_def Let_def split: if_splits)

lemma guarded_decide [guards]:
  assumes "cy_may_write (sd_cur d) = permitted d"
  shows "guarded (decide_clock v fps d)"
  using assms
  by (auto simp: decide_clock_def Let_def case_prod_unfold cur_defs guards conditions_seen_def permitted_allows intro!: guarded_align dest!: write_means_allowed)

lemma guarded_evaluate [guards]: "guarded (evaluate v d)"
  by (simp add: evaluate_def Let_def guards cur_defs permitted_allows may_write_allows)

lemma guarded_observe [guards]: "guarded (step_observe v d)"
  by (simp add: step_observe_def Let_def guards)

lemma guarded_done_subscribe [guards]: "guarded (done_subscribe v ok err d)"
  by (simp add: done_subscribe_def guards)

lemma guarded_subscribe [guards]: "guarded (step_subscribe v d)"
  by (simp add: step_subscribe_def Let_def guards)

lemma guarded_connect_camera [guards]: "guarded (connect_camera v k name d)"
  by (simp add: connect_camera_def Let_def guards)

lemma guarded_scan [guards]: "guarded (step_scan v d)"
  by (simp add: step_scan_def Let_def guards)

lemma guarded_on_scan [guards]: "guarded (on_scan v result d)"
  by (simp add: on_scan_def guards split: option.split)

lemma guarded_bound: "guarded (fst s, Bound k name # snd s) = guarded s"
  by (simp add: guarded_def)

lemma guarded_done_connect [guards]: "guarded (done_connect v ok err d)"
  unfolding done_connect_def Let_def case_prod_unfold by (simp add: guards guarded_bound)

lemma guarded_step_connect [guards]: "guarded (step_connect v d)"
  by (simp add: step_connect_def Let_def case_prod_unfold guards)

lemma guarded_begin [guards]: "sd_started d \<Longrightarrow> guarded (begin_cycle v d)"
  by (simp add: begin_cycle_def Let_def case_prod_unfold guards)

lemma guarded_timed:
  assumes "st = WriteNow \<Longrightarrow> permitted d \<and> \<not> rp_recording (cy_report (sd_cur d))"
  shows "guarded (take_step v st d)"
  using assms by (cases st) (simp_all add: guards)

text \<open>Whatever leaves the step timer, the permission and the cycle alone keeps the promise.\<close>

definition unheld :: "'p syncd \<Rightarrow> 'p syncd \<Rightarrow> bool" where
  "unheld d d' \<longleftrightarrow>
     sd_step_timer d' = sd_step_timer d \<and> sd_cur d' = sd_cur d \<and> sd_conf d' = sd_conf d \<and> sd_opt d' = sd_opt d \<and>
     sd_state d' = sd_state d"

lemma unheld_held: "unheld d d' \<Longrightarrow> write_held d \<Longrightarrow> write_held d'"
  by (simp add: unheld_def guard_defs)

lemma unheld_trans: "unheld d d' \<Longrightarrow> unheld d' d'' \<Longrightarrow> unheld d d''"
  by (simp add: unheld_def)

lemma unheld_parts:
  "unheld d (fst (drain_events d))" "unheld d (fst (take_snapshot v d))"
  "unheld d (fst (update_camera_presence v snap d))" "unheld d (fst (observe_advert v a d))"
  "unheld d (fst (sight_camera s d))" "unheld d (fst (set_radio_state state d))"
  "unheld d (fst (peer_opened v peer d))" "unheld d (peer_closed peer d)"
  "unheld d (request_sync v camera force d)" "unheld d (request_source v camera val d)"
  by (simp_all add: unheld_def drain_events_def take_snapshot_def update_camera_presence_def observe_advert_def
      sight_camera_def set_radio_state_def peer_opened_def peer_closed_def request_sync_def request_source_def
      schedule_next_def Let_def case_prod_unfold)

lemma unheld_tick: "unheld d (fst (tick_announce v d))"
  unfolding tick_announce_def Let_def case_prod_unfold fst_conv by (meson unheld_trans unheld_parts)

lemma unheld_handlers:
  "unheld d (fst (handle_date msg d))" "unheld d (fst (handle_time v msg d))"
  "unheld d (fst (handle_devices v d))" "unheld d (fst (handle_announce peer msg d))"
  "unheld d (fst (handle_forget msg d))" "unheld d (fst (status_message v d))"
  "unheld d (fst (handle_sync v msg d))" "unheld d (fst (handle_source v msg d))"
  by (simp_all add: handle_date_def handle_time_def handle_devices_def handle_announce_def handle_forget_def
      status_message_def handle_sync_def handle_source_def request_sync_def request_source_def schedule_next_def
      take_snapshot_def unheld_def case_prod_unfold Let_def split: option.split)

lemma unheld_line: "unheld d (fst (peer_line v peer line d))"
proof -
  have "unheld d (fst (answer v peer msg d))" for msg
    unfolding answer_def Let_def case_prod_unfold by (simp add: unheld_handlers) (simp add: unheld_def)
  then show ?thesis
    by (auto simp: peer_line_def handle_def case_prod_unfold Let_def split: sum.split) (simp add: unheld_def)
qed

lemma no_write_answered:
  "AskWrite q pkt t \<notin> set (snd (peer_line v peer line d))"
proof -
  have "AskWrite q pkt t \<notin> set (fst (snd (answer v peer msg d)))" for msg
    by (simp add: answer_def Let_def case_prod_unfold handle_date_def handle_time_def handle_devices_def
        handle_sync_def handle_source_def handle_announce_def handle_forget_def split: option.split)
  then show ?thesis
    by (auto simp: peer_line_def handle_def case_prod_unfold Let_def send_to_def split: sum.split)
qed

lemma guarded_unheld:
  assumes "write_held d" "unheld d (fst s)" "\<And>q pkt t. AskWrite q pkt t \<notin> set (snd s)"
  shows "guarded s"
  using assms unheld_held by (auto simp: guarded_def)

definition settings_op :: "'p syncd_op \<Rightarrow> bool" where
  "settings_op op \<longleftrightarrow> (\<exists>conf. op = SetConfig conf) \<or> (\<exists>state. op = SetState state)"

lemma guarded_answered:
  assumes "write_held d" "guarded (f (cancel_step d))"
  shows "guarded (let_in seq f d)"
  using assms by (simp add: let_in_def) (simp add: guarded_def)

lemma begin_stopped: "\<not> sd_started d \<Longrightarrow> begin_cycle v d = (d, [])"
  by (simp add: begin_cycle_def)

lemma unheld_sets:
  "unheld d d" "unheld d (d\<lparr>sd_camera := c\<rparr>)" "unheld d (d\<lparr>sd_takes_time := takes\<rparr>)"
  "unheld d (d\<lparr>sd_cycle_timer := armed\<rparr>)" "unheld d (d\<lparr>sd_camera_present := up\<rparr>)"
  by (simp_all add: unheld_def)

lemma guarded_before:
  assumes "guarded s" "\<And>q pkt t. AskWrite q pkt t \<notin> set acts"
  shows "guarded (fst s, acts @ snd s)"
  using assms by (auto simp: guarded_def)

lemma guarded_step:
  assumes "write_held d" "\<not> settings_op op"
  shows "guarded (syncd_step v op d)"
proof -
  have keep: "guarded (d', acts)" if "unheld d d'" "\<And>q pkt t. AskWrite q pkt t \<notin> set acts" for d' acts
    using guarded_unheld[OF assms(1), of "(d', acts)"] that by simp
  have idle: "guarded (d, [])" by (rule keep) (simp_all add: unheld_def)
  show ?thesis
  proof (cases op)
    case StartOp
    then show ?thesis by (auto intro!: keep simp: syncd_start_def schedule_next_def unheld_def)
  next
    case StopOp
    then show ?thesis using idle by (auto simp: syncd_stop_def Let_def guard_defs cur_defs)
  next
    case CycleDue
    then show ?thesis using idle
      by (cases "sd_started d") (auto intro!: keep simp: cycle_due_def guards begin_stopped unheld_sets)
  next
    case StepDue
    then show ?thesis using idle assms(1)
      by (auto simp: step_due_def write_held_def permitted_allows intro!: guarded_timed split: option.split)
  next
    case AnnounceDue
    have "AskWrite q pkt t \<notin> set (snd (tick_announce v d))" for q pkt t
      by (auto simp: tick_announce_def drain_events_def update_camera_presence_def Let_def case_prod_unfold)
    then show ?thesis using AnnounceDue idle guarded_unheld[OF assms(1) unheld_tick] by auto
  next
    case ViewChanged
    then show ?thesis using idle by (simp add: on_view_def guards)
  next
    case CameraGone
    have "unheld d (d\<lparr>sd_camera_present := False\<rparr>)" by (rule unheld_sets)
    then have "guarded (d\<lparr>sd_camera_present := False\<rparr>, announce d m)" for m by (intro keep) simp_all
    then have "guarded (on_camera_gone v d)"
      using idle by (auto simp: on_camera_gone_def Let_def case_prod_unfold guarded_before guards)
    then show ?thesis using CameraGone idle by simp
  next
    case (PeerLine peer line)
    then show ?thesis using guarded_unheld[OF assms(1) unheld_line no_write_answered] by auto
  next
    case (AdvertHeard a)
    then show ?thesis
      by (auto intro!: guarded_unheld[OF assms(1)] simp: unheld_parts)
        (auto simp: observe_advert_def drain_events_def case_prod_unfold Let_def split: if_splits)
  next
    case (CameraHeard s)
    then show ?thesis
      by (auto intro!: guarded_unheld[OF assms(1)] simp: unheld_parts)
        (auto simp: sight_camera_def Let_def split: if_splits)
  next
    case (RadioChanged state)
    then show ?thesis
      by (auto intro!: guarded_unheld[OF assms(1)] simp: unheld_parts) (simp add: set_radio_state_def Let_def)
  next
    case (PeerOpened peer)
    then show ?thesis
      by (auto intro!: guarded_unheld[OF assms(1)] simp: unheld_parts) (simp add: peer_opened_def send_to_def)
  qed (use assms idle in \<open>auto intro!: guarded_answered guards keep unheld_parts
        simp: settings_op_def unheld_sets\<close>)
qed

lemma held_run:
  assumes "write_held d" "\<forall>x \<in> set ops. \<not> settings_op (snd x)"
  shows "write_held (fst (run_syncd ops d))"
  using assms
proof (induction ops arbitrary: d)
  case (Cons x ops)
  obtain v op where x: "x = (v, op)" by (cases x)
  have "guarded (syncd_step v op d)" using Cons.prems x by (intro guarded_step) auto
  then show ?case using Cons x by (simp add: case_prod_unfold Let_def guarded_def)
qed simp

section \<open>Answering\<close>

lemma answers_something: "snd (snd (answer v peer msg d)) \<noteq> []"
  by (simp add: answer_def Let_def case_prod_unfold handle_date_def handle_time_def handle_devices_def
      handle_sync_def handle_source_def handle_announce_def handle_forget_def split: option.split)

lemma only_replies_sent: "SendLine q l \<notin> set (fst (snd (answer v peer msg d)))"
  by (simp add: answer_def Let_def case_prod_unfold handle_date_def handle_time_def handle_devices_def
      handle_sync_def handle_source_def handle_announce_def handle_forget_def split: option.split)

lemma handled_lines:
  "SendLine q l \<in> set (snd (handle v peer msg d)) \<longleftrightarrow>
     q = peer \<and> (\<exists>m \<in> set (snd (snd (answer v peer msg d))). l = encode_message (tagged (get_field msg ''id'' []) m))"
  by (auto simp: handle_def case_prod_unfold Let_def send_to_def only_replies_sent)

section \<open>Without a date\<close>

text \<open>The camera is asked nothing by the end of a cycle, save to let go.\<close>

definition asks_camera :: "'p syncd_action \<Rightarrow> bool" where
  "asks_camera a \<longleftrightarrow>
     (\<exists>q t h. a = AskScan q t h) \<or> (\<exists>q k t. a = AskConnect q k t) \<or> (\<exists>q t. a = AskSubscribe q t) \<or>
     (\<exists>q pkt t. a = AskWrite q pkt t)"

lemma finish_asks_nothing: "\<forall>a \<in> set (snd (finish_cycle v action why d)). \<not> asks_camera a"
  by (auto simp: finish_cycle_def Let_def case_prod_unfold asks_camera_def announce_def send_to_def)

lemma finish_reports:
  "\<exists>rep. CycleDone rep \<in> set (snd (finish_cycle v action why d)) \<and> rp_action rep = action"
  by (auto simp: finish_cycle_def Let_def case_prod_unfold cur_defs)

section \<open>What every run shows\<close>

lemma new_sound: "sound 0 t (new_syncd r opt)"
  by (simp add: sound_def new_syncd_def)

text \<open>
  C2. The sync daemon never wedges.  From construction, along every sequence of fewer than
  \<open>2^64 - 1\<close> operations (timers coming due, answers arriving late, twice or never, the camera
  appearing and going, peers, starts and stops) whose clock does not run backwards, a started daemon
  that is in the middle of a cycle has an armed step that the cycle will not decline, and one that is
  between cycles has its next cycle scheduled, no later than now when a request is waiting.
\<close>
theorem syncd_never_wedges:
  assumes "sorted (map (sv_mono \<circ> fst) ops)" "ops \<noteq> []" "length ops < 2 ^ 64 - 1"
    and "d = fst (run_syncd ops (new_syncd r opt))" "sd_started d"
  shows "if busy d then \<exists>st. sd_step_timer d = Some (cy_seq (sd_cur d), st) \<and> current d (cy_seq (sd_cur d))
    else sd_cycle_timer d \<and>
      (sd_pending_sync d \<or> sd_pending_source d \<longrightarrow> sd_next_cycle_at d \<le> sv_mono (fst (last ops)))"
proof -
  have "sv_mono (fst (hd ops)) \<le> sv_mono (fst x)" if "x \<in> set ops" for x
    using assms(1,2) that by (cases ops) auto
  then have "sound (length ops) (sv_mono (fst (last ops))) d"
    using sound_run[OF new_sound[of "sv_mono (fst (hd ops))" r opt] assms(1)] assms(2-4) by auto
  then show ?thesis
    using assms(5) by (auto simp: sound_def wired_def cycle_waits_def current_def busy_def split: if_splits)
qed

definition demo_syncd_env :: syncd_env where
  "demo_syncd_env =
     \<lparr>sv_mono = 10, sv_wall = 1800000000, sv_wall_told = 1800000000, sv_local_sod = (\<lambda>t. 0), sv_view = empty_view,
      sv_connected = True, sv_subscribed = True, sv_version = None, sv_bind = (\<lambda>k n s. s), sv_cycle = (\<lambda>r s. s),
      sv_verdict_words = (\<lambda>d. []), sv_outcome_words = (\<lambda>w. [])\<rparr>"

definition demo_syncd_options :: syncd_options where
  "demo_syncd_options =
     \<lparr>sdo_sync = default_options, sdo_tentacle_bench = False, sdo_hold = True, sdo_camera = [],
      sdo_default_writes = True, sdo_announce_period = 30, sdo_announce = True\<rparr>"

definition demo_syncd_ops :: "(syncd_env \<times> string syncd_op) list" where
  "demo_syncd_ops = [(demo_syncd_env, StartOp), (demo_syncd_env, SourceAsked [] 1)]"

lemma demo_run:
  "fst (run_syncd demo_syncd_ops ((new_syncd r demo_syncd_options)\<lparr>sd_camera := True\<rparr>)) =
     (new_syncd r demo_syncd_options)
       \<lparr>sd_camera := True, sd_started := True, sd_phase := PhIdle, sd_next_cycle_at := 10, sd_cycle_timer := True,
        sd_announce_timer := True, sd_pending_source := True, sd_pending_source_value := 1\<rparr>"
  by (simp add: demo_syncd_ops_def demo_syncd_env_def demo_syncd_options_def new_syncd_def syncd_start_def request_source_def
      schedule_next_def busy_def Let_def)

theorem syncd_never_wedges_witness:
  "sd_cycle_timer (fst (run_syncd [(demo_syncd_env, StartOp), (demo_syncd_env, SourceAsked [] 1)]
     (new_syncd (new_registry default_policy 0) demo_syncd_options :: string syncd)))"
  using syncd_never_wedges[OF _ _ _ refl, of "[(demo_syncd_env, StartOp), (demo_syncd_env, SourceAsked [] 1)]"
      "new_registry default_policy 0" demo_syncd_options]
  by (simp add: syncd_start_def schedule_next_def request_source_def new_syncd_def busy_def Let_def)


lemma demo_write:
  "AskWrite 1 (build_packet kGroupOutput kParamTimecodeSource kTypeInt8 kOpAssign [1] kBroadcast) 10
     \<in> set (snd (syncd_step demo_syncd_env CycleDue
         (fst (run_syncd demo_syncd_ops ((new_syncd r demo_syncd_options)\<lparr>sd_camera := True\<rparr>)))))"
  unfolding demo_run
  by (simp add: cycle_due_def begin_cycle_def new_cycle_def new_syncd_def demo_syncd_env_def demo_syncd_options_def
      step_connect_def step_observe_def evaluate_def step_source_write_def may_write_to_def empty_cycle_def
      cur_defs date_known_def wall_known_def empty_view_def Let_def case_prod_unfold)


text \<open>
  C15. Every line a peer sends is answered, to that peer and to nobody else, and when the request
  carried an id every line of the answer is a message with that id.
\<close>
theorem every_line_is_answered:
  assumes "decode_message line = Inr msg"
  shows "(\<exists>l. SendLine peer l \<in> set (snd (peer_line v peer line d))) \<and>
    (\<forall>q l. SendLine q l \<in> set (snd (peer_line v peer line d)) \<longrightarrow> q = peer \<and>
       (get_field msg ''id'' [] \<noteq> [] \<longrightarrow>
          (\<exists>m. l = encode_message m \<and> get_field m ''id'' [] = get_field msg ''id'' [])))"
proof -
  have line: "snd (peer_line v peer line d) = snd (handle v peer msg d)" by (simp add: peer_line_def assms)
  obtain m where "m \<in> set (snd (snd (answer v peer msg d)))" using answers_something[of v peer msg d] by (cases "snd (snd (answer v peer msg d))") auto
  then have "\<exists>l. SendLine peer l \<in> set (snd (handle v peer msg d))" by (auto simp: handled_lines)
  moreover have "get_field (tagged tag m) ''id'' [] = tag" if "tag \<noteq> []" for tag m
    using that by (simp add: tagged_def get_set_field)
  ultimately show ?thesis unfolding line handled_lines by (auto 0 3)
qed

theorem every_line_is_answered_witness:
  "\<exists>l. SendLine (7::int) l \<in> set (snd (peer_line demo_syncd_env 7 ''ping id=42'' (new_syncd (new_registry default_policy 0) demo_syncd_options)))"
proof -
  have f: "decode_field ''id=42'' = Inr (''id'', ''42'')"
    by (simp add: decode_field_def is_bare_token_def token_char_def)
  have fs: "decode_fields '' id=42'' [] = Inr [(''id'', ''42'')]"
    by (subst decode_fields.simps) (simp add: split_token_def f decode_fields.simps[of "[]"])
  have "strip_eol ''ping id=42'' = ''ping id=42''" "split_token ''ping id=42'' = (''ping'', '' id=42'')"
    "is_bare_token ''ping''"
    by (simp_all add: strip_eol_def split_token_def is_bare_token_def token_char_def)
  then have "decode_message ''ping id=42'' = Inr \<lparr>msg_verb = ''ping'', msg_fields = [(''id'', ''42'')]\<rparr>"
    by (simp add: decode_message_def fs)
  then show ?thesis by (rule conjunct1[OF every_line_is_answered])
qed

text \<open>
  C16. A daemon that does not know the date never asks its camera for anything.  The camera's own date
  is read only by a cycle that has already got past the check that asks for a date, so a cycle of a
  daemon nobody has told one ends at once, reporting why.
\<close>
theorem dateless_cycle_asks_nothing:
  assumes "sd_started d" "\<not> date_known v d"
  shows "(\<forall>a \<in> set (snd (begin_cycle v d)). \<not> asks_camera a) \<and>
    (\<exists>rep. CycleDone rep \<in> set (snd (begin_cycle v d)) \<and> rp_action rep \<in> {''skip:no-tentacle'', ''skip:no-date''})"
proof -
  have "\<exists>a w x. begin_cycle v d = finish_cycle v a w x \<and> a \<in> {''skip:no-tentacle'', ''skip:no-date''}"
    using assms by (auto simp: begin_cycle_def Let_def case_prod_unfold cur_defs new_cycle_def empty_cycle_def
        date_known_def)
  then show ?thesis using finish_asks_nothing finish_reports by metis
qed

theorem dateless_cycle_asks_nothing_witness:
  "let acts = snd (begin_cycle (demo_syncd_env\<lparr>sv_wall := 0\<rparr>)
       ((new_syncd (new_registry default_policy 0) demo_syncd_options :: string syncd)\<lparr>sd_started := True, sd_camera := True\<rparr>))
   in filter asks_camera acts = [] \<and> (\<exists>rep. CycleDone rep \<in> set acts)"
  using dateless_cycle_asks_nothing[of "(new_syncd (new_registry default_policy 0) demo_syncd_options :: string syncd)
      \<lparr>sd_started := True, sd_camera := True\<rparr>" "demo_syncd_env\<lparr>sv_wall := 0\<rparr>"]
  by (auto simp: new_syncd_def date_known_def wall_known_def filter_empty_conv Let_def)

lemma finish_leaves:
  "sd_phase (fst (finish_cycle v action why d)) = PhIdle"
  "cy_seq (sd_cur (fst (finish_cycle v action why d))) = cy_seq (sd_cur d)"
  by (simp_all add: finish_cycle_def Let_def case_prod_unfold cur_defs schedule_next_def)

lemma connected_subscribes:
  assumes "\<not> sv_subscribed v"
  shows "sd_phase (fst (done_connect v True err d)) = PhSubscribing"
proof -
  have "sd_phase (fst (step_subscribe v x)) = PhSubscribing" for x :: "'a syncd"
    using assms by (simp add: step_subscribe_def arm_step_def cancel_step_def Let_def)
  then show ?thesis by (simp add: done_connect_def Let_def case_prod_unfold)
qed

text \<open>
  C40. An answer that comes after its deadline ended the cycle is not dropped: until another cycle
  begins the number it carries is still the current one, so a connection made late revives the cycle
  that had already been reported as over, and the daemon goes on to subscribe.
\<close>
theorem late_answer_revives_the_cycle:
  assumes "cy_seq (sd_cur d) \<noteq> 0" "\<not> sv_subscribed v'"
  shows "sd_phase (fst (take_step v ConnectUnanswered d)) = PhIdle \<and>
    sd_phase (fst (let_in (cy_seq (sd_cur d)) (done_connect v' True err) (fst (take_step v ConnectUnanswered d))))
      = PhSubscribing"
  using assms finish_leaves[of v "''skip:no-camera''" "''the camera backend never let_in''" "one_more_miss d"]
  by (simp add: let_in_def current_def connected_subscribes one_more_miss_def)

theorem late_answer_revives_the_cycle_witness:
  "sd_phase (fst (let_in 1 (done_connect (demo_syncd_env\<lparr>sv_subscribed := False\<rparr>) True [])
      (fst (take_step demo_syncd_env ConnectUnanswered
         ((new_syncd (new_registry default_policy 0) demo_syncd_options :: string syncd)
            \<lparr>sd_started := True, sd_phase := PhConnecting, sd_cur := empty_cycle\<lparr>cy_seq := 1\<rparr>\<rparr>)))))
     = PhSubscribing"
  using late_answer_revives_the_cycle[of "(new_syncd (new_registry default_policy 0) demo_syncd_options :: string syncd)
        \<lparr>sd_started := True, sd_phase := PhConnecting, sd_cur := empty_cycle\<lparr>cy_seq := 1\<rparr>\<rparr>"
      "demo_syncd_env\<lparr>sv_subscribed := False\<rparr>" demo_syncd_env "[]"]
  by simp

end
