(* ===== verification/Spec2Isabelle.thy ===== *)
theory Spec2Isabelle
  imports HciLinkFlow HciShare Pairing AttServer Bmd Smp Crypto CamSyncLaws Tentacle RegistryLaws CamConfLaws Naming Advert Bench
    DeviceDb Watchdog Loop CameraHciFlow CameraHciView SyncDLaws
begin

text \<open>
  Octomancer keeps the clocks of a bench of cameras together.  Timecode boxes (Tentacles)
  broadcast their time over Bluetooth; a daemon listens, remembers the boxes, works out the time
  the bench agrees on, and sets the clock of every camera it may, over Bluetooth or through a
  dongle it drives itself with HCI packets.  The same sources, under \<open>src/\<close>, serve the daemon,
  the command line tools and the firmware of a box.

  This development is a shallow embedding of the parts of \<open>src/\<close> that decide something.  Each
  theory names its source files and models their types and functions one for one; a theory whose
  name ends in \<open>Laws\<close>, \<open>Flow\<close> or \<open>View\<close> holds the theorems of the one before it.

  Foundations.
    \<open>Prelude\<close>: machine words, bytes, blocks of a byte string, numbers as text, the collections of
    hints.  \<open>Store\<close> and \<open>Ordmap\<close>: the contract of a map (locale \<open>keyed_store\<close>) and its models,
    association lists in key order (\<open>std::map\<close>).  \<open>Lines\<close>, \<open>Cnum\<close>: text
    files as lines, numbers as \<open>strtod\<close> and \<open>printf\<close> read and write them.  \<open>TimeUtil\<close>,
    \<open>Calendar\<close>: seconds of the day and civil dates (\<open>timeutil.cc\<close>, \<open>bmd.cc\<close>).

  The wire, from the bottom up.
    \<open>Escape\<close>, \<open>BoxMsg\<close> (\<open>escape.cc\<close>, \<open>boxmsg.cc\<close>): the line protocol of a box.  \<open>Framing\<close>:
    the contracts of codecs and of readers fed piece by piece.  \<open>Hci\<close>, \<open>HciPackets\<close>, \<open>HciAd\<close>
    (\<open>hci.cc\<close>): names, addresses, UUIDs, commands, events, advertising data.  \<open>HciLink\<close>
    (\<open>hcilink.cc\<close>): the controller link: command queue, bring-up, scanning, connecting,
    encryption, flow control, requests and their timers, failure.  \<open>HciShare\<close> (\<open>hcishare.cc\<close>):
    one controller for several users.  \<open>Att\<close>, \<open>AttClient\<close>, \<open>AttServer\<close> (\<open>att.cc\<close>): L2CAP
    frames, the requests of a client and the server that answers them.  \<open>Crypto\<close>, \<open>Smp\<close>
    (\<open>crypto.cc\<close>, \<open>smp.cc\<close>): AES-128 and the pairing exchange.  \<open>Pairing\<close> (\<open>pairing.cc\<close>): what
    an attempt at pairing meant.  \<open>Bmd\<close> (\<open>bmd.cc\<close>): the packets of a Blackmagic camera.
    \<open>Tentacle\<close>, \<open>Advert\<close> (\<open>tentacle.cc\<close>, \<open>advert.cc\<close>): what a box broadcasts.  \<open>CameraHci\<close>
    (\<open>camera_hci.cc\<close>): a camera over the dongle, on top of the link, the client and the pairing.

  The bench.
    \<open>Registry\<close> (\<open>registry.cc\<close>): the boxes heard, their drift, alerts and roster.  \<open>Bench\<close>
    (\<open>bench.cc\<close>): the time they agree on.  \<open>CamSync\<close> (\<open>camsync.cc\<close> and its use in
    \<open>syncd.cc\<close>): when a camera's clock may be set, to what, and what is learnt from it.
    \<open>SyncD\<close> (\<open>syncd.cc\<close>): the daemon that runs the cycle: reaching the camera, reading its clock,
    deciding, writing, verifying, with a timer behind every wait; and what it tells its peers.
    \<open>Naming\<close> (\<open>naming.cc\<close>): what boxes are called.  \<open>CamConf\<close>, \<open>CamDb\<close>, \<open>DeviceDb\<close>
    (\<open>camconf.cc\<close>, \<open>camdb.cc\<close>, \<open>devicedb.cc\<close>): what is kept in files.  \<open>Json\<close>
    (\<open>jsonlog.cc\<close>, \<open>logscan.cc\<close>): the lines they are kept in.  \<open>Loop\<close>, \<open>Watchdog\<close>
    (\<open>loop.cc\<close>, \<open>watchdog.cc\<close>): the event loop everything runs on and what watches it.

  Conventions.  A class is a record and a method a function from the record to the record; what
  it sends, writes or calls is a list of actions it returns or appends to.  A callback is a token,
  and calling it is an action; closures the code hangs on its own requests are values of
  datatypes with what they capture as arguments.  An enumeration or tagged value is a datatype,
  an integer that wraps is a word of its width, \<open>double\<close> is a real number (rounding is not
  modelled; where text is read back the rounding of the format is), text is a list of
  characters, a failure is \<open>None\<close> or \<open>False\<close> with its message.  The clock, the time zone,
  random bytes, passkeys, the answers of files, sockets and the serial port are arguments.

  Interfaces.  \<open>codec\<close> and \<open>framed_codec\<close> (what is encoded is decoded, and what follows a
  frame is left alone) are interpreted on UUIDs on the wire and as text, advertising structures,
  L2CAP frames and HCI packets; \<open>incremental\<close> (feeding a reader piece by piece) on the HCI byte
  stream and the line reader; \<open>keyed_store\<close> (lookup after insert) on ordered maps, attribute
  tables and the configuration; \<open>command_sender\<close> and \<open>flow_keeper\<close> on the operations of the
  link, closed and live, answering and between answers.

  What the theorems show.  Round trips: what is encoded, written or broadcast is read back.
  Framing: how bytes are cut into reads does not matter.  Accounts: handlers given to the link or
  to a camera are called once, whatever happens; no more packets are out than the controller has
  room for.  Endings: connecting to a camera ends whatever it answers; the loop never sleeps past
  a timer; a busy link always has something that will end, and a started sync daemon something that will
  move it; every line of a peer is answered.  Safety: a camera's clock is set only
  when permitted, a link is encrypted only with a key the peer has earned, an answer fits its
  bound.  Refinement: the shared radio scans exactly when some user wants it to.  Persistence: a
  database compacted or reloaded is the database; an edit of the configuration touches one
  camera.

  Bounds.  No fuel is used: every recursion is structural or has a measure.  The bounds the code
  itself has (16 service requests, 24 characteristic requests, 8 descriptor requests for each
  characteristic, 251 bytes of payload, MTU 23 to 247) are in the model as they are in the code.

  Not modelled.  The event loops of the operating system, serial ports, USB, sockets, launchd, the
  macOS Bluetooth interface and the process lock are input and output around the modelled parts.
  The control sockets and the programs that probe devices (\<open>control.cc\<close>, \<open>server.cc\<close>,
  \<open>devices.cc\<close>, \<open>dongle.cc\<close>) move JSON and files around the same parts.
  The terminal interface and the reports format what the modelled parts hold.  The command line
  programs parse arguments and wire the parts together.  The fake back ends are test doubles.
\<close>

end
